(* ===== verification/Emlib_Prelude.thy ===== *)
theory Emlib_Prelude
  imports Main "HOL-Library.Word" "HOL-Library.Monad_Syntax"
begin

text \<open>
  Shared vocabulary of the development: the machine types of the library (LP64, little-endian),
  bounds-checked access to byte memory, C integer division, and the generic list and word lemmas
  the components use.  A C operation that reads or writes outside an object is modelled by
  \<^const>\<open>None\<close>: the model stops there, it never invents a value.
\<close>

section \<open>Machine types\<close>

type_synonym int8 = "8 word"
type_synonym uint8 = "8 word"
type_synonym uint16 = "16 word"
type_synonym uint32 = "32 word"
type_synonym uint64 = "64 word"
type_synonym em_size_t = "64 word"
type_synonym ptr = "64 word"
type_synonym emlib_ret_t = "32 word"

text \<open>Collections: \<open>errno\<close> unfolds error-code constants, \<open>mem\<close> the memory primitives.\<close>

named_theorems errno "definitions of error codes"
named_theorems mem "bounds-checked memory primitives"

section \<open>Bounds-checked memory\<close>

definition mem_get :: "'a list \<Rightarrow> nat \<Rightarrow> 'a option" where
  [mem]: "mem_get m i = (if i < length m then Some (m ! i) else None)"

definition mem_set :: "'a list \<Rightarrow> nat \<Rightarrow> 'a \<Rightarrow> 'a list option" where
  [mem]: "mem_set m i v = (if i < length m then Some (m[i := v]) else None)"

text \<open>\<open>memcpy(dst, src + off, n)\<close> as a read of \<open>n\<close> cells, and as a write of a run of cells.\<close>

definition mem_slice :: "'a list \<Rightarrow> nat \<Rightarrow> nat \<Rightarrow> 'a list option" where
  [mem]: "mem_slice m off n = (if off + n \<le> length m then Some (take n (drop off m)) else None)"

definition mem_blit :: "'a list \<Rightarrow> nat \<Rightarrow> 'a list \<Rightarrow> 'a list option" where
  [mem]: "mem_blit m off d =
     (if off + length d \<le> length m then Some (take off m @ d @ drop (off + length d) m) else None)"

lemma mem_get_Some_iff: "mem_get m i = Some v \<longleftrightarrow> i < length m \<and> m ! i = v"
  by (auto simp: mem)

lemma mem_set_length: "mem_set m i v = Some m' \<Longrightarrow> length m' = length m"
  by (auto simp: mem split: if_splits)

lemma mem_slice_length: "mem_slice m off n = Some d \<Longrightarrow> length d = n"
  by (auto simp: mem split: if_splits)

lemma mem_blit_length: "mem_blit m off d = Some m' \<Longrightarrow> length m' = length m"
  by (auto simp: mem split: if_splits)

lemma mem_blit_take:
  "mem_blit m off d = Some m' \<Longrightarrow> take (off + length d) m' = take off m @ d"
  by (auto simp: mem split: if_splits)

lemma mem_blit_drop:
  "mem_blit m off d = Some m' \<Longrightarrow> drop (off + length d) m' = drop (off + length d) m"
  by (auto simp: mem split: if_splits)

lemma mem_blit_take_below:
  "mem_blit m off d = Some m' \<Longrightarrow> k \<le> off \<Longrightarrow> take k m' = take k m"
  by (auto simp: mem min_def split: if_splits)

section \<open>C integer division\<close>

text \<open>C truncates towards zero; HOL's \<open>div\<close> on \<open>int\<close> rounds down.\<close>

definition c_div :: "int \<Rightarrow> int \<Rightarrow> int" where
  "c_div a b = sgn a * sgn b * (\<bar>a\<bar> div \<bar>b\<bar>)"

definition c_mod :: "int \<Rightarrow> int \<Rightarrow> int" where
  "c_mod a b = a - c_div a b * b"

lemma c_div_nonneg: "0 \<le> a \<Longrightarrow> 0 < b \<Longrightarrow> c_div a b = a div b"
  by (cases "a = 0") (simp_all add: c_div_def)

lemma c_mod_nonneg: "0 \<le> a \<Longrightarrow> 0 < b \<Longrightarrow> c_mod a b = a mod b"
  by (simp add: c_mod_def c_div_nonneg minus_div_mult_eq_mod)

lemma c_div_mod: "c_div a b * b + c_mod a b = a"
  by (simp add: c_mod_def)

text \<open>A 64-bit signed register: the value modulo \<open>2^64\<close>, read as two's complement.\<close>

definition s64 :: "int \<Rightarrow> int" where
  "s64 x = (x + 2 ^ 63) mod 2 ^ 64 - 2 ^ 63"

lemma s64_id: "- (2 ^ 63) \<le> x \<Longrightarrow> x < 2 ^ 63 \<Longrightarrow> s64 x = x"
  by (simp add: s64_def)

lemma s64_range: "- (2 ^ 63) \<le> s64 x \<and> s64 x < 2 ^ 63"
  by (simp add: s64_def)

section \<open>Words and lists\<close>

lemma unat_below: "unat (w :: 'w::len word) < 2 ^ LENGTH('w)"
  by (rule unsigned_less)


lemma last_Cons_append: "last (h # xs @ [y]) = y"
  by simp

lemma nth_update_eq: "i < length xs \<Longrightarrow> xs[i := v] ! j = (if i = j then v else xs ! j)"
  by (simp add: nth_list_update)

end
