(* ===== verification/Emlib_List.thy ===== *)
theory Emlib_List
  imports Emlib_Prelude
begin

text \<open>
  The intrusive doubly linked list (\<open>include/em/list.h\<close>, \<open>include/em/list_i.h\<close>).  A node is an
  address; the \<open>next\<close> and \<open>prev\<close> fields of all nodes form the store.  Every operation is the
  sequence of pointer writes the code makes.  The loops of \<open>em_list_find_node\<close>,
  \<open>em_list_search\<close> and \<open>em_list_size\<close> run forever on a store that is not a ring, which is the
  value \<^const>\<open>None\<close>.
\<close>

section \<open>The store and the operations\<close>

record em_list =
  l_next :: "nat \<Rightarrow> nat"
  l_prev :: "nat \<Rightarrow> nat"

definition em_list_init :: "em_list \<Rightarrow> nat \<Rightarrow> em_list" where
  "em_list_init s node =
     (let s1 = s\<lparr>l_prev := (l_prev s)(node := node)\<rparr>
      in s1\<lparr>l_next := (l_next s1)(node := node)\<rparr>)"

definition em_list_empty :: "em_list \<Rightarrow> nat \<Rightarrow> bool" where
  "em_list_empty s node = (l_next s node = node)"

definition em_link_node :: "em_list \<Rightarrow> nat \<Rightarrow> nat \<Rightarrow> em_list" where
  "em_link_node s p n =
     (let s1 = s\<lparr>l_next := (l_next s)(p := n)\<rparr>
      in s1\<lparr>l_prev := (l_prev s1)(n := p)\<rparr>)"

definition em_list_insert_after :: "em_list \<Rightarrow> nat \<Rightarrow> nat \<Rightarrow> em_list" where
  "em_list_insert_after s pos node =
     (let s1 = s\<lparr>l_prev := (l_prev s)(node := pos)\<rparr>;
          s2 = s1\<lparr>l_next := (l_next s1)(node := l_next s1 pos)\<rparr>;
          s3 = s2\<lparr>l_prev := (l_prev s2)(l_next s2 pos := node)\<rparr>
      in s3\<lparr>l_next := (l_next s3)(pos := node)\<rparr>)"

definition em_list_insert_before :: "em_list \<Rightarrow> nat \<Rightarrow> nat \<Rightarrow> em_list" where
  "em_list_insert_before s pos node = em_list_insert_after s (l_prev s pos) node"

definition em_list_insert_tail :: "em_list \<Rightarrow> nat \<Rightarrow> nat \<Rightarrow> em_list" where
  "em_list_insert_tail s list_head node = em_list_insert_before s list_head node"

definition em_list_insert_head :: "em_list \<Rightarrow> nat \<Rightarrow> nat \<Rightarrow> em_list" where
  "em_list_insert_head s list_head node = em_list_insert_after s list_head node"

definition em_list_push_back :: "em_list \<Rightarrow> nat \<Rightarrow> nat \<Rightarrow> em_list" where
  "em_list_push_back s list node = em_list_insert_before s list node"

definition em_list_push_front :: "em_list \<Rightarrow> nat \<Rightarrow> nat \<Rightarrow> em_list" where
  "em_list_push_front s list node = em_list_insert_after s list node"

definition em_list_insert_nodes_after :: "em_list \<Rightarrow> nat \<Rightarrow> nat \<Rightarrow> em_list" where
  "em_list_insert_nodes_after s pos lst =
     (let lst_last = l_prev s lst;
          pos_next = l_next s pos;
          s1 = em_link_node s pos lst
      in em_link_node s1 lst_last pos_next)"

definition em_list_insert_nodes_before :: "em_list \<Rightarrow> nat \<Rightarrow> nat \<Rightarrow> em_list" where
  "em_list_insert_nodes_before s pos lst = em_list_insert_nodes_after s (l_prev s pos) lst"

definition em_list_merge_last :: "em_list \<Rightarrow> nat \<Rightarrow> nat \<Rightarrow> em_list" where
  "em_list_merge_last s lst1 lst2 =
     (if \<not> em_list_empty s lst2 then
        (let s1 = em_link_node s (l_prev s lst1) (l_next s lst2);
             s2 = em_link_node s1 (l_prev s1 lst2) lst1
         in em_list_init s2 lst2)
      else s)"

definition em_list_merge_first :: "em_list \<Rightarrow> nat \<Rightarrow> nat \<Rightarrow> em_list" where
  "em_list_merge_first s lst1 lst2 =
     (if \<not> em_list_empty s lst2 then
        (let s1 = em_link_node s (l_prev s lst2) (l_next s lst1);
             s2 = em_link_node s1 lst1 (l_next s1 lst2)
         in em_list_init s2 lst2)
      else s)"

definition em_list_erase :: "em_list \<Rightarrow> nat \<Rightarrow> em_list" where
  "em_list_erase s node =
     (let s1 = em_link_node s (l_prev s node) (l_next s node)
      in em_list_init s1 node)"

text \<open>The \<open>while\<close> loops: \<open>p\<close> is the loop variable; \<open>0\<close> is \<open>NULL\<close>.\<close>

partial_function (option) find_node_loop :: "em_list \<Rightarrow> nat \<Rightarrow> nat \<Rightarrow> nat \<Rightarrow> nat option" where
  "find_node_loop s list node p =
     (if p \<noteq> list \<and> p \<noteq> node then find_node_loop s list node (l_next s p)
      else Some (if p = node then p else 0))"

definition em_list_find_node :: "em_list \<Rightarrow> nat \<Rightarrow> nat \<Rightarrow> nat option" where
  "em_list_find_node s list node = find_node_loop s list node (l_next s list)"

partial_function (option) search_loop ::
  "em_list \<Rightarrow> nat \<Rightarrow> 'v \<Rightarrow> ('v \<Rightarrow> nat \<Rightarrow> int) \<Rightarrow> nat \<Rightarrow> nat option" where
  "search_loop s list value cmp p =
     (if p \<noteq> list \<and> cmp value p \<noteq> 0 then search_loop s list value cmp (l_next s p)
      else Some (if p = list then 0 else p))"

definition em_list_search ::
  "em_list \<Rightarrow> nat \<Rightarrow> 'v \<Rightarrow> ('v \<Rightarrow> nat \<Rightarrow> int) \<Rightarrow> nat option" where
  "em_list_search s list value cmp = search_loop s list value cmp (l_next s list)"

partial_function (option) size_loop :: "em_list \<Rightarrow> nat \<Rightarrow> nat \<Rightarrow> em_size_t \<Rightarrow> em_size_t option" where
  "size_loop s list node count =
     (if node \<noteq> list then size_loop s list (l_next s node) (count + 1) else Some count)"

definition em_list_size :: "em_list \<Rightarrow> nat \<Rightarrow> em_size_t option" where
  "em_list_size s list = size_loop s list (l_next s list) 0"

lemmas list_op_defs = em_list_init_def em_link_node_def em_list_insert_after_def
  em_list_insert_before_def em_list_insert_tail_def em_list_insert_head_def
  em_list_push_back_def em_list_push_front_def em_list_insert_nodes_after_def
  em_list_insert_nodes_before_def em_list_erase_def

section \<open>Rings\<close>

text \<open>
  \<open>chain s a xs\<close>: following \<open>next\<close> from \<open>a\<close> visits \<open>xs\<close>, and every \<open>prev\<close> on the way points
  back.  A list with head \<open>h\<close> and elements \<open>xs\<close> is a chain from \<open>h\<close> back to \<open>h\<close>.
\<close>

fun chain :: "em_list \<Rightarrow> nat \<Rightarrow> nat list \<Rightarrow> bool" where
  "chain s a [] = True"
| "chain s a (x # xs) = (l_next s a = x \<and> l_prev s x = a \<and> chain s x xs)"

definition ring :: "em_list \<Rightarrow> nat \<Rightarrow> nat list \<Rightarrow> bool" where
  "ring s h xs = (distinct (h # xs) \<and> chain s h (xs @ [h]))"

lemma chain_append: "chain s a (xs @ ys) \<longleftrightarrow> chain s a xs \<and> chain s (last (a # xs)) ys"
  by (induction xs arbitrary: a) auto

lemma chain_cong:
  assumes "\<And>n. n \<in> set (butlast (a # xs)) \<Longrightarrow> l_next s' n = l_next s n"
    and "\<And>n. n \<in> set xs \<Longrightarrow> l_prev s' n = l_prev s n"
  shows "chain s' a xs = chain s a xs"
  using assms by (induction xs arbitrary: a) auto

lemma chain_last: "chain s a (xs @ [b]) \<Longrightarrow> l_prev s b = last (a # xs) \<and> l_next s (last (a # xs)) = b"
  by (simp add: chain_append)

lemma chain_hd: "chain s a xs \<Longrightarrow> xs \<noteq> [] \<Longrightarrow> l_next s a = hd xs \<and> l_prev s (hd xs) = a"
  by (cases xs) auto

lemma ring_next: "ring s h xs \<Longrightarrow> l_next s h = hd (xs @ [h])"
  by (auto simp: ring_def dest: chain_hd)

lemma ring_prev: "ring s h xs \<Longrightarrow> l_prev s h = last (h # xs)"
  by (auto simp: ring_def dest: chain_last)

lemma ring_cong:
  assumes "\<And>n. n \<in> set (h # xs) \<Longrightarrow> l_next s' n = l_next s n"
    and "\<And>n. n \<in> set (h # xs) \<Longrightarrow> l_prev s' n = l_prev s n"
  shows "ring s' h xs = ring s h xs"
proof -
  have "chain s' h (xs @ [h]) = chain s h (xs @ [h])"
    by (rule chain_cong) (use assms in \<open>auto simp: butlast_append dest: in_set_butlastD\<close>)
  then show ?thesis by (simp add: ring_def)
qed

lemma ring_empty_iff: "ring s h xs \<Longrightarrow> em_list_empty s h \<longleftrightarrow> xs = []"
  by (cases xs) (auto simp: ring_def em_list_empty_def)

lemma ring_init: "ring (em_list_init s h) h []"
  by (simp add: ring_def em_list_init_def)

text \<open>The two halves of a ring around a position: the node before, the node after.\<close>

lemma ring_split:
  assumes "ring s h (xs @ ys)"
  obtains c cs where "ys @ [h] = c # cs" "c \<in> set (h # ys)" "c \<notin> set xs" "c \<notin> set cs"
    "chain s h xs" "l_next s (last (h # xs)) = c" "l_prev s c = last (h # xs)" "chain s c cs"
    "last (h # xs) \<notin> set (butlast (h # xs))" "last (h # xs) \<notin> set (butlast (c # cs))"
proof -
  obtain c cs where c: "ys @ [h] = c # cs" by (cases "ys @ [h]") auto
  have d: "distinct (h # xs @ ys)" and ch: "chain s h (xs @ ys @ [h])"
    using assms by (auto simp: ring_def)
  have bl: "butlast (c # cs) = ys" using c by (metis butlast_snoc)
  have l: "last (h # xs) \<in> set (h # xs)" by (rule last_in_set) simp
  have cy: "c \<in> set (h # ys)" using c by (cases ys) auto
  have "distinct (c # cs)" using d c by (metis distinct.simps(2) distinct1_rotate rotate1.simps(2) distinct_append Un_iff set_append append_Cons)
  moreover have "last (h # xs) \<notin> set (butlast (h # xs))"
    using d by (metis append_butlast_last_id distinct.simps(2) distinct_append list.distinct(1) not_distinct_conv_prefix Un_iff set_append)
  moreover have "last (h # xs) \<notin> set (butlast (c # cs))" using d l bl by auto
  ultimately show thesis
    using that[OF c cy] d cy ch by (auto simp: chain_append c)
qed

text \<open>Splicing a run of nodes \<open>zs\<close> into a ring: the four pointer writes every insertion makes.\<close>

lemma ring_splice:
  assumes r: "ring s h (xs @ ys)" and pos: "pos = last (h # xs)" and succ: "succ = hd (ys @ [h])"
    and zs: "zs \<noteq> []" "distinct zs" "set zs \<inter> set (h # xs @ ys) = {}"
    and cz: "chain s (hd zs) (tl zs)"
    and n': "\<And>k. k \<in> set (h # xs @ ys @ zs) \<Longrightarrow> l_next s' k =
      (if k = last zs then succ else if k = pos then hd zs else l_next s k)"
    and p': "\<And>k. k \<in> set (h # xs @ ys @ zs) \<Longrightarrow> l_prev s' k =
      (if k = hd zs then pos else if k = succ then last zs else l_prev s k)"
  shows "ring s' h (xs @ zs @ ys)"
proof -
  let ?pos = "last (h # xs)"
  note n = n'[unfolded pos succ] and p = p'[unfolded pos succ]
  obtain c cs where c: "ys @ [h] = c # cs" "c \<in> set (h # ys)" "c \<notin> set xs" "c \<notin> set cs"
    "chain s h xs" "l_next s ?pos = c" "l_prev s c = ?pos" "chain s c cs"
    "?pos \<notin> set (butlast (h # xs))" "?pos \<notin> set (butlast (c # cs))"
    by (rule ring_split[OF r])
  obtain z zr where z: "zs = z # zr" using zs(1) by (cases zs) auto
  have hc: "hd (ys @ [h]) = c" using c(1) by simp
  have pin: "?pos \<in> set (h # xs)" by (rule last_in_set) simp
  have lz: "last zs \<in> set zs" using zs(1) by simp
  have ccs: "set (c # cs) = set (h # ys)" using c(1) by (metis rotate1.simps(2) set_rotate1)
  have bc: "butlast (c # cs) = ys" using c(1) by (metis butlast_snoc)
  have bh: "set (butlast (h # xs)) \<subseteq> set (h # xs)" by (meson in_set_butlastD subsetI)
  have bz: "set (butlast zs) \<subseteq> set zs" "last zs \<notin> set (butlast zs)"
    using zs(1,2) by (auto dest: in_set_butlastD) (metis append_butlast_last_id distinct_append disjoint_iff list.set_intros(1))
  have A: "chain s' h xs"
  proof -
    have "chain s' h xs = chain s h xs"
    proof (rule chain_cong)
      fix k assume k: "k \<in> set (butlast (h # xs))"
      then have "k \<in> set (h # xs)" "k \<noteq> ?pos" using bh c(9) by auto
      then show "l_next s' k = l_next s k" using n[of k] lz zs(3) by auto
    next
      fix k assume k: "k \<in> set xs"
      then show "l_prev s' k = l_prev s k" using p[of k] zs(3) z c(3) hc by auto
    qed
    then show ?thesis using c(5) by simp
  qed
  have B: "chain s' c cs"
  proof -
    have "chain s' c cs = chain s c cs"
    proof (rule chain_cong)
      fix k assume k: "k \<in> set (butlast (c # cs))"
      then have "k \<in> set ys" "k \<noteq> ?pos" using bc c(10) by auto
      then show "l_next s' k = l_next s k" using n[of k] lz zs(3) by auto
    next
      fix k assume k: "k \<in> set cs"
      then have "k \<in> set (h # ys)" "k \<noteq> c" using ccs c(4) by auto
      then show "l_prev s' k = l_prev s k" using p[of k] zs(3) z hc by auto
    qed
    then show ?thesis using c(8) by simp
  qed
  have C: "chain s' z zr"
  proof -
    have "chain s' z zr = chain s z zr"
    proof (rule chain_cong)
      fix k assume k: "k \<in> set (butlast (z # zr))"
      then have "k \<in> set zs" "k \<noteq> last zs" using bz z by (auto simp del: butlast.simps)
      then show "l_next s' k = l_next s k" using n[of k] pin zs(3) by (auto simp del: last.simps)
    next
      fix k assume k: "k \<in> set zr"
      then have "k \<in> set zs" "k \<noteq> z" using z zs(2) by auto
      moreover have "k \<noteq> c" using \<open>k \<in> set zs\<close> ccs zs(3) by auto
      ultimately show "l_prev s' k = l_prev s k" using p[of k] z hc by auto
    qed
    then show ?thesis using cz z by simp
  qed
  have ne: "?pos \<noteq> last zs" "c \<noteq> z" using pin lz zs(3) c(2) z by (auto simp del: last.simps)
  have mem: "?pos \<in> set (h # xs @ ys @ zs)" "last zs \<in> set (h # xs @ ys @ zs)"
    "z \<in> set (h # xs @ ys @ zs)" "c \<in> set (h # xs @ ys @ zs)"
    using pin lz c(2) z by (auto simp del: last.simps)
  have D: "l_next s' ?pos = z" "l_prev s' z = ?pos" "l_next s' (last zs) = c" "l_prev s' c = last zs"
    using n[OF mem(1)] p[OF mem(3)] n[OF mem(2)] p[OF mem(4)] ne hc z
    by (simp_all del: last.simps)
  have "chain s' h (xs @ z # zr @ c # cs)"
    using A B C D z by (simp add: chain_append del: last.simps)
  moreover have "distinct (h # xs @ zs @ ys)" using r zs by (auto simp: ring_def)
  ultimately show ?thesis using z c(1) by (simp add: ring_def)
qed

text \<open>Cutting one node out of a ring.\<close>

lemma ring_cut:
  assumes r: "ring s h (xs @ node # ys)" and pos: "pos = last (h # xs)" and succ: "succ = hd (ys @ [h])"
    and n': "\<And>k. k \<in> set (h # xs @ ys) \<Longrightarrow> l_next s' k = (if k = pos then succ else l_next s k)"
    and p': "\<And>k. k \<in> set (h # xs @ ys) \<Longrightarrow> l_prev s' k = (if k = succ then pos else l_prev s k)"
  shows "ring s' h (xs @ ys)"
proof -
  let ?pos = "last (h # xs)"
  note n = n'[unfolded pos succ] and p = p'[unfolded pos succ]
  have dist: "distinct (h # xs @ node # ys)" and ch: "chain s h (xs @ node # ys @ [h])"
    using r by (auto simp: ring_def)
  obtain d ds where d: "ys @ [h] = d # ds" by (cases "ys @ [h]") auto
  have hd: "hd (ys @ [h]) = d" using d by simp
  have pin: "?pos \<in> set (h # xs)" by (rule last_in_set) simp
  have dds: "set (d # ds) = set (h # ys)" using d by (metis rotate1.simps(2) set_rotate1)
  have bd: "butlast (d # ds) = ys" using d by (metis butlast_snoc)
  have "distinct (rotate1 (h # ys))" using dist by (simp only: distinct1_rotate) simp
  then have ddist: "d \<notin> set ds" using d by simp
  have dxs: "d \<notin> set xs" using dds dist by auto
  have nb: "?pos \<notin> set (butlast (h # xs))"
    using dist by (metis append_butlast_last_id append_Cons distinct_append list.distinct(1)
        not_distinct_conv_prefix disjoint_iff list.set_intros(1))
  have A: "chain s' h xs"
  proof -
    have "chain s' h xs = chain s h xs"
    proof (rule chain_cong)
      fix k assume k: "k \<in> set (butlast (h # xs))"
      then have "k \<in> set (h # xs)" "k \<noteq> ?pos" using nb by (auto dest: in_set_butlastD simp del: butlast.simps)
      then show "l_next s' k = l_next s k" using n[of k] by auto
    next
      fix k assume k: "k \<in> set xs"
      then show "l_prev s' k = l_prev s k" using p[of k] dxs hd by auto
    qed
    then show ?thesis using ch by (simp add: chain_append)
  qed
  have B: "chain s' d ds"
  proof -
    have "chain s' d ds = chain s d ds"
    proof (rule chain_cong)
      fix k assume k: "k \<in> set (butlast (d # ds))"
      then have "k \<in> set ys" "k \<noteq> ?pos" using bd pin dist by auto
      then show "l_next s' k = l_next s k" using n[of k] by auto
    next
      fix k assume k: "k \<in> set ds"
      then have "k \<in> set (h # ys)" "k \<noteq> d" using dds ddist by auto
      then show "l_prev s' k = l_prev s k" using p[of k] hd by auto
    qed
    then show ?thesis using ch by (simp add: chain_append d)
  qed
  have dm: "d \<in> set (h # xs @ ys)" using dds by auto
  have pm: "?pos \<in> set (h # xs @ ys)" using pin by auto
  have "l_next s' ?pos = d" "l_prev s' d = ?pos"
    using n[OF pm] p[OF dm] hd by (simp_all del: last.simps)
  then have "chain s' h (xs @ d # ds)"
    using A B by (simp add: chain_append del: last.simps)
  then show ?thesis using dist by (simp add: ring_def d)
qed

lemma ring_links:
  assumes "ring s h (xs @ ys)" "pos = last (h # xs)" "succ = hd (ys @ [h])"
  shows "l_next s pos = succ" "l_prev s succ = pos"
    "pos \<in> set (h # xs @ ys)" "succ \<in> set (h # xs @ ys)"
proof -
  have "last (h # xs) \<in> set (h # xs)" by (rule last_in_set) simp
  then show "pos \<in> set (h # xs @ ys)" using assms(2) by auto
  show "succ \<in> set (h # xs @ ys)" using assms(3) by (cases ys) auto
qed (use assms ring_split[OF assms(1)] in \<open>metis list.sel(1)\<close>)+

section \<open>Every operation on the ring it maintains\<close>

lemma insert_after_ring:
  assumes r: "ring s h (xs @ ys)" and pos: "pos = last (h # xs)" and new: "node \<notin> set (h # xs @ ys)"
  shows "ring (em_list_insert_after s pos node) h (xs @ node # ys)"
proof -
  obtain c where c: "c = hd (ys @ [h])" by simp
  note l = ring_links[OF r pos c]
  have ne: "node \<noteq> pos" "node \<noteq> c" using new l by auto
  have "ring (em_list_insert_after s pos node) h (xs @ [node] @ ys)"
    by (rule ring_splice[OF r pos c]) (use new ne l in \<open>auto simp: em_list_insert_after_def Let_def\<close>)
  then show ?thesis by simp
qed

lemma insert_before_ring:
  assumes r: "ring s h (xs @ ys)" and succ: "succ = hd (ys @ [h])" and new: "node \<notin> set (h # xs @ ys)"
  shows "ring (em_list_insert_before s succ node) h (xs @ node # ys)"
  using insert_after_ring[OF r refl new] ring_links(2)[OF r refl succ]
  by (simp add: em_list_insert_before_def del: last.simps)

lemma push_back_ring:
  "ring s h xs \<Longrightarrow> node \<notin> set (h # xs) \<Longrightarrow> ring (em_list_push_back s h node) h (xs @ [node])"
  using insert_before_ring[of s h xs "[]" h node] by (simp add: em_list_push_back_def)

lemma push_front_ring:
  "ring s h xs \<Longrightarrow> node \<notin> set (h # xs) \<Longrightarrow> ring (em_list_push_front s h node) h (node # xs)"
  using insert_after_ring[of s h "[]" xs h node] by (simp add: em_list_push_front_def)

lemma insert_nodes_after_ring:
  assumes r: "ring s h (xs @ ys)" and pos: "pos = last (h # xs)" and l: "ring s lst zs"
    and disj: "set (lst # zs) \<inter> set (h # xs @ ys) = {}"
  shows "ring (em_list_insert_nodes_after s pos lst) h (xs @ lst # zs @ ys)"
proof -
  obtain c where c: "c = hd (ys @ [h])" by simp
  obtain e where e: "e = last (lst # zs)" by simp
  note k = ring_links[OF r pos c]
  have d: "distinct (lst # zs)" and ch: "chain s lst zs" using l by (auto simp: ring_def chain_append)
  have ein: "e \<in> set (lst # zs)" unfolding e by (rule last_in_set) simp
  have ne: "pos \<notin> set (lst # zs)" "c \<notin> set (lst # zs)" "e \<notin> set (h # xs @ ys)"
    using disj k ein by auto
  have "ring (em_list_insert_nodes_after s pos lst) h (xs @ (lst # zs) @ ys)"
    by (rule ring_splice[OF r pos c])
      (use disj d ch ne k(1) ring_prev[OF l] in
        \<open>auto simp: em_list_insert_nodes_after_def em_link_node_def Let_def e[symmetric] simp del: last.simps\<close>)
  then show ?thesis by simp
qed

lemma erase_ring:
  assumes r: "ring s h (xs @ node # ys)"
  shows "ring (em_list_erase s node) h (xs @ ys)" "ring (em_list_erase s node) node []"
proof -
  obtain pos c where pc: "pos = last (h # xs)" "c = hd (ys @ [h])" by simp
  have links: "l_prev s node = pos" "l_next s node = c"
    using ring_links(2)[of s h xs "node # ys" pos node] ring_links(1)[of s h "xs @ [node]" ys node c] r pc
    by auto
  have d: "node \<notin> set (h # xs @ ys)" using r by (auto simp: ring_def)
  show "ring (em_list_erase s node) h (xs @ ys)"
    by (rule ring_cut[OF r pc]) (use d links in
        \<open>auto simp: em_list_erase_def em_link_node_def em_list_init_def Let_def\<close>)
  show "ring (em_list_erase s node) node []"
    by (simp add: em_list_erase_def ring_init Let_def)
qed

lemma insert_nodes_before_ring:
  assumes r: "ring s h (xs @ ys)" and succ: "succ = hd (ys @ [h])" and l: "ring s lst zs"
    and disj: "set (lst # zs) \<inter> set (h # xs @ ys) = {}"
  shows "ring (em_list_insert_nodes_before s succ lst) h (xs @ lst # zs @ ys)"
  using insert_nodes_after_ring[OF r refl l disj] ring_links(2)[OF r refl succ]
  by (simp add: em_list_insert_nodes_before_def del: last.simps)

lemma ring_Cons_parts:
  assumes "ring s h (z # zs)"
  shows "l_next s h = z" "l_prev s h = last (z # zs)" "chain s z zs" "distinct (h # z # zs)"
  using assms chain_last[of s h "z # zs" h] by (auto simp: ring_def chain_append)

lemma merge_last_ring:
  assumes r: "ring s h xs" and q: "ring s k ys" and disj: "set (h # xs) \<inter> set (k # ys) = {}"
  shows "ring (em_list_merge_last s h k) h (xs @ ys) \<and> ring (em_list_merge_last s h k) k []"
proof (cases ys)
  case Nil
  then show ?thesis using r q by (simp add: em_list_merge_last_def ring_empty_iff)
next
  case (Cons z zs)
  obtain pos e where pos: "pos = last (h # xs)" and e: "e = last (z # zs)" by simp
  have r': "ring s h (xs @ [])" and succ: "h = hd ([] @ [h])" using r by simp_all
  note l = ring_links[OF r' pos succ]
  note p = ring_Cons_parts[OF q[unfolded Cons]]
  have ein: "e \<in> set (z # zs)" unfolding e by (rule last_in_set) simp
  have ne: "pos \<notin> set (k # ys)" "e \<notin> set (h # xs)" "e \<noteq> k" "k \<notin> set (h # xs)" "z \<noteq> k" "z \<notin> set (h # xs)"
    using disj l(3) ein p(4) Cons by auto
  have emp: "\<not> em_list_empty s k" using q Cons by (simp add: ring_empty_iff)
  have "ring (em_list_merge_last s h k) h (xs @ (z # zs) @ [])"
    by (rule ring_splice[OF r' pos succ])
      (use disj Cons p ne l emp in
        \<open>auto simp: em_list_merge_last_def em_link_node_def em_list_init_def Let_def e[symmetric] simp del: last.simps\<close>)
  moreover have "ring (em_list_merge_last s h k) k []"
    using emp by (simp add: em_list_merge_last_def ring_init Let_def)
  ultimately show ?thesis using Cons by simp
qed

lemma merge_first_ring:
  assumes r: "ring s h xs" and q: "ring s k ys" and disj: "set (h # xs) \<inter> set (k # ys) = {}"
  shows "ring (em_list_merge_first s h k) h (ys @ xs) \<and> ring (em_list_merge_first s h k) k []"
proof (cases ys)
  case Nil
  then show ?thesis using r q by (simp add: em_list_merge_first_def ring_empty_iff)
next
  case (Cons z zs)
  obtain c e where succ: "c = hd (xs @ [h])" and e: "e = last (z # zs)" by simp
  have r': "ring s h ([] @ xs)" and pos: "h = last (h # [])" using r by simp_all
  note l = ring_links[OF r' pos succ]
  note p = ring_Cons_parts[OF q[unfolded Cons]]
  have ein: "e \<in> set (z # zs)" unfolding e by (rule last_in_set) simp
  have ne: "h \<notin> set (k # ys)" "e \<notin> set (h # xs)" "e \<noteq> k" "k \<notin> set (h # xs)" "z \<noteq> k" "c \<notin> set (k # ys)"
    "z \<notin> set (h # xs)"
    using disj l(3,4) ein p(4) Cons by auto
  have emp: "\<not> em_list_empty s k" using q Cons by (simp add: ring_empty_iff)
  have "ring (em_list_merge_first s h k) h ([] @ (z # zs) @ xs)"
    by (rule ring_splice[OF r' pos succ])
      (use disj Cons p ne l emp in
        \<open>auto simp: em_list_merge_first_def em_link_node_def em_list_init_def Let_def e[symmetric] simp del: last.simps\<close>)
  moreover have "ring (em_list_merge_first s h k) k []"
    using emp by (simp add: em_list_merge_first_def ring_init Let_def)
  ultimately show ?thesis using Cons by simp
qed

section \<open>The loops terminate on rings\<close>

lemma find_node_loop_chain:
  "chain s a (ys @ [h]) \<Longrightarrow> h \<notin> set ys \<Longrightarrow>
   find_node_loop s h node (l_next s a) = Some (if node \<in> set ys \<or> node = h then node else 0)"
  by (induction ys arbitrary: a) (auto simp: find_node_loop.simps)

lemma search_loop_chain:
  "chain s a (ys @ [h]) \<Longrightarrow> h \<notin> set ys \<Longrightarrow>
   search_loop s h v cmp (l_next s a) =
     Some (case find (\<lambda>n. cmp v n = 0) ys of None \<Rightarrow> 0 | Some n \<Rightarrow> n)"
  by (induction ys arbitrary: a) (auto simp: search_loop.simps)

lemma size_loop_chain:
  "chain s a (ys @ [h]) \<Longrightarrow> h \<notin> set ys \<Longrightarrow>
   size_loop s h (l_next s a) n = Some (n + of_nat (length ys))"
proof (induction ys arbitrary: a n)
  case Nil
  then show ?case by (simp add: size_loop.simps)
next
  case (Cons y ys)
  then have "size_loop s h (l_next s y) (n + 1) = Some (n + 1 + of_nat (length ys))" by auto
  with Cons.prems show ?case by (simp add: size_loop.simps[of s h y] algebra_simps)
qed

section \<open>The interface the other components use\<close>

text \<open>
  A list of nodes as its clients see it: \<open>repr s h xs\<close> says that list head \<open>h\<close> holds \<open>xs\<close> in
  store \<open>s\<close>.  The laws are what the users of \<open>em_list\<close> (pool blocks, pools of the caching pool,
  destroy handlers and lock items of a group lock) rely on.
\<close>

locale node_list =
  fixes repr :: "'s \<Rightarrow> nat \<Rightarrow> nat list \<Rightarrow> bool"
    and init :: "'s \<Rightarrow> nat \<Rightarrow> 's"
    and push_back :: "'s \<Rightarrow> nat \<Rightarrow> nat \<Rightarrow> 's"
    and push_front :: "'s \<Rightarrow> nat \<Rightarrow> nat \<Rightarrow> 's"
    and erase :: "'s \<Rightarrow> nat \<Rightarrow> 's"
  assumes repr_distinct: "repr s h xs \<Longrightarrow> distinct (h # xs)"
    and repr_init: "repr (init s h) h []"
    and repr_push_back: "repr s h xs \<Longrightarrow> n \<notin> set (h # xs) \<Longrightarrow> repr (push_back s h n) h (xs @ [n])"
    and repr_push_front: "repr s h xs \<Longrightarrow> n \<notin> set (h # xs) \<Longrightarrow> repr (push_front s h n) h (n # xs)"
    and repr_erase: "repr s h (xs @ n # ys) \<Longrightarrow> repr (erase s n) h (xs @ ys)"
begin

lemma push_all:
  "repr s h xs \<Longrightarrow> distinct (h # xs @ ns) \<Longrightarrow>
   repr (fold (\<lambda>n s. push_back s h n) ns s) h (xs @ ns)"
proof (induction ns arbitrary: s xs)
  case (Cons n ns)
  then have "repr (push_back s h n) h (xs @ [n])" by (intro repr_push_back) auto
  from Cons.IH[OF this] Cons.prems(2) show ?case by simp
qed simp

lemma push_front_all:
  "repr s h xs \<Longrightarrow> distinct (h # xs @ ns) \<Longrightarrow>
   repr (fold (\<lambda>n s. push_front s h n) ns s) h (rev ns @ xs)"
proof (induction ns arbitrary: s xs)
  case (Cons n ns)
  then have "repr (push_front s h n) h (n # xs)" by (intro repr_push_front) auto
  from Cons.IH[OF this] Cons.prems(2) show ?case by simp
qed simp

lemma erase_prefix:
  "repr s h (xs @ ys) \<Longrightarrow> repr (fold (\<lambda>n s. erase s n) xs s) h ys"
proof (induction xs arbitrary: s)
  case (Cons x xs)
  from repr_erase[of s h "[]" x "xs @ ys"] Cons show ?case by simp
qed simp

lemma fifo:
  "repr s h [] \<Longrightarrow> distinct (h # xs @ ys) \<Longrightarrow>
   repr (fold (\<lambda>n s. erase s n) xs (fold (\<lambda>n s. push_back s h n) (xs @ ys) s)) h ys"
  by (rule erase_prefix) (use push_all[of s h "[]" "xs @ ys"] in simp)

end

lemma ring_distinct: "ring s h xs \<Longrightarrow> distinct (h # xs)"
  by (simp add: ring_def)

interpretation dl: node_list ring em_list_init em_list_push_back em_list_push_front em_list_erase
  by unfold_locales
    (rule ring_distinct ring_init push_back_ring push_front_ring erase_ring(1); assumption)+

section \<open>Properties\<close>

text \<open>
  C26. Inserting a fresh node after the element that ends the prefix \<open>xs\<close> (or before the element that
  starts the suffix \<open>ys\<close>) of a well-formed list puts it exactly between \<open>xs\<close> and \<open>ys\<close>, with both
  directions of links consistent and no other element moved.
\<close>

theorem list_insert_spec:
  assumes "ring s h (xs @ ys)" and "node \<notin> set (h # xs @ ys)"
  shows "ring (em_list_insert_after s (last (h # xs)) node) h (xs @ node # ys) \<and>
         ring (em_list_insert_before s (hd (ys @ [h])) node) h (xs @ node # ys)"
  using insert_after_ring[OF assms(1) refl assms(2)] insert_before_ring[OF assms(1) refl assms(2)] by simp

lemma list_insert_spec_witness:
  "ring (em_list_insert_after (em_list_push_back (em_list_init \<lparr>l_next = \<lambda>_. 0, l_prev = \<lambda>_. 0\<rparr> 1) 1 2) 1 3)
     1 [3, 2]"
  using list_insert_spec[of "em_list_push_back (em_list_init \<lparr>l_next = \<lambda>_. 0, l_prev = \<lambda>_. 0\<rparr> 1) 1 2"
      1 "[]" "[2]" 3]
  by (simp add: ring_def list_op_defs Let_def)

text \<open>
  C31. Erasing a member removes exactly that node, leaves it as an empty list of its own, and erasing
  it a second time changes nothing (the protection the comment in \<open>em_list_erase\<close> asks for).
\<close>

theorem list_erase_spec:
  assumes "ring s h (xs @ node # ys)"
  shows "ring (em_list_erase s node) h (xs @ ys) \<and> ring (em_list_erase s node) node [] \<and>
         em_list_erase (em_list_erase s node) node = em_list_erase s node"
proof -
  have "em_list_erase (em_list_erase s node) node = em_list_erase s node"
    by (simp add: list_op_defs Let_def fun_upd_def fun_eq_iff)
  with erase_ring[OF assms] show ?thesis by simp
qed

lemma list_erase_spec_witness:
  "ring (em_list_erase (em_list_push_back (em_list_init \<lparr>l_next = \<lambda>_. 0, l_prev = \<lambda>_. 0\<rparr> 1) 1 2) 2) 1 []"
  using list_erase_spec[of "em_list_push_back (em_list_init \<lparr>l_next = \<lambda>_. 0, l_prev = \<lambda>_. 0\<rparr> 1) 1 2"
      1 "[]" 2 "[]"]
  by (simp add: ring_def list_op_defs Let_def)

text \<open>
  Merging a list into another moves all of its elements, in order, to the end
  (\<open>em_list_merge_last\<close>) or to the front (\<open>em_list_merge_first\<close>) and leaves the source list empty.
\<close>
lemma list_merge_spec:
  assumes "ring s h xs" and "ring s k ys" and "set (h # xs) \<inter> set (k # ys) = {}"
  shows "ring (em_list_merge_last s h k) h (xs @ ys) \<and> ring (em_list_merge_last s h k) k [] \<and>
         ring (em_list_merge_first s h k) h (ys @ xs) \<and> ring (em_list_merge_first s h k) k []"
  using merge_last_ring[OF assms] merge_first_ring[OF assms] by simp

lemma list_merge_spec_witness:
  "ring (em_list_merge_last
     (em_list_push_back (em_list_init (em_list_push_back
        (em_list_init \<lparr>l_next = \<lambda>_. 0, l_prev = \<lambda>_. 0\<rparr> 1) 1 2) 3) 3 4) 1 3) 1 [2, 4]"
  using list_merge_spec[of "em_list_push_back (em_list_init (em_list_push_back
        (em_list_init \<lparr>l_next = \<lambda>_. 0, l_prev = \<lambda>_. 0\<rparr> 1) 1 2) 3) 3 4" 1 "[2]" 3 "[4]"]
  by (simp add: ring_def list_op_defs Let_def)

text \<open>
  C32. On a well-formed list the three traversals terminate: \<open>em_list_size\<close> counts the elements,
  \<open>em_list_find_node\<close> returns the node exactly when it is an element (or the head itself), and
  \<open>em_list_search\<close> returns the first element the comparison accepts, or \<open>NULL\<close>.
\<close>

theorem list_traversal_total:
  assumes "ring s h xs"
  shows "em_list_size s h = Some (of_nat (length xs)) \<and>
         em_list_find_node s h node = Some (if node \<in> set xs \<or> node = h then node else 0) \<and>
         em_list_search s h v cmp =
           Some (case find (\<lambda>n. cmp v n = 0) xs of None \<Rightarrow> 0 | Some n \<Rightarrow> n)"
  using assms size_loop_chain[of s h xs h 0] find_node_loop_chain[of s h xs h node]
    search_loop_chain[of s h xs h v cmp]
  by (simp add: ring_def em_list_size_def em_list_find_node_def em_list_search_def)

lemma list_traversal_total_witness:
  "em_list_size (em_list_push_back (em_list_init \<lparr>l_next = \<lambda>_. 0, l_prev = \<lambda>_. 0\<rparr> 1) 1 2) 1 = Some 1"
  using list_traversal_total[of "em_list_push_back (em_list_init \<lparr>l_next = \<lambda>_. 0, l_prev = \<lambda>_. 0\<rparr> 1) 1 2"
      1 "[2]" 2 "()" "\<lambda>_ _. 0"]
  by (simp add: ring_def list_op_defs Let_def)

text \<open>
  C29. Used as a queue the list is first-in first-out: after appending \<open>xs\<close> and then \<open>ys\<close> to an empty
  list and erasing the nodes of \<open>xs\<close> in order, the list holds exactly \<open>ys\<close>.
\<close>

theorem list_fifo:
  assumes "ring s h []" and "distinct (h # xs @ ys)"
  shows "ring (fold (\<lambda>n s. em_list_erase s n) xs
           (fold (\<lambda>n s. em_list_push_back s h n) (xs @ ys) s)) h ys"
  using assms by (rule dl.fifo)

lemma list_fifo_witness:
  "ring (em_list_erase (em_list_push_back (em_list_push_back
     (em_list_init \<lparr>l_next = \<lambda>_. 0, l_prev = \<lambda>_. 0\<rparr> 1) 1 2) 1 3) 2) 1 [3]"
  using list_fifo[of "em_list_init \<lparr>l_next = \<lambda>_. 0, l_prev = \<lambda>_. 0\<rparr> 1" 1 "[2]" "[3]"]
  by (simp add: ring_init)

end
