(* ===== verification/Emlib_Errno.thy ===== *)
theory Emlib_Errno
  imports Emlib_Prelude
begin

text \<open>
  Status codes (\<open>include/em/types.h\<close>, \<open>include/em/errno.h\<close>), the folding of operating-system
  errors into them (\<open>src/os_error_unix.c\<close>), and the message registry of \<open>src/errno.c\<close>.
  \<open>emlib_ret_t\<close> is an enumeration, an unsigned 32-bit integer for the compiler used.
\<close>

section \<open>Codes\<close>

definition EM_SUCC :: emlib_ret_t where [errno]: "EM_SUCC = 0"
definition EM_FAIL :: emlib_ret_t where [errno]: "EM_FAIL = 1"

definition EM_ERRNO_START :: emlib_ret_t where [errno]: "EM_ERRNO_START = 20000"
definition EM_ERRNO_SPACE_SIZE :: emlib_ret_t where [errno]: "EM_ERRNO_SPACE_SIZE = 50000"
definition EM_ERRNO_START_STATUS :: emlib_ret_t where
  [errno]: "EM_ERRNO_START_STATUS = EM_ERRNO_START + EM_ERRNO_SPACE_SIZE"
definition EM_ERRNO_START_SYS :: emlib_ret_t where
  [errno]: "EM_ERRNO_START_SYS = EM_ERRNO_START_STATUS + EM_ERRNO_SPACE_SIZE"
definition EM_ERRNO_START_USER :: emlib_ret_t where
  [errno]: "EM_ERRNO_START_USER = EM_ERRNO_START_SYS + EM_ERRNO_SPACE_SIZE"

definition EM_EUNKNOWN :: emlib_ret_t where [errno]: "EM_EUNKNOWN = EM_ERRNO_START_STATUS + 1"
definition EM_EPENDING :: emlib_ret_t where [errno]: "EM_EPENDING = EM_ERRNO_START_STATUS + 2"
definition EM_ETOOMANYCONN :: emlib_ret_t where [errno]: "EM_ETOOMANYCONN = EM_ERRNO_START_STATUS + 3"
definition EM_EINVAL :: emlib_ret_t where [errno]: "EM_EINVAL = EM_ERRNO_START_STATUS + 4"
definition EM_ENAMETOOLONG :: emlib_ret_t where [errno]: "EM_ENAMETOOLONG = EM_ERRNO_START_STATUS + 5"
definition EM_ENOTFOUND :: emlib_ret_t where [errno]: "EM_ENOTFOUND = EM_ERRNO_START_STATUS + 6"
definition EM_ENOMEM :: emlib_ret_t where [errno]: "EM_ENOMEM = EM_ERRNO_START_STATUS + 7"
definition EM_EBUG :: emlib_ret_t where [errno]: "EM_EBUG = EM_ERRNO_START_STATUS + 8"
definition EM_ETIMEDOUT :: emlib_ret_t where [errno]: "EM_ETIMEDOUT = EM_ERRNO_START_STATUS + 9"
definition EM_ETOOMANY :: emlib_ret_t where [errno]: "EM_ETOOMANY = EM_ERRNO_START_STATUS + 10"
definition EM_EBUSY :: emlib_ret_t where [errno]: "EM_EBUSY = EM_ERRNO_START_STATUS + 11"
definition EM_ENOTSUP :: emlib_ret_t where [errno]: "EM_ENOTSUP = EM_ERRNO_START_STATUS + 12"
definition EM_EINVALIDOP :: emlib_ret_t where [errno]: "EM_EINVALIDOP = EM_ERRNO_START_STATUS + 13"
definition EM_ECANCELLED :: emlib_ret_t where [errno]: "EM_ECANCELLED = EM_ERRNO_START_STATUS + 14"
definition EM_EEXISTS :: emlib_ret_t where [errno]: "EM_EEXISTS = EM_ERRNO_START_STATUS + 15"
definition EM_EEOF :: emlib_ret_t where [errno]: "EM_EEOF = EM_ERRNO_START_STATUS + 16"
definition EM_ETOOBIG :: emlib_ret_t where [errno]: "EM_ETOOBIG = EM_ERRNO_START_STATUS + 17"
definition EM_ERESOLVE :: emlib_ret_t where [errno]: "EM_ERESOLVE = EM_ERRNO_START_STATUS + 18"
definition EM_ETOOSMALL :: emlib_ret_t where [errno]: "EM_ETOOSMALL = EM_ERRNO_START_STATUS + 19"
definition EM_EIGNORED :: emlib_ret_t where [errno]: "EM_EIGNORED = EM_ERRNO_START_STATUS + 20"
definition EM_EIPV6NOTSUP :: emlib_ret_t where [errno]: "EM_EIPV6NOTSUP = EM_ERRNO_START_STATUS + 21"
definition EM_EAFNOTSUP :: emlib_ret_t where [errno]: "EM_EAFNOTSUP = EM_ERRNO_START_STATUS + 22"
definition EM_EGONE :: emlib_ret_t where [errno]: "EM_EGONE = EM_ERRNO_START_STATUS + 23"
definition EM_ESOCKETSTOP :: emlib_ret_t where [errno]: "EM_ESOCKETSTOP = EM_ERRNO_START_STATUS + 24"

section \<open>Operating-system errors\<close>

definition EM_STATUS_FROM_OS :: "32 word \<Rightarrow> emlib_ret_t" where
  "EM_STATUS_FROM_OS e = (if e = 0 then EM_SUCC else e + EM_ERRNO_START_SYS)"

definition EM_STATUS_TO_OS :: "emlib_ret_t \<Rightarrow> 32 word" where
  "EM_STATUS_TO_OS e = (if e = 0 then EM_SUCC else e - EM_ERRNO_START_SYS)"

definition EM_RETURN_OS_ERROR :: "32 word \<Rightarrow> emlib_ret_t" where
  "EM_RETURN_OS_ERROR os_code = (if os_code \<noteq> 0 then EM_STATUS_FROM_OS os_code else - 1)"

text \<open>The four accessors of \<open>errno\<close>: the C variable is the argument, or the result.\<close>

definition em_get_os_error :: "32 word \<Rightarrow> emlib_ret_t" where
  "em_get_os_error errno_var = EM_STATUS_FROM_OS errno_var"

definition em_set_os_error :: "emlib_ret_t \<Rightarrow> 32 word" where
  "em_set_os_error code = EM_STATUS_TO_OS code"

definition em_get_netos_error :: "32 word \<Rightarrow> emlib_ret_t" where
  "em_get_netos_error errno_var = EM_STATUS_FROM_OS errno_var"

definition em_set_netos_error :: "emlib_ret_t \<Rightarrow> 32 word" where
  "em_set_netos_error code = EM_STATUS_TO_OS code"

section \<open>Writing messages\<close>

text \<open>
  A message call writes a NUL-terminated string into the caller's buffer and returns a length, which is an
  \<open>int\<close>; the model is the pair of that string and the length, and \<^const>\<open>None\<close> where the call writes outside
  of the buffer.  \<open>c_snprintf\<close> is the C library's, for texts of less than \<open>2 ^ 31\<close> characters: it
  writes at most \<open>bufsize - 1\<close> of them and returns the length of the whole text.
\<close>

text \<open>The cast \<open>(int)size\<close>.\<close>

definition as_int :: "em_size_t \<Rightarrow> int" where
  "as_int n = sint (ucast n :: 32 word)"

lemma as_int_small:
  assumes "unat n < 2 ^ 31"
  shows "as_int n = int (unat n)"
proof -
  have "uint n < 2 ^ 31" using assms by (simp add: uint_nat del: of_nat_unat)
  moreover have "- (2 ^ 31) \<le> uint n" by (rule order_trans [OF _ uint_ge_0]) simp
  ultimately show ?thesis
    by (simp add: as_int_def sint_uint unsigned_ucast_eq take_bit_int_eq_self signed_take_bit_int_eq_self)
qed

fun dec_nat :: "nat \<Rightarrow> string" where
  "dec_nat n = (if n < 10 then [char_of (48 + n)] else dec_nat (n div 10) @ [char_of (48 + n mod 10)])"

declare dec_nat.simps [simp del]

definition dec_int :: "int \<Rightarrow> string" where
  "dec_int i = (if i < 0 then CHR ''-'' # dec_nat (nat (- i)) else dec_nat (nat i))"

definition c_snprintf :: "em_size_t \<Rightarrow> string \<Rightarrow> string \<times> int" where
  "c_snprintf bufsize s = (take (unat bufsize - 1) s, int (length s))"

text \<open>\<open>strerror\<close> of the C library is the parameter \<open>syserr\<close>.\<close>

definition platform_strerror :: "(32 word \<Rightarrow> string) \<Rightarrow> 32 word \<Rightarrow> em_size_t \<Rightarrow> (string \<times> int) option" where
  "platform_strerror syserr os_errcode bufsize =
     (let msg = syserr os_errcode;
          len = (if length msg \<ge> unat bufsize then bufsize - 1 else of_nat (length msg))
      in if bufsize = 0 then None else Some (take (unat len) msg, as_int len))"

definition EM_BUILD_ERR :: "emlib_ret_t \<Rightarrow> string \<Rightarrow> string \<Rightarrow> emlib_ret_t \<times> string" where
  "EM_BUILD_ERR code name msg = (code, msg @ '' ('' @ name @ '')'')"

definition err_str :: "(emlib_ret_t \<times> string) list" where
  "err_str =
    [EM_BUILD_ERR EM_EUNKNOWN ''EM_EUNKNOWN'' ''Unknown Error'',
     EM_BUILD_ERR EM_EPENDING ''EM_EPENDING'' ''Pending operation'',
     EM_BUILD_ERR EM_ETOOMANYCONN ''EM_ETOOMANYCONN'' ''Too many connecting sockets'',
     EM_BUILD_ERR EM_EINVAL ''EM_EINVAL'' ''Invalid value or argument'',
     EM_BUILD_ERR EM_ENAMETOOLONG ''EM_ENAMETOOLONG'' ''Name too long'',
     EM_BUILD_ERR EM_ENOTFOUND ''EM_ENOTFOUND'' ''Not found'',
     EM_BUILD_ERR EM_ENOMEM ''EM_ENOMEM'' ''Not enough memory'',
     EM_BUILD_ERR EM_EBUG ''EM_EBUG'' ''BUG DETECTED!'',
     EM_BUILD_ERR EM_ETIMEDOUT ''EM_ETIMEDOUT'' ''Operation timed out'',
     EM_BUILD_ERR EM_ETOOMANY ''EM_ETOOMANY'' ''Too many objects of the specified type'',
     EM_BUILD_ERR EM_EBUSY ''EM_EBUSY'' ''Object is busy'',
     EM_BUILD_ERR EM_ENOTSUP ''EM_ENOTSUP'' ''Option/operation is not supported'',
     EM_BUILD_ERR EM_EINVALIDOP ''EM_EINVALIDOP'' ''Invalid operation'',
     EM_BUILD_ERR EM_ECANCELLED ''EM_ECANCELLED'' ''Operation cancelled'',
     EM_BUILD_ERR EM_EEXISTS ''EM_EEXISTS'' ''Object already exists'',
     EM_BUILD_ERR EM_EEOF ''EM_EEOF'' ''End of file'',
     EM_BUILD_ERR EM_ETOOBIG ''EM_ETOOBIG'' ''Size is too big'',
     EM_BUILD_ERR EM_ERESOLVE ''EM_ERESOLVE'' ''gethostbyname() has returned error'',
     EM_BUILD_ERR EM_ETOOSMALL ''EM_ETOOSMALL'' ''Size is too short'',
     EM_BUILD_ERR EM_EIGNORED ''EM_EIGNORED'' ''Ignored'',
     EM_BUILD_ERR EM_EIPV6NOTSUP ''EM_EIPV6NOTSUP'' ''IPv6 is not supported'',
     EM_BUILD_ERR EM_EAFNOTSUP ''EM_EAFNOTSUP'' ''Unsupported address family'',
     EM_BUILD_ERR EM_EGONE ''EM_EGONE'' ''Object no longer exists'',
     EM_BUILD_ERR EM_ESOCKETSTOP ''EM_ESOCKETSTOP'' ''Socket is in bad state'']"

text \<open>The scan of the table in \<open>emlib_error\<close>: the first entry with this code wins.\<close>

definition emlib_error :: "emlib_ret_t \<Rightarrow> em_size_t \<Rightarrow> (string \<times> int) option" where
  "emlib_error code sz =
     (case find (\<lambda>e. fst e = code) err_str of
        Some e \<Rightarrow>
          (let len2 = (if length (snd e) \<ge> unat sz then sz - 1 else of_nat (length (snd e)))
           in if sz = 0 then None else Some (take (unat len2) (snd e), as_int len2))
      | None \<Rightarrow>
          (let (buf, len) = c_snprintf sz (''Unknown emlib error '' @ dec_int (sint code))
           in Some (buf, if len < 1 \<or> len \<ge> as_int sz then as_int (sz - 1) else len)))"

section \<open>The handler registry\<close>

text \<open>
  The array \<open>err_msg_hnd\<close> and its count are the list of the registered handlers.  A handler is a
  function pointer of type \<open>'f\<close>; calling it is the parameter \<open>call\<close> of \<open>em_strerror\<close>.
\<close>

record 'f err_msg_hnd =
  eh_begin :: emlib_ret_t
  eh_end :: emlib_ret_t
  eh_strerror :: 'f

definition EMLIB_MAX_ERR_MSG_HANDLER :: nat where
  "EMLIB_MAX_ERR_MSG_HANDLER = 10"

definition IN_RANGE :: "emlib_ret_t \<Rightarrow> emlib_ret_t \<Rightarrow> emlib_ret_t \<Rightarrow> bool" where
  "IN_RANGE val start end_v \<longleftrightarrow> val \<ge> start \<and> val < end_v"

text \<open>The \<open>for\<close> loop of \<open>em_register_strerror\<close>: its early return, if any.\<close>

fun register_scan ::
  "emlib_ret_t \<Rightarrow> emlib_ret_t \<Rightarrow> 'f \<Rightarrow> 'f err_msg_hnd list \<Rightarrow> emlib_ret_t option" where
  "register_scan start space f [] = None"
| "register_scan start space f (h # hs) =
     (if IN_RANGE start (eh_begin h) (eh_end h) \<or> IN_RANGE (start + space - 1) (eh_begin h) (eh_end h)
      then Some (if eh_begin h = start \<and> eh_end h = start + space \<and> eh_strerror h = f
                 then EM_SUCC else EM_EEXISTS)
      else register_scan start space f hs)"

definition em_register_strerror ::
  "'f err_msg_hnd list \<Rightarrow> emlib_ret_t \<Rightarrow> emlib_ret_t \<Rightarrow> 'f option \<Rightarrow> emlib_ret_t \<times> 'f err_msg_hnd list" where
  "em_register_strerror hs start space fp =
     (case fp of
        None \<Rightarrow> (EM_EINVAL, hs)
      | Some f \<Rightarrow>
          if \<not> (start \<noteq> 0 \<and> space \<noteq> 0) then (EM_EINVAL, hs)
          else if \<not> length hs < EMLIB_MAX_ERR_MSG_HANDLER then (EM_ETOOMANY, hs)
          else if \<not> start \<ge> EM_ERRNO_START_USER then (EM_EEXISTS, hs)
          else (case register_scan start space f hs of
                  Some r \<Rightarrow> (r, hs)
                | None \<Rightarrow>
                    (EM_SUCC, hs @ [\<lparr>eh_begin = start, eh_end = start + space, eh_strerror = f\<rparr>])))"

definition em_errno_clear_handlers :: "'f err_msg_hnd list \<Rightarrow> 'f err_msg_hnd list" where
  "em_errno_clear_handlers hs = []"

text \<open>
  The end of \<open>em_strerror\<close>: an unusable length is replaced by \<open>(int)(bufsize - 1)\<close>, and a NUL is written there.
\<close>

definition strerror_finish :: "em_size_t \<Rightarrow> (string \<times> int) \<Rightarrow> (string \<times> int) option" where
  "strerror_finish bufsize r =
     (if snd r < 1 \<or> snd r \<ge> as_int bufsize
      then (let len = as_int (bufsize - 1) in if len < 0 then None else Some (take (nat len) (fst r), len))
      else Some r)"

definition em_strerror ::
  "'f err_msg_hnd list \<Rightarrow> (32 word \<Rightarrow> string) \<Rightarrow> ('f \<Rightarrow> emlib_ret_t \<Rightarrow> em_size_t \<Rightarrow> string \<times> int) \<Rightarrow>
   emlib_ret_t \<Rightarrow> em_size_t \<Rightarrow> (string \<times> int) option" where
  "em_strerror hs syserr call statcode bufsize =
     (if statcode = EM_SUCC then strerror_finish bufsize (c_snprintf bufsize ''Success'')
      else if statcode < EM_ERRNO_START + EM_ERRNO_SPACE_SIZE then
        strerror_finish bufsize (c_snprintf bufsize (''Unknown error '' @ dec_int (sint statcode)))
      else if statcode < EM_ERRNO_START_STATUS + EM_ERRNO_SPACE_SIZE then
        do { r \<leftarrow> emlib_error statcode bufsize; strerror_finish bufsize r }
      else if statcode < EM_ERRNO_START_SYS + EM_ERRNO_SPACE_SIZE then
        do { r \<leftarrow> platform_strerror syserr (EM_STATUS_TO_OS statcode) bufsize; strerror_finish bufsize r }
      else (case find (\<lambda>h. IN_RANGE statcode (eh_begin h) (eh_end h)) hs of
                 Some h \<Rightarrow> Some (call (eh_strerror h) statcode bufsize)
               | None \<Rightarrow> strerror_finish bufsize (c_snprintf bufsize (''Unknown error '' @ dec_int (sint statcode)))))"


section \<open>Operating-system codes\<close>

lemma os_roundtrip: "e \<noteq> - EM_ERRNO_START_SYS \<Longrightarrow> EM_STATUS_TO_OS (EM_STATUS_FROM_OS e) = e"
  by (auto simp: EM_STATUS_TO_OS_def EM_STATUS_FROM_OS_def EM_SUCC_def eq_neg_iff_add_eq_0)

lemma from_os_nonzero: "e \<noteq> 0 \<Longrightarrow> e \<noteq> - EM_ERRNO_START_SYS \<Longrightarrow> EM_STATUS_FROM_OS e \<noteq> EM_SUCC"
  by (auto simp: EM_STATUS_FROM_OS_def EM_SUCC_def eq_neg_iff_add_eq_0)

lemma return_os_error_nonzero: "e \<noteq> - EM_ERRNO_START_SYS \<Longrightarrow> EM_RETURN_OS_ERROR e \<noteq> EM_SUCC"
  using from_os_nonzero by (auto simp: EM_RETURN_OS_ERROR_def EM_SUCC_def)

lemma from_os_range:
  assumes "e \<noteq> 0" "e < EM_ERRNO_SPACE_SIZE"
  shows "EM_ERRNO_START_SYS < EM_STATUS_FROM_OS e \<and> EM_STATUS_FROM_OS e < EM_ERRNO_START_USER"
proof -
  have "0 < uint e" using assms(1) by (metis uint_0_iff uint_ge_0 order_le_less)
  then show ?thesis
    using assms by (simp add: EM_STATUS_FROM_OS_def errno word_less_def uint_word_ariths)
qed

lemma os_error_space:
  assumes "e < EM_ERRNO_SPACE_SIZE"
  shows "em_set_os_error (em_get_os_error e) = e \<and> EM_RETURN_OS_ERROR e \<noteq> EM_SUCC \<and>
    (e \<noteq> 0 \<longrightarrow> EM_ERRNO_START_SYS < em_get_os_error e \<and> em_get_os_error e < EM_ERRNO_START_USER)"
proof -
  have ne: "e \<noteq> - EM_ERRNO_START_SYS" using assms by (auto simp: errno)
  show ?thesis
    using os_roundtrip [OF ne] return_os_error_nonzero [OF ne] from_os_range assms
    by (simp add: em_set_os_error_def em_get_os_error_def)
qed

section \<open>Messages\<close>

text \<open>A message of length \<open>len\<close> was written whole: \<open>len\<close> is what the buffer holds and it fits.\<close>

definition message_ok :: "em_size_t \<Rightarrow> string \<times> int \<Rightarrow> bool" where
  "message_ok bufsize r \<longleftrightarrow> snd r = int (length (fst r)) \<and> 0 < snd r \<and> snd r < int (unat bufsize)"

lemma err_str_nonempty: "e \<in> set err_str \<Longrightarrow> snd e \<noteq> []"
  by (auto simp: err_str_def EM_BUILD_ERR_def)

text \<open>A buffer of at least two bytes whose size an \<open>int\<close> can hold.\<close>

definition buf_ok :: "em_size_t \<Rightarrow> bool" where
  "buf_ok bufsize \<longleftrightarrow> 1 < unat bufsize \<and> unat bufsize < 2 ^ 31"

lemma buf_ok_ints:
  assumes "buf_ok n"
  shows "as_int n = int (unat n)" "unat (n - 1) = unat n - 1" "as_int (n - 1) = int (unat n) - 1" "n \<noteq> 0"
proof -
  show n: "n \<noteq> 0" using assms by (auto simp: buf_ok_def)
  show "as_int n = int (unat n)" using assms as_int_small by (simp add: buf_ok_def)
  have "unat n \<ge> 1" using assms by (simp add: buf_ok_def)
  then show u: "unat (n - 1) = unat n - 1" using unat_sub [of 1 n] by (simp add: word_le_nat_alt)
  moreover from this have "unat (n - 1) < 2 ^ 31" using assms unfolding buf_ok_def by linarith
  ultimately show "as_int (n - 1) = int (unat n) - 1"
    using assms as_int_small [of "n - 1"] by (simp add: buf_ok_def of_nat_diff del: of_nat_unat)
qed

lemma message_ok_finish_snprintf:
  assumes "buf_ok bufsize" "s \<noteq> []"
  shows "\<exists>r. strerror_finish bufsize (c_snprintf bufsize s) = Some r \<and> message_ok bufsize r"
  using assms(2) buf_ok_ints [OF assms(1)] assms(1)
  by (cases s) (auto simp: message_ok_def c_snprintf_def min_def strerror_finish_def Let_def buf_ok_def nat_diff_distrib'
      simp del: of_nat_unat)

lemma message_ok_finish_id:
  "buf_ok bufsize \<Longrightarrow> message_ok bufsize r \<Longrightarrow> \<exists>r'. strerror_finish bufsize r = Some r' \<and> message_ok bufsize r'"
  using buf_ok_ints [of bufsize] by (cases r) (auto simp: message_ok_def strerror_finish_def simp del: of_nat_unat)

text \<open>A message cut to the buffer.\<close>

lemma message_ok_cut:
  assumes "buf_ok sz" "msg \<noteq> []"
  defines "len \<equiv> if length msg \<ge> unat sz then sz - 1 else of_nat (length msg)"
  shows "message_ok sz (take (unat len) msg, as_int len)"
proof (cases "length msg \<ge> unat sz")
  case True
  then show ?thesis using buf_ok_ints [OF assms(1)] assms(1)
    by (simp add: len_def message_ok_def buf_ok_def del: of_nat_unat)
next
  case False
  then have "unat (of_nat (length msg) :: em_size_t) = length msg"
    using assms(1) by (simp add: buf_ok_def unat_of_nat take_bit_nat_eq_self)
  moreover from this have "as_int (of_nat (length msg)) = int (length msg)"
    using False assms(1) as_int_small [of "of_nat (length msg)"] by (simp add: buf_ok_def)
  ultimately show ?thesis using False assms(2) by (simp add: len_def message_ok_def del: of_nat_unat)
qed

lemma message_ok_platform:
  "buf_ok bufsize \<Longrightarrow> syserr e \<noteq> [] \<Longrightarrow> \<exists>r. platform_strerror syserr e bufsize = Some r \<and> message_ok bufsize r"
  using message_ok_cut [of bufsize "syserr e"] buf_ok_ints(4) [of bufsize]
  by (auto simp: platform_strerror_def Let_def split: if_splits)

lemma message_ok_emlib:
  assumes "buf_ok bufsize"
  shows "\<exists>r. emlib_error code bufsize = Some r \<and> message_ok bufsize r"
proof (cases "find (\<lambda>e. fst e = code) err_str")
  case None
  then show ?thesis
    using assms buf_ok_ints [OF assms] 
    by (auto simp: emlib_error_def message_ok_def c_snprintf_def min_def buf_ok_def simp del: of_nat_unat)
next
  case (Some e)
  then have "e \<in> set err_str" by (auto simp: find_Some_iff)
  then have "snd e \<noteq> []" by (rule err_str_nonempty)
  with Some message_ok_cut [OF assms this] buf_ok_ints(4) [OF assms] show ?thesis
    by (auto simp: emlib_error_def Let_def)
qed

lemma strerror_builtin:
  assumes "buf_ok bufsize" "\<forall>e. syserr e \<noteq> ''''" "statcode < EM_ERRNO_START_USER"
  shows "\<exists>r. em_strerror hs syserr call statcode bufsize = Some r \<and> message_ok bufsize r"
proof -
  have u: "statcode < EM_ERRNO_START_SYS + EM_ERRNO_SPACE_SIZE"
    using assms(3) by (simp add: EM_ERRNO_START_USER_def)
  obtain r1 where r1: "emlib_error statcode bufsize = Some r1" "message_ok bufsize r1"
    using message_ok_emlib [OF assms(1)] by blast
  obtain r2 where r2: "platform_strerror syserr (EM_STATUS_TO_OS statcode) bufsize = Some r2" "message_ok bufsize r2"
    using message_ok_platform [OF assms(1)] assms(2) by blast
  obtain r3 where r3: "strerror_finish bufsize r1 = Some r3" "message_ok bufsize r3"
    using message_ok_finish_id [OF assms(1) r1(2)] by blast
  obtain r4 where r4: "strerror_finish bufsize r2 = Some r4" "message_ok bufsize r4"
    using message_ok_finish_id [OF assms(1) r2(2)] by blast
  have p: "\<exists>r. strerror_finish bufsize (c_snprintf bufsize (c # cs)) = Some r \<and> message_ok bufsize r" for c cs
    by (rule message_ok_finish_snprintf [OF assms(1)]) simp
  show ?thesis unfolding em_strerror_def using u r1(1) r2(1) r3 r4 p by (simp del: split_paired_Ex)
qed

text \<open>
  A size of more than \<open>2 ^ 31\<close> does not survive the cast: the NUL is written before the buffer.  With
  \<open>2 ^ 31\<close> itself the length is that of the buffer and not that of the message.
\<close>

lemma strerror_big_buffer:
  "2 ^ 31 < unat bufsize \<Longrightarrow> unat bufsize \<le> 2 ^ 32 \<Longrightarrow> em_strerror hs syserr call EM_SUCC bufsize = None"
  "em_strerror hs syserr call EM_SUCC 0x80000000 = Some (''Success'', 0x7FFFFFFF)"
proof -
  assume b: "2 ^ 31 < unat bufsize" "unat bufsize \<le> 2 ^ 32"
  have neg: "as_int w < 0" if "2 ^ 31 \<le> unat w" "unat w < 2 ^ 32" for w
  proof -
    have "uint w < 2 ^ 32" "2 ^ 31 \<le> uint w" using that by (simp_all add: uint_nat del: of_nat_unat)
    then have "(uint w + 2 ^ 31) mod 2 ^ 32 = uint w - 2 ^ 31"
      using mod_pos_geq [of "2 ^ 32" "uint w + 2 ^ 31"] by (simp add: mod_pos_pos_trivial)
    then have "(uint w + 2 ^ 31) mod 2 ^ 32 - 2 ^ 31 < 0" using \<open>uint w < 2 ^ 32\<close> by simp
    then show ?thesis unfolding as_int_def by (simp add: sint_uint unsigned_ucast_eq signed_take_bit_eq_take_bit_shift take_bit_eq_mod mod_add_left_eq)
  qed
  have "unat (bufsize - 1) = unat bufsize - 1" using b(1) unat_sub [of 1 bufsize] by (simp add: word_le_nat_alt)
  then have "as_int (bufsize - 1) < 0" using b by (intro neg) simp_all
  moreover have "as_int bufsize \<le> 7"
  proof (cases "unat bufsize < 2 ^ 32")
    case True
    then show ?thesis using neg [of bufsize] b(1) by simp
  next
    case False
    then have "bufsize = 0x100000000" using b(2) by (intro unsigned_word_eqI) simp
    then show ?thesis by (simp add: as_int_def)
  qed
  ultimately show "em_strerror hs syserr call EM_SUCC bufsize = None"
    by (simp add: em_strerror_def strerror_finish_def c_snprintf_def Let_def)
next
  show "em_strerror hs syserr call EM_SUCC 0x80000000 = Some (''Success'', 0x7FFFFFFF)"
    by (simp add: em_strerror_def strerror_finish_def c_snprintf_def as_int_def EM_SUCC_def)
qed

section \<open>Registration and dispatch\<close>

definition ranges_disjoint :: "'f err_msg_hnd list \<Rightarrow> bool" where
  "ranges_disjoint hs \<longleftrightarrow>
     sorted_wrt (\<lambda>g h. eh_end g \<le> eh_begin h \<or> eh_end h \<le> eh_begin g) hs"

definition handlers_wf :: "'f err_msg_hnd list \<Rightarrow> bool" where
  "handlers_wf hs \<longleftrightarrow> length hs \<le> EMLIB_MAX_ERR_MSG_HANDLER \<and>
     (\<forall>h\<in>set hs. EM_ERRNO_START_USER \<le> eh_begin h \<and> eh_begin h < eh_end h)"

lemma range_no_wrap:
  fixes start space :: emlib_ret_t
  assumes "space \<noteq> 0" "unat start + unat space < 2 ^ 32"
  shows "start < start + space" "start \<le> start + space - 1" "start + space - 1 < start + space"
    "unat (start + space) = unat start + unat space"
proof -
  have sp: "0 < unat space" using assms(1) by (simp add: unat_gt_0)
  have eq: "unat (start + space) = unat start + unat space"
    using assms(2) by (subst unat_add_lem [THEN iffD1]) simp_all
  then have one: "(1 :: 32 word) \<le> start + space" using sp by (simp add: word_le_nat_alt)
  have eq1: "unat (start + space - 1) = unat start + unat space - 1"
    using unat_sub [OF one] eq by simp
  show "unat (start + space) = unat start + unat space" by (rule eq)
  show "start < start + space" "start \<le> start + space - 1" "start + space - 1 < start + space"
    using sp eq eq1 by (simp_all add: word_less_nat_alt word_le_nat_alt)
qed

lemma register_scan_None:
  "register_scan start space f hs = None \<longleftrightarrow>
   (\<forall>h\<in>set hs. \<not> IN_RANGE start (eh_begin h) (eh_end h) \<and>
      \<not> IN_RANGE (start + space - 1) (eh_begin h) (eh_end h))"
  by (induction hs) auto

lemma register_scan_same:
  assumes "register_scan start space f hs = Some EM_SUCC"
  shows "c = start \<or> c = start + space - 1 \<Longrightarrow> IN_RANGE c start (start + space) \<Longrightarrow>
    \<exists>h. find (\<lambda>h. IN_RANGE c (eh_begin h) (eh_end h)) hs = Some h \<and> eh_strerror h = f"
  using assms by (induction hs) (auto simp: errno split: if_splits)

lemma find_append_last:
  "\<forall>h\<in>set hs. \<not> P h \<Longrightarrow> P g \<Longrightarrow> find P (hs @ [g]) = Some g"
  by (induction hs) auto

lemma register_dispatch:
  assumes reg: "em_register_strerror hs start space (Some f) = (EM_SUCC, hs')"
    and wrap: "unat start + unat space < 2 ^ 32"
    and c: "c = start \<or> c = start + space - 1"
  shows "em_strerror hs' syserr call c bufsize = Some (call f c bufsize)"
proof -
  have g: "start \<noteq> 0" "space \<noteq> 0" "EM_ERRNO_START_USER \<le> start"
    using reg by (auto simp: em_register_strerror_def errno split: if_splits)
  note nw = range_no_wrap [OF g(2) wrap]
  have inr: "IN_RANGE c start (start + space)"
    using c nw by (auto simp: IN_RANGE_def)
  have "\<exists>h. find (\<lambda>h. IN_RANGE c (eh_begin h) (eh_end h)) hs' = Some h \<and> eh_strerror h = f"
  proof (cases "register_scan start space f hs")
    case None
    then have hs': "hs' = hs @ [\<lparr>eh_begin = start, eh_end = start + space, eh_strerror = f\<rparr>]"
      using reg g by (auto simp: em_register_strerror_def errno split: if_splits)
    show ?thesis
      unfolding hs' using None c inr
      by (subst find_append_last) (auto simp: register_scan_None)
  next
    case (Some r)
    then have "r = EM_SUCC" "hs' = hs"
      using reg g by (auto simp: em_register_strerror_def errno split: if_splits)
    with Some show ?thesis using register_scan_same [OF _ c inr] by simp
  qed
  moreover have "EM_ERRNO_START_USER \<le> c" using g(3) nw(2) c by auto
  then have "\<not> c < EM_ERRNO_START_SYS + EM_ERRNO_SPACE_SIZE"
    "\<not> c < EM_ERRNO_START_STATUS + EM_ERRNO_SPACE_SIZE"
    "\<not> c < EM_ERRNO_START + EM_ERRNO_SPACE_SIZE" "c \<noteq> EM_SUCC"
    by (auto simp: errno dest: order_le_less_trans)
  ultimately show ?thesis by (auto simp: em_strerror_def)
qed

lemma register_invariant:
  assumes reg: "em_register_strerror hs start space fp = (r, hs')"
    and wf: "handlers_wf hs" "ranges_disjoint hs"
    and wrap: "unat start + unat space < 2 ^ 32"
    and nocover: "\<forall>h\<in>set hs. \<not> (start < eh_begin h \<and> eh_end h < start + space)"
  shows "handlers_wf hs' \<and> ranges_disjoint hs'"
proof (cases "hs' = hs")
  case True
  with wf show ?thesis by simp
next
  case False
  then obtain f where g: "space \<noteq> 0" "EM_ERRNO_START_USER \<le> start" "length hs < EMLIB_MAX_ERR_MSG_HANDLER"
      "register_scan start space f hs = None"
      "hs' = hs @ [\<lparr>eh_begin = start, eh_end = start + space, eh_strerror = f\<rparr>]"
    using reg by (auto simp: em_register_strerror_def errno split: if_splits option.splits)
  note nw = range_no_wrap [OF g(1) wrap]
  have "eh_end h \<le> start \<or> start + space \<le> eh_begin h" if h: "h \<in> set hs" for h
  proof -
    have last: "eh_end h \<le> start + space - 1 \<Longrightarrow> eh_end h < start + space" using nw(3) by simp
    have end_le: "x \<le> start + space - 1 \<or> start + space \<le> x" for x :: emlib_ret_t
      using nw(1) by (metis add_diff_cancel_right' diff_add_cancel inc_le linorder_not_le)
    from g(4) h nocover wf(1) last end_le [of "eh_begin h"] end_le [of "eh_end h"] show ?thesis
      by (auto simp: register_scan_None IN_RANGE_def handlers_wf_def not_less not_le
          dest!: bspec intro: order_trans less_imp_le)
  qed
  then show ?thesis
    using wf g nw by (auto simp: handlers_wf_def ranges_disjoint_def sorted_wrt_append)
qed

section \<open>Properties\<close>

text \<open>
  Folding an operating-system error number of the 50000-code window into a status code and back
  (\<open>em_get_os_error\<close>, \<open>em_set_os_error\<close>) is the identity, a non-zero error lands strictly inside the
  SYS window of codes, and \<open>EM_RETURN_OS_ERROR\<close> never yields success, whatever the error number.
\<close>
lemma errno_os_fold:
  assumes "e < EM_ERRNO_SPACE_SIZE"
  shows "em_set_os_error (em_get_os_error e) = e \<and> EM_RETURN_OS_ERROR e \<noteq> EM_SUCC \<and>
    (e \<noteq> 0 \<longrightarrow> EM_ERRNO_START_SYS < em_get_os_error e \<and> em_get_os_error e < EM_ERRNO_START_USER)"
  by (rule os_error_space [OF assms])

lemma errno_os_fold_witness: "em_set_os_error (em_get_os_error 110) = 110 \<and> em_get_os_error 110 = 120110"
  using errno_os_fold [of 110] by (simp add: em_get_os_error_def EM_STATUS_FROM_OS_def errno)

text \<open>
  C35. For every code below the user range \<open>em_strerror\<close> fills a buffer with a non-empty message that fits
  with its NUL, and the returned length is the length of what was written.  The size of the buffer is at least two and
  below \<open>2 ^ 31\<close>, because the code casts it to \<open>int\<close>; \<open>strerror\<close> of the C library is assumed to return non-empty
  texts.
\<close>
theorem errno_strerror_fits:
  assumes "1 < unat bufsize" "unat bufsize < 2 ^ 31" "\<forall>e. syserr e \<noteq> ''''" "statcode < EM_ERRNO_START_USER"
  shows "\<exists>r. em_strerror hs syserr call statcode bufsize = Some r \<and> message_ok bufsize r"
  using strerror_builtin [of bufsize syserr statcode hs call] assms by (simp add: buf_ok_def)

lemma errno_strerror_fits_witness:
  "\<exists>r. em_strerror ([] :: unit err_msg_hnd list) (\<lambda>_. ''boom'') (\<lambda>_ _ _. ('''', 0)) EM_EBUSY 8 = Some r \<and> message_ok 8 r \<and>
     r = (''Object '', 7)"
proof -
  have "\<exists>r. em_strerror ([] :: unit err_msg_hnd list) (\<lambda>_. ''boom'') (\<lambda>_ _ _. ('''', 0)) EM_EBUSY 8 = Some r \<and> message_ok 8 r"
    by (rule errno_strerror_fits) (simp_all add: errno)
  moreover have "em_strerror ([] :: unit err_msg_hnd list) (\<lambda>_. ''boom'') (\<lambda>_ _ _. ('''', 0)) EM_EBUSY 8 = Some (''Object '', 7)"
    by (simp add: em_strerror_def emlib_error_def err_str_def EM_BUILD_ERR_def strerror_finish_def errno as_int_def)
  ultimately show ?thesis by simp
qed

text \<open>
  When \<open>em_register_strerror\<close> accepts a range that does not wrap, the first and the last code of the
  range are dispatched to that handler: no handler registered earlier takes them.
\<close>
lemma errno_register_dispatch:
  assumes "em_register_strerror hs start space (Some f) = (EM_SUCC, hs')"
    and "unat start + unat space < 2 ^ 32"
    and "c = start \<or> c = start + space - 1"
  shows "em_strerror hs' syserr call c bufsize = Some (call f c bufsize)"
  by (rule register_dispatch [OF assms])

lemma errno_register_dispatch_witness:
  "em_strerror [\<lparr>eh_begin = 180000, eh_end = 180010, eh_strerror = (1 :: int)\<rparr>] (\<lambda>_. '''')
     (\<lambda>f c n. (''H'', f)) 180009 80 = Some (''H'', 1)"
  using errno_register_dispatch [of "[]" 180000 10 1 _ 180009 "\<lambda>_. ''''" "\<lambda>f c n. (''H'', f)" 80]
  by (simp add: em_register_strerror_def errno EMLIB_MAX_ERR_MSG_HANDLER_def)

text \<open>
  Registration keeps the table well formed: at most ten handlers, every range non-empty and above
  the user start, ranges pairwise disjoint.  This needs that the new range does not strictly contain a
  registered one, the case the two end-point tests of the loop do not see.
\<close>
lemma errno_register_invariant:
  assumes "em_register_strerror hs start space fp = (r, hs')"
    and "handlers_wf hs" "ranges_disjoint hs"
    and "unat start + unat space < 2 ^ 32"
    and "\<forall>h\<in>set hs. \<not> (start < eh_begin h \<and> eh_end h < start + space)"
  shows "handlers_wf hs' \<and> ranges_disjoint hs'"
  by (rule register_invariant [OF assms])

lemma errno_register_invariant_witness:
  "handlers_wf (snd (em_register_strerror
      [\<lparr>eh_begin = 180000, eh_end = 180010, eh_strerror = (1 :: int)\<rparr>] 180010 5 (Some 2))) \<and>
   length (snd (em_register_strerror
      [\<lparr>eh_begin = 180000, eh_end = 180010, eh_strerror = (1 :: int)\<rparr>] 180010 5 (Some 2))) = 2"
  using errno_register_invariant [of "[\<lparr>eh_begin = 180000, eh_end = 180010, eh_strerror = (1 :: int)\<rparr>]"
    180010 5 "Some 2" "fst (em_register_strerror
      [\<lparr>eh_begin = 180000, eh_end = 180010, eh_strerror = (1 :: int)\<rparr>] 180010 5 (Some 2))"]
  by (simp add: em_register_strerror_def errno EMLIB_MAX_ERR_MSG_HANDLER_def IN_RANGE_def handlers_wf_def
      ranges_disjoint_def)

text \<open>
  A range that strictly contains a registered one is accepted, and the contained codes stay with the
  old handler although the new registration reported success.
\<close>
lemma errno_register_overlap:
  "let (r, hs) = em_register_strerror
         [\<lparr>eh_begin = 180010, eh_end = 180020, eh_strerror = (1 :: int)\<rparr>] 180000 100 (Some 2)
   in r = EM_SUCC \<and> \<not> ranges_disjoint hs \<and>
      em_strerror hs (\<lambda>_. '''') (\<lambda>f c n. (''H'', f)) 180015 80 = Some (''H'', 1)"
  by (simp add: em_register_strerror_def errno EMLIB_MAX_ERR_MSG_HANDLER_def IN_RANGE_def
      ranges_disjoint_def em_strerror_def)

end
