(* ===== verification/Emlib_Cbuf.thy ===== *)
theory Emlib_Cbuf
  imports Emlib_Errno
begin

unbundle bit_operations_syntax

text \<open>
  The byte buffer \<open>cstr\<close> of \<open>src/cbuf.c\<close> and \<open>include/em/cstr.h\<close>.  Bytes are appended at \<open>ulen\<close> and
  read at \<open>rpos\<close>; \<open>mlen\<close> caches the room left.  The memory behind \<open>buff\<close> is a list of bytes
  (\<^const>\<open>None\<close> for the null pointer) and an access outside it makes the operation \<^const>\<open>None\<close>.
  A \<open>cstr *\<close> argument is an option, null being \<^const>\<open>None\<close>.
\<close>

section \<open>State and operations\<close>

definition CSTR_ERR_NOMEM :: emlib_ret_t where [errno]: "CSTR_ERR_NOMEM = 0x1000 + 1"
definition CSTR_ERR_OVERFLOW :: emlib_ret_t where [errno]: "CSTR_ERR_OVERFLOW = 0x1000 + 2"

record cstr =
  buff :: "int8 list option"
  alen :: uint32
  ulen :: uint32
  mlen :: uint32
  rpos :: uint32

text \<open>\<open>calloc\<close> of the C library: its answer is the parameter \<open>mem_ok\<close>.\<close>

definition cstr_init_heap :: "bool \<Rightarrow> cstr option \<Rightarrow> uint32 \<Rightarrow> emlib_ret_t \<times> cstr option" where
  "cstr_init_heap mem_ok p buff_len =
     (case p of
        None \<Rightarrow> (EM_EINVAL, p)
      | Some cs \<Rightarrow>
          if \<not> buff_len > 0 then (EM_EINVAL, p)
          else if \<not> mem_ok then (CSTR_ERR_NOMEM, Some (cs\<lparr>buff := None\<rparr>))
          else (EM_SUCC, Some (cs\<lparr>buff := Some (replicate (unat buff_len) 0), alen := buff_len,
                                  ulen := 0, mlen := buff_len, rpos := 0\<rparr>)))"

definition cstr_heap_free :: "cstr option \<Rightarrow> emlib_ret_t \<times> cstr option" where
  "cstr_heap_free p =
     (case p of None \<Rightarrow> (EM_EINVAL, p) | Some cs \<Rightarrow> (EM_SUCC, Some (cs\<lparr>buff := None\<rparr>)))"

definition cstr_init_stack ::
  "cstr option \<Rightarrow> int8 list option \<Rightarrow> uint32 \<Rightarrow> (emlib_ret_t \<times> cstr option) option" where
  "cstr_init_stack p b buff_len =
     (case (p, b) of
        (Some cs, Some m) \<Rightarrow>
          if \<not> buff_len > 0 then Some (EM_EINVAL, p)
          else do {
            z \<leftarrow> mem_blit m 0 (replicate (unat buff_len) 0);
            Some (EM_SUCC, Some (cs\<lparr>buff := Some z, alen := buff_len, ulen := 0, mlen := buff_len,
                                    rpos := 0\<rparr>)) }
      | _ \<Rightarrow> Some (EM_EINVAL, p))"

definition cstr_init_reset :: "cstr option \<Rightarrow> (emlib_ret_t \<times> cstr option) option" where
  "cstr_init_reset p =
     (case p of
        None \<Rightarrow> Some (EM_EINVAL, p)
      | Some cs \<Rightarrow> do {
          m \<leftarrow> buff cs;
          z \<leftarrow> mem_blit m 0 (replicate (unat (alen cs)) 0);
          Some (EM_SUCC, Some (cs\<lparr>buff := Some z, ulen := 0, mlen := 0, rpos := 0\<rparr>)) })"

definition cstr_get_buff :: "cstr option \<Rightarrow> int8 list option" where
  "cstr_get_buff p = (case p of None \<Rightarrow> None | Some cs \<Rightarrow> buff cs)"

definition cstr_get_ulen :: "cstr option \<Rightarrow> uint32" where
  "cstr_get_ulen p = (case p of None \<Rightarrow> EM_EINVAL | Some cs \<Rightarrow> ulen cs)"

definition cstr_get_alen :: "cstr option \<Rightarrow> uint32" where
  "cstr_get_alen p = (case p of None \<Rightarrow> EM_EINVAL | Some cs \<Rightarrow> alen cs)"

definition cstr_get_mlen :: "cstr option \<Rightarrow> uint32" where
  "cstr_get_mlen p = (case p of None \<Rightarrow> EM_EINVAL | Some cs \<Rightarrow> mlen cs)"

text \<open>The two workers: the bytes come from, or go to, the caller's object \<open>data\<close>.\<close>

definition cstr_put_data :: "cstr \<Rightarrow> int8 list \<Rightarrow> uint32 \<Rightarrow> (emlib_ret_t \<times> cstr) option" where
  "cstr_put_data cs data data_len =
     (if mlen cs < data_len then Some (CSTR_ERR_NOMEM, cs)
      else do {
        m \<leftarrow> buff cs;
        d \<leftarrow> mem_slice data 0 (unat data_len);
        m' \<leftarrow> mem_blit m (unat (ulen cs)) d;
        let u = ulen cs + data_len;
        Some (EM_SUCC, cs\<lparr>buff := Some m', ulen := u, mlen := alen cs - u\<rparr>) })"

definition cstr_get_data ::
  "cstr \<Rightarrow> int8 list \<Rightarrow> uint32 \<Rightarrow> (emlib_ret_t \<times> cstr \<times> int8 list) option" where
  "cstr_get_data cs data data_len =
     (if ulen cs - rpos cs < data_len then Some (CSTR_ERR_OVERFLOW, cs, data)
      else do {
        m \<leftarrow> buff cs;
        d \<leftarrow> mem_slice m (unat (rpos cs)) (unat data_len);
        data' \<leftarrow> mem_blit data 0 d;
        Some (EM_SUCC, cs\<lparr>rpos := rpos cs + data_len\<rparr>, data') })"

text \<open>An integer object seen as its bytes, least significant first.\<close>

definition le16 :: "16 word \<Rightarrow> int8 list" where
  "le16 w = [ucast w, ucast (drop_bit 8 w)]"

definition un16 :: "int8 list \<Rightarrow> 16 word" where
  "un16 b = ucast (b ! 0) OR push_bit 8 (ucast (b ! 1))"

definition le32 :: "32 word \<Rightarrow> int8 list" where
  "le32 w = [ucast w, ucast (drop_bit 8 w), ucast (drop_bit 16 w), ucast (drop_bit 24 w)]"

definition un32 :: "int8 list \<Rightarrow> 32 word" where
  "un32 b = ucast (b ! 0) OR push_bit 8 (ucast (b ! 1)) OR push_bit 16 (ucast (b ! 2))
            OR push_bit 24 (ucast (b ! 3))"

definition on_cs ::
  "cstr option \<Rightarrow> (cstr \<Rightarrow> (emlib_ret_t \<times> cstr) option) \<Rightarrow> (emlib_ret_t \<times> cstr option) option" where
  "on_cs p f = (case p of None \<Rightarrow> Some (EM_EINVAL, None)
                | Some cs \<Rightarrow> map_option (map_prod id Some) (f cs))"

definition cstr_put_int8 :: "cstr option \<Rightarrow> 8 word \<Rightarrow> (emlib_ret_t \<times> cstr option) option" where
  "cstr_put_int8 p data = on_cs p (\<lambda>cs. cstr_put_data cs [data] 1)"

definition cstr_put_int16 :: "cstr option \<Rightarrow> 16 word \<Rightarrow> (emlib_ret_t \<times> cstr option) option" where
  "cstr_put_int16 p data = on_cs p (\<lambda>cs. cstr_put_data cs (le16 data) 2)"

definition cstr_put_int32 :: "cstr option \<Rightarrow> 32 word \<Rightarrow> (emlib_ret_t \<times> cstr option) option" where
  "cstr_put_int32 p data = on_cs p (\<lambda>cs. cstr_put_data cs (le32 data) 4)"

definition cstr_put_blob ::
  "cstr option \<Rightarrow> int8 list \<Rightarrow> uint32 \<Rightarrow> (emlib_ret_t \<times> cstr option) option" where
  "cstr_put_blob p data data_len = on_cs p (\<lambda>cs. cstr_put_data cs data data_len)"

text \<open>
  \<open>strncpy (dst, src, n)\<close> as the \<open>n\<close> bytes it writes: \<open>src\<close> up to its NUL, padded with NULs.  It is
  \<^const>\<open>None\<close> when \<open>src\<close> ends before its NUL.
\<close>

definition c_strncpy :: "int8 list \<Rightarrow> nat \<Rightarrow> int8 list option" where
  "c_strncpy src n =
     (let s = takeWhile (\<lambda>c. c \<noteq> 0) (take n src)
      in if length s < n \<and> length s = length src then None
         else Some (s @ replicate (n - length s) 0))"

definition cstr_put_str ::
  "cstr option \<Rightarrow> int8 list option \<Rightarrow> uint32 \<Rightarrow> (emlib_ret_t \<times> cstr option) option" where
  "cstr_put_str p str_p str_len =
     (case (p, str_p) of
        (Some cs, Some s) \<Rightarrow>
          if mlen cs < str_len then Some (CSTR_ERR_NOMEM, p)
          else do {
            m \<leftarrow> buff cs;
            d \<leftarrow> c_strncpy s (unat str_len);
            m' \<leftarrow> mem_blit m (unat (ulen cs)) d;
            Some (EM_SUCC, Some (cs\<lparr>buff := Some m', ulen := ulen cs + str_len\<rparr>)) }
      | _ \<Rightarrow> Some (EM_EINVAL, p))"

definition on_cs_get ::
  "cstr option \<Rightarrow> 'a \<Rightarrow> (cstr \<Rightarrow> (emlib_ret_t \<times> cstr \<times> 'a) option) \<Rightarrow>
   (emlib_ret_t \<times> cstr option \<times> 'a) option" where
  "on_cs_get p old f = (case p of None \<Rightarrow> Some (EM_EINVAL, None, old)
                        | Some cs \<Rightarrow> map_option (map_prod id (map_prod Some id)) (f cs))"

definition as_word :: "('a list \<Rightarrow> 'w) \<Rightarrow> (emlib_ret_t \<times> cstr \<times> 'a list) option \<Rightarrow>
  (emlib_ret_t \<times> cstr \<times> 'w) option" where
  "as_word g = map_option (map_prod id (map_prod id g))"

definition cstr_get_int8 ::
  "cstr option \<Rightarrow> 8 word \<Rightarrow> (emlib_ret_t \<times> cstr option \<times> 8 word) option" where
  "cstr_get_int8 p data = on_cs_get p data (\<lambda>cs. as_word hd (cstr_get_data cs [data] 1))"

definition cstr_get_uint8 ::
  "cstr option \<Rightarrow> 8 word \<Rightarrow> (emlib_ret_t \<times> cstr option \<times> 8 word) option" where
  "cstr_get_uint8 p data = on_cs_get p data (\<lambda>cs. as_word hd (cstr_get_data cs [data] 1))"

definition cstr_get_int16 ::
  "cstr option \<Rightarrow> 16 word \<Rightarrow> (emlib_ret_t \<times> cstr option \<times> 16 word) option" where
  "cstr_get_int16 p data = on_cs_get p data (\<lambda>cs. as_word un16 (cstr_get_data cs (le16 data) 2))"

definition cstr_get_uint16 ::
  "cstr option \<Rightarrow> 16 word \<Rightarrow> (emlib_ret_t \<times> cstr option \<times> 16 word) option" where
  "cstr_get_uint16 p data = on_cs_get p data (\<lambda>cs. as_word un16 (cstr_get_data cs (le16 data) 2))"

definition cstr_get_int32 ::
  "cstr option \<Rightarrow> 32 word \<Rightarrow> (emlib_ret_t \<times> cstr option \<times> 32 word) option" where
  "cstr_get_int32 p data = on_cs_get p data (\<lambda>cs. as_word un32 (cstr_get_data cs (le32 data) 4))"

definition cstr_get_uint32 ::
  "cstr option \<Rightarrow> 32 word \<Rightarrow> (emlib_ret_t \<times> cstr option \<times> 32 word) option" where
  "cstr_get_uint32 p data = on_cs_get p data (\<lambda>cs. as_word un32 (cstr_get_data cs (le32 data) 4))"

definition cstr_get_blob ::
  "cstr option \<Rightarrow> int8 list option \<Rightarrow> uint32 \<Rightarrow> (emlib_ret_t \<times> cstr option \<times> int8 list option) option" where
  "cstr_get_blob p data_p data_len =
     (case (p, data_p) of
        (Some cs, Some data) \<Rightarrow>
          map_option (map_prod id (map_prod Some Some)) (cstr_get_data cs data data_len)
      | _ \<Rightarrow> Some (EM_EINVAL, p, data_p))"

definition cstr_get_str ::
  "cstr option \<Rightarrow> int8 list option \<Rightarrow> uint32 \<Rightarrow> (emlib_ret_t \<times> cstr option \<times> int8 list option) option" where
  "cstr_get_str p str_p str_len =
     (case (p, str_p) of
        (Some cs, Some s) \<Rightarrow>
          if ulen cs - rpos cs < str_len then Some (CSTR_ERR_OVERFLOW, p, str_p)
          else do {
            m \<leftarrow> buff cs;
            d \<leftarrow> c_strncpy (drop (unat (rpos cs)) m) (unat str_len);
            s' \<leftarrow> mem_blit s 0 d;
            Some (EM_SUCC, Some (cs\<lparr>rpos := rpos cs + str_len\<rparr>), Some s') }
      | _ \<Rightarrow> Some (EM_EINVAL, p, str_p))"

section \<open>Little-endian integers\<close>

lemma le16_length [simp]: "length (le16 w) = 2" by (simp add: le16_def)
lemma le32_length [simp]: "length (le32 w) = 4" by (simp add: le32_def)

lemma un16_le16 [simp]: "un16 (le16 w) = w"
  by (rule bit_word_eqI)
    (auto simp: un16_def le16_def bit_or_iff bit_push_bit_iff bit_ucast_iff bit_drop_bit_eq)

lemma un32_le32 [simp]: "un32 (le32 w) = w"
proof (rule bit_word_eqI)
  fix n assume n: "n < LENGTH(32)"
  have "n < 8 \<or> (8 \<le> n \<and> n < 16) \<or> (16 \<le> n \<and> n < 24) \<or> (24 \<le> n \<and> n < 32)" using n by auto
  then show "bit (un32 (le32 w)) n = bit w n" using n
    by (auto simp: un32_def le32_def bit_or_iff bit_push_bit_iff bit_ucast_iff bit_drop_bit_eq
        eval_nat_numeral(3)[symmetric])
qed

section \<open>The buffer as a queue of bytes\<close>

text \<open>
  What the buffer promises: a queue of bytes with a room that appending uses up and reading does not
  give back.  \<open>limit\<close> bounds the size of one piece.
\<close>

fun seq_put :: "('q \<Rightarrow> 'b list \<Rightarrow> 'q option) \<Rightarrow> 'q \<Rightarrow> 'b list list \<Rightarrow> 'q option" where
  "seq_put put q [] = Some q"
| "seq_put put q (d # ds) = (case put q d of None \<Rightarrow> None | Some q' \<Rightarrow> seq_put put q' ds)"

fun seq_get :: "('q \<Rightarrow> nat \<Rightarrow> ('b list \<times> 'q) option) \<Rightarrow> 'q \<Rightarrow> nat list \<Rightarrow> ('b list list \<times> 'q) option" where
  "seq_get get q [] = Some ([], q)"
| "seq_get get q (n # ns) = (case get q n of None \<Rightarrow> None
     | Some (d, q') \<Rightarrow> map_option (\<lambda>(ds, r). (d # ds, r)) (seq_get get q' ns))"

locale byte_queue =
  fixes put :: "'q \<Rightarrow> 'b list \<Rightarrow> 'q option"
    and get :: "'q \<Rightarrow> nat \<Rightarrow> ('b list \<times> 'q) option"
    and inv :: "'q \<Rightarrow> bool"
    and abs :: "'q \<Rightarrow> 'b list"
    and room :: "'q \<Rightarrow> nat"
    and limit :: nat
  assumes put_ok: "\<And>q d. inv q \<Longrightarrow> length d \<le> room q \<Longrightarrow>
      \<exists>q'. put q d = Some q' \<and> inv q' \<and> abs q' = abs q @ d \<and> room q' = room q - length d"
    and put_full: "\<And>q d. inv q \<Longrightarrow> room q < length d \<Longrightarrow> length d < limit \<Longrightarrow> put q d = None"
    and get_ok: "\<And>q n. inv q \<Longrightarrow> n \<le> length (abs q) \<Longrightarrow>
      \<exists>q'. get q n = Some (take n (abs q), q') \<and> inv q' \<and> abs q' = drop n (abs q) \<and> room q' = room q"
    and get_under: "\<And>q n. inv q \<Longrightarrow> length (abs q) < n \<Longrightarrow> n < limit \<Longrightarrow> get q n = None"
begin

lemma put_all:
  "inv q \<Longrightarrow> length (concat ds) \<le> room q \<Longrightarrow>
   \<exists>q'. seq_put put q ds = Some q' \<and> inv q' \<and> abs q' = abs q @ concat ds \<and>
     room q' = room q - length (concat ds)"
proof (induction ds arbitrary: q)
  case (Cons d ds)
  then obtain q1 where q1: "put q d = Some q1" "inv q1" "abs q1 = abs q @ d"
      "room q1 = room q - length d"
    using put_ok [of q d] by auto
  with Cons.prems Cons.IH [of q1] show ?case by auto
qed simp

lemma get_all:
  "inv q \<Longrightarrow> abs q = concat ds @ rest \<Longrightarrow>
   \<exists>q'. seq_get get q (map length ds) = Some (ds, q') \<and> inv q' \<and> abs q' = rest \<and> room q' = room q"
proof (induction ds arbitrary: q)
  case (Cons d ds)
  then obtain q1 where q1: "get q (length d) = Some (d, q1)" "inv q1" "abs q1 = concat ds @ rest"
      "room q1 = room q"
    using get_ok [of q "length d"] by auto
  with Cons.IH [of q1] show ?case by auto
qed simp

lemma put_get_all:
  assumes "inv q" "abs q = []" "length (concat ds) \<le> room q"
  shows "\<exists>q1 q2. seq_put put q ds = Some q1 \<and> seq_get get q1 (map length ds) = Some (ds, q2) \<and>
    abs q2 = [] \<and> room q2 = room q - length (concat ds)"
proof -
  obtain q1 where q1: "seq_put put q ds = Some q1" "inv q1" "abs q1 = concat ds @ []"
      "room q1 = room q - length (concat ds)"
    using put_all [OF assms(1,3)] assms(2) by auto
  show ?thesis using q1 get_all [OF q1(2,3)] by auto
qed

end

definition cstr_wf :: "cstr \<Rightarrow> bool" where
  "cstr_wf cs \<longleftrightarrow>
     (case buff cs of None \<Rightarrow> False | Some m \<Rightarrow> unat (alen cs) \<le> length m) \<and>
     rpos cs \<le> ulen cs \<and> ulen cs \<le> alen cs \<and> mlen cs = alen cs - ulen cs"

definition cstr_bytes :: "cstr \<Rightarrow> int8 list" where
  "cstr_bytes cs = drop (unat (rpos cs)) (take (unat (ulen cs)) (the (buff cs)))"

lemma cstr_wfE:
  assumes "cstr_wf cs"
  obtains m where "buff cs = Some m" "unat (alen cs) \<le> length m" "unat (rpos cs) \<le> unat (ulen cs)"
    "unat (ulen cs) \<le> unat (alen cs)" "unat (mlen cs) = unat (alen cs) - unat (ulen cs)"
    "unat (ulen cs - rpos cs) = unat (ulen cs) - unat (rpos cs)"
  using assms by (auto simp: cstr_wf_def word_le_nat_alt unat_sub split: option.splits)

lemma cstr_bytes_length:
  assumes "cstr_wf cs"
  shows "length (cstr_bytes cs) = unat (ulen cs - rpos cs)"
  using assms by (rule cstr_wfE) (simp add: cstr_bytes_def)

lemma cstr_put_data_ok:
  assumes wf: "cstr_wf cs" and len: "unat n \<le> length data" "n \<le> mlen cs"
  shows "\<exists>cs'. cstr_put_data cs data n = Some (EM_SUCC, cs') \<and> cstr_wf cs' \<and>
    cstr_bytes cs' = cstr_bytes cs @ take (unat n) data \<and> alen cs' = alen cs \<and>
    unat (mlen cs') = unat (mlen cs) - unat n"
  using wf
proof (rule cstr_wfE)
  fix m assume m: "buff cs = Some m" "unat (alen cs) \<le> length m" "unat (rpos cs) \<le> unat (ulen cs)"
    "unat (ulen cs) \<le> unat (alen cs)" "unat (mlen cs) = unat (alen cs) - unat (ulen cs)"
  have n: "unat n \<le> unat (alen cs) - unat (ulen cs)" using len(2) m(5) by (simp add: word_le_nat_alt)
  have u: "unat (ulen cs + n) = unat (ulen cs) + unat n"
    using n m(4) unat_below [of "alen cs"] by (subst unat_add_lem [THEN iffD1]) simp_all
  let ?d = "take (unat n) data"
  let ?m' = "take (unat (ulen cs)) m @ ?d @ drop (unat (ulen cs) + unat n) m"
  let ?cs' = "cs\<lparr>buff := Some ?m', ulen := ulen cs + n, mlen := alen cs - (ulen cs + n)\<rparr>"
  have put: "cstr_put_data cs data n = Some (EM_SUCC, ?cs')"
    using len m n by (auto simp: cstr_put_data_def mem min_absorb2 Let_def not_less)
  have le: "ulen cs + n \<le> alen cs" using u n m(4) by (simp add: word_le_nat_alt)
  then have ml: "unat (alen cs - (ulen cs + n)) = unat (mlen cs) - unat n"
    using m(5) u by (simp add: unat_sub)
  have "cstr_wf ?cs'"
    using m n u le len by (simp add: cstr_wf_def word_le_nat_alt min_absorb2)
  moreover have "cstr_bytes ?cs' = cstr_bytes cs @ ?d"
    using m n u len by (simp add: cstr_bytes_def min_absorb2)
  ultimately show ?thesis using put ml by simp
qed

lemma cstr_put_data_full: "mlen cs < n \<Longrightarrow> cstr_put_data cs data n = Some (CSTR_ERR_NOMEM, cs)"
  by (simp add: cstr_put_data_def)

lemma cstr_get_data_ok:
  assumes wf: "cstr_wf cs" and len: "unat n \<le> length data" "n \<le> ulen cs - rpos cs"
  shows "\<exists>cs'. cstr_get_data cs data n =
      Some (EM_SUCC, cs', take (unat n) (cstr_bytes cs) @ drop (unat n) data) \<and> cstr_wf cs' \<and>
    cstr_bytes cs' = drop (unat n) (cstr_bytes cs) \<and> alen cs' = alen cs \<and> mlen cs' = mlen cs"
  using wf
proof (rule cstr_wfE)
  fix m assume m: "buff cs = Some m" "unat (alen cs) \<le> length m" "unat (rpos cs) \<le> unat (ulen cs)"
    "unat (ulen cs) \<le> unat (alen cs)" "unat (ulen cs - rpos cs) = unat (ulen cs) - unat (rpos cs)"
  have n: "unat n \<le> unat (ulen cs) - unat (rpos cs)" using len(2) m(5) by (simp add: word_le_nat_alt)
  have r: "unat (rpos cs + n) = unat (rpos cs) + unat n"
    using n m(3) unat_below [of "ulen cs"] by (subst unat_add_lem [THEN iffD1]) simp_all
  have tk: "take (unat n) (drop (unat (rpos cs)) m) = take (unat n) (cstr_bytes cs)"
    using m n by (simp add: cstr_bytes_def drop_take min_absorb1)
  let ?cs' = "cs\<lparr>rpos := rpos cs + n\<rparr>"
  have "cstr_get_data cs data n =
      Some (EM_SUCC, ?cs', take (unat n) (cstr_bytes cs) @ drop (unat n) data)"
    using len m n tk cstr_bytes_length [OF wf]
    by (auto simp: cstr_get_data_def mem min_absorb2 not_less)
  moreover have "cstr_wf ?cs'" using wf m n r by (auto simp: cstr_wf_def word_le_nat_alt)
  moreover have "cstr_bytes ?cs' = drop (unat n) (cstr_bytes cs)"
    using m r by (simp add: cstr_bytes_def add.commute)
  ultimately show ?thesis by simp
qed

lemma cstr_get_data_under:
  "ulen cs - rpos cs < n \<Longrightarrow> cstr_get_data cs data n = Some (CSTR_ERR_OVERFLOW, cs, data)"
  by (simp add: cstr_get_data_def)

text \<open>The buffer behind that interface: an error code is a refusal.\<close>

definition q_put :: "cstr \<Rightarrow> int8 list \<Rightarrow> cstr option" where
  "q_put cs d =
     (case cstr_put_blob (Some cs) d (of_nat (length d)) of
        Some (r, Some cs') \<Rightarrow> if r = EM_SUCC then Some cs' else None
      | _ \<Rightarrow> None)"

definition q_get :: "cstr \<Rightarrow> nat \<Rightarrow> (int8 list \<times> cstr) option" where
  "q_get cs n =
     (case cstr_get_blob (Some cs) (Some (replicate n 0)) (of_nat n) of
        Some (r, Some cs', Some d) \<Rightarrow> if r = EM_SUCC then Some (d, cs') else None
      | _ \<Rightarrow> None)"

lemma unat_of_nat32: "n < 2 ^ 32 \<Longrightarrow> unat (of_nat n :: uint32) = n"
  by (simp add: unat_of_nat take_bit_nat_eq_self)

lemma q_put_ok:
  assumes "cstr_wf cs" "length d \<le> unat (mlen cs)"
  shows "\<exists>cs'. q_put cs d = Some cs' \<and> cstr_wf cs' \<and> cstr_bytes cs' = cstr_bytes cs @ d \<and>
    unat (mlen cs') = unat (mlen cs) - length d"
proof -
  have l: "unat (of_nat (length d) :: uint32) = length d"
    using assms(2) unat_below [of "mlen cs"] by (intro unat_of_nat32) simp
  with assms show ?thesis
    using cstr_put_data_ok [OF assms(1), of "of_nat (length d)" d]
    by (auto simp: q_put_def cstr_put_blob_def on_cs_def word_le_nat_alt)
qed

lemma q_get_ok:
  assumes "cstr_wf cs" "n \<le> length (cstr_bytes cs)"
  shows "\<exists>cs'. q_get cs n = Some (take n (cstr_bytes cs), cs') \<and> cstr_wf cs' \<and>
    cstr_bytes cs' = drop n (cstr_bytes cs) \<and> unat (mlen cs') = unat (mlen cs)"
proof -
  have l: "unat (of_nat n :: uint32) = n"
    using assms(2) cstr_bytes_length [OF assms(1)] unat_below [of "ulen cs - rpos cs"]
    by (intro unat_of_nat32) simp
  with assms show ?thesis
    using cstr_get_data_ok [OF assms(1), of "of_nat n" "replicate n 0"]
    by (auto simp: q_get_def cstr_get_blob_def word_le_nat_alt cstr_bytes_length)
qed

lemma q_put_full:
  "unat (mlen cs) < length d \<Longrightarrow> length d < 2 ^ 32 \<Longrightarrow> q_put cs d = None"
  using unat_of_nat32 [of "length d"]
  by (simp add: q_put_def cstr_put_blob_def on_cs_def cstr_put_data_full word_less_nat_alt errno)

lemma q_get_under:
  "cstr_wf cs \<Longrightarrow> length (cstr_bytes cs) < n \<Longrightarrow> n < 2 ^ 32 \<Longrightarrow> q_get cs n = None"
  using unat_of_nat32 [of n]
  by (simp add: q_get_def cstr_get_blob_def cstr_get_data_under word_less_nat_alt errno cstr_bytes_length)

interpretation cq: byte_queue q_put q_get cstr_wf cstr_bytes "\<lambda>cs. unat (mlen cs)" "2 ^ 32"
  by unfold_locales (blast intro: q_put_ok q_get_ok q_put_full q_get_under)+

lemma cstr_init_stack_wf:
  assumes "0 < n" "unat n \<le> length m"
  shows "\<exists>cs'. cstr_init_stack (Some cs) (Some m) n = Some (EM_SUCC, Some cs') \<and> cstr_wf cs' \<and>
    cstr_bytes cs' = [] \<and> mlen cs' = n"
  using assms by (auto simp: cstr_init_stack_def mem cstr_wf_def cstr_bytes_def word_gt_0)

text \<open>Two- and four-byte integers come back as they were put.\<close>

lemma cstr_put_get_word:
  assumes "cstr_wf cs" "cstr_bytes cs = []" "length b = k" "k \<le> unat (mlen cs)" "length old = k"
    "unat n = k"
  shows "\<exists>cs1 cs2. cstr_put_data cs b n = Some (EM_SUCC, cs1) \<and>
    cstr_get_data cs1 old n = Some (EM_SUCC, cs2, b) \<and> cstr_wf cs2 \<and> cstr_bytes cs2 = []"
proof -
  obtain cs1 where 1: "cstr_put_data cs b n = Some (EM_SUCC, cs1)" "cstr_wf cs1" "cstr_bytes cs1 = b"
    using cstr_put_data_ok [OF assms(1), of n b] assms by (auto simp: word_le_nat_alt)
  have "n \<le> ulen cs1 - rpos cs1"
    using cstr_bytes_length [OF 1(2)] 1(3) assms by (simp add: word_le_nat_alt)
  with cstr_get_data_ok [OF 1(2), of n old] 1 assms show ?thesis by auto
qed

lemma cstr_word_roundtrip:
  assumes "cstr_wf cs" "cstr_bytes cs = []" "4 \<le> mlen cs"
  shows "\<exists>p1 p2. cstr_put_int16 (Some cs) w = Some (EM_SUCC, p1) \<and>
      cstr_get_uint16 p1 v = Some (EM_SUCC, p2, w)"
    "\<exists>p1 p2. cstr_put_int32 (Some cs) w' = Some (EM_SUCC, p1) \<and>
      cstr_get_uint32 p1 v' = Some (EM_SUCC, p2, w')"
proof -
  have r: "4 \<le> unat (mlen cs)" using assms(3) by (simp add: word_le_nat_alt)
  from cstr_put_get_word [OF assms(1,2), of "le16 w" 2 "le16 v" 2] r
  show "\<exists>p1 p2. cstr_put_int16 (Some cs) w = Some (EM_SUCC, p1) \<and>
      cstr_get_uint16 p1 v = Some (EM_SUCC, p2, w)"
    by (auto simp: cstr_put_int16_def cstr_get_uint16_def on_cs_def on_cs_get_def as_word_def)
  from cstr_put_get_word [OF assms(1,2), of "le32 w'" 4 "le32 v'" 4] r
  show "\<exists>p1 p2. cstr_put_int32 (Some cs) w' = Some (EM_SUCC, p1) \<and>
      cstr_get_uint32 p1 v' = Some (EM_SUCC, p2, w')"
    by (auto simp: cstr_put_int32_def cstr_get_uint32_def on_cs_def on_cs_get_def as_word_def)
qed

section \<open>Properties\<close>

text \<open>
  C34. FIFO of the byte buffer: on an initialised stack buffer, any sequence of blobs whose total length
  fits the buffer is accepted, and reading with the same lengths returns the same blobs in order,
  leaving the buffer empty with the room reduced by what was written.
\<close>
theorem cbuf_fifo:
  assumes "0 < n" "unat n \<le> length m" "length (concat ds) \<le> unat n"
  shows "\<exists>cs q1 q2. cstr_init_stack (Some c0) (Some m) n = Some (EM_SUCC, Some cs) \<and>
    seq_put q_put cs ds = Some q1 \<and> seq_get q_get q1 (map length ds) = Some (ds, q2) \<and>
    cstr_bytes q2 = [] \<and> unat (mlen q2) = unat n - length (concat ds)"
proof -
  obtain cs where cs: "cstr_init_stack (Some c0) (Some m) n = Some (EM_SUCC, Some cs)" "cstr_wf cs"
      "cstr_bytes cs = []" "mlen cs = n"
    using cstr_init_stack_wf [OF assms(1,2)] by blast
  with cq.put_get_all [OF cs(2,3), of ds] assms(3) show ?thesis by auto
qed

lemma cbuf_fifo_witness:
  "\<exists>cs q1 q2. cstr_init_stack (Some \<lparr>buff = None, alen = 0, ulen = 0, mlen = 0, rpos = 0\<rparr>)
      (Some (replicate 8 7)) 8 = Some (EM_SUCC, Some cs) \<and>
    seq_put q_put cs [[1, 2, 3], [], [4, 5]] = Some q1 \<and>
    seq_get q_get q1 (map length [[1 :: int8, 2, 3], [], [4, 5]]) = Some ([[1, 2, 3], [], [4, 5]], q2) \<and>
    cstr_bytes q2 = [] \<and> unat (mlen q2) = 3"
  using cbuf_fifo [of 8 "replicate 8 7" "[[1, 2, 3], [], [4, 5]]"
      "\<lparr>buff = None, alen = 0, ulen = 0, mlen = 0, rpos = 0\<rparr>"]
  by (simp del: seq_put.simps seq_get.simps list.map)

text \<open>
  Appending is exact: a blob that fits is appended to the unread bytes and takes its length from
  the room, keeping the buffer well formed; one that does not fit is refused with
  \<open>CSTR_ERR_NOMEM\<close> and changes nothing.
\<close>
lemma cbuf_put_exact:
  assumes "cstr_wf cs" "unat n \<le> length data"
  shows "if n \<le> mlen cs
    then \<exists>cs'. cstr_put_blob (Some cs) data n = Some (EM_SUCC, Some cs') \<and> cstr_wf cs' \<and>
      cstr_bytes cs' = cstr_bytes cs @ take (unat n) data \<and> alen cs' = alen cs \<and>
      unat (mlen cs') = unat (mlen cs) - unat n
    else cstr_put_blob (Some cs) data n = Some (CSTR_ERR_NOMEM, Some cs)"
  using cstr_put_data_ok [OF assms] by (auto simp: cstr_put_blob_def on_cs_def cstr_put_data_full not_le)

lemma cbuf_put_exact_witness:
  "cstr_put_blob (Some \<lparr>buff = Some [9, 0], alen = 2, ulen = 2, mlen = 0, rpos = 0\<rparr>) [5, 6] 2
   = Some (CSTR_ERR_NOMEM, Some \<lparr>buff = Some [9, 0], alen = 2, ulen = 2, mlen = 0, rpos = 0\<rparr>)"
proof -
  have "cstr_wf \<lparr>buff = Some [9, 0], alen = 2, ulen = 2, mlen = 0, rpos = 0\<rparr>"
    by (simp add: cstr_wf_def)
  from cbuf_put_exact [OF this, of 2 "[5, 6]"] show ?thesis by (simp split: if_splits)
qed

text \<open>
  A 16-bit or 32-bit integer put into an empty buffer with room for it is read back unchanged.
\<close>
lemma cbuf_int_roundtrip:
  assumes "cstr_wf cs" "cstr_bytes cs = []" "4 \<le> mlen cs"
  shows "(\<exists>p1 p2. cstr_put_int16 (Some cs) w = Some (EM_SUCC, p1) \<and>
      cstr_get_uint16 p1 v = Some (EM_SUCC, p2, w)) \<and>
    (\<exists>p1 p2. cstr_put_int32 (Some cs) w' = Some (EM_SUCC, p1) \<and>
      cstr_get_uint32 p1 v' = Some (EM_SUCC, p2, w'))"
  using cstr_word_roundtrip [OF assms] by blast

lemma cbuf_int_roundtrip_witness:
  "\<exists>p1 p2. cstr_put_int32 (Some \<lparr>buff = Some [0, 0, 0, 0], alen = 4, ulen = 0, mlen = 4, rpos = 0\<rparr>) 0xdeadbeef
      = Some (EM_SUCC, p1) \<and> cstr_get_uint32 p1 0 = Some (EM_SUCC, p2, 0xdeadbeef)"
  using cbuf_int_roundtrip [of "\<lparr>buff = Some [0, 0, 0, 0], alen = 4, ulen = 0, mlen = 4, rpos = 0\<rparr>" 0 0
      "0xdeadbeef" 0]
  by (simp add: cstr_wf_def cstr_bytes_def)

text \<open>
  \<open>cstr_put_str\<close> does not refresh the cached room: after one string that fills a four-byte buffer
  the next put still finds room for four bytes and writes past the end of the memory.
\<close>
lemma cbuf_put_str_stale_room:
  "\<exists>p. cstr_put_str (Some \<lparr>buff = Some [0, 0, 0, 0], alen = 4, ulen = 0, mlen = 4, rpos = 0\<rparr>)
        (Some [65, 66, 67, 68]) 4 = Some (EM_SUCC, Some p) \<and>
     ulen p = alen p \<and> mlen p = 4 \<and> cstr_put_int8 (Some p) 69 = None"
  by (simp add: cstr_put_str_def c_strncpy_def mem cstr_put_int8_def on_cs_def cstr_put_data_def Let_def)

text \<open>
  \<open>cstr_init_reset\<close> sets the room to 0, so a buffer that was reset refuses every non-empty blob for
  ever: each put answers \<open>CSTR_ERR_NOMEM\<close> and leaves it as it is.
\<close>
lemma cbuf_reset_unusable:
  assumes "cstr_wf cs"
  shows "\<exists>cs'. cstr_init_reset (Some cs) = Some (EM_SUCC, Some cs') \<and>
    (\<forall>data n. 0 < n \<longrightarrow> cstr_put_blob (Some cs') data n = Some (CSTR_ERR_NOMEM, Some cs'))"
  using assms
  by (auto simp: cstr_wf_def cstr_init_reset_def mem cstr_put_blob_def on_cs_def cstr_put_data_def
      split: option.splits)

lemma cbuf_reset_unusable_witness:
  "\<exists>cs'. cstr_init_reset (Some \<lparr>buff = Some [7, 7], alen = 2, ulen = 0, mlen = 2, rpos = 0\<rparr>)
      = Some (EM_SUCC, Some cs') \<and> cstr_put_blob (Some cs') [1] 1 = Some (CSTR_ERR_NOMEM, Some cs')"
  using cbuf_reset_unusable [of "\<lparr>buff = Some [7, 7], alen = 2, ulen = 0, mlen = 2, rpos = 0\<rparr>"]
  by (auto simp: cstr_wf_def)

end
