(* ===== verification/Emlib_Pool.thy ===== *)
theory Emlib_Pool
  imports Emlib_Errno "HOL-Library.Multiset"
begin

unbundle bit_operations_syntax

text \<open>
  Memory pools: \<open>src/pool.c\<close>, \<open>include/em/pool_i.h\<close>, the allocation policies
  \<open>src/pool_policy_malloc.c\<close> and \<open>src/pool_buf.c\<close>.  Addresses and sizes are 64-bit words with the
  wrap-around of C.  The block list is the list of its nodes from \<open>head.next\<close> on; that the pointer
  rings behave as such lists is proved in \<open>Emlib_List\<close>.  What a pool keeps outside itself, its
  factory, is a state of type \<open>'s\<close> threaded through the policy functions.
\<close>

section \<open>Blocks and pools\<close>

definition EM_POOL_ALIGNMENT :: em_size_t where "EM_POOL_ALIGNMENT = 4"
definition EM_MAX_OBJ_NAME :: nat where "EM_MAX_OBJ_NAME = 32"

text \<open>The sizes of the two C structures on the LP64 ABI.\<close>

definition sizeof_em_pool_block :: em_size_t where "sizeof_em_pool_block = 40"
definition sizeof_em_pool_t :: em_size_t where "sizeof_em_pool_t = 128"

lemmas pool_const = EM_POOL_ALIGNMENT_def EM_MAX_OBJ_NAME_def sizeof_em_pool_block_def sizeof_em_pool_t_def

definition ALIGN_PTR :: "ptr \<Rightarrow> em_size_t \<Rightarrow> ptr" where
  "ALIGN_PTR p alignment = p + (- p AND (alignment - 1))"

text \<open>
  \<open>b_addr\<close> is the address of the block's own header.  A pool callback may return or throw the
  exception it names.
\<close>

record em_pool_block =
  b_addr :: ptr
  b_buf :: ptr
  b_cur :: ptr
  b_end :: ptr

type_synonym em_pool_callback = "em_size_t \<Rightarrow> int option"

record em_pool_t =
  p_addr :: ptr
  obj_name :: string
  factory_data :: "64 word"
  capacity :: em_size_t
  increment_size :: em_size_t
  block_list :: "em_pool_block list"
  p_callback :: "em_pool_callback option"

record 's em_pool_factory_policy =
  block_alloc :: "'s \<Rightarrow> em_size_t \<Rightarrow> ptr \<times> 's"
  block_free :: "('s \<Rightarrow> ptr \<Rightarrow> em_size_t \<Rightarrow> 's) option"
  policy_callback :: "em_pool_callback option"

text \<open>How a call ends: with a value, with an exception, or by calling through a null pointer.\<close>

datatype 'a outcome = Ret 'a | Raised int | Fault

definition call_callback :: "em_pool_callback option \<Rightarrow> em_size_t \<Rightarrow> 'a \<Rightarrow> 'a outcome" where
  "call_callback cb sz v =
     (case cb of None \<Rightarrow> Fault
      | Some f \<Rightarrow> (case f sz of None \<Rightarrow> Ret v | Some e \<Rightarrow> Raised e))"

definition em_pool_get_capacity :: "em_pool_t \<Rightarrow> em_size_t" where
  "em_pool_get_capacity pool = capacity pool"

fun used_of_blocks :: "em_pool_block list \<Rightarrow> em_size_t \<Rightarrow> em_size_t" where
  "used_of_blocks [] acc = acc"
| "used_of_blocks (b # bs) acc = used_of_blocks bs (acc + ((b_cur b - b_buf b) + sizeof_em_pool_block))"

definition em_pool_get_used_size :: "em_pool_t \<Rightarrow> em_size_t" where
  "em_pool_get_used_size pool = used_of_blocks (block_list pool) sizeof_em_pool_t"

definition em_pool_getobjname :: "em_pool_t \<Rightarrow> string" where
  "em_pool_getobjname pool = obj_name pool"

definition round_up :: "em_size_t \<Rightarrow> em_size_t" where
  "round_up sz =
     (if sz AND (EM_POOL_ALIGNMENT - 1) \<noteq> 0
      then (sz + EM_POOL_ALIGNMENT) AND NOT (EM_POOL_ALIGNMENT - 1) else sz)"

definition em_pool_alloc_from_block :: "em_pool_block \<Rightarrow> em_size_t \<Rightarrow> ptr \<times> em_pool_block" where
  "em_pool_alloc_from_block b sz =
     (let n = round_up sz in
      if b_end b - b_cur b \<ge> n then (b_cur b, b\<lparr>b_cur := b_cur b + n\<rparr>) else (0, b))"

definition em_pool_create_block ::
  "'s em_pool_factory_policy \<Rightarrow> em_pool_t \<Rightarrow> em_size_t \<Rightarrow> 's \<Rightarrow>
   em_pool_block option outcome \<times> em_pool_t \<times> 's" where
  "em_pool_create_block pol pool sz s =
     (let (addr, s') = block_alloc pol s sz in
      if addr = 0 then (call_callback (p_callback pool) sz None, pool, s')
      else
        let buf = addr + sizeof_em_pool_block;
            blk = \<lparr>b_addr = addr, b_buf = buf, b_cur = ALIGN_PTR buf EM_POOL_ALIGNMENT, b_end = addr + sz\<rparr>
        in (Ret (Some blk),
            pool\<lparr>capacity := capacity pool + sz, block_list := blk # block_list pool\<rparr>, s'))"

text \<open>The loop over the blocks: the first one with space, and the list with that block updated.\<close>

fun find_space :: "em_pool_block list \<Rightarrow> em_size_t \<Rightarrow> (ptr \<times> em_pool_block list) option" where
  "find_space [] sz = None"
| "find_space (b # bs) sz =
     (let (p, b') = em_pool_alloc_from_block b sz in
      if p \<noteq> 0 then Some (p, b' # bs)
      else map_option (\<lambda>(q, bs'). (q, b' # bs')) (find_space bs sz))"

definition grow_size :: "em_size_t \<Rightarrow> em_size_t \<Rightarrow> em_size_t" where
  "grow_size increment sz =
     (if increment < sz + sizeof_em_pool_block + EM_POOL_ALIGNMENT
      then (sz + increment + sizeof_em_pool_block + EM_POOL_ALIGNMENT) div increment * increment
      else increment)"

definition em_pool_allocate_find ::
  "'s em_pool_factory_policy \<Rightarrow> em_pool_t \<Rightarrow> em_size_t \<Rightarrow> 's \<Rightarrow> ptr outcome \<times> em_pool_t \<times> 's" where
  "em_pool_allocate_find pol pool sz s =
     (case find_space (block_list pool) sz of
        Some (p, bs) \<Rightarrow> (Ret p, pool\<lparr>block_list := bs\<rparr>, s)
      | None \<Rightarrow>
          if increment_size pool = 0 then (call_callback (p_callback pool) sz 0, pool, s)
          else
            (case em_pool_create_block pol pool (grow_size (increment_size pool) sz) s of
               (Ret None, pool', s') \<Rightarrow> (Ret 0, pool', s')
             | (Ret (Some blk), pool', s') \<Rightarrow>
                 (let (p, blk') = em_pool_alloc_from_block blk sz
                  in (Ret p, pool'\<lparr>block_list := blk' # tl (block_list pool')\<rparr>, s'))
             | (Raised e, pool', s') \<Rightarrow> (Raised e, pool', s')
             | (Fault, pool', s') \<Rightarrow> (Fault, pool', s')))"

text \<open>
  The fast path looks at \<open>block_list.next\<close> only.  In an empty ring that is the list head, which is all
  zero and gives the null pointer.
\<close>

definition em_pool_alloc ::
  "'s em_pool_factory_policy \<Rightarrow> em_pool_t \<Rightarrow> em_size_t \<Rightarrow> 's \<Rightarrow> ptr outcome \<times> em_pool_t \<times> 's" where
  "em_pool_alloc pol pool sz s =
     (case block_list pool of
        [] \<Rightarrow> em_pool_allocate_find pol pool sz s
      | b # bs \<Rightarrow>
          (let (p, b') = em_pool_alloc_from_block b sz;
               pool' = pool\<lparr>block_list := b' # bs\<rparr>
           in if p = 0 then em_pool_allocate_find pol pool' sz s else (Ret p, pool', s)))"

definition em_bzero :: "(ptr \<Rightarrow> int8) \<Rightarrow> ptr \<Rightarrow> em_size_t \<Rightarrow> (ptr \<Rightarrow> int8)" where
  "em_bzero memory p n = (\<lambda>a. if a - p < n then 0 else memory a)"

definition em_pool_calloc ::
  "'s em_pool_factory_policy \<Rightarrow> em_pool_t \<Rightarrow> em_size_t \<Rightarrow> em_size_t \<Rightarrow> (ptr \<Rightarrow> int8) \<Rightarrow> 's \<Rightarrow>
   ptr outcome \<times> em_pool_t \<times> (ptr \<Rightarrow> int8) \<times> 's" where
  "em_pool_calloc pol pool n sz memory s =
     (case em_pool_alloc pol pool (sz * n) s of
        (Ret p, pool', s') \<Rightarrow>
          (Ret p, pool', if p \<noteq> 0 then em_bzero memory p (sz * n) else memory, s')
      | (r, pool', s') \<Rightarrow> (r, pool', memory, s'))"

section \<open>Creation, reset and destruction\<close>

text \<open>\<open>snprintf\<close> with the caller's format and the pool's address is the parameter \<open>fmt\<close>.\<close>

definition em_pool_init_int ::
  "(string \<Rightarrow> ptr \<Rightarrow> string) \<Rightarrow> em_pool_t \<Rightarrow> string option \<Rightarrow> em_size_t \<Rightarrow> em_pool_callback option \<Rightarrow>
   em_pool_t" where
  "em_pool_init_int fmt pool name increment cb =
     pool\<lparr>increment_size := increment, p_callback := cb,
          obj_name := (case name of
             None \<Rightarrow> ''''
           | Some nm \<Rightarrow>
               if CHR ''%'' \<in> set nm then take (EM_MAX_OBJ_NAME - 1) (fmt nm (p_addr pool))
               else take (EM_MAX_OBJ_NAME - 1) nm)\<rparr>"

definition em_pool_create_int ::
  "(string \<Rightarrow> ptr \<Rightarrow> string) \<Rightarrow> 's em_pool_factory_policy \<Rightarrow> string option \<Rightarrow> em_size_t \<Rightarrow> em_size_t \<Rightarrow>
   em_pool_callback option \<Rightarrow> 's \<Rightarrow> em_pool_t option \<times> 's" where
  "em_pool_create_int fmt pol name initial_size increment cb s =
     (if \<not> initial_size \<ge> sizeof_em_pool_t + sizeof_em_pool_block then (None, s)
      else
        let cb' = (if cb = None then policy_callback pol else cb);
            (buffer, s') = block_alloc pol s initial_size
        in if buffer = 0 then (None, s')
           else
             let blk_addr = buffer + sizeof_em_pool_t;
                 buf = blk_addr + sizeof_em_pool_block;
                 blk = \<lparr>b_addr = blk_addr, b_buf = buf, b_cur = ALIGN_PTR buf EM_POOL_ALIGNMENT,
                        b_end = buffer + initial_size\<rparr>;
                 pool = \<lparr>p_addr = buffer, obj_name = '''', factory_data = 0, capacity = 0,
                         increment_size = 0, block_list = [blk], p_callback = None\<rparr>
             in (Some ((em_pool_init_int fmt pool name increment cb')\<lparr>capacity := initial_size\<rparr>), s'))"

text \<open>The loop of \<open>reset_pool\<close>, from the last block but one back to the head.\<close>

fun free_blocks ::
  "'s em_pool_factory_policy \<Rightarrow> em_pool_block list \<Rightarrow> 's \<Rightarrow> 's option" where
  "free_blocks pol [] s = Some s"
| "free_blocks pol (b # bs) s =
     (case block_free pol of
        None \<Rightarrow> None
      | Some bf \<Rightarrow> free_blocks pol bs (bf s (b_addr b) (b_end b - b_addr b)))"

definition reset_pool ::
  "'s em_pool_factory_policy \<Rightarrow> em_pool_t \<Rightarrow> 's \<Rightarrow> (em_pool_t \<times> 's) option" where
  "reset_pool pol pool s =
     (if block_list pool = [] then Some (pool, s)
      else do {
        s' \<leftarrow> free_blocks pol (rev (butlast (block_list pool))) s;
        let b = last (block_list pool);
        Some (pool\<lparr>block_list := [b\<lparr>b_cur := ALIGN_PTR (b_buf b) EM_POOL_ALIGNMENT\<rparr>],
                   capacity := b_end b - p_addr pool\<rparr>, s') })"

text \<open>The percentage in the log line divides by the capacity.\<close>

definition em_pool_reset ::
  "'s em_pool_factory_policy \<Rightarrow> em_pool_t \<Rightarrow> 's \<Rightarrow> (em_pool_t \<times> 's) option" where
  "em_pool_reset pol pool s = (if capacity pool = 0 then None else reset_pool pol pool s)"

definition em_pool_destroy_int ::
  "'s em_pool_factory_policy \<Rightarrow> em_pool_t \<Rightarrow> 's \<Rightarrow> 's option" where
  "em_pool_destroy_int pol pool s =
     (if capacity pool = 0 then None
      else do {
        (pool', s') \<leftarrow> reset_pool pol pool s;
        let initial_size = (case block_list pool' of [] \<Rightarrow> 0 | b # _ \<Rightarrow> b_end b) - p_addr pool;
        Some (case block_free pol of None \<Rightarrow> s' | Some bf \<Rightarrow> bf s' (p_addr pool) initial_size) })"

section \<open>The default policy\<close>

text \<open>
  \<open>malloc\<close> and \<open>free\<close> are parameters.  The two notification hooks of the factory are
  \<^const>\<open>None\<close> when the pointer is null; \<open>on_block_alloc\<close> can refuse.
\<close>

definition default_block_alloc ::
  "('s \<Rightarrow> em_size_t \<Rightarrow> ptr \<times> 's) \<Rightarrow> ('s \<Rightarrow> em_size_t \<Rightarrow> bool \<times> 's) option \<Rightarrow> ('s \<Rightarrow> em_size_t \<Rightarrow> 's) option \<Rightarrow>
   's \<Rightarrow> em_size_t \<Rightarrow> ptr \<times> 's" where
  "default_block_alloc c_malloc on_alloc on_free s sz =
     (let (rc, s1) = (case on_alloc of None \<Rightarrow> (True, s) | Some h \<Rightarrow> h s sz)
      in if \<not> rc then (0, s1)
         else let (p, s2) = c_malloc s1 sz
              in (p, if p = 0 then (case on_free of None \<Rightarrow> s2 | Some h \<Rightarrow> h s2 sz) else s2))"

definition default_block_free ::
  "('s \<Rightarrow> ptr \<Rightarrow> 's) \<Rightarrow> ('s \<Rightarrow> em_size_t \<Rightarrow> 's) option \<Rightarrow> 's \<Rightarrow> ptr \<Rightarrow> em_size_t \<Rightarrow> 's" where
  "default_block_free c_free on_free s p sz =
     c_free (case on_free of None \<Rightarrow> s | Some h \<Rightarrow> h s sz) p"

definition default_pool_callback :: "int \<Rightarrow> em_pool_callback" where
  "default_pool_callback no_memory_exception sz = Some no_memory_exception"

section \<open>Pools on a caller's buffer\<close>

text \<open>
  The module state of \<open>pool_buf.c\<close>: the flag, the thread-local slot number and the value of the
  calling thread in it.  \<open>creation_param\<close> is the object on the creator's stack.
\<close>

record creation_param =
  stack_buf :: ptr
  cp_size :: em_size_t

record pool_buf_state =
  is_initialized :: bool
  pb_tls :: int
  pb_value :: "creation_param option"
  pb_atexit :: nat

definition pool_buf_cleanup :: "pool_buf_state \<Rightarrow> pool_buf_state" where
  "pool_buf_cleanup st =
     (let st' = (if pb_tls st \<noteq> - 1 then st\<lparr>pb_tls := - 1\<rparr> else st)
      in if is_initialized st' then st'\<lparr>is_initialized := False\<rparr> else st')"

text \<open>The answer of \<open>em_thread_local_alloc\<close> is the parameter: an error, or the new slot.\<close>

definition pool_buf_initialize :: "emlib_ret_t + int \<Rightarrow> pool_buf_state \<Rightarrow> emlib_ret_t \<times> pool_buf_state" where
  "pool_buf_initialize tls_alloc st =
     (let st' = st\<lparr>pb_atexit := pb_atexit st + 1\<rparr>
      in case tls_alloc of Inl r \<Rightarrow> (r, st') | Inr i \<Rightarrow> (EM_SUCC, st'\<lparr>pb_tls := i, pb_value := None\<rparr>))"

definition stack_alloc :: "pool_buf_state \<Rightarrow> em_size_t \<Rightarrow> ptr \<times> pool_buf_state" where
  "stack_alloc st sz =
     (case pb_value st of
        None \<Rightarrow> (0, st)
      | Some param \<Rightarrow>
          (let st' = st\<lparr>pb_value := None\<rparr>
           in if sz \<le> cp_size param then (stack_buf param, st') else (0, st')))"

definition stack_based_policy :: "pool_buf_state em_pool_factory_policy" where
  "stack_based_policy = \<lparr>block_alloc = stack_alloc, block_free = None, policy_callback = None\<rparr>"

definition em_pool_create_on_buf ::
  "(string \<Rightarrow> ptr \<Rightarrow> string) \<Rightarrow> int \<Rightarrow> emlib_ret_t + int \<Rightarrow> string option \<Rightarrow> ptr \<Rightarrow> em_size_t \<Rightarrow> pool_buf_state \<Rightarrow>
   em_pool_t option \<times> pool_buf_state" where
  "em_pool_create_on_buf fmt no_memory_exception tls_alloc name buf sz st =
     (if \<not> (buf \<noteq> 0 \<and> sz \<noteq> 0) then (None, st)
      else
        let (r, st1) = (if is_initialized st then (EM_SUCC, st) else
               (let (r, st') = pool_buf_initialize tls_alloc st
                in (r, if r = EM_SUCC then st'\<lparr>is_initialized := True\<rparr> else st')))
        in if r \<noteq> EM_SUCC then (None, st1)
           else
             let align_diff = (if buf AND (EM_POOL_ALIGNMENT - 1) \<noteq> 0
                               then buf AND (EM_POOL_ALIGNMENT - 1) else 0);
                 st2 = st1\<lparr>pb_value := Some \<lparr>stack_buf = buf + align_diff, cp_size = sz - align_diff\<rparr>\<rparr>
             in em_pool_create_int fmt stack_based_policy name (sz - align_diff) 0
                  (Some (default_pool_callback no_memory_exception)) st2)"

section \<open>Alignment and rounding\<close>

lemma mask2: "(3 :: 64 word) = mask 2"
  by (simp add: mask_eq_exp_minus_1)

lemma unat_and_3: "unat (w AND 3 :: 64 word) = unat w mod 4"
  unfolding mask2 by (simp flip: take_bit_eq_mask add: take_bit_eq_mod unat_mod_distrib)

lemma and_not_3: "(w :: 64 word) AND NOT 3 = w - (w AND 3)"
proof -
  have "(w AND a) + (w AND NOT a) = w" for a :: "64 word"
    by (subst disjunctive_add) (auto simp: bit_and_iff bit_not_iff intro!: bit_word_eqI simp: bit_or_iff)
  then show ?thesis by (metis add_diff_cancel_left')
qed

lemma unat_and_not_3: "unat (w AND NOT 3 :: 64 word) = unat w div 4 * 4"
proof -
  have "w AND 3 \<le> w" by (simp add: word_le_nat_alt unat_and_3)
  then show ?thesis by (simp only: and_not_3 unat_sub unat_and_3) (simp add: minus_mod_eq_div_mult)
qed

lemma unat_add_no_wrap: "unat a + unat b < 2 ^ 64 \<Longrightarrow> unat (a + b :: 64 word) = unat a + unat b"
  by (subst unat_add_lem [THEN iffD1]) simp_all

lemma unat_diff_le: "unat b \<le> unat a \<Longrightarrow> unat (a - b :: 64 word) = unat a - unat b"
  by (simp add: unat_sub word_le_nat_alt)

lemma and_3_eq_0: "w AND 3 = (0 :: 64 word) \<longleftrightarrow> 4 dvd unat w"
  using unat_and_3 [of w] by (metis dvd_eq_mod_eq_0 unat_eq_zero)

lemma ALIGN_PTR_aligned: "4 dvd unat p \<Longrightarrow> ALIGN_PTR p EM_POOL_ALIGNMENT = p"
proof -
  assume "4 dvd unat p"
  then have "p AND 3 = 0" by (simp add: and_3_eq_0)
  then have "- p AND 3 = 0"
    unfolding mask2 by (simp flip: take_bit_eq_mask add: take_bit_eq_0_iff)
  then show ?thesis by (simp add: ALIGN_PTR_def EM_POOL_ALIGNMENT_def)
qed

text \<open>For a size within four bytes of the address space's end the rounding of the code would wrap.\<close>

lemma unat_round_up:
  assumes "unat sz + 4 < 2 ^ 64"
  shows "unat (round_up sz) = (unat sz + 3) div 4 * 4"
proof (cases "4 dvd unat sz")
  case True
  then have "sz AND 3 = 0" by (simp add: and_3_eq_0)
  with True show ?thesis by (auto simp: round_up_def EM_POOL_ALIGNMENT_def elim!: dvdE)
next
  case False
  then have "sz AND 3 \<noteq> 0" by (simp add: and_3_eq_0)
  moreover have "unat (sz + 4) = unat sz + 4" using assms by (subst unat_add_no_wrap) simp_all
  moreover have "(unat sz + 4) div 4 * 4 = (unat sz + 3) div 4 * 4" using False by presburger
  ultimately show ?thesis
    using unat_and_not_3 [of "sz + 4"] by (simp add: round_up_def EM_POOL_ALIGNMENT_def)
qed

lemma round_up_ge:
  assumes "unat sz + 4 < 2 ^ 64"
  shows "unat sz \<le> unat (round_up sz)" "unat (round_up sz) < unat sz + 4" "4 dvd unat (round_up sz)"
  using unat_round_up [OF assms] by auto

section \<open>Blocks\<close>

type_synonym region = "nat \<times> nat"

definition apart :: "region \<Rightarrow> region \<Rightarrow> bool" where
  "apart r q \<longleftrightarrow> fst r + snd r \<le> fst q \<or> fst q + snd q \<le> fst r"

definition within :: "region \<Rightarrow> region \<Rightarrow> bool" where
  "within r q \<longleftrightarrow> fst q \<le> fst r \<and> fst r + snd r \<le> fst q + snd q"

lemma apart_sym: "apart r q \<longleftrightarrow> apart q r"
  by (auto simp: apart_def)

lemma apart_within: "apart r q \<Longrightarrow> within r' r \<Longrightarrow> within q' q \<Longrightarrow> apart r' q'"
  by (auto simp: apart_def within_def)

definition block_ok :: "em_pool_block \<Rightarrow> bool" where
  "block_ok b \<longleftrightarrow> b_addr b \<noteq> 0 \<and> unat (b_buf b) = unat (b_addr b) + 40 \<and> b_buf b \<le> b_cur b \<and>
     b_cur b \<le> b_end b \<and> 4 dvd unat (b_cur b) \<and> 4 dvd unat (b_buf b)"

definition block_region :: "em_pool_block \<Rightarrow> region" where
  "block_region b = (unat (b_addr b), unat (b_end b) - unat (b_addr b))"

definition used_region :: "em_pool_block \<Rightarrow> region" where
  "used_region b = (unat (b_buf b), unat (b_cur b) - unat (b_buf b))"

lemma block_ok_le:
  "block_ok b \<Longrightarrow> unat (b_addr b) + 40 \<le> unat (b_cur b) \<and> unat (b_cur b) \<le> unat (b_end b)"
  by (simp add: block_ok_def word_le_nat_alt)

lemma alloc_from_block_cases:
  assumes ok: "block_ok b" and sz: "unat sz + 4 < 2 ^ 64"
    and al: "em_pool_alloc_from_block b sz = (p, b')"
  obtains (full) "p = 0" "b' = b" "unat (b_end b) < unat (b_cur b) + unat (round_up sz)"
  | (fits) "p = b_cur b" "p \<noteq> 0" "4 dvd unat p" "b' = b\<lparr>b_cur := b_cur b + round_up sz\<rparr>"
      "unat (b_cur b') = unat p + unat (round_up sz)" "unat (b_cur b') \<le> unat (b_end b)" "block_ok b'"
proof (cases "round_up sz \<le> b_end b - b_cur b")
  case False
  have "unat (b_end b - b_cur b) = unat (b_end b) - unat (b_cur b)"
    using block_ok_le [OF ok] by (simp add: unat_diff_le)
  with False al full ok show ?thesis
    by (auto simp: em_pool_alloc_from_block_def Let_def word_le_nat_alt block_ok_le)
next
  case True
  then have r: "unat (round_up sz) \<le> unat (b_end b) - unat (b_cur b)"
    using block_ok_le [OF ok] by (simp add: word_le_nat_alt unat_diff_le)
  then have c: "unat (b_cur b + round_up sz) = unat (b_cur b) + unat (round_up sz)"
    using block_ok_le [OF ok] unat_below [of "b_end b"] by (subst unat_add_no_wrap) auto
  have p: "p = b_cur b" "b' = b\<lparr>b_cur := b_cur b + round_up sz\<rparr>"
    using True al by (auto simp: em_pool_alloc_from_block_def Let_def)
  have "block_ok b'"
    using ok r c block_ok_le [OF ok] round_up_ge(3) [OF sz] p
    by (auto simp: block_ok_def word_le_nat_alt)
  moreover have "b_cur b \<noteq> 0" using block_ok_le [OF ok] by auto
  ultimately show ?thesis
    using fits p r c block_ok_le [OF ok] ok by (auto simp: block_ok_def)
qed

lemma alloc_null_same:
  assumes "block_ok b" "unat sz + 4 < 2 ^ 64" "em_pool_alloc_from_block b sz = (0, b')"
  shows "b' = b" "unat (b_end b) < unat (b_cur b) + unat (round_up sz)"
  by (rule alloc_from_block_cases [OF assms]; simp)+

section \<open>The pool invariant\<close>

text \<open>
  \<open>user_ok live bs\<close>: the regions handed out to users lie in the used part of the blocks and are
  pairwise apart.  \<open>pool_regions\<close> lists the regions the pool holds from its factory; the last block
  shares its region with the pool structure.
\<close>

definition blocks_ok :: "em_pool_block list \<Rightarrow> bool" where
  "blocks_ok bs \<longleftrightarrow> (\<forall>b\<in>set bs. block_ok b) \<and>
     sorted_wrt (\<lambda>b c. apart (block_region b) (block_region c)) bs"

definition user_ok :: "region list \<Rightarrow> em_pool_block list \<Rightarrow> bool" where
  "user_ok live bs \<longleftrightarrow>
     (\<forall>r\<in>set live. \<exists>b\<in>set bs. within r (used_region b)) \<and> sorted_wrt apart live"

definition blocks_capacity :: "ptr \<Rightarrow> em_pool_block list \<Rightarrow> em_size_t" where
  "blocks_capacity p bs =
     sum_list (map (\<lambda>b. b_end b - b_addr b) (butlast bs)) + (b_end (last bs) - p)"

definition pool_regions :: "em_pool_t \<Rightarrow> region list" where
  "pool_regions pool = map block_region (butlast (block_list pool)) @
     [(unat (p_addr pool), unat (b_end (last (block_list pool))) - unat (p_addr pool))]"

definition pool_ok :: "em_pool_t \<Rightarrow> bool" where
  "pool_ok pool \<longleftrightarrow> block_list pool \<noteq> [] \<and> blocks_ok (block_list pool) \<and> p_addr pool \<noteq> 0 \<and>
     unat (b_addr (last (block_list pool))) = unat (p_addr pool) + 128 \<and>
     capacity pool = blocks_capacity (p_addr pool) (block_list pool) \<and>
     sorted_wrt apart (pool_regions pool)"

lemma used_within_block: "block_ok b \<Longrightarrow> within (used_region b) (block_region b)"
  by (auto simp: within_def used_region_def block_region_def block_ok_def word_le_nat_alt)

lemma within_trans: "within r q \<Longrightarrow> within q t \<Longrightarrow> within r t"
  by (auto simp: within_def)

lemma blocks_ok_append:
  "blocks_ok (pre @ b # post) \<longleftrightarrow> blocks_ok (pre @ post) \<and> block_ok b \<and>
     (\<forall>c\<in>set pre \<union> set post. apart (block_region c) (block_region b))"
  by (auto simp: blocks_ok_def sorted_wrt_append apart_sym)

lemma user_ok_advance:
  assumes bs: "blocks_ok (pre @ b # post)" and live: "user_ok live (pre @ b # post)"
    and b': "b' = b\<lparr>b_cur := c\<rparr>" and c: "unat c = unat (b_cur b) + n" "unat c \<le> unat (b_end b)"
  shows "user_ok ((unat (b_cur b), n) # live) (pre @ b' # post)"
proof -
  have ok: "block_ok b" using bs by (simp add: blocks_ok_append)
  then have le: "unat (b_addr b) + 40 = unat (b_buf b)" "unat (b_buf b) \<le> unat (b_cur b)"
    by (auto simp: block_ok_def word_le_nat_alt)
  have new: "within (unat (b_cur b), n) (used_region b')" "within (unat (b_cur b), n) (block_region b)"
    using c le b' by (auto simp: within_def used_region_def block_region_def)
  have "(\<exists>x\<in>set (pre @ b' # post). within r (used_region x)) \<and> apart (unat (b_cur b), n) r"
    if r: "r \<in> set live" for r
  proof -
    obtain x where x: "x \<in> set (pre @ b # post)" "within r (used_region x)"
      using live r by (auto simp: user_ok_def)
    show ?thesis
    proof (cases "x = b")
      case True
      then have "within r (used_region b')" "apart (unat (b_cur b), n) r"
        using x(2) b' c le by (auto simp: within_def used_region_def apart_def)
      then show ?thesis by auto
    next
      case False
      then have xs: "x \<in> set pre \<union> set post" using x(1) by auto
      then have ap: "apart (block_region x) (block_region b)"
        using bs by (simp add: blocks_ok_append)
      have "block_ok x" using xs bs by (auto simp: blocks_ok_def)
      then have "within r (block_region x)"
        using x(2) used_within_block within_trans by blast
      from apart_within [OF ap this new(2)] have "apart r (unat (b_cur b), n)" .
      then show ?thesis using x xs by (auto simp: apart_sym)
    qed
  qed
  then show ?thesis using live new(1) by (auto simp: user_ok_def)
qed

lemma blocks_ok_advance:
  assumes "blocks_ok (pre @ b # post)" "block_ok b'" "block_region b' = block_region b"
  shows "blocks_ok (pre @ b' # post)"
  using assms by (simp add: blocks_ok_append)

lemma find_space_Some:
  assumes "find_space bs sz = Some (p, bs')" "blocks_ok bs" "unat sz + 4 < 2 ^ 64"
  shows "\<exists>pre b post b'. bs = pre @ b # post \<and> bs' = pre @ b' # post \<and>
    em_pool_alloc_from_block b sz = (p, b') \<and> p \<noteq> 0"
  using assms(1,2)
proof (induction bs arbitrary: bs')
  case (Cons c cs)
  obtain q c' where al: "em_pool_alloc_from_block c sz = (q, c')" by force
  have cok: "block_ok c" "blocks_ok cs" using Cons.prems(2) blocks_ok_append [of "[]" c cs] by auto
  show ?case
  proof (cases "q = 0")
    case False
    with Cons.prems al have "c # cs = [] @ c # cs" "bs' = [] @ c' # cs" "q = p" by auto
    with al False show ?thesis by blast
  next
    case True
    with al alloc_null_same(1) [OF cok(1) assms(3)] have c': "c' = c" by simp
    with Cons.prems al True obtain cs' where cs': "find_space cs sz = Some (p, cs')" "bs' = c # cs'"
      by (auto simp: Let_def)
    from Cons.IH [OF cs'(1) cok(2)] obtain pre b post b' where
      ih: "cs = pre @ b # post" "cs' = pre @ b' # post" "em_pool_alloc_from_block b sz = (p, b')" "p \<noteq> 0"
      by blast
    then have "c # cs = (c # pre) @ b # post" "bs' = (c # pre) @ b' # post" using cs'(2) by auto
    with ih(3,4) show ?thesis by blast
  qed
qed simp

lemma alloc_eq_allocate_find:
  assumes "blocks_ok (block_list pool)" "unat sz + 4 < 2 ^ 64"
  shows "em_pool_alloc pol pool sz s = em_pool_allocate_find pol pool sz s"
proof (cases "block_list pool")
  case (Cons b bs)
  then have "block_ok b" using assms(1) by (simp add: blocks_ok_def)
  moreover obtain p b' where al: "em_pool_alloc_from_block b sz = (p, b')" by force
  ultimately have z: "p = 0 \<Longrightarrow> b' = b" using assms(2) alloc_null_same(1) [of b sz b'] by simp
  have same: "pool\<lparr>block_list := b # bs\<rparr> = pool" using Cons by simp
  show ?thesis
  proof (cases "p = 0")
    case True
    then have "em_pool_alloc pol pool sz s = em_pool_allocate_find pol (pool\<lparr>block_list := b # bs\<rparr>) sz s"
      using z Cons al by (simp add: em_pool_alloc_def)
    then show ?thesis by (simp only: same)
  next
    case False
    then show ?thesis using Cons al by (simp add: em_pool_alloc_def em_pool_allocate_find_def)
  qed
qed (simp add: em_pool_alloc_def)

lemma pool_regions_update:
  assumes "block_region b' = block_region b" "b_end b' = b_end b"
  shows "pool_regions (pool\<lparr>block_list := pre @ b' # post\<rparr>) =
    pool_regions (pool\<lparr>block_list := pre @ b # post\<rparr>)"
  using assms by (cases post rule: rev_cases) (auto simp: pool_regions_def butlast_append)

lemma pool_ok_update:
  assumes "pool_ok pool" "block_list pool = pre @ b # post" "block_ok b'"
    "b_addr b' = b_addr b" "b_end b' = b_end b"
  shows "pool_ok (pool\<lparr>block_list := pre @ b' # post\<rparr>)"
    "pool_regions (pool\<lparr>block_list := pre @ b' # post\<rparr>) = pool_regions pool"
proof -
  have r: "block_region b' = block_region b" using assms(4,5) by (simp add: block_region_def)
  have same: "pool\<lparr>block_list := pre @ b # post\<rparr> = pool" using assms(2) by simp
  show reg: "pool_regions (pool\<lparr>block_list := pre @ b' # post\<rparr>) = pool_regions pool"
    using pool_regions_update [OF r assms(5), where pool = pool and pre = pre and post = post] by (simp only: same)
  have "blocks_ok (pre @ b # post)" using assms(1,2) by (simp add: pool_ok_def)
  from blocks_ok_advance [OF this assms(3) r] reg assms(1,2,4,5)
  show "pool_ok (pool\<lparr>block_list := pre @ b' # post\<rparr>)"
    by (cases post rule: rev_cases) (auto simp: pool_ok_def blocks_capacity_def butlast_append)
qed

text \<open>Disjoint regions inside an interval are no longer than it together.\<close>

lemma apart_total:
  "sorted_wrt apart rs \<Longrightarrow> \<forall>r\<in>set rs. lo \<le> fst r \<and> fst r + snd r \<le> hi \<Longrightarrow>
   sum_list (map snd rs) = card (\<Union>r\<in>set rs. {fst r..<fst r + snd r}) \<and>
   (\<Union>r\<in>set rs. {fst r..<fst r + snd r}) \<subseteq> {lo..<hi}"
proof (induction rs)
  case (Cons r rs)
  let ?U = "\<Union>q\<in>set rs. {fst q..<fst q + snd q}"
  have "{fst r..<fst r + snd r} \<inter> ?U = {}"
    using Cons.prems(1) by (fastforce simp: apart_def)
  moreover have "finite ?U" by simp
  ultimately have "card ({fst r..<fst r + snd r} \<union> ?U) = snd r + card ?U"
    by (subst card_Un_disjoint) auto
  with Cons show ?case by auto
qed simp

lemma apart_total_le:
  assumes "sorted_wrt apart rs" "\<forall>r\<in>set rs. lo \<le> fst r \<and> fst r + snd r \<le> hi"
  shows "sum_list (map snd rs) \<le> hi - lo"
  using apart_total [OF assms] card_mono [of "{lo..<hi}"] by fastforce

section \<open>Growing\<close>

text \<open>
  The contract of a block source.  \<open>ok s R\<close>: in state \<open>s\<close> exactly the regions \<open>R\<close> are out.  A block
  is 4-aligned, ends below the top of the address space and is apart from every region out.
\<close>

locale block_provider =
  fixes alloc :: "'s \<Rightarrow> em_size_t \<Rightarrow> ptr \<times> 's"
    and ok :: "'s \<Rightarrow> region multiset \<Rightarrow> bool"
  assumes alloc_fresh: "\<And>s R n a s'. ok s R \<Longrightarrow> alloc s n = (a, s') \<Longrightarrow> a \<noteq> 0 \<Longrightarrow>
      4 dvd unat a \<and> unat a + unat n < 2 ^ 64 \<and> (\<forall>r\<in>#R. apart (unat a, unat n) r) \<and>
      ok s' (add_mset (unat a, unat n) R)"
    and alloc_fail: "\<And>s R n s'. ok s R \<Longrightarrow> alloc s n = (0, s') \<Longrightarrow> ok s' R"

text \<open>A source that also takes blocks back.\<close>

locale block_recycler = block_provider +
  fixes release :: "'s \<Rightarrow> ptr \<Rightarrow> em_size_t \<Rightarrow> 's"
  assumes release_ok: "\<And>s R a n. ok s (add_mset (unat a, unat n) R) \<Longrightarrow> ok (release s a n) R"

lemma grow_size_fits:
  assumes "0 < unat inc" "unat sz + unat inc + 44 < 2 ^ 64"
  shows "unat sz + 44 \<le> unat (grow_size inc sz)" "unat (grow_size inc sz) \<le> unat sz + unat inc + 44"
proof -
  have a: "unat (sz + 40 + 4) = unat sz + 44"
    using assms by (simp add: unat_add_no_wrap)
  have b: "unat (sz + inc + 40 + 4) = unat sz + unat inc + 44"
    using assms by (simp add: unat_add_no_wrap)
  let ?k = "(unat sz + unat inc + 44) div unat inc"
  have le: "?k * unat inc \<le> unat sz + unat inc + 44" by (rule div_times_less_eq_dividend)
  have d: "unat ((sz + inc + 40 + 4) div inc) = ?k"
    unfolding b [symmetric] by (rule unat_div_distrib)
  note le
  moreover have m: "unat ((sz + inc + 40 + 4) div inc * inc) = ?k * unat inc"
    using order_le_less_trans [OF le assms(2)] d
    by (subst unat_mult_lem [THEN iffD1]) simp_all
  moreover have "unat sz + 44 \<le> ?k * unat inc"
    using dividend_less_times_div [OF assms(1), of "unat sz + unat inc + 44"] by (simp add: mult.commute)
  ultimately show "unat sz + 44 \<le> unat (grow_size inc sz)" "unat (grow_size inc sz) \<le> unat sz + unat inc + 44"
    using a by (auto simp: grow_size_def pool_const word_less_nat_alt)
qed

definition new_block :: "ptr \<Rightarrow> em_size_t \<Rightarrow> em_pool_block" where
  "new_block a n = \<lparr>b_addr = a, b_buf = a + sizeof_em_pool_block,
     b_cur = ALIGN_PTR (a + sizeof_em_pool_block) EM_POOL_ALIGNMENT, b_end = a + n\<rparr>"

lemma new_block_ok:
  assumes "a \<noteq> 0" "4 dvd unat a" "unat a + unat n < 2 ^ 64" "40 \<le> unat n"
  shows "block_ok (new_block a n)" "block_region (new_block a n) = (unat a, unat n)"
    "b_cur (new_block a n) = a + 40" "unat (a + 40) = unat a + 40" "unat (b_end (new_block a n)) = unat a + unat n"
proof -
  show u: "unat (a + 40) = unat a + 40" using assms by (subst unat_add_no_wrap) simp_all
  have e: "unat (a + n) = unat a + unat n" using assms(3) by (rule unat_add_no_wrap)
  have "4 dvd unat (a + 40)" using u assms(2) by simp
  then show c: "b_cur (new_block a n) = a + 40"
    by (simp add: new_block_def ALIGN_PTR_aligned sizeof_em_pool_block_def)
  show "unat (b_end (new_block a n)) = unat a + unat n" using e by (simp add: new_block_def)
  show "block_region (new_block a n) = (unat a, unat n)" using e by (simp add: block_region_def new_block_def)
  show "block_ok (new_block a n)"
    using assms u e c \<open>4 dvd unat (a + 40)\<close>
    by (simp add: block_ok_def word_le_nat_alt) (simp add: new_block_def sizeof_em_pool_block_def u)
qed

lemma region_of_block:
  assumes "b \<in> set (block_list pool)" "pool_ok pool"
  shows "\<exists>r\<in>set (pool_regions pool). within (block_region b) r"
proof (cases "b \<in> set (butlast (block_list pool))")
  case True
  then show ?thesis by (auto simp: pool_regions_def within_def)
next
  case False
  then have "b = last (block_list pool)"
    using assms by (metis append_butlast_last_id in_set_conv_decomp_last last_in_set list.distinct(1)
        pool_ok_def rotate1.simps(2) set_ConsD set_rotate1)
  moreover have "block_ok (last (block_list pool))"
    using assms(2) by (auto simp: pool_ok_def blocks_ok_def)
  ultimately show ?thesis
    using assms block_ok_le by (fastforce simp: pool_ok_def pool_regions_def within_def block_region_def)
qed

text \<open>What a call of \<open>em_pool_alloc\<close> leaves: nothing was given, or a fresh aligned region was.\<close>

definition alloc_post ::
  "('s \<Rightarrow> region multiset \<Rightarrow> bool) \<Rightarrow> em_size_t \<Rightarrow> region list \<Rightarrow> region multiset \<Rightarrow> ptr outcome \<times> em_pool_t \<times> 's \<Rightarrow> bool" where
  "alloc_post ok sz live R0 res \<longleftrightarrow> (case res of (r, pool', s') \<Rightarrow>
     pool_ok pool' \<and> ok s' (mset (pool_regions pool') + R0) \<and>
     (case r of
        Ret p \<Rightarrow> if p = 0 then user_ok live (block_list pool')
                 else 4 dvd unat p \<and> user_ok ((unat p, unat (round_up sz)) # live) (block_list pool')
      | _ \<Rightarrow> user_ok live (block_list pool')))"

context block_provider
begin

lemma grow_safe:
  assumes pool: "pool_ok pool" and ok: "ok s (mset (pool_regions pool) + R0)"
    and n: "40 \<le> unat n" and al: "alloc s n = (a, s')" "a \<noteq> 0"
    and pool': "pool' = pool\<lparr>capacity := capacity pool + n, block_list := new_block a n # block_list pool\<rparr>"
  shows "ok s' (mset (pool_regions pool') + R0)" "pool_ok pool'"
    "unat (b_end (new_block a n)) = unat (b_cur (new_block a n)) + (unat n - 40)"
proof -
  note fresh = alloc_fresh [OF ok al]
  have nb: "block_ok (new_block a n)" "block_region (new_block a n) = (unat a, unat n)"
    "b_cur (new_block a n) = a + 40" "unat (a + 40) = unat a + 40"
    "unat (b_end (new_block a n)) = unat a + unat n"
    using new_block_ok [OF al(2)] fresh n by auto
  have "apart (unat a, unat n) (block_region b)" if b: "b \<in> set (block_list pool)" for b
  proof -
    obtain q where q: "q \<in> set (pool_regions pool)" "within (block_region b) q"
      using region_of_block [OF b pool] by blast
    have "apart (unat a, unat n) q" using fresh q(1) by simp
    then show ?thesis by (rule apart_within [OF _ _ q(2)]) (simp add: within_def)
  qed
  then have "blocks_ok (new_block a n # block_list pool)"
    using pool nb by (auto simp: blocks_ok_def pool_ok_def)
  moreover have "b_end (new_block a n) - b_addr (new_block a n) = n" by (simp add: new_block_def)
  moreover have reg: "pool_regions pool' = (unat a, unat n) # pool_regions pool"
    using pool pool' nb by (auto simp: pool_regions_def pool_ok_def)
  moreover have "\<forall>q\<in>set (pool_regions pool). apart (unat a, unat n) q" using fresh by simp
  ultimately show "pool_ok pool'" using pool pool' by (auto simp: pool_ok_def blocks_capacity_def)
  from reg show "ok s' (mset (pool_regions pool') + R0)" using fresh by simp
  show "unat (b_end (new_block a n)) = unat (b_cur (new_block a n)) + (unat n - 40)"
    using nb n by simp
qed

lemma create_block_eq:
  assumes "block_alloc pol = alloc" "alloc s n = (a, s')"
  shows "em_pool_create_block pol pool n s =
    (if a = 0 then (call_callback (p_callback pool) n None, pool, s')
     else (Ret (Some (new_block a n)),
       pool\<lparr>capacity := capacity pool + n, block_list := new_block a n # block_list pool\<rparr>, s'))"
  using assms by (simp add: em_pool_create_block_def new_block_def Let_def)

lemma alloc_in_block:
  assumes pool: "pool_ok pool" "block_list pool = pre @ b # post" "user_ok live (pre @ b # post)"
    and sz: "unat sz + 4 < 2 ^ 64" and al: "em_pool_alloc_from_block b sz = (p, b')" "p \<noteq> 0"
    and ok: "ok s (mset (pool_regions pool) + R0)"
  shows "alloc_post ok sz live R0 (Ret p, pool\<lparr>block_list := pre @ b' # post\<rparr>, s)"
proof -
  have bs: "blocks_ok (pre @ b # post)" using pool by (simp add: pool_ok_def)
  then have bok: "block_ok b" by (simp add: blocks_ok_append)
  show ?thesis
  proof (rule alloc_from_block_cases [OF bok sz al(1)])
    assume "p = 0" then show ?thesis using al(2) by simp
  next
    assume f: "p = b_cur b" "4 dvd unat p" "b' = b\<lparr>b_cur := b_cur b + round_up sz\<rparr>"
      "unat (b_cur b') = unat p + unat (round_up sz)" "unat (b_cur b') \<le> unat (b_end b)" "block_ok b'"
    have "user_ok ((unat (b_cur b), unat (round_up sz)) # live) (pre @ b' # post)"
      by (rule user_ok_advance [OF bs pool(3) f(3)]) (use f in auto)
    moreover have "b_addr b' = b_addr b" "b_end b' = b_end b" using f(3) by simp_all
    note pool_ok_update [OF pool(1,2) f(6) this]
    ultimately show ?thesis using f al(2) ok by (simp add: alloc_post_def)
  qed
qed

lemma user_ok_new:
  "user_ok live bs \<Longrightarrow> user_ok live (b # bs)"
  by (auto simp: user_ok_def)

lemma alloc_safe:
  assumes pol: "block_alloc pol = alloc"
    and pool: "pool_ok pool" "user_ok live (block_list pool)"
    and ok: "ok s (mset (pool_regions pool) + R0)"
    and sz: "unat sz + unat (increment_size pool) + 44 < 2 ^ 64"
  shows "alloc_post ok sz live R0 (em_pool_alloc pol pool sz s)"
proof -
  have sz4: "unat sz + 4 < 2 ^ 64" using sz by simp
  have bs: "blocks_ok (block_list pool)" using pool(1) by (simp add: pool_ok_def)
  have none: "alloc_post ok sz live R0 (call_callback cb m 0, pool, s')"
    if "ok s' (mset (pool_regions pool) + R0)" for cb m s'
    using that pool by (auto simp: alloc_post_def call_callback_def split: option.splits)
  show ?thesis
  proof (cases "find_space (block_list pool) sz")
    case (Some q)
    obtain p bs' where q: "q = (p, bs')" by force
    with Some find_space_Some [OF _ bs sz4] obtain pre b post b' where
      f: "block_list pool = pre @ b # post" "bs' = pre @ b' # post"
        "em_pool_alloc_from_block b sz = (p, b')" "p \<noteq> 0"
      by metis
    from alloc_in_block [OF pool(1) f(1) _ sz4 f(3,4) ok] pool(2) f(1,2) Some q show ?thesis
      by (simp add: alloc_eq_allocate_find [OF bs sz4] em_pool_allocate_find_def)
  next
    case None
    let ?n = "grow_size (increment_size pool) sz"
    obtain a s1 where al: "alloc s ?n = (a, s1)" by force
    consider "increment_size pool = 0" | "increment_size pool \<noteq> 0" "a = 0"
      | "increment_size pool \<noteq> 0" "a \<noteq> 0" by blast
    then show ?thesis
    proof cases
      case 1
      then show ?thesis using None none [OF ok]
        by (simp add: alloc_eq_allocate_find [OF bs sz4] em_pool_allocate_find_def)
    next
      case 2
      have "ok s1 (mset (pool_regions pool) + R0)" using alloc_fail [OF ok] al 2 by simp
      from none [OF this, of "p_callback pool" ?n] 2 None show ?thesis
        by (auto simp: alloc_eq_allocate_find [OF bs sz4] em_pool_allocate_find_def
            create_block_eq [OF pol al] call_callback_def split: option.splits)
    next
      case 3
      have inc: "0 < unat (increment_size pool)" using 3(1) by (simp add: unat_gt_0)
      let ?pool = "pool\<lparr>capacity := capacity pool + ?n, block_list := new_block a ?n # block_list pool\<rparr>"
      have n: "unat sz + 44 \<le> unat ?n" using grow_size_fits(1) [OF inc sz] .
      note g = grow_safe [OF pool(1) ok _ al 3(2) refl]
      obtain p b' where ab: "em_pool_alloc_from_block (new_block a ?n) sz = (p, b')" by force
      have "block_ok (new_block a ?n)" using g(2) n by (auto simp: pool_ok_def blocks_ok_def)
      then have "p \<noteq> 0"
        using alloc_null_same(2) [of "new_block a ?n" sz b'] sz4 ab g(3) n round_up_ge(2) [OF sz4] by auto
      from alloc_in_block [OF g(2) _ _ sz4 ab this g(1), of "[]" "block_list pool" live]
      show ?thesis
        using 3 None n ab user_ok_new [OF pool(2)]
        by (simp add: alloc_eq_allocate_find [OF bs sz4] em_pool_allocate_find_def
            create_block_eq [OF pol al])
    qed
  qed
qed

end

section \<open>Creation, reset, destruction\<close>

definition pool_fresh :: "em_pool_t \<Rightarrow> bool" where
  "pool_fresh pool \<longleftrightarrow> (\<exists>b. block_list pool = [b] \<and> b_cur b = b_buf b)"

context block_provider
begin

lemma create_ok:
  assumes pol: "block_alloc pol = alloc" and ok: "ok s R"
    and cr: "em_pool_create_int fmt pol name n inc cb s = (Some pool, s')"
  shows "pool_ok pool" "pool_fresh pool" "ok s' (mset (pool_regions pool) + R)" "capacity pool = n"
    "increment_size pool = inc" "block_list pool = [new_block (p_addr pool + 128) (n - 128)]"
    "pool_regions pool = [(unat (p_addr pool), unat n)]"
proof -
  obtain a s1 where al: "alloc s n = (a, s1)" by force
  have n: "168 \<le> n" and a0: "a \<noteq> 0" and s': "s' = s1"
    using cr al pol by (auto simp: em_pool_create_int_def pool_const Let_def split: if_splits)
  note fresh = alloc_fresh [OF ok al a0]
  have n': "168 \<le> unat n" using n by (simp add: word_le_nat_alt)
  have a1: "unat (a + 128) = unat a + 128" using fresh n' by (subst unat_add_no_wrap) simp_all
  have n1: "unat (n - 128) = unat n - 128" using n' by (subst unat_diff_le) simp_all
  have eq: "a + 128 + (n - 128) = a + n" by simp
  have a2: "a + 128 \<noteq> 0" using a1 by (metis add_is_0 unat_0 zero_neq_numeral)
  have nb: "block_ok (new_block (a + 128) (n - 128))"
      "b_cur (new_block (a + 128) (n - 128)) = a + 128 + 40"
      "unat (b_end (new_block (a + 128) (n - 128))) = unat a + unat n"
    using new_block_ok [OF a2, of "n - 128"] fresh a1 n1 n' by auto
  have p: "p_addr pool = a" "capacity pool = n" "increment_size pool = inc"
      "block_list pool = [new_block (a + 128) (n - 128)]"
    using cr al pol a0
    by (auto simp: em_pool_create_int_def pool_const Let_def em_pool_init_int_def new_block_def add.assoc
        split: if_splits)
  then show "capacity pool = n" "increment_size pool = inc"
      "block_list pool = [new_block (p_addr pool + 128) (n - 128)]" by simp_all
  show reg: "pool_regions pool = [(unat (p_addr pool), unat n)]"
    using p nb by (simp add: pool_regions_def)
  show "ok s' (mset (pool_regions pool) + R)" using reg p fresh s' by simp
  have "b_end (new_block (a + 128) (n - 128)) - a = n" by (simp add: new_block_def)
  then show "pool_ok pool"
    using p nb reg a0 a1 by (auto simp: pool_ok_def blocks_ok_def blocks_capacity_def) (simp add: new_block_def)
  show "pool_fresh pool" using p nb by (simp add: pool_fresh_def) (simp add: new_block_def pool_const)
qed

end

lemma pool_ok_snoc: "pool_ok pool \<Longrightarrow> \<exists>bs b. block_list pool = bs @ [b]"
  by (metis pool_ok_def append_butlast_last_id)

context block_recycler
begin

lemma free_blocks_ok:
  assumes "block_free pol = Some release"
  shows "\<forall>b\<in>set bs. block_ok b \<Longrightarrow> ok s (mset (map block_region bs) + R) \<Longrightarrow>
    \<exists>s'. free_blocks pol bs s = Some s' \<and> ok s' R"
proof (induction bs arbitrary: s)
  case (Cons b bs)
  have "unat (b_end b - b_addr b) = unat (b_end b) - unat (b_addr b)"
    using Cons.prems(1) block_ok_le [of b] by (subst unat_diff_le) auto
  then have "block_region b = (unat (b_addr b), unat (b_end b - b_addr b))" by (simp add: block_region_def)
  then have "ok s (add_mset (unat (b_addr b), unat (b_end b - b_addr b)) (mset (map block_region bs) + R))"
    using Cons.prems(2) by simp
  from release_ok [OF this] Cons assms show ?case by simp
qed simp

lemma reset_ok:
  assumes pol: "block_free pol = Some release" and pool: "pool_ok pool"
    and ok: "ok s (mset (pool_regions pool) + R)"
  shows "\<exists>pool' s'. reset_pool pol pool s = Some (pool', s') \<and> pool_ok pool' \<and> pool_fresh pool' \<and>
    ok s' (mset (pool_regions pool') + R) \<and> p_addr pool' = p_addr pool \<and>
    pool_regions pool' = [last (pool_regions pool)] \<and> increment_size pool' = increment_size pool"
proof -
  obtain bs b where bl: "block_list pool = bs @ [b]"
    using pool_ok_snoc [OF pool] by blast
  have bok: "block_ok b" "\<forall>c\<in>set (rev bs). block_ok c" using pool bl by (auto simp: pool_ok_def blocks_ok_def)
  let ?b = "b\<lparr>b_cur := ALIGN_PTR (b_buf b) EM_POOL_ALIGNMENT\<rparr>"
  let ?r = "(unat (p_addr pool), unat (b_end b) - unat (p_addr pool))"
  have al: "ALIGN_PTR (b_buf b) EM_POOL_ALIGNMENT = b_buf b"
    using bok(1) by (intro ALIGN_PTR_aligned) (metis block_ok_def)
  have "ok s (mset (map block_region (rev bs)) + ({#?r#} + R))"
    using ok bl by (simp add: pool_regions_def rev_map [symmetric])
  from free_blocks_ok [OF pol bok(2) this] obtain s' where
    s': "free_blocks pol (rev bs) s = Some s'" "ok s' ({#?r#} + R)" by blast
  let ?pool = "pool\<lparr>block_list := [?b], capacity := b_end b - p_addr pool\<rparr>"
  have "block_ok ?b" using bok(1) al by (auto simp: block_ok_def)
  then have "pool_ok ?pool"
    using pool bl by (auto simp: pool_ok_def blocks_ok_def blocks_capacity_def pool_regions_def)
  then show ?thesis using s' bl al by (simp add: reset_pool_def pool_fresh_def pool_regions_def)
qed

end

lemma pool_capacity:
  assumes "pool_ok pool"
  shows "unat (capacity pool) = sum_list (map snd (pool_regions pool))" "capacity pool \<noteq> 0"
proof -
  obtain bs b where bl: "block_list pool = bs @ [b]"
    using pool_ok_snoc [OF assms] by blast
  have bok: "block_ok b" "\<forall>c\<in>set bs. block_ok c" using assms bl by (auto simp: pool_ok_def blocks_ok_def)
  have pa: "unat (p_addr pool) + 168 \<le> unat (b_end b)"
    using assms bl block_ok_le [OF bok(1)] by (auto simp: pool_ok_def)
  have d: "b_end c - b_addr c = of_nat (snd (block_region c))" if "c \<in> set bs" for c
    using bok(2) that block_ok_le [of c] by (auto simp: block_region_def of_nat_diff)
  have e: "b_end b - p_addr pool = of_nat (unat (b_end b) - unat (p_addr pool))"
    using pa by (simp add: of_nat_diff)
  have "sum_list (map (\<lambda>c. b_end c - b_addr c) bs) = of_nat (sum_list (map (snd \<circ> block_region) bs))"
    using d by (induction bs) simp_all
  then have cap: "capacity pool = of_nat (sum_list (map snd (pool_regions pool)))"
    using assms bl e by (simp add: pool_ok_def blocks_capacity_def pool_regions_def)
  have "\<forall>r\<in>set (pool_regions pool). 0 \<le> fst r \<and> fst r + snd r \<le> 2 ^ 64 - 1"
    using bl bok(2) pa block_ok_le unat_below [where 'w = 64]
    by (fastforce simp: pool_regions_def block_region_def less_eq_Suc_le dest: bspec)
  from apart_total_le [OF _ this] have "sum_list (map snd (pool_regions pool)) \<le> 2 ^ 64 - 1"
    using assms by (simp add: pool_ok_def)
  then show u: "unat (capacity pool) = sum_list (map snd (pool_regions pool))"
    unfolding cap by (simp add: unat_of_nat take_bit_nat_eq_self)
  have "0 < unat (capacity pool)" unfolding u using bl pa by (simp add: pool_regions_def)
  then show "capacity pool \<noteq> 0" by auto
qed

context block_recycler
begin

lemma destroy_ok:
  assumes pol: "block_free pol = Some release" and pool: "pool_ok pool"
    and ok: "ok s (mset (pool_regions pool) + R)"
  shows "\<exists>s'. em_pool_destroy_int pol pool s = Some s' \<and> ok s' R"
proof -
  obtain pool' s' where r: "reset_pool pol pool s = Some (pool', s')" "pool_ok pool'" "pool_fresh pool'"
      "ok s' (mset (pool_regions pool') + R)" "p_addr pool' = p_addr pool"
    using reset_ok [OF assms] by blast
  obtain b where b: "block_list pool' = [b]" using r(3) by (auto simp: pool_fresh_def)
  then have "block_ok b" "unat (b_addr b) = unat (p_addr pool) + 128"
    using r(2,5) by (auto simp: pool_ok_def blocks_ok_def)
  then have "unat (b_end b - p_addr pool) = unat (b_end b) - unat (p_addr pool)"
    using block_ok_le [of b] by (subst unat_diff_le) auto
  then have "ok s' (add_mset (unat (p_addr pool), unat (b_end b - p_addr pool)) R)"
    using r(4,5) b by (simp add: pool_regions_def)
  from release_ok [OF this] show ?thesis
    using r(1) b pol pool_capacity(2) [OF pool] by (simp add: em_pool_destroy_int_def)
qed

end

lemma used_of_blocks_eq:
  "used_of_blocks bs acc = acc + sum_list (map (\<lambda>b. (b_cur b - b_buf b) + sizeof_em_pool_block) bs)"
  by (induction bs arbitrary: acc) (simp_all add: add.assoc)

lemma used_capacity:
  assumes "pool_ok pool"
  shows "em_pool_get_used_size pool \<le> em_pool_get_capacity pool"
    "unat (em_pool_get_used_size pool) =
       128 + sum_list (map (\<lambda>b. unat (b_cur b) - unat (b_buf b) + 40) (block_list pool))"
proof -
  obtain bs b where bl: "block_list pool = bs @ [b]" using pool_ok_snoc [OF assms] by blast
  have bok: "block_ok b" "\<forall>c\<in>set bs. block_ok c" using assms bl by (auto simp: pool_ok_def blocks_ok_def)
  let ?u = "\<lambda>b. unat (b_cur b) - unat (b_buf b) + 40"
  have w: "(b_cur c - b_buf c) + sizeof_em_pool_block = of_nat (?u c)" if "block_ok c" for c
  proof -
    have "unat (b_buf c) \<le> unat (b_cur c)" using that by (simp add: block_ok_def word_le_nat_alt)
    then show ?thesis by (simp add: of_nat_diff sizeof_em_pool_block_def)
  qed
  have "sum_list (map (\<lambda>b. (b_cur b - b_buf b) + sizeof_em_pool_block) (bs @ [b])) =
      of_nat (sum_list (map ?u (bs @ [b])))"
    using bok w by (induction bs) simp_all
  then have used: "em_pool_get_used_size pool = of_nat (128 + sum_list (map ?u (bs @ [b])))"
    by (simp add: em_pool_get_used_size_def used_of_blocks_eq bl sizeof_em_pool_t_def)
  have each: "?u c \<le> snd (block_region c)" if "block_ok c" for c
    using block_ok_le [OF that] that by (simp add: block_region_def block_ok_def word_le_nat_alt)
  have "sum_list (map ?u bs) \<le> sum_list (map (snd \<circ> block_region) bs)"
    using bok(2) each by (intro sum_list_mono) simp
  moreover have "128 + ?u b \<le> unat (b_end b) - unat (p_addr pool)"
    using each [OF bok(1)] block_ok_le [OF bok(1)] assms bl by (auto simp: pool_ok_def block_region_def)
  ultimately have le: "128 + sum_list (map ?u (bs @ [b])) \<le> unat (capacity pool)"
    by (simp add: pool_capacity(1) [OF assms] pool_regions_def bl)
  then have u: "unat (em_pool_get_used_size pool) = 128 + sum_list (map ?u (bs @ [b]))"
    using unat_below [of "capacity pool"] unfolding used
    by (simp only: unat_of_nat) (simp add: take_bit_nat_eq_self)
  then show "unat (em_pool_get_used_size pool) = 128 + sum_list (map ?u (block_list pool))"
    by (simp add: bl)
  show "em_pool_get_used_size pool \<le> em_pool_get_capacity pool"
    using le u by (simp add: word_le_nat_alt em_pool_get_capacity_def)
qed

section \<open>The providers of the code\<close>

text \<open>
  \<open>stack_alloc\<close> gives the creator's buffer once.  While it is still pending the buffer must be
  aligned and apart from what is already out.
\<close>

definition stack_ok :: "pool_buf_state \<Rightarrow> region multiset \<Rightarrow> bool" where
  "stack_ok st R \<longleftrightarrow>
     (case pb_value st of None \<Rightarrow> True
      | Some c \<Rightarrow> 4 dvd unat (stack_buf c) \<and> unat (stack_buf c) + unat (cp_size c) < 2 ^ 64 \<and>
          (\<forall>r\<in>#R. apart (unat (stack_buf c), unat (cp_size c)) r))"

interpretation stack: block_provider stack_alloc stack_ok
proof unfold_locales
  fix s R n a s'
  assume a: "stack_ok s R" "stack_alloc s n = (a, s')" "a \<noteq> 0"
  then obtain c where c: "pb_value s = Some c" "a = stack_buf c" "unat n \<le> unat (cp_size c)"
      "s' = s\<lparr>pb_value := None\<rparr>"
    by (auto simp: stack_alloc_def word_le_nat_alt Let_def split: option.splits if_splits)
  then have "within (unat a, unat n) (unat (stack_buf c), unat (cp_size c))" by (simp add: within_def)
  then have "apart (unat a, unat n) r" if "r \<in># R" for r
    using a(1) c(1) that apart_within [of _ r _ r] by (fastforce simp: stack_ok_def within_def)
  then show "4 dvd unat a \<and> unat a + unat n < 2 ^ 64 \<and> (\<forall>r\<in>#R. apart (unat a, unat n) r) \<and>
      stack_ok s' (add_mset (unat a, unat n) R)"
    using a(1) c by (simp add: stack_ok_def)
next
  fix s R n s'
  assume "stack_ok s R" "stack_alloc s n = (0, s')"
  then show "stack_ok s' R"
    by (auto simp: stack_alloc_def stack_ok_def Let_def split: option.splits if_splits)
qed

text \<open>The default policy meets the contract whenever \<open>malloc\<close> does and the hooks leave it alone.\<close>

lemma default_block_alloc_provider:
  assumes "block_provider c_malloc ok"
    and "\<And>s R n h. on_alloc = Some h \<Longrightarrow> ok s R \<Longrightarrow> ok (snd (h s n)) R"
    and "\<And>s R n h. on_free = Some h \<Longrightarrow> ok s R \<Longrightarrow> ok (h s n) R"
  shows "block_provider (default_block_alloc c_malloc on_alloc on_free) ok"
proof (unfold_locales)
  have hook: "ok (snd (case on_alloc of None \<Rightarrow> (True, s) | Some h \<Rightarrow> h s n)) R" if "ok s R" for s n R
    using that assms(2) by (cases on_alloc) auto
  fix s R n a s'
  assume a: "ok s R" "default_block_alloc c_malloc on_alloc on_free s n = (a, s')" "a \<noteq> 0"
  then obtain s1 where "c_malloc s1 n = (a, s')" "ok s1 R"
    using hook [OF a(1), of n] by (auto simp: default_block_alloc_def Let_def split: prod.splits if_splits)
  with a(3) show "4 dvd unat a \<and> unat a + unat n < 2 ^ 64 \<and> (\<forall>r\<in>#R. apart (unat a, unat n) r) \<and>
      ok s' (add_mset (unat a, unat n) R)"
    using block_provider.alloc_fresh [OF assms(1)] by metis
next
  have hook: "ok (snd (case on_alloc of None \<Rightarrow> (True, s) | Some h \<Rightarrow> h s n)) R" if "ok s R" for s n R
    using that assms(2) by (cases on_alloc) auto
  fix s R n s'
  assume a: "ok s R" "default_block_alloc c_malloc on_alloc on_free s n = (0, s')"
  then show "ok s' R"
    using hook [OF a(1), of n] block_provider.alloc_fail [OF assms(1)] assms(3)
    by (auto simp: default_block_alloc_def Let_def split: prod.splits if_splits option.splits)
qed

context block_provider
begin

lemma alloc_succeeds:
  assumes pol: "block_alloc pol = alloc" and pool: "pool_ok pool"
    and ok: "ok s (mset (pool_regions pool) + R0)"
    and sz: "unat sz + unat (increment_size pool) + 44 < 2 ^ 64"
    and inc: "increment_size pool \<noteq> 0" and more: "fst (alloc s (grow_size (increment_size pool) sz)) \<noteq> 0"
  shows "\<exists>p. fst (em_pool_alloc pol pool sz s) = Ret p \<and> p \<noteq> 0"
proof -
  have sz4: "unat sz + 4 < 2 ^ 64" using sz by simp
  have bs: "blocks_ok (block_list pool)" using pool by (simp add: pool_ok_def)
  show ?thesis
  proof (cases "find_space (block_list pool) sz")
    case (Some q)
    then show ?thesis
      using find_space_Some [of "block_list pool" sz "fst q" "snd q"] bs sz4
      by (auto simp: alloc_eq_allocate_find [OF bs sz4] em_pool_allocate_find_def split: prod.splits)
  next
    case None
    let ?n = "grow_size (increment_size pool) sz"
    obtain a s1 where al: "alloc s ?n = (a, s1)" "a \<noteq> 0" using more by (metis fst_conv prod.exhaust)
    have i: "0 < unat (increment_size pool)" using inc by (simp add: unat_gt_0)
    have n: "unat sz + 44 \<le> unat ?n" using grow_size_fits(1) [OF i sz] .
    note g = grow_safe [OF pool ok _ al refl]
    obtain p b' where ab: "em_pool_alloc_from_block (new_block a ?n) sz = (p, b')" by force
    have "block_ok (new_block a ?n)" using g(2) n by (auto simp: pool_ok_def blocks_ok_def)
    then have "p \<noteq> 0"
      using alloc_null_same(2) [of "new_block a ?n" sz b'] sz4 ab g(3) n round_up_ge(2) [OF sz4] by auto
    then show ?thesis
      using None inc al ab
      by (simp add: alloc_eq_allocate_find [OF bs sz4] em_pool_allocate_find_def create_block_eq [OF pol al(1)])
  qed
qed

end

text \<open>Creation on a caller's buffer whose address is a multiple of the alignment.\<close>

lemma create_on_buf_ok:
  assumes "is_initialized st" "4 dvd unat buf" "unat buf + unat n < 2 ^ 64" "buf \<noteq> 0"
    and cr: "em_pool_create_on_buf fmt exn tls name buf n st = (Some pool, st')"
  shows "pool_ok pool" "p_addr pool = buf" "pool_regions pool = [(unat buf, unat n)]"
    "increment_size pool = 0" "stack_ok st' (mset (pool_regions pool) + {#})"
proof -
  let ?st = "st\<lparr>pb_value := Some \<lparr>stack_buf = buf, cp_size = n\<rparr>\<rparr>"
  have "buf AND 3 = 0" using assms(2) by (simp add: and_3_eq_0)
  then have cr': "em_pool_create_int fmt stack_based_policy name n 0
      (Some (default_pool_callback exn)) ?st = (Some pool, st')"
    using cr assms(1) by (auto simp: em_pool_create_on_buf_def EM_POOL_ALIGNMENT_def split: if_splits)
  have ok: "stack_ok ?st {#}" using assms(2,3) by (simp add: stack_ok_def)
  note c = stack.create_ok [OF _ ok cr']
  show "pool_ok pool" "increment_size pool = 0" "stack_ok st' (mset (pool_regions pool) + {#})"
    using c by (simp_all add: stack_based_policy_def)
  show p: "p_addr pool = buf"
    using cr' by (auto simp: em_pool_create_int_def stack_based_policy_def stack_alloc_def Let_def
        em_pool_init_int_def split: if_splits)
  show "pool_regions pool = [(unat buf, unat n)]" using c(7) p by (simp add: stack_based_policy_def)
qed

lemma user_ok_regions:
  assumes "pool_ok pool" "user_ok live (block_list pool)" "r \<in> set live"
  shows "\<exists>q\<in>set (pool_regions pool). within r q"
proof -
  obtain b where b: "b \<in> set (block_list pool)" "within r (used_region b)"
    using assms(2,3) by (auto simp: user_ok_def)
  then have "block_ok b" using assms(1) by (auto simp: pool_ok_def blocks_ok_def)
  with b region_of_block [OF b(1) assms(1)] used_within_block within_trans show ?thesis by meson
qed

lemma on_buf_alloc:
  assumes "is_initialized st" "4 dvd unat buf" "unat buf + unat n < 2 ^ 64" "buf \<noteq> 0"
    and "em_pool_create_on_buf fmt exn tls name buf n st = (Some pool, st')"
    and sz: "unat sz + 44 < 2 ^ 64"
    and al: "em_pool_alloc stack_based_policy pool sz st' = (Ret p, pool', st'')" "p \<noteq> 0"
  shows "4 dvd unat p \<and> unat buf \<le> unat p \<and> unat p + unat sz \<le> unat buf + unat n"
proof -
  note c = create_on_buf_ok [OF assms(1-5)]
  have po: "block_alloc stack_based_policy = stack_alloc" by (simp add: stack_based_policy_def)
  have u: "user_ok [] (block_list pool)" by (simp add: user_ok_def)
  have post: "alloc_post stack_ok sz [] {#} (Ret p, pool', st'')"
    using stack.alloc_safe [OF po c(1) u c(5), of sz] sz c(4) al(1) by simp
  then have q: "pool_ok pool'" "user_ok [(unat p, unat (round_up sz))] (block_list pool')" "4 dvd unat p"
    using al(2) by (simp_all add: alloc_post_def)
  have same: "pool_regions pool' = pool_regions pool"
  proof -
    have bs: "blocks_ok (block_list pool)" and s4: "unat sz + 4 < 2 ^ 64"
      using c(1) sz by (simp_all add: pool_ok_def)
    obtain bs' where f: "find_space (block_list pool) sz = Some (p, bs')" "pool' = pool\<lparr>block_list := bs'\<rparr>"
      using al c(4) by (auto simp: alloc_eq_allocate_find [OF bs s4] em_pool_allocate_find_def
          call_callback_def split: option.splits)
    from find_space_Some [OF f(1) bs s4] obtain pre b post b' where
      d: "block_list pool = pre @ b # post" "bs' = pre @ b' # post"
        "em_pool_alloc_from_block b sz = (p, b')" by blast
    have bok: "block_ok b" using bs d(1) by (simp add: blocks_ok_append)
    have "block_ok b' \<and> b_addr b' = b_addr b \<and> b_end b' = b_end b"
      by (rule alloc_from_block_cases [OF bok s4 d(3)]) (simp_all add: bok)
    with pool_ok_update(2) [OF c(1) d(1)] show ?thesis using f(2) d(2) by simp
  qed
  from user_ok_regions [OF q(1,2), of "(unat p, unat (round_up sz))"] have
    "within (unat p, unat (round_up sz)) (unat buf, unat n)" by (simp add: same c(3))
  with q(3) round_up_ge(1) [of sz] sz show ?thesis by (auto simp: within_def)
qed

section \<open>Properties\<close>

text \<open>
  A concrete block source for the examples: addresses grow and nothing is reused.
\<close>

definition bump_alloc :: "nat \<Rightarrow> em_size_t \<Rightarrow> ptr \<times> nat" where
  "bump_alloc s n = (if 0 < s \<and> s + unat n < 2 ^ 40 then (of_nat s, (s + unat n + 3) div 4 * 4) else (0, s))"

definition bump_free :: "nat \<Rightarrow> ptr \<Rightarrow> em_size_t \<Rightarrow> nat" where
  "bump_free s a n = s"

definition bump_ok :: "nat \<Rightarrow> region multiset \<Rightarrow> bool" where
  "bump_ok s R \<longleftrightarrow> 4 dvd s \<and> (\<forall>r\<in>#R. fst r + snd r \<le> s)"

definition bump_policy :: "nat em_pool_factory_policy" where
  "bump_policy = \<lparr>block_alloc = bump_alloc, block_free = Some bump_free,
     policy_callback = Some (default_pool_callback 7)\<rparr>"

lemma bump_recycler: "block_recycler bump_alloc bump_ok bump_free"
proof unfold_locales
  fix s R n a s'
  assume b: "bump_ok s R" "bump_alloc s n = (a, s')" "a \<noteq> 0"
  then have s: "0 < s" "s + unat n < 2 ^ 40" "a = of_nat s" "s' = (s + unat n + 3) div 4 * 4"
    by (auto simp: bump_alloc_def split: if_splits)
  then have "unat a = s" by (simp add: unat_of_nat take_bit_nat_eq_self)
  then show "4 dvd unat a \<and> unat a + unat n < 2 ^ 64 \<and> (\<forall>r\<in>#R. apart (unat a, unat n) r) \<and>
      bump_ok s' (add_mset (unat a, unat n) R)"
    using b(1) s by (fastforce simp: bump_ok_def apart_def)
qed (auto simp: bump_alloc_def bump_ok_def bump_free_def split: if_splits)

lemma bump_provider: "block_provider bump_alloc bump_ok"
  using bump_recycler by (simp add: block_recycler_def)

text \<open>A pool of 256 bytes at address 4096 growing by 512, for the examples.\<close>

definition ex_pool :: em_pool_t where
  "ex_pool = \<lparr>p_addr = 4096, obj_name = ''p'', factory_data = 0, capacity = 256, increment_size = 512,
     block_list = [\<lparr>b_addr = 4224, b_buf = 4264, b_cur = 4264, b_end = 4352\<rparr>], p_callback = None\<rparr>"

lemma ex_pool_ok: "pool_ok ex_pool" "user_ok [] (block_list ex_pool)"
  "bump_ok 4352 (mset (pool_regions ex_pool) + {#})"
  by (simp_all add: ex_pool_def pool_ok_def blocks_ok_def block_ok_def blocks_capacity_def pool_regions_def
      user_ok_def bump_ok_def)

text \<open>
  C1. Safety of \<open>em_pool_alloc\<close>: with a block source that meets its contract, and a request small enough
  that the size computations do not wrap, the call keeps the pool well formed and keeps account of what
  is out; a non-null result is a 4-aligned region inside the used part of a block, apart from every
  region given before, and a null result or an exception leaves the regions given as they were.
\<close>
theorem pool_alloc_safe:
  assumes "block_provider (block_alloc pol) ok" "pool_ok pool" "user_ok live (block_list pool)"
    and "ok s (mset (pool_regions pool) + R0)"
    and "unat sz + unat (increment_size pool) + 44 < 2 ^ 64"
  shows "alloc_post ok sz live R0 (em_pool_alloc pol pool sz s)"
  by (rule block_provider.alloc_safe [OF assms(1) refl assms(2-5)])

lemma pool_alloc_safe_witness:
  "alloc_post bump_ok 1000 [] {#} (em_pool_alloc bump_policy ex_pool 1000 4352)"
  by (rule pool_alloc_safe)
    (use ex_pool_ok bump_provider in \<open>simp_all add: bump_policy_def ex_pool_def\<close>)

text \<open>
  Growth succeeds: if the increment is not zero and the source delivers the block asked for, the
  call returns a non-null pointer, whatever the request; the assertion after the second try holds.
\<close>
lemma pool_alloc_grows:
  assumes "block_provider (block_alloc pol) ok" "pool_ok pool"
    and "ok s (mset (pool_regions pool) + R0)"
    and "unat sz + unat (increment_size pool) + 44 < 2 ^ 64" "increment_size pool \<noteq> 0"
    and "fst (block_alloc pol s (grow_size (increment_size pool) sz)) \<noteq> 0"
  shows "\<exists>p. fst (em_pool_alloc pol pool sz s) = Ret p \<and> p \<noteq> 0"
  by (rule block_provider.alloc_succeeds [OF assms(1) refl assms(2-6)])

lemma pool_alloc_grows_witness:
  "\<exists>p. fst (em_pool_alloc bump_policy ex_pool 1000 4352) = Ret p \<and> p \<noteq> 0"
  by (rule pool_alloc_grows [of _ bump_ok _ _ "{#}"])
    (use ex_pool_ok bump_provider in
      \<open>simp_all add: bump_policy_def ex_pool_def grow_size_def pool_const bump_alloc_def\<close>)

text \<open>
  Accounting: the used size of a well-formed pool is the header plus what each block has used, it
  does not wrap, and it never exceeds the capacity, which is the total size of the regions held.
\<close>
lemma pool_used_capacity:
  assumes "pool_ok pool"
  shows "em_pool_get_used_size pool \<le> em_pool_get_capacity pool \<and>
    unat (em_pool_get_used_size pool) =
      128 + sum_list (map (\<lambda>b. unat (b_cur b) - unat (b_buf b) + 40) (block_list pool)) \<and>
    unat (em_pool_get_capacity pool) = sum_list (map snd (pool_regions pool))"
  using used_capacity [OF assms] pool_capacity [OF assms] by (simp add: em_pool_get_capacity_def)

lemma pool_used_capacity_witness: "unat (em_pool_get_used_size ex_pool) = 168"
  using pool_used_capacity [OF ex_pool_ok(1)] by (simp add: ex_pool_def)

text \<open>
  Reset: every block but the first goes back to the source with its exact region, and the pool is
  again as it was created: one unused block and the capacity of its first region.
\<close>
lemma pool_reset_spec:
  assumes "block_recycler (block_alloc pol) ok rel" "block_free pol = Some rel" "pool_ok pool"
    and "ok s (mset (pool_regions pool) + R)"
  shows "\<exists>pool' s'. em_pool_reset pol pool s = Some (pool', s') \<and> pool_ok pool' \<and> pool_fresh pool' \<and>
    ok s' (mset (pool_regions pool') + R) \<and> p_addr pool' = p_addr pool \<and>
    pool_regions pool' = [last (pool_regions pool)] \<and> increment_size pool' = increment_size pool"
  using block_recycler.reset_ok [OF assms] pool_capacity(2) [OF assms(3)] by (simp add: em_pool_reset_def)

lemma pool_reset_spec_witness:
  "\<exists>pool' s'. em_pool_reset bump_policy ex_pool 4352 = Some (pool', s') \<and> pool_fresh pool' \<and>
     pool_regions pool' = [(4096, 256)]"
  using pool_reset_spec [of bump_policy bump_ok bump_free ex_pool 4352 "{#}"] ex_pool_ok bump_recycler
  by (auto simp: bump_policy_def ex_pool_def pool_regions_def)

text \<open>
  C33. Destruction returns every region of the pool to the source, each with the size it was taken with,
  so that nothing of the pool stays out.
\<close>
theorem pool_destroy_returns_all:
  assumes "block_recycler (block_alloc pol) ok rel" "block_free pol = Some rel" "pool_ok pool"
    and "ok s (mset (pool_regions pool) + R)"
  shows "\<exists>s'. em_pool_destroy_int pol pool s = Some s' \<and> ok s' R"
  by (rule block_recycler.destroy_ok [OF assms])

lemma pool_destroy_returns_all_witness:
  "\<exists>s'. em_pool_destroy_int bump_policy ex_pool 4352 = Some s' \<and> bump_ok s' {#}"
  by (rule pool_destroy_returns_all [of _ _ bump_free])
    (use ex_pool_ok bump_recycler in \<open>simp_all add: bump_policy_def\<close>)

text \<open>
  A pool on a caller's buffer whose address is a multiple of four never leaves the buffer: a
  non-null allocation is aligned and lies inside the \<open>n\<close> bytes given.
\<close>
lemma pool_on_buf_inside:
  assumes "is_initialized st" "4 dvd unat buf" "unat buf + unat n < 2 ^ 64" "buf \<noteq> 0"
    and "em_pool_create_on_buf fmt exn tls name buf n st = (Some pool, st')"
    and "unat sz + 44 < 2 ^ 64"
    and "em_pool_alloc stack_based_policy pool sz st' = (Ret p, pool', st'')" "p \<noteq> 0"
  shows "4 dvd unat p \<and> unat buf \<le> unat p \<and> unat p + unat sz \<le> unat buf + unat n"
  by (rule on_buf_alloc [OF assms])

lemma pool_on_buf_inside_witness:
  "let st = \<lparr>is_initialized = True, pb_tls = 0, pb_value = None, pb_atexit = 1\<rparr>;
       (pool, st') = em_pool_create_on_buf (\<lambda>f _. f) 7 (Inr 0) (Some ''b'') 4096 256 st
   in fst (em_pool_alloc stack_based_policy (the pool) 20 st') = Ret 4264 \<and> 4264 + 20 \<le> (4096 + 256 :: nat)"
  using pool_on_buf_inside [of "\<lparr>is_initialized = True, pb_tls = 0, pb_value = None, pb_atexit = 1\<rparr>" 4096 256
      "\<lambda>f _. f" 7 "Inr 0" "Some ''b''" _ _ 20 4264]
  by (simp add: em_pool_create_on_buf_def em_pool_create_int_def em_pool_init_int_def pool_const
      stack_based_policy_def stack_alloc_def ALIGN_PTR_def em_pool_alloc_def em_pool_alloc_from_block_def
      round_up_def Let_def default_pool_callback_def)

text \<open>
  On an unaligned buffer \<open>em_pool_create_on_buf\<close> moves the start by \<open>addr mod 4\<close> instead of to the
  next multiple of four.  With 169 bytes at an odd address the first block's \<open>cur\<close> ends up past its
  \<open>end\<close>, the unsigned difference is huge, and an allocation of 64 bytes is given beyond the buffer.
\<close>
lemma pool_on_buf_misaligned:
  "let st = \<lparr>is_initialized = True, pb_tls = 0, pb_value = None, pb_atexit = 1\<rparr>;
       (pool, st') = em_pool_create_on_buf (\<lambda>f _. f) 7 (Inr 0) None 4097 169 st
   in map_option p_addr pool = Some 4098 \<and>
      fst (em_pool_alloc stack_based_policy (the pool) 64 st') = Ret 4268 \<and> 4097 + 169 < (4268 :: nat)"
  by (simp add: em_pool_create_on_buf_def em_pool_create_int_def em_pool_init_int_def pool_const
      stack_based_policy_def stack_alloc_def ALIGN_PTR_def em_pool_alloc_def em_pool_alloc_from_block_def
      round_up_def Let_def)

text \<open>
  A request within three bytes of the address space's size is rounded up to zero: the fast path
  reports success for it without moving the allocation pointer, in every block.
\<close>
lemma pool_alloc_wrap:
  "em_pool_alloc_from_block b 0xFFFFFFFFFFFFFFFF = (b_cur b, b)"
proof -
  have "round_up 0xFFFFFFFFFFFFFFFF = 0" by (simp add: round_up_def pool_const)
  then show ?thesis by (simp add: em_pool_alloc_from_block_def)
qed

end
