(* ===== verification/Emlib_Caching.thy ===== *)
theory Emlib_Caching
  imports Emlib_Pool
begin

text \<open>
  The caching pool factory, \<open>src/pool_caching.c\<close>: pools are handed out from sixteen free lists of
  fixed size classes, created when the list of the class is empty, and recycled on release while the
  total capacity of the free lists stays below a bound.  Pools are known by their address; the lists
  hold addresses, and \<open>cp_pools\<close> is the memory that holds the pool structures.  The factory is its own
  source of blocks: the default policy calls its two hooks, which count the bytes that are out.
\<close>

section \<open>State and operations\<close>

definition EM_CACHING_POOL_ARRAY_SIZE :: nat where "EM_CACHING_POOL_ARRAY_SIZE = 16"
definition START_SIZE :: nat where "START_SIZE = 5"

definition pool_sizes :: "em_size_t list" where
  "pool_sizes = [256, 512, 1024, 2048, 4096, 8192, 12288, 16384,
     20480, 24576, 28672, 32768, 40960, 49152, 57344, 65536]"

lemmas caching_const = EM_CACHING_POOL_ARRAY_SIZE_def START_SIZE_def pool_sizes_def

text \<open>
  \<open>cp_locker\<close> is whether the recursive mutex was created, \<open>cp_depth\<close> how often the calling thread
  holds it, \<open>cp_heap\<close> the state of \<open>malloc\<close>.
\<close>

record 'h em_caching_pool =
  cp_capacity :: em_size_t
  cp_max_capacity :: em_size_t
  cp_used_count :: em_size_t
  cp_used_size :: em_size_t
  cp_peak_used_size :: em_size_t
  cp_locker :: bool
  cp_depth :: nat
  cp_free_list :: "ptr list list"
  cp_used_list :: "ptr list"
  cp_pools :: "ptr \<rightharpoonup> em_pool_t"
  cp_heap :: 'h

text \<open>Locking a null mutex is refused by the assertion and changes nothing.\<close>

definition cp_lock :: "'h em_caching_pool \<Rightarrow> 'h em_caching_pool" where
  "cp_lock cp = (if cp_locker cp then cp\<lparr>cp_depth := cp_depth cp + 1\<rparr> else cp)"

definition cp_unlock :: "'h em_caching_pool \<Rightarrow> 'h em_caching_pool" where
  "cp_unlock cp = (if cp_locker cp then cp\<lparr>cp_depth := cp_depth cp - 1\<rparr> else cp)"

definition cpool_on_block_alloc :: "'h em_caching_pool \<Rightarrow> em_size_t \<Rightarrow> bool \<times> 'h em_caching_pool" where
  "cpool_on_block_alloc cp sz =
     (let cp1 = cp_lock cp;
          cp2 = cp1\<lparr>cp_used_size := cp_used_size cp1 + sz\<rparr>;
          cp3 = (if cp_used_size cp2 > cp_peak_used_size cp2
                 then cp2\<lparr>cp_peak_used_size := cp_used_size cp2\<rparr> else cp2)
      in (True, cp_unlock cp3))"

definition cpool_on_block_free :: "'h em_caching_pool \<Rightarrow> em_size_t \<Rightarrow> 'h em_caching_pool" where
  "cpool_on_block_free cp sz =
     (let cp1 = cp_lock cp in cp_unlock (cp1\<lparr>cp_used_size := cp_used_size cp1 - sz\<rparr>))"

text \<open>The default policy with the factory's hooks; \<open>malloc\<close> and \<open>free\<close> work on \<open>cp_heap\<close>.\<close>

definition caching_policy ::
  "('h \<Rightarrow> em_size_t \<Rightarrow> ptr \<times> 'h) \<Rightarrow> ('h \<Rightarrow> ptr \<Rightarrow> 'h) \<Rightarrow> int \<Rightarrow> 'h em_caching_pool em_pool_factory_policy" where
  "caching_policy c_malloc c_free no_memory_exception =
     \<lparr>block_alloc = default_block_alloc
        (\<lambda>cp n. let (p, h) = c_malloc (cp_heap cp) n in (p, cp\<lparr>cp_heap := h\<rparr>))
        (Some cpool_on_block_alloc) (Some cpool_on_block_free),
      block_free = Some (default_block_free
        (\<lambda>cp p. cp\<lparr>cp_heap := c_free (cp_heap cp) p\<rparr>) (Some cpool_on_block_free)),
      policy_callback = Some (default_pool_callback no_memory_exception)\<rparr>"

definition em_caching_pool_init :: "bool \<Rightarrow> em_size_t \<Rightarrow> 'h \<Rightarrow> 'h em_caching_pool" where
  "em_caching_pool_init mutex_created max_capacity h =
     \<lparr>cp_capacity = 0, cp_max_capacity = max_capacity, cp_used_count = 0, cp_used_size = 0,
      cp_peak_used_size = 0, cp_locker = mutex_created, cp_depth = 0,
      cp_free_list = replicate EM_CACHING_POOL_ARRAY_SIZE [], cp_used_list = [],
      cp_pools = (\<lambda>_. None), cp_heap = h\<rparr>"

text \<open>The two searches for the size class; \<open>search_down\<close> holds \<open>idx + 1\<close>.\<close>

fun search_down :: "nat \<Rightarrow> em_size_t \<Rightarrow> nat" where
  "search_down 0 sz = 0"
| "search_down (Suc i) sz = (if pool_sizes ! i \<ge> sz then search_down i sz else Suc i)"

function search_up :: "nat \<Rightarrow> em_size_t \<Rightarrow> nat" where
  "search_up i sz =
     (if i < EM_CACHING_POOL_ARRAY_SIZE \<and> pool_sizes ! i < sz then search_up (i + 1) sz else i)"
  by pat_completeness auto
termination by (relation "measure (\<lambda>(i, sz). EM_CACHING_POOL_ARRAY_SIZE - i)") auto

declare search_up.simps [simp del]

definition cpool_index :: "em_size_t \<Rightarrow> nat" where
  "cpool_index sz =
     (if sz \<le> pool_sizes ! START_SIZE then search_down START_SIZE sz else search_up (START_SIZE + 1) sz)"

text \<open>The common end of \<open>cpool_create_pool\<close>: the new or recycled pool goes to the used list's tail.\<close>

definition cpool_hand_out :: "nat \<Rightarrow> em_pool_t \<Rightarrow> 'h em_caching_pool \<Rightarrow> ptr \<times> 'h em_caching_pool" where
  "cpool_hand_out idx pool cp =
     (p_addr pool,
      cp_unlock (cp\<lparr>cp_used_list := cp_used_list cp @ [p_addr pool],
        cp_pools := (cp_pools cp)(p_addr pool \<mapsto> pool\<lparr>factory_data := of_nat idx\<rparr>),
        cp_used_count := cp_used_count cp + 1\<rparr>))"

definition cpool_create_pool ::
  "(string \<Rightarrow> ptr \<Rightarrow> string) \<Rightarrow> 'h em_caching_pool em_pool_factory_policy \<Rightarrow> string option \<Rightarrow> em_size_t \<Rightarrow>
   em_size_t \<Rightarrow> em_pool_callback option \<Rightarrow> 'h em_caching_pool \<Rightarrow> ptr \<times> 'h em_caching_pool" where
  "cpool_create_pool fmt pol name initial_size increment callback cp0 =
     (let cp = cp_lock cp0;
          cb = (if callback = None then policy_callback pol else callback);
          idx = cpool_index initial_size
      in if idx = EM_CACHING_POOL_ARRAY_SIZE \<or> cp_free_list cp ! idx = [] then
           (let sz = (if idx < EM_CACHING_POOL_ARRAY_SIZE then pool_sizes ! idx else initial_size)
            in case em_pool_create_int fmt pol name sz increment cb cp of
                 (None, cp') \<Rightarrow> (0, cp_unlock cp')
               | (Some pool, cp') \<Rightarrow> cpool_hand_out idx pool cp')
         else
           (let p = hd (cp_free_list cp ! idx);
                pool = em_pool_init_int fmt (the (cp_pools cp p)) name increment cb;
                cp' = cp\<lparr>cp_free_list := (cp_free_list cp)[idx := tl (cp_free_list cp ! idx)],
                         cp_capacity := (if cp_capacity cp > em_pool_get_capacity pool
                           then cp_capacity cp - em_pool_get_capacity pool else 0)\<rparr>
            in cpool_hand_out idx pool cp'))"

text \<open>
  \<open>em_list_erase\<close> unlinks a pool from the list it is in, whichever that is.  Destroying a pool gives
  its memory back.  Both release and destruction are \<^const>\<open>None\<close> when they touch a pool that is not
  in memory, or call through a null \<open>block_free\<close>.  The guard of \<open>cpool_release_pool\<close>,
  \<open>EMLIB_ASSERT_ON_FAIL(pf && pool, return)\<close>, expands to \<open>if (!pf && pool) return;\<close> and never holds for
  a factory that exists, so a null pool is not turned away.
\<close>

definition cpool_erase :: "ptr \<Rightarrow> 'h em_caching_pool \<Rightarrow> 'h em_caching_pool" where
  "cpool_erase p cp = cp\<lparr>cp_used_list := remove1 p (cp_used_list cp),
     cp_free_list := map (remove1 p) (cp_free_list cp)\<rparr>"

definition cpool_drop ::
  "'h em_caching_pool em_pool_factory_policy \<Rightarrow> em_pool_t \<Rightarrow> 'h em_caching_pool \<Rightarrow> 'h em_caching_pool option" where
  "cpool_drop pol pool cp =
     map_option (\<lambda>cp'. cp'\<lparr>cp_pools := (cp_pools cp')(p_addr pool := None)\<rparr>) (em_pool_destroy_int pol pool cp)"

definition cpool_release_pool ::
  "'h em_caching_pool em_pool_factory_policy \<Rightarrow> ptr \<Rightarrow> 'h em_caching_pool \<Rightarrow> 'h em_caching_pool option" where
  "cpool_release_pool pol p cp0 = do {
     let cp1 = cpool_erase p (cp_lock cp0);
     let cp = cp1\<lparr>cp_used_count := cp_used_count cp1 - 1\<rparr>;
     pool \<leftarrow> cp_pools cp p;
     let cap = em_pool_get_capacity pool;
     if cap > pool_sizes ! (EM_CACHING_POOL_ARRAY_SIZE - 1) \<or> cp_capacity cp + cap > cp_max_capacity cp
     then map_option cp_unlock (cpool_drop pol pool cp)
     else do {
       (pool', cp') \<leftarrow> em_pool_reset pol pool cp;
       let i = unat (ucast (factory_data pool') :: 32 word);
       if i \<ge> EM_CACHING_POOL_ARRAY_SIZE
       then map_option cp_unlock (cpool_drop pol pool' cp')
       else Some (cp_unlock (cp'\<lparr>cp_pools := (cp_pools cp')(p \<mapsto> pool'),
              cp_free_list := (cp_free_list cp')[i := p # cp_free_list cp' ! i],
              cp_capacity := cp_capacity cp' + em_pool_get_capacity pool'\<rparr>))
     } }"

text \<open>
  The two loops of \<open>em_caching_pool_destroy\<close> unlink and destroy the pools of a list in order.  At the end
  the lock object, of which the model has no more than its depth, is destroyed; the pointer to it stays.
\<close>

fun cpool_destroy_list ::
  "'h em_caching_pool em_pool_factory_policy \<Rightarrow> ptr list \<Rightarrow> 'h em_caching_pool \<Rightarrow> 'h em_caching_pool option" where
  "cpool_destroy_list pol [] cp = Some cp"
| "cpool_destroy_list pol (p # ps) cp = do {
     pool \<leftarrow> cp_pools cp p;
     cp' \<leftarrow> cpool_drop pol pool (cpool_erase p cp);
     cpool_destroy_list pol ps cp' }"

definition em_caching_pool_destroy ::
  "'h em_caching_pool em_pool_factory_policy \<Rightarrow> 'h em_caching_pool \<Rightarrow> 'h em_caching_pool option" where
  "em_caching_pool_destroy pol cp = do {
     cp' \<leftarrow> cpool_destroy_list pol (concat (cp_free_list cp)) cp;
     cpool_destroy_list pol (cp_used_list cp') cp' }"

text \<open>The totals that \<open>cpool_dump_status\<close> prints; a percentage divides by the capacity.\<close>

definition cpool_dump_status :: "bool \<Rightarrow> 'h em_caching_pool \<Rightarrow> (em_size_t \<times> em_size_t) option" where
  "cpool_dump_status detail cp =
     (if \<not> detail then Some (0, 0)
      else do {
        pools \<leftarrow> those (map (cp_pools cp) (cp_used_list cp));
        if 0 \<in> set (map em_pool_get_capacity pools) then None
        else Some (sum_list (map em_pool_get_used_size pools), sum_list (map em_pool_get_capacity pools)) })"

text \<open>A client allocates from one of the factory's pools.\<close>

definition cpool_alloc ::
  "'h em_caching_pool em_pool_factory_policy \<Rightarrow> ptr \<Rightarrow> em_size_t \<Rightarrow> 'h em_caching_pool \<Rightarrow>
   (ptr outcome \<times> 'h em_caching_pool) option" where
  "cpool_alloc pol p sz cp = do {
     pool \<leftarrow> cp_pools cp p;
     let (r, pool', cp') = em_pool_alloc pol pool sz cp;
     Some (r, cp'\<lparr>cp_pools := (cp_pools cp')(p \<mapsto> pool')\<rparr>) }"

section \<open>Size classes\<close>

lemma pool_sizes_length [simp]: "length pool_sizes = EM_CACHING_POOL_ARRAY_SIZE"
  by (simp add: caching_const)

lemma pool_sizes_mono: "i \<le> j \<Longrightarrow> j < EM_CACHING_POOL_ARRAY_SIZE \<Longrightarrow> pool_sizes ! i \<le> pool_sizes ! j"
  by (rule sorted_nth_mono) (simp_all add: caching_const)

lemma pool_sizes_bounds:
  assumes "i < EM_CACHING_POOL_ARRAY_SIZE"
  shows "256 \<le> pool_sizes ! i" "pool_sizes ! i \<le> 65536"
proof -
  have "\<forall>x\<in>set pool_sizes. 256 \<le> x \<and> x \<le> 65536" by (simp add: pool_sizes_def)
  with assms show "256 \<le> pool_sizes ! i" "pool_sizes ! i \<le> 65536" by simp_all
qed

lemma search_down_spec:
  "search_down i sz \<le> i \<and> (\<forall>j<i. search_down i sz \<le> j \<longrightarrow> sz \<le> pool_sizes ! j) \<and>
   (0 < search_down i sz \<longrightarrow> pool_sizes ! (search_down i sz - 1) < sz)"
  by (induction i) (auto simp: less_Suc_eq not_le)

lemma search_up_spec:
  assumes "i \<le> EM_CACHING_POOL_ARRAY_SIZE"
  shows "i \<le> search_up i sz \<and> search_up i sz \<le> EM_CACHING_POOL_ARRAY_SIZE \<and>
    (\<forall>j. i \<le> j \<longrightarrow> j < search_up i sz \<longrightarrow> pool_sizes ! j < sz) \<and>
    (search_up i sz < EM_CACHING_POOL_ARRAY_SIZE \<longrightarrow> sz \<le> pool_sizes ! search_up i sz)"
  using assms
proof (induction i sz rule: search_up.induct)
  case (1 i sz)
  show ?case
  proof (cases "i < EM_CACHING_POOL_ARRAY_SIZE \<and> pool_sizes ! i < sz")
    case True
    then have e: "search_up i sz = search_up (i + 1) sz" by (simp add: search_up.simps [of i])
    have "pool_sizes ! j < sz" if "i \<le> j" "j < search_up (i + 1) sz" for j
      using 1(1) [OF True] True that by (cases "j = i") auto
    then show ?thesis using 1(1) [OF True] True e by auto
  next
    case False
    then have "search_up i sz = i" by (simp only: search_up.simps [of i sz] if_False)
    then show ?thesis using False 1(2) by auto
  qed
qed

text \<open>Both searches find the smallest class that holds the request, or 16 when none does.\<close>

lemma cpool_index_spec:
  "cpool_index sz \<le> EM_CACHING_POOL_ARRAY_SIZE"
  "j < cpool_index sz \<Longrightarrow> pool_sizes ! j < sz"
  "cpool_index sz < EM_CACHING_POOL_ARRAY_SIZE \<Longrightarrow> sz \<le> pool_sizes ! cpool_index sz"
proof -
  have st: "START_SIZE + 1 \<le> EM_CACHING_POOL_ARRAY_SIZE" by (simp add: START_SIZE_def EM_CACHING_POOL_ARRAY_SIZE_def)
  note u = search_up_spec [OF st, of sz] and d = search_down_spec [of START_SIZE sz]
  show "cpool_index sz \<le> EM_CACHING_POOL_ARRAY_SIZE"
    using u d st by (auto simp: cpool_index_def)
  show "pool_sizes ! j < sz" if j: "j < cpool_index sz"
  proof (cases "sz \<le> pool_sizes ! START_SIZE")
    case True
    with j d have k: "j \<le> search_down START_SIZE sz - 1" "0 < search_down START_SIZE sz"
        "search_down START_SIZE sz - 1 < EM_CACHING_POOL_ARRAY_SIZE"
      using st by (auto simp: cpool_index_def)
    with d pool_sizes_mono [OF k(1,3)] show ?thesis by (meson order_le_less_trans)
  next
    case False
    show ?thesis
    proof (cases "j \<le> START_SIZE")
      case True
      then show ?thesis using False pool_sizes_mono [OF True] st by (auto simp: not_le)
    next
      case 2: False
      then show ?thesis using u j False by (simp add: cpool_index_def)
    qed
  qed
  show "sz \<le> pool_sizes ! cpool_index sz" if "cpool_index sz < EM_CACHING_POOL_ARRAY_SIZE"
  proof (cases "sz \<le> pool_sizes ! START_SIZE")
    case True
    then show ?thesis using d by (cases "search_down START_SIZE sz = START_SIZE") (auto simp: cpool_index_def)
  qed (use u that in \<open>simp add: cpool_index_def\<close>)
qed

section \<open>The factory as a block source\<close>

text \<open>
  What the block hooks leave alone.  A state of the contract counts the bytes out and has a fixed view,
  so that the frame of every pool operation comes with the contract.
\<close>

definition cp_view ::
  "'h em_caching_pool \<Rightarrow> em_size_t \<times> em_size_t \<times> em_size_t \<times> bool \<times> nat \<times> ptr list list \<times> ptr list \<times>
     (ptr \<rightharpoonup> em_pool_t)" where
  "cp_view cp = (cp_capacity cp, cp_max_capacity cp, cp_used_count cp, cp_locker cp, cp_depth cp,
     cp_free_list cp, cp_used_list cp, cp_pools cp)"

definition cp_src ::
  "('h \<Rightarrow> region multiset \<Rightarrow> bool) \<Rightarrow> _ \<Rightarrow> 'h em_caching_pool \<Rightarrow> region multiset \<Rightarrow> bool" where
  "cp_src h_ok v cp R \<longleftrightarrow> h_ok (cp_heap cp) R \<and> cp_used_size cp = of_nat (\<Sum>r\<in>#R. snd r) \<and> cp_view cp = v"

lemma on_block_alloc_eq:
  "cpool_on_block_alloc cp sz =
     (True, cp\<lparr>cp_used_size := cp_used_size cp + sz,
        cp_peak_used_size := max (cp_peak_used_size cp) (cp_used_size cp + sz)\<rparr>)"
  by (auto simp: cpool_on_block_alloc_def cp_lock_def cp_unlock_def Let_def max_def not_less)

lemma on_block_free_eq:
  "cpool_on_block_free cp sz = cp\<lparr>cp_used_size := cp_used_size cp - sz\<rparr>"
  by (auto simp: cpool_on_block_free_def cp_lock_def cp_unlock_def Let_def)

lemma caching_recycler:
  assumes "block_recycler c_malloc h_ok (\<lambda>h a n. c_free h a)"
  shows "block_recycler (block_alloc (caching_policy c_malloc c_free exn)) (cp_src h_ok v)
    (the (block_free (caching_policy c_malloc c_free exn)))"
proof
  let ?M = "\<lambda>cp n. let (p, h) = c_malloc (cp_heap cp) n in (p, cp\<lparr>cp_heap := h\<rparr>)"
  note prov = block_recycler.axioms(1) [OF assms]
  note sim = caching_policy_def default_block_alloc_def default_block_free_def on_block_alloc_eq
    on_block_free_eq cp_src_def cp_view_def
  fix cp R n a cp'
  assume a: "cp_src h_ok v cp R" "block_alloc (caching_policy c_malloc c_free exn) cp n = (a, cp')" "a \<noteq> 0"
  obtain p h where m: "c_malloc (cp_heap cp) n = (p, h)" by force
  show "4 dvd unat a \<and> unat a + unat n < 2 ^ 64 \<and> (\<forall>r\<in>#R. apart (unat a, unat n) r) \<and>
      cp_src h_ok v cp' (add_mset (unat a, unat n) R)"
    using a m block_provider.alloc_fresh [OF prov _ m, of R] by (auto simp: sim add.commute)
next
  note prov = block_recycler.axioms(1) [OF assms]
  note sim = caching_policy_def default_block_alloc_def default_block_free_def on_block_alloc_eq
    on_block_free_eq cp_src_def cp_view_def
  fix cp R n cp'
  assume a: "cp_src h_ok v cp R" "block_alloc (caching_policy c_malloc c_free exn) cp n = (0, cp')"
  obtain p h where m: "c_malloc (cp_heap cp) n = (p, h)" by force
  have "p = 0" using a m by (auto simp: sim)
  then show "cp_src h_ok v cp' R"
    using a m block_provider.alloc_fail [OF prov, of "cp_heap cp" R n h] by (auto simp: sim)
next
  fix cp R and a n :: "64 word"
  assume "cp_src h_ok v cp (add_mset (unat a, unat n) R)"
  then show "cp_src h_ok v (the (block_free (caching_policy c_malloc c_free exn)) cp a n) R"
    using block_recycler.release_ok [OF assms, of "cp_heap cp" a n R]
    by (auto simp: caching_policy_def default_block_free_def on_block_free_eq cp_src_def cp_view_def)
qed

section \<open>The invariant\<close>

definition pools_regions :: "(ptr \<rightharpoonup> em_pool_t) \<Rightarrow> region multiset" where
  "pools_regions m = (\<Sum>p\<in>dom m. mset (pool_regions (the (m p))))"

lemma pools_regions_split:
  assumes "finite (dom m)" "m p = Some pool"
  shows "pools_regions m = mset (pool_regions pool) + pools_regions (m(p := None))"
proof -
  have "(\<Sum>q\<in>dom m - {p}. mset (pool_regions (the ((m(p := None)) q)))) =
      (\<Sum>q\<in>dom m - {p}. mset (pool_regions (the (m q))))"
    by (rule sum.cong) auto
  moreover have "p \<in> dom m" using assms(2) by auto
  ultimately show ?thesis
    using assms(2) sum.remove [OF assms(1), of p "\<lambda>q. mset (pool_regions (the (m q)))"]
    by (simp add: pools_regions_def)
qed

lemma pools_regions_upd:
  "finite (dom m) \<Longrightarrow> pools_regions (m(p \<mapsto> pool)) = mset (pool_regions pool) + pools_regions (m(p := None))"
  using pools_regions_split [of "m(p \<mapsto> pool)" p pool] by simp

text \<open>
  The size class of a pool: its first region, the one that survives a reset, has the class's size; a
  pool outside the classes is larger than the largest.
\<close>

definition class_ok :: "em_pool_t \<Rightarrow> bool" where
  "class_ok pool \<longleftrightarrow> (let i = unat (factory_data pool); n = snd (last (pool_regions pool)) in
     i \<le> EM_CACHING_POOL_ARRAY_SIZE \<and>
     (if i < EM_CACHING_POOL_ARRAY_SIZE then n = unat (pool_sizes ! i) else 65536 < n))"

text \<open>The memory part: every pool known is well formed, and the source is in step with them.\<close>

definition mem_ok :: "('h \<Rightarrow> region multiset \<Rightarrow> bool) \<Rightarrow> 'h em_caching_pool \<Rightarrow> bool" where
  "mem_ok h_ok cp \<longleftrightarrow> finite (dom (cp_pools cp)) \<and>
     (\<forall>p pool. cp_pools cp p = Some pool \<longrightarrow> pool_ok pool \<and> p_addr pool = p) \<and>
     cp_src h_ok (cp_view cp) cp (pools_regions (cp_pools cp))"

definition free_total :: "ptr list list \<Rightarrow> nat" where
  "free_total fl = (\<Sum>i<EM_CACHING_POOL_ARRAY_SIZE. length (fl ! i) * unat (pool_sizes ! i))"

abbreviation cp_all :: "'h em_caching_pool \<Rightarrow> ptr list" where
  "cp_all cp \<equiv> cp_used_list cp @ concat (cp_free_list cp)"

definition caching_ok :: "('h \<Rightarrow> region multiset \<Rightarrow> bool) \<Rightarrow> 'h em_caching_pool \<Rightarrow> bool" where
  "caching_ok h_ok cp \<longleftrightarrow> mem_ok h_ok cp \<and>
     length (cp_free_list cp) = EM_CACHING_POOL_ARRAY_SIZE \<and>
     distinct (cp_all cp) \<and> dom (cp_pools cp) = set (cp_all cp) \<and>
     (\<forall>p pool. cp_pools cp p = Some pool \<longrightarrow> class_ok pool) \<and>
     (\<forall>i<EM_CACHING_POOL_ARRAY_SIZE. \<forall>p\<in>set (cp_free_list cp ! i).
        pool_fresh (the (cp_pools cp p)) \<and> factory_data (the (cp_pools cp p)) = of_nat i) \<and>
     cp_used_count cp = of_nat (length (cp_used_list cp)) \<and>
     unat (cp_capacity cp) = free_total (cp_free_list cp) \<and>
     unat (cp_capacity cp) \<le> unat (cp_max_capacity cp)"

text \<open>What every operation keeps: the bound, the mutex, and how often it is held.\<close>

definition cp_same :: "'h em_caching_pool \<Rightarrow> 'h em_caching_pool \<Rightarrow> bool" where
  "cp_same cp cp' \<longleftrightarrow> cp_max_capacity cp' = cp_max_capacity cp \<and> cp_locker cp' = cp_locker cp \<and>
     cp_depth cp' = cp_depth cp"

lemma view_eqD:
  "cp_view cp' = cp_view cp \<Longrightarrow> cp_capacity cp' = cp_capacity cp \<and> cp_max_capacity cp' = cp_max_capacity cp \<and>
     cp_used_count cp' = cp_used_count cp \<and> cp_locker cp' = cp_locker cp \<and> cp_depth cp' = cp_depth cp \<and>
     cp_free_list cp' = cp_free_list cp \<and> cp_used_list cp' = cp_used_list cp \<and> cp_pools cp' = cp_pools cp"
  by (simp add: cp_view_def)

lemma mset_concat_update:
  "i < length xs \<Longrightarrow> mset (concat (xs[i := ys])) + mset (xs ! i) = mset (concat xs) + mset ys"
  by (induction xs arbitrary: i) (auto split: nat.splits)

lemma free_total_update:
  assumes "i < EM_CACHING_POOL_ARRAY_SIZE" "length fl = EM_CACHING_POOL_ARRAY_SIZE"
  shows "free_total (fl[i := ys]) + length (fl ! i) * unat (pool_sizes ! i) =
    free_total fl + length ys * unat (pool_sizes ! i)"
proof -
  let ?f = "\<lambda>fl j. length (fl ! j) * unat (pool_sizes ! j)"
  have m: "i \<in> {..<EM_CACHING_POOL_ARRAY_SIZE}" "finite {..<EM_CACHING_POOL_ARRAY_SIZE}" using assms by auto
  have "(\<Sum>j\<in>{..<EM_CACHING_POOL_ARRAY_SIZE} - {i}. ?f (fl[i := ys]) j) =
      (\<Sum>j\<in>{..<EM_CACHING_POOL_ARRAY_SIZE} - {i}. ?f fl j)"
    by (rule sum.cong) auto
  then show ?thesis
    using sum.remove [OF m(2,1), of "?f fl"] sum.remove [OF m(2,1), of "?f (fl[i := ys])"] assms
    by (simp add: free_total_def)
qed

lemma in_concat_nth: "i < length xs \<Longrightarrow> p \<in> set (xs ! i) \<Longrightarrow> p \<in> set (concat xs)"
  by auto

lemma fresh_capacity:
  assumes "pool_ok pool" "pool_fresh pool"
  shows "unat (capacity pool) = snd (last (pool_regions pool))"
  using pool_capacity(1) [OF assms(1)] assms(2) by (auto simp: pool_fresh_def pool_regions_def)

lemma last_le_capacity:
  assumes "pool_ok pool"
  shows "snd (last (pool_regions pool)) \<le> unat (capacity pool)"
  using pool_capacity(1) [OF assms] by (simp add: pool_regions_def)

section \<open>Handing out\<close>

lemma cp_lock_simps [simp]:
  "cp_capacity (cp_lock cp) = cp_capacity cp" "cp_max_capacity (cp_lock cp) = cp_max_capacity cp"
  "cp_used_count (cp_lock cp) = cp_used_count cp" "cp_used_size (cp_lock cp) = cp_used_size cp"
  "cp_locker (cp_lock cp) = cp_locker cp" "cp_free_list (cp_lock cp) = cp_free_list cp"
  "cp_used_list (cp_lock cp) = cp_used_list cp" "cp_pools (cp_lock cp) = cp_pools cp"
  "cp_heap (cp_lock cp) = cp_heap cp"
  by (simp_all add: cp_lock_def)

lemma cp_unlock_simps [simp]:
  "cp_capacity (cp_unlock cp) = cp_capacity cp" "cp_max_capacity (cp_unlock cp) = cp_max_capacity cp"
  "cp_used_count (cp_unlock cp) = cp_used_count cp" "cp_used_size (cp_unlock cp) = cp_used_size cp"
  "cp_locker (cp_unlock cp) = cp_locker cp" "cp_free_list (cp_unlock cp) = cp_free_list cp"
  "cp_used_list (cp_unlock cp) = cp_used_list cp" "cp_pools (cp_unlock cp) = cp_pools cp"
  "cp_heap (cp_unlock cp) = cp_heap cp"
  by (simp_all add: cp_unlock_def)

text \<open>A step between a lock and its unlock.\<close>

lemma cp_unlock_same: "cp_same (cp_lock cp) cp' \<Longrightarrow> cp_same cp (cp_unlock cp')"
  by (auto simp: cp_same_def cp_lock_def cp_unlock_def)

lemma mem_ok_iff:
  "mem_ok h_ok cp \<longleftrightarrow> finite (dom (cp_pools cp)) \<and>
     (\<forall>p pool. cp_pools cp p = Some pool \<longrightarrow> pool_ok pool \<and> p_addr pool = p) \<and>
     h_ok (cp_heap cp) (pools_regions (cp_pools cp)) \<and>
     cp_used_size cp = of_nat (\<Sum>r\<in>#pools_regions (cp_pools cp). snd r)"
  by (auto simp: mem_ok_def cp_src_def)

text \<open>The pool handed out is new to the used list, fits the request and is as good as new.\<close>

definition handed_out ::
  "em_size_t \<Rightarrow> em_size_t \<Rightarrow> 'h em_caching_pool \<Rightarrow> ptr \<Rightarrow> 'h em_caching_pool \<Rightarrow> bool" where
  "handed_out sz inc cp p cp' \<longleftrightarrow> p \<noteq> 0 \<and> p \<notin> set (cp_used_list cp) \<and>
     cp_used_list cp' = cp_used_list cp @ [p] \<and> cp_used_count cp' = cp_used_count cp + 1 \<and>
     (\<forall>q. q \<noteq> p \<longrightarrow> cp_pools cp' q = cp_pools cp q) \<and>
     (\<exists>pool. cp_pools cp' p = Some pool \<and> pool_fresh pool \<and> sz \<le> capacity pool \<and> increment_size pool = inc)"

lemma init_int_simps [simp]:
  "p_addr (em_pool_init_int fmt pool name inc cb) = p_addr pool"
  "capacity (em_pool_init_int fmt pool name inc cb) = capacity pool"
  "block_list (em_pool_init_int fmt pool name inc cb) = block_list pool"
  "factory_data (em_pool_init_int fmt pool name inc cb) = factory_data pool"
  "increment_size (em_pool_init_int fmt pool name inc cb) = inc"
  by (simp_all add: em_pool_init_int_def)

lemma pool_ok_cong:
  "block_list pool' = block_list pool \<Longrightarrow> p_addr pool' = p_addr pool \<Longrightarrow> capacity pool' = capacity pool \<Longrightarrow>
     pool_ok pool' = pool_ok pool"
  "block_list pool' = block_list pool \<Longrightarrow> p_addr pool' = p_addr pool \<Longrightarrow> pool_regions pool' = pool_regions pool"
  "block_list pool' = block_list pool \<Longrightarrow> pool_fresh pool' = pool_fresh pool"
  by (simp_all add: pool_ok_def pool_regions_def pool_fresh_def)

lemma create_fail:
  assumes "block_provider (block_alloc pol) ok" "ok s R"
    and "em_pool_create_int fmt pol name n inc cb s = (None, s')"
  shows "ok s' R"
proof -
  obtain a s1 where al: "block_alloc pol s n = (a, s1)" by force
  show ?thesis
    using assms(2,3) al block_provider.alloc_fail [OF assms(1,2), of n s1]
    by (auto simp: em_pool_create_int_def Let_def split: if_splits)
qed

lemma new_pool_address:
  assumes "pool_ok pool" "pool_ok pool'" "\<forall>r\<in>set (pool_regions pool). \<forall>r'\<in>set (pool_regions pool'). apart r r'"
  shows "p_addr pool \<noteq> p_addr pool'"
proof -
  have l: "last (pool_regions q) \<in> set (pool_regions q)" for q by (simp add: pool_regions_def)
  have pos: "0 < snd (last (pool_regions q))" if "pool_ok q" for q
  proof -
    from pool_ok_snoc [OF that] obtain bs b where b: "block_list q = bs @ [b]" by blast
    then have "block_ok b" using that by (simp add: pool_ok_def blocks_ok_def)
    from block_ok_le [OF this] show ?thesis using that b by (simp add: pool_ok_def pool_regions_def)
  qed
  have "apart (last (pool_regions pool)) (last (pool_regions pool'))" using assms(3) l by blast
  with pos [OF assms(1)] pos [OF assms(2)] show ?thesis by (auto simp: apart_def pool_regions_def)
qed

lemma create_apart:
  assumes "block_provider (block_alloc pol) ok" "ok s R"
    and cr: "em_pool_create_int fmt pol name n inc cb s = (Some pool, s')"
  shows "\<forall>r\<in>#R. apart (unat (p_addr pool), unat n) r" "p_addr pool \<noteq> 0"
proof -
  obtain a s1 where al: "block_alloc pol s n = (a, s1)" by force
  then have "p_addr pool = a" and a0: "a \<noteq> 0"
    using cr by (auto simp: em_pool_create_int_def Let_def split: if_splits)
  then show "\<forall>r\<in>#R. apart (unat (p_addr pool), unat n) r" "p_addr pool \<noteq> 0"
    using block_provider.alloc_fresh [OF assms(1,2) al a0] by simp_all
qed

lemma mem_ok_other_region:
  assumes "mem_ok h_ok cp" "cp_pools cp p = Some pool" "r \<in> set (pool_regions pool)"
  shows "r \<in># pools_regions (cp_pools cp)"
  using pools_regions_split [of "cp_pools cp" p pool] assms by (simp add: mem_ok_def)

text \<open>The state after the policy has worked on behalf of the factory.\<close>

lemma src_step:
  assumes "cp_src h_ok (cp_view cp) cp' R"
  shows "cp_view cp' = cp_view cp" "h_ok (cp_heap cp') R" "cp_used_size cp' = of_nat (\<Sum>r\<in>#R. snd r)"
  using assms by (simp_all add: cp_src_def)

lemma hand_out_new:
  assumes inv: "caching_ok h_ok cp" and v: "cp_view cp' = cp_view (cp_lock cp)"
    and pool: "pool_ok pool" "pool_fresh pool" "p_addr pool \<noteq> 0" "cp_pools cp (p_addr pool) = None"
      "sz \<le> capacity pool" "increment_size pool = inc" "class_ok (pool\<lparr>factory_data := of_nat idx\<rparr>)"
    and h: "h_ok (cp_heap cp') (mset (pool_regions pool) + pools_regions (cp_pools cp))"
      "cp_used_size cp' = of_nat (\<Sum>r\<in>#mset (pool_regions pool) + pools_regions (cp_pools cp). snd r)"
    and res: "cpool_hand_out idx pool cp' = (p, cp'')"
  shows "caching_ok h_ok cp'' \<and> cp_same cp cp'' \<and> handed_out sz inc cp p cp''"
proof -
  note v = view_eqD [OF v]
  let ?pool = "pool\<lparr>factory_data := of_nat idx\<rparr>"
  have cp'': "p = p_addr pool" "cp'' = cp_unlock (cp'\<lparr>cp_used_list := cp_used_list cp @ [p],
      cp_pools := (cp_pools cp)(p \<mapsto> ?pool), cp_used_count := cp_used_count cp + 1\<rparr>)"
    using res v by (auto simp: cpool_hand_out_def)
  have fin: "finite (dom (cp_pools cp))" using inv by (simp add: caching_ok_def mem_ok_def)
  have same: "pool_ok ?pool = pool_ok pool" "pool_regions ?pool = pool_regions pool"
    "pool_fresh ?pool = pool_fresh pool"
    by (simp_all add: pool_ok_def pool_regions_def pool_fresh_def)
  have "dom (cp_pools cp) = set (cp_all cp)" using inv by (simp only: caching_ok_def)
  moreover have "p \<notin> dom (cp_pools cp)" using pool(4) cp''(1) by (simp add: domIff)
  ultimately have nin: "p \<notin> set (cp_all cp)" by simp
  have reg: "pools_regions ((cp_pools cp)(p \<mapsto> ?pool)) = mset (pool_regions pool) + pools_regions (cp_pools cp)"
    using pools_regions_upd [OF fin, of p ?pool] pool(4) same cp''(1) by (simp add: fun_upd_idem)
  have "mem_ok h_ok cp''"
    unfolding mem_ok_iff using cp'' reg h inv pool(1) same by (auto simp: caching_ok_def mem_ok_iff)
  moreover have "cp_same cp cp''"
    unfolding cp''(2) by (rule cp_unlock_same) (use v in \<open>simp add: cp_same_def\<close>)
  moreover have "\<forall>q\<in>set (concat (cp_free_list cp)). q \<noteq> p" using nin by auto
  then have "\<forall>i<EM_CACHING_POOL_ARRAY_SIZE. \<forall>q\<in>set (cp_free_list cp ! i). q \<noteq> p"
    using inv by (metis caching_ok_def in_concat_nth)
  ultimately show ?thesis
    using inv nin cp'' v pool same unfolding caching_ok_def handed_out_def by auto
qed

lemma free_pool:
  assumes "caching_ok h_ok cp" "i < EM_CACHING_POOL_ARRAY_SIZE" "p \<in> set (cp_free_list cp ! i)"
  shows "pool_fresh (the (cp_pools cp p))" "factory_data (the (cp_pools cp p)) = of_nat i"
  using assms unfolding caching_ok_def by blast+

lemma free_pool_class:
  assumes inv: "caching_ok h_ok cp" and i: "i < EM_CACHING_POOL_ARRAY_SIZE" and p: "p \<in> set (cp_free_list cp ! i)"
  shows "\<exists>pool. cp_pools cp p = Some pool \<and> pool_ok pool \<and> p_addr pool = p \<and> pool_fresh pool \<and>
    factory_data pool = of_nat i \<and> capacity pool = pool_sizes ! i"
proof -
  have "p \<in> set (concat (cp_free_list cp))" using inv i p in_concat_nth [of i "cp_free_list cp" p] by (auto simp: caching_ok_def)
  then have "p \<in> dom (cp_pools cp)" using inv by (simp add: caching_ok_def)
  then obtain pool where pool: "cp_pools cp p = Some pool" by blast
  have ok: "pool_ok pool" "p_addr pool = p" "class_ok pool"
    using inv pool by (auto simp: caching_ok_def mem_ok_def)
  have f: "pool_fresh pool" "factory_data pool = of_nat i" using free_pool [OF inv i p] pool by simp_all
  have "unat (factory_data pool) = i"
    using f(2) i by (simp add: unat_of_nat take_bit_nat_eq_self EM_CACHING_POOL_ARRAY_SIZE_def)
  then have "unat (capacity pool) = unat (pool_sizes ! i)"
    using ok(3) i fresh_capacity [OF ok(1) f(1)] by (simp add: class_ok_def)
  then show ?thesis using pool ok(1,2) f by (simp add: word_unat_eq_iff)
qed

text \<open>The first pool of a free list: what is known of it, and what taking it off leaves.\<close>

lemma free_head:
  assumes inv: "caching_ok h_ok cp" and i: "i < EM_CACHING_POOL_ARRAY_SIZE" and q: "cp_free_list cp ! i = p # ps"
  obtains pool where "cp_pools cp p = Some pool" "pool_ok pool" "p_addr pool = p" "p \<noteq> 0" "pool_fresh pool"
    "factory_data pool = of_nat i" "capacity pool = pool_sizes ! i" "p \<notin> set (cp_used_list cp)"
proof -
  have p: "p \<in> set (cp_free_list cp ! i)" "p \<in> set (concat (cp_free_list cp))"
    using inv i q in_concat_nth [of i "cp_free_list cp" p] by (auto simp: caching_ok_def)
  obtain pool where pool: "cp_pools cp p = Some pool" "pool_ok pool" "p_addr pool = p" "pool_fresh pool"
    "factory_data pool = of_nat i" "capacity pool = pool_sizes ! i" using free_pool_class [OF inv i p(1)] by blast
  moreover have "p \<notin> set (cp_used_list cp)" using inv p(2) by (auto simp: caching_ok_def)
  moreover have "p \<noteq> 0" using pool(2,3) by (auto simp: pool_ok_def)
  ultimately show ?thesis using that by blast
qed

lemma take_free:
  assumes inv: "caching_ok h_ok cp" and i: "i < EM_CACHING_POOL_ARRAY_SIZE" and q: "cp_free_list cp ! i = p # ps"
  defines "fl \<equiv> (cp_free_list cp)[i := ps]"
  shows "mset (concat (cp_free_list cp)) = add_mset p (mset (concat fl))"
    "free_total fl + unat (pool_sizes ! i) = free_total (cp_free_list cp)" "length fl = length (cp_free_list cp)"
    "j < EM_CACHING_POOL_ARRAY_SIZE \<Longrightarrow> set (fl ! j) \<subseteq> set (cp_free_list cp ! j)"
    "j < EM_CACHING_POOL_ARRAY_SIZE \<Longrightarrow> p \<notin> set (fl ! j)"
proof -
  have len: "length (cp_free_list cp) = EM_CACHING_POOL_ARRAY_SIZE" and d: "distinct (concat (cp_free_list cp))"
    using inv by (simp_all add: caching_ok_def)
  show m: "mset (concat (cp_free_list cp)) = add_mset p (mset (concat fl))"
    using mset_concat_update [of i "cp_free_list cp" ps] len i q by (simp add: fl_def)
  show "free_total fl + unat (pool_sizes ! i) = free_total (cp_free_list cp)"
    using free_total_update [OF i len, of ps] q by (simp add: fl_def)
  show l: "length fl = length (cp_free_list cp)" by (simp add: fl_def)
  show "set (fl ! j) \<subseteq> set (cp_free_list cp ! j)" if "j < EM_CACHING_POOL_ARRAY_SIZE"
    using that q len by (cases "j = i") (auto simp: fl_def)
  have "distinct (p # concat fl)" using d m by (metis mset.simps(2) mset_eq_imp_distinct_iff)
  then show "p \<notin> set (fl ! j)" if "j < EM_CACHING_POOL_ARRAY_SIZE"
    using that l len in_concat_nth [of j fl p] by auto
qed

lemma hand_out_recycled:
  assumes inv: "caching_ok h_ok cp" and i: "i < EM_CACHING_POOL_ARRAY_SIZE" and q: "cp_free_list cp ! i = p # ps"
    and sz: "sz \<le> pool_sizes ! i" and pool: "pool = em_pool_init_int fmt (the (cp_pools cp p)) name inc cb"
    and cp': "cp' = (cp_lock cp)\<lparr>cp_free_list := (cp_free_list cp)[i := ps],
        cp_capacity := (if cp_capacity cp > em_pool_get_capacity pool
                        then cp_capacity cp - em_pool_get_capacity pool else 0)\<rparr>"
    and res: "cpool_hand_out i pool cp' = (r, cp'')"
  shows "caching_ok h_ok cp'' \<and> cp_same cp cp'' \<and> handed_out sz inc cp r cp''"
proof -
  from free_head [OF inv i q] obtain pool0 where p0: "cp_pools cp p = Some pool0" "pool_ok pool0"
    "p_addr pool0 = p" "p \<noteq> 0" "pool_fresh pool0" "factory_data pool0 = of_nat i"
    "capacity pool0 = pool_sizes ! i" "p \<notin> set (cp_used_list cp)" .
  let ?pool = "pool\<lparr>factory_data := of_nat i\<rparr>" and ?fl = "(cp_free_list cp)[i := ps]"
  note t = take_free [OF inv i q]
  have same: "pool_ok ?pool" "pool_regions ?pool = pool_regions pool0" "pool_fresh ?pool" "p_addr ?pool = p"
    "capacity ?pool = pool_sizes ! i" "increment_size ?pool = inc" "factory_data ?pool = factory_data pool0"
    using p0 pool by (simp_all add: pool_ok_def pool_regions_def pool_fresh_def)
  have cls: "class_ok ?pool"
    using inv p0(1) same by (simp add: caching_ok_def class_ok_def)
  have u: "unat (pool_sizes ! i) \<le> unat (cp_capacity cp)" using t(2) inv by (simp add: caching_ok_def)
  have cap: "unat (cp_capacity cp') = unat (cp_capacity cp) - unat (pool_sizes ! i)"
    using u p0(1,7) pool unat_diff_le [OF u]
    by (auto simp: cp' em_pool_get_capacity_def word_less_nat_alt)
  have cp'': "r = p" "cp'' = cp_unlock (cp'\<lparr>cp_used_list := cp_used_list cp @ [p],
      cp_pools := (cp_pools cp)(p \<mapsto> ?pool), cp_used_count := cp_used_count cp + 1\<rparr>)"
    using res same(4) by (auto simp: cpool_hand_out_def cp')
  have fin: "finite (dom (cp_pools cp))" using inv by (simp add: caching_ok_def mem_ok_def)
  have reg: "pools_regions ((cp_pools cp)(p \<mapsto> ?pool)) = pools_regions (cp_pools cp)"
    using pools_regions_upd [OF fin, of p ?pool] pools_regions_split [OF fin p0(1)] same(2) by simp
  have mem: "mem_ok h_ok cp''"
    unfolding mem_ok_iff using cp'' reg inv same by (auto simp: caching_ok_def mem_ok_iff cp')
  have sm: "cp_same cp cp''"
    unfolding cp''(2) by (rule cp_unlock_same) (simp add: cp_same_def cp')
  have ms: "mset (cp_all cp'') = mset (cp_all cp)" using cp''(2) t(1) by (simp add: cp')
  then have all: "distinct (cp_all cp'')" "set (cp_all cp'') = set (cp_all cp)"
    using inv by (simp_all only: caching_ok_def mset_eq_imp_distinct_iff [OF ms] mset_eq_setD [OF ms])
  have dm: "dom (cp_pools cp'') = set (cp_all cp'')"
    unfolding all(2) using inv cp''(2) p0(1) by (auto simp: caching_ok_def)
  have fl: "\<forall>j<EM_CACHING_POOL_ARRAY_SIZE. \<forall>q\<in>set (?fl ! j). pool_fresh (the (cp_pools cp'' q)) \<and>
      factory_data (the (cp_pools cp'' q)) = of_nat j"
  proof (intro allI impI ballI)
    fix j q assume j: "j < EM_CACHING_POOL_ARRAY_SIZE" and q: "q \<in> set (?fl ! j)"
    then have "q \<in> set (cp_free_list cp ! j)" "q \<noteq> p" using t(4,5) [OF j] by auto
    then show "pool_fresh (the (cp_pools cp'' q)) \<and> factory_data (the (cp_pools cp'' q)) = of_nat j"
      using free_pool [OF inv j] cp''(2) by simp
  qed
  have c: "unat (cp_capacity cp') = free_total ?fl" using cap t(2) inv by (simp add: caching_ok_def)
  have le: "unat (cp_capacity cp') \<le> unat (cp_max_capacity cp)"
    using inv cap by (auto simp: caching_ok_def intro: le_trans [OF diff_le_self])
  have e: "cp_free_list cp'' = ?fl" "cp_used_list cp'' = cp_used_list cp @ [p]"
    "cp_capacity cp'' = cp_capacity cp'" "cp_max_capacity cp'' = cp_max_capacity cp"
    "cp_used_count cp'' = cp_used_count cp + 1" "cp_pools cp'' = (cp_pools cp)(p \<mapsto> ?pool)"
    using cp''(2) by (simp_all add: cp')
  have "caching_ok h_ok cp''" unfolding caching_ok_def
  proof (intro conjI)
    show "\<forall>p pool. cp_pools cp'' p = Some pool \<longrightarrow> class_ok pool"
      using inv e(6) cls by (auto simp: caching_ok_def)
    show "cp_used_count cp'' = of_nat (length (cp_used_list cp''))" using inv e by (simp add: caching_ok_def)
    show "unat (cp_capacity cp'') \<le> unat (cp_max_capacity cp'')" using le e(3,4) by simp
    show "length (cp_free_list cp'') = EM_CACHING_POOL_ARRAY_SIZE" using inv e by (simp add: caching_ok_def)
  qed (use mem all(1) dm fl c e in simp_all)
  then show ?thesis using sm e cp''(1) p0(4,8) same sz by (simp add: handed_out_def)
qed

lemma create_pool_ok:
  assumes rec: "block_recycler c_malloc h_ok (\<lambda>h a n. c_free h a)" and inv: "caching_ok h_ok cp"
    and res: "cpool_create_pool fmt (caching_policy c_malloc c_free exn) name sz inc cb cp = (p, cp')"
  shows "caching_ok h_ok cp' \<and> cp_same cp cp' \<and>
    (if p = 0 then cp_view cp' = cp_view cp else handed_out sz inc cp p cp')"
proof -
  let ?pol = "caching_policy c_malloc c_free exn" and ?i = "cpool_index sz"
  let ?cb = "if cb = None then policy_callback ?pol else cb"
  note idx = cpool_index_spec [where sz = sz]
  show ?thesis
  proof (cases "?i = EM_CACHING_POOL_ARRAY_SIZE \<or> cp_free_list cp ! ?i = []")
    case False
    then obtain q qs where q: "cp_free_list cp ! ?i = q # qs" by (cases "cp_free_list cp ! ?i") auto
    have i: "?i < EM_CACHING_POOL_ARRAY_SIZE" using False idx(1) by simp
    let ?pool = "em_pool_init_int fmt (the (cp_pools cp q)) name inc ?cb"
    have "cpool_hand_out ?i ?pool ((cp_lock cp)\<lparr>cp_free_list := (cp_free_list cp)[?i := qs],
        cp_capacity := (if cp_capacity cp > em_pool_get_capacity ?pool
                        then cp_capacity cp - em_pool_get_capacity ?pool else 0)\<rparr>) = (p, cp')"
      using False q res by (simp add: cpool_create_pool_def Let_def split del: if_split cong: if_cong)
    from hand_out_recycled [OF inv i q idx(3) [OF i] refl refl this] show ?thesis by (simp add: handed_out_def)
  next
    case True
    let ?n = "if ?i < EM_CACHING_POOL_ARRAY_SIZE then pool_sizes ! ?i else sz"
    let ?R = "pools_regions (cp_pools cp)"
    have src: "cp_src h_ok (cp_view (cp_lock cp)) (cp_lock cp) ?R"
      using inv by (simp add: caching_ok_def mem_ok_iff cp_src_def)
    note rec' = caching_recycler [OF rec, of exn "cp_view (cp_lock cp)"]
    note prov = block_recycler.axioms(1) [OF rec']
    obtain r cp1 where cr: "em_pool_create_int fmt ?pol name ?n inc ?cb (cp_lock cp) = (r, cp1)" by force
    show ?thesis
    proof (cases r)
      case None
      note s = src_step [OF create_fail [OF prov src cr [unfolded None]]]
      have r: "p = 0" "cp' = cp_unlock cp1"
        using res cr None True by (auto simp: cpool_create_pool_def Let_def)
      have v: "cp_view cp' = cp_view cp"
        using view_eqD [OF s(1)] r(2) by (auto simp: cp_view_def cp_lock_def cp_unlock_def)
      have "caching_ok h_ok cp' \<and> cp_same cp cp'"
        using inv s(2,3) view_eqD [OF v] r(2) by (simp add: caching_ok_def mem_ok_iff cp_same_def)
      then show ?thesis using r(1) v by simp
    next
      case (Some pool)
      note cr = cr [unfolded Some]
      note c = block_provider.create_ok [OF prov refl src cr]
      note s = src_step [OF c(3)]
      note fresh = create_apart [OF prov src cr]
      have "q \<noteq> p_addr pool" if "cp_pools cp q = Some pool'" for q pool'
      proof -
        have m: "mem_ok h_ok cp" using inv by (simp add: caching_ok_def)
        then have "pool_ok pool'" "p_addr pool' = q" "\<forall>r\<in>set (pool_regions pool'). r \<in># ?R"
          using that mem_ok_other_region [OF m that] by (simp_all add: mem_ok_def)
        then show ?thesis using new_pool_address [OF c(1), of pool'] fresh(1) c(7) by auto
      qed
      then have none: "cp_pools cp (p_addr pool) = None" by (metis not_None_eq)
      have le: "sz \<le> ?n" using idx(3) by simp
      have big: "65536 < sz" if "?i = EM_CACHING_POOL_ARRAY_SIZE"
        using idx(2) [of 15] that by (simp add: caching_const)
      have cls: "class_ok (pool\<lparr>factory_data := of_nat ?i\<rparr>)"
        using c(7) idx(1) big word_less_nat_alt [of 65536 sz]
        by (auto simp: class_ok_def Let_def pool_regions_def unat_of_nat take_bit_nat_eq_self
            EM_CACHING_POOL_ARRAY_SIZE_def)
      have "caching_ok h_ok cp' \<and> cp_same cp cp' \<and> handed_out sz inc cp p cp'"
        by (rule hand_out_new [OF inv s(1) c(1,2) fresh(2) none _ c(5) cls s(2,3)])
          (use res cr True le c(4) in \<open>auto simp: cpool_create_pool_def Let_def\<close>)
      then show ?thesis by (simp add: handed_out_def)
    qed
  qed
qed

section \<open>Taking back\<close>

lemma drop_ok:
  assumes rec: "block_recycler c_malloc h_ok (\<lambda>h a n. c_free h a)" and inv: "mem_ok h_ok cp"
    and p: "cp_pools cp p = Some pool"
  shows "\<exists>cp'. cpool_drop (caching_policy c_malloc c_free exn) pool cp = Some cp' \<and> mem_ok h_ok cp' \<and>
    cp_view cp' = cp_view (cp\<lparr>cp_pools := (cp_pools cp)(p := None)\<rparr>)"
proof -
  let ?pol = "caching_policy c_malloc c_free exn"
  have bf: "block_free ?pol = Some (the (block_free ?pol))" by (simp add: caching_policy_def)
  have fin: "finite (dom (cp_pools cp))" and pool: "pool_ok pool" "p_addr pool = p"
    using inv p by (auto simp: mem_ok_def)
  have "cp_src h_ok (cp_view cp) cp (mset (pool_regions pool) + pools_regions ((cp_pools cp)(p := None)))"
    using inv pools_regions_split [OF fin p] by (simp add: mem_ok_def)
  from block_recycler.destroy_ok [OF caching_recycler [OF rec] bf pool(1) this]
  obtain s' where s': "em_pool_destroy_int ?pol pool cp = Some s'"
      "cp_src h_ok (cp_view cp) s' (pools_regions ((cp_pools cp)(p := None)))"
    by blast
  note s = src_step [OF s'(2)]
  let ?cp = "s'\<lparr>cp_pools := (cp_pools s')(p := None)\<rparr>"
  have "cp_view ?cp = cp_view (cp\<lparr>cp_pools := (cp_pools cp)(p := None)\<rparr>)" using s(1) by (simp add: cp_view_def)
  moreover have "mem_ok h_ok ?cp"
    unfolding mem_ok_iff using inv s view_eqD [OF s(1)] by (auto simp: mem_ok_def)
  ultimately show ?thesis using s'(1) pool(2) by (simp add: cpool_drop_def)
qed

lemma reset_factory_data:
  "reset_pool pol pool s = Some (pool', s') \<Longrightarrow> factory_data pool' = factory_data pool"
  by (auto simp: reset_pool_def Let_def split: if_splits Option.bind_splits)

text \<open>Where a released pool ends: destroyed, or as new at the head of its class's free list.\<close>

definition released :: "'h em_caching_pool \<Rightarrow> ptr \<Rightarrow> 'h em_caching_pool \<Rightarrow> bool" where
  "released cp p cp' \<longleftrightarrow> cp_used_list cp' = remove1 p (cp_used_list cp) \<and>
     (\<forall>q. q \<noteq> p \<longrightarrow> cp_pools cp' q = cp_pools cp q) \<and>
     (case cp_pools cp' p of
        None \<Rightarrow> cp_free_list cp' = cp_free_list cp
      | Some pool \<Rightarrow> pool_fresh pool \<and> (\<exists>i<EM_CACHING_POOL_ARRAY_SIZE. capacity pool = pool_sizes ! i \<and>
          cp_free_list cp' = (cp_free_list cp)[i := p # cp_free_list cp ! i]))"

lemma erase_used:
  assumes inv: "caching_ok h_ok cp" and p: "p \<in> set (cp_used_list cp)"
  shows "map (remove1 p) (cp_free_list cp) = cp_free_list cp" "p \<notin> set (concat (cp_free_list cp))"
    "mset (cp_used_list cp) = add_mset p (mset (remove1 p (cp_used_list cp)))"
    "\<exists>pool. cp_pools cp p = Some pool \<and> pool_ok pool \<and> p_addr pool = p \<and> class_ok pool"
    "of_nat (length (remove1 p (cp_used_list cp))) = cp_used_count cp - 1"
proof -
  show n: "p \<notin> set (concat (cp_free_list cp))" using inv p by (auto simp: caching_ok_def)
  then show "map (remove1 p) (cp_free_list cp) = cp_free_list cp"
    by (intro map_idI) (auto intro: remove1_idem)
  show m: "mset (cp_used_list cp) = add_mset p (mset (remove1 p (cp_used_list cp)))" using p by simp
  have "p \<in> dom (cp_pools cp)" using inv p by (simp add: caching_ok_def)
  then obtain pool where "cp_pools cp p = Some pool" by blast
  then show "\<exists>pool. cp_pools cp p = Some pool \<and> pool_ok pool \<and> p_addr pool = p \<and> class_ok pool"
    using inv unfolding caching_ok_def mem_ok_def by blast
  have "length (cp_used_list cp) = Suc (length (remove1 p (cp_used_list cp)))"
    using m by (metis size_mset size_add_mset)
  then show "of_nat (length (remove1 p (cp_used_list cp))) = cp_used_count cp - 1"
    using inv by (simp add: caching_ok_def)
qed

lemma release_destroyed:
  assumes inv: "caching_ok h_ok cp" and p: "p \<in> set (cp_used_list cp)" and mem: "mem_ok h_ok cp2"
    and v: "cp_view cp2 = cp_view ((cpool_erase p (cp_lock cp))\<lparr>cp_used_count := cp_used_count cp - 1,
        cp_pools := (cp_pools cp)(p := None)\<rparr>)"
  shows "caching_ok h_ok (cp_unlock cp2) \<and> cp_same cp (cp_unlock cp2) \<and> released cp p (cp_unlock cp2)"
proof -
  note e = erase_used [OF inv p]
  have f: "cp_used_list cp2 = remove1 p (cp_used_list cp)" "cp_free_list cp2 = cp_free_list cp"
    "cp_pools cp2 = (cp_pools cp)(p := None)" "cp_used_count cp2 = cp_used_count cp - 1"
    "cp_capacity cp2 = cp_capacity cp" "cp_max_capacity cp2 = cp_max_capacity cp" "cp_same (cp_lock cp) cp2"
    using view_eqD [OF v] e(1) by (simp_all add: cpool_erase_def cp_same_def)
  have d: "distinct (cp_used_list cp)" "dom (cp_pools cp) = set (cp_all cp)"
    using inv by (simp_all add: caching_ok_def)
  have dm: "dom (cp_pools cp2) = set (cp_all cp2)"
    using d e(2) f by (auto simp: set_remove1_eq)
  have fr: "\<forall>i<EM_CACHING_POOL_ARRAY_SIZE. \<forall>q\<in>set (cp_free_list cp2 ! i).
      pool_fresh (the (cp_pools cp2 q)) \<and> factory_data (the (cp_pools cp2 q)) = of_nat i"
  proof (intro allI impI ballI)
    fix i q assume i: "i < EM_CACHING_POOL_ARRAY_SIZE" "q \<in> set (cp_free_list cp2 ! i)"
    then have q: "q \<in> set (cp_free_list cp ! i)" using f(2) by simp
    then have "q \<noteq> p" using i inv e(2) in_concat_nth [of i "cp_free_list cp" q] by (auto simp: caching_ok_def)
    with free_pool [OF inv i(1) q] f(3)
    show "pool_fresh (the (cp_pools cp2 q)) \<and> factory_data (the (cp_pools cp2 q)) = of_nat i" by simp
  qed
  have "distinct (cp_all cp2)" using inv d(1) f(1,2) e(2) by (auto simp: caching_ok_def set_remove1_eq)
  then have "caching_ok h_ok (cp_unlock cp2)"
    using inv mem dm fr f e(5) by (simp add: caching_ok_def mem_ok_iff)
  then show ?thesis using cp_unlock_same [OF f(7)] f(1-3) by (simp add: released_def)
qed

lemma release_recycled:
  assumes inv: "caching_ok h_ok cp" and p: "p \<in> set (cp_used_list cp)" and i: "i < EM_CACHING_POOL_ARRAY_SIZE"
    and pool: "pool_ok pool" "pool_fresh pool" "p_addr pool = p" "factory_data pool = of_nat i"
      "capacity pool = pool_sizes ! i" "class_ok pool"
    and room: "unat (cp_capacity cp) + unat (pool_sizes ! i) \<le> unat (cp_max_capacity cp)"
    and v: "cp_view cp2 = cp_view ((cpool_erase p (cp_lock cp))\<lparr>cp_used_count := cp_used_count cp - 1\<rparr>)"
    and h: "h_ok (cp_heap cp2) (mset (pool_regions pool) + pools_regions ((cp_pools cp)(p := None)))"
      "cp_used_size cp2 = of_nat (\<Sum>r\<in>#mset (pool_regions pool) + pools_regions ((cp_pools cp)(p := None)). snd r)"
    and cp3: "cp3 = cp2\<lparr>cp_pools := (cp_pools cp2)(p \<mapsto> pool),
      cp_free_list := (cp_free_list cp2)[i := p # cp_free_list cp2 ! i],
      cp_capacity := cp_capacity cp2 + em_pool_get_capacity pool\<rparr>"
  shows "caching_ok h_ok (cp_unlock cp3) \<and> cp_same cp (cp_unlock cp3) \<and> released cp p (cp_unlock cp3)"
proof -
  note e = erase_used [OF inv p]
  let ?fl = "(cp_free_list cp)[i := p # cp_free_list cp ! i]"
  have len: "length (cp_free_list cp) = EM_CACHING_POOL_ARRAY_SIZE" using inv by (simp add: caching_ok_def)
  have f: "cp_used_list cp3 = remove1 p (cp_used_list cp)" "cp_free_list cp3 = ?fl"
    "cp_pools cp3 = (cp_pools cp)(p \<mapsto> pool)" "cp_used_count cp3 = cp_used_count cp - 1"
    "cp_capacity cp3 = cp_capacity cp + pool_sizes ! i" "cp_max_capacity cp3 = cp_max_capacity cp"
    "cp_same (cp_lock cp) cp3" "cp_heap cp3 = cp_heap cp2" "cp_used_size cp3 = cp_used_size cp2"
    using view_eqD [OF v] e(1) pool(5)
    by (simp_all add: cpool_erase_def cp_same_def cp3 em_pool_get_capacity_def)
  have fin: "finite (dom (cp_pools cp))" using inv by (simp add: caching_ok_def mem_ok_def)
  have mem: "mem_ok h_ok cp3"
    unfolding mem_ok_iff using inv pool(1,3) h f pools_regions_upd [OF fin, of p pool]
    by (auto simp: caching_ok_def mem_ok_iff)
  have ms: "mset (cp_all cp3) = mset (cp_all cp)"
    using mset_concat_update [of i "cp_free_list cp" "p # cp_free_list cp ! i"] i len e(3) f(1,2) by simp
  have all: "distinct (cp_all cp3)" "set (cp_all cp3) = set (cp_all cp)"
    using inv by (simp_all only: caching_ok_def mset_eq_imp_distinct_iff [OF ms] mset_eq_setD [OF ms])
  have dm: "dom (cp_pools cp3) = set (cp_all cp3)"
    unfolding all(2) using inv f(3) p by (auto simp: caching_ok_def)
  have fr: "\<forall>j<EM_CACHING_POOL_ARRAY_SIZE. \<forall>q\<in>set (cp_free_list cp3 ! j).
      pool_fresh (the (cp_pools cp3 q)) \<and> factory_data (the (cp_pools cp3 q)) = of_nat j"
  proof (intro allI impI ballI)
    fix j q assume j: "j < EM_CACHING_POOL_ARRAY_SIZE" "q \<in> set (cp_free_list cp3 ! j)"
    have "p \<notin> set (cp_free_list cp ! j)" using j(1) e(2) len in_concat_nth [of j "cp_free_list cp" p] by metis
    with j consider "q = p" "j = i" | "q \<noteq> p" "q \<in> set (cp_free_list cp ! j)"
      using f(2) len by (cases "j = i") (auto simp: nth_list_update)
    then show "pool_fresh (the (cp_pools cp3 q)) \<and> factory_data (the (cp_pools cp3 q)) = of_nat j"
      by cases (use free_pool [OF inv j(1)] f(3) pool in simp_all)
  qed
  have cap: "unat (cp_capacity cp3) = unat (cp_capacity cp) + unat (pool_sizes ! i)"
    unfolding f(5) by (rule unat_add_no_wrap) (use room unat_below [of "cp_max_capacity cp"] in simp)
  then have "unat (cp_capacity cp3) = free_total ?fl" "unat (cp_capacity cp3) \<le> unat (cp_max_capacity cp3)"
    using free_total_update [OF i len, of "p # cp_free_list cp ! i"] inv room f(6)
    by (simp_all add: caching_ok_def)
  then have "caching_ok h_ok cp3"
    using inv mem all(1) dm fr f(1-4) e(5) pool(6) len unfolding caching_ok_def by auto
  then have "caching_ok h_ok (cp_unlock cp3)" by (simp add: caching_ok_def mem_ok_iff)
  moreover have "released cp p (cp_unlock cp3)" using f pool(2,5) i by (auto simp: released_def)
  ultimately show ?thesis using cp_unlock_same [OF f(7)] by simp
qed

lemma release_pool_ok:
  assumes rec: "block_recycler c_malloc h_ok (\<lambda>h a n. c_free h a)" and inv: "caching_ok h_ok cp"
    and p: "p \<in> set (cp_used_list cp)" and mx: "unat (cp_max_capacity cp) + 65536 < 2 ^ 64"
  shows "\<exists>cp'. cpool_release_pool (caching_policy c_malloc c_free exn) p cp = Some cp' \<and>
    caching_ok h_ok cp' \<and> cp_same cp cp' \<and> released cp p cp'"
proof -
  let ?pol = "caching_policy c_malloc c_free exn"
  let ?cp = "(cpool_erase p (cp_lock cp))\<lparr>cp_used_count := cp_used_count cp - 1\<rparr>"
  from erase_used(4) [OF inv p] obtain pool where
    pool: "cp_pools cp p = Some pool" "pool_ok pool" "p_addr pool = p" "class_ok pool" by blast
  have p0: "p \<noteq> 0" using pool(2,3) by (auto simp: pool_ok_def)
  have bf: "block_free ?pol = Some (the (block_free ?pol))" by (simp add: caching_policy_def)
  have fin: "finite (dom (cp_pools cp))" using inv by (simp add: caching_ok_def mem_ok_def)
  have st: "cp_pools ?cp = cp_pools cp" "cp_heap ?cp = cp_heap cp" "cp_used_size ?cp = cp_used_size cp"
    "cp_capacity ?cp = cp_capacity cp" "cp_max_capacity ?cp = cp_max_capacity cp"
    "cp_used_count (cpool_erase p (cp_lock cp)) = cp_used_count cp"
    by (simp_all add: cpool_erase_def)
  have mem: "mem_ok h_ok ?cp" using inv st by (simp add: caching_ok_def mem_ok_iff)
  let ?big = "capacity pool > pool_sizes ! (EM_CACHING_POOL_ARRAY_SIZE - 1) \<or>
    cp_capacity cp + capacity pool > cp_max_capacity cp"
  show ?thesis
  proof (cases ?big)
    case True
    from drop_ok [OF rec mem, of p pool exn] pool(1) st(1) obtain cp2 where
      d: "cpool_drop ?pol pool ?cp = Some cp2" "mem_ok h_ok cp2"
        "cp_view cp2 = cp_view (?cp\<lparr>cp_pools := (cp_pools cp)(p := None)\<rparr>)" by auto
    then have "cpool_release_pool ?pol p cp = Some (cp_unlock cp2)"
      using p0 True pool(1) st by (auto simp: cpool_release_pool_def Let_def em_pool_get_capacity_def)
    with release_destroyed [OF inv p d(2)] d(3) show ?thesis by simp
  next
    case False
    have c64: "unat (capacity pool) \<le> 65536"
      using False word_le_nat_alt [of "capacity pool" 65536] by (simp add: caching_const not_less)
    have "cp_src h_ok (cp_view ?cp) ?cp (mset (pool_regions pool) + pools_regions ((cp_pools cp)(p := None)))"
      using mem pools_regions_split [OF fin pool(1)] st(1) by (simp add: mem_ok_def)
    from block_recycler.reset_ok [OF caching_recycler [OF rec] bf pool(2) this]
    obtain pool' cp2 where r: "reset_pool ?pol pool ?cp = Some (pool', cp2)" "pool_ok pool'" "pool_fresh pool'"
        "cp_src h_ok (cp_view ?cp) cp2 (mset (pool_regions pool') + pools_regions ((cp_pools cp)(p := None)))"
        "p_addr pool' = p" "pool_regions pool' = [last (pool_regions pool)]"
      using pool(3) by blast
    note s = src_step [OF r(4)]
    have fd: "factory_data pool' = factory_data pool" by (rule reset_factory_data [OF r(1)])
    let ?i = "unat (factory_data pool)"
    have small: "snd (last (pool_regions pool)) \<le> 65536" using last_le_capacity [OF pool(2)] c64 by simp
    then have i: "?i < EM_CACHING_POOL_ARRAY_SIZE" "snd (last (pool_regions pool)) = unat (pool_sizes ! ?i)"
      using pool(4) by (auto simp: class_ok_def Let_def split: if_splits)
    have cap: "capacity pool' = pool_sizes ! ?i"
      using fresh_capacity [OF r(2,3)] r(6) i(2) by (simp add: word_unat_eq_iff)
    have room: "unat (cp_capacity cp) + unat (pool_sizes ! ?i) \<le> unat (cp_max_capacity cp)"
    proof -
      have "unat (cp_capacity cp) \<le> unat (cp_max_capacity cp)" using inv by (simp add: caching_ok_def)
      then have "unat (cp_capacity cp + capacity pool) = unat (cp_capacity cp) + unat (capacity pool)"
        using c64 mx by (intro unat_add_no_wrap) simp
      then show ?thesis
        using False last_le_capacity [OF pool(2)] i(2) by (simp add: word_le_nat_alt not_less)
    qed
    have u32: "unat (ucast (factory_data pool) :: 32 word) = ?i"
      using i(1) by (simp add: EM_CACHING_POOL_ARRAY_SIZE_def unsigned_ucast_eq take_bit_nat_eq_self)
    let ?cp3 = "cp2\<lparr>cp_pools := (cp_pools cp2)(p \<mapsto> pool'),
      cp_free_list := (cp_free_list cp2)[?i := p # cp_free_list cp2 ! ?i],
      cp_capacity := cp_capacity cp2 + em_pool_get_capacity pool'\<rparr>"
    have "cpool_release_pool ?pol p cp = Some (cp_unlock ?cp3)"
      using p0 False pool(1) st r(1) fd i(1) u32 pool_capacity(2) [OF pool(2)]
      by (auto simp: cpool_release_pool_def Let_def em_pool_get_capacity_def em_pool_reset_def not_le)
    moreover have "class_ok pool'" using pool(4) fd r(6) by (simp add: class_ok_def)
    moreover have "factory_data pool' = of_nat ?i" using fd by simp
    ultimately show ?thesis
      using release_recycled [OF inv p i(1) r(2,3,5) _ cap _ room s refl] by blast
  qed
qed

lemma alloc_keeps_pool:
  assumes "em_pool_alloc pol pool sz s = (r, pool', s')" "block_list pool \<noteq> []"
  shows "p_addr pool' = p_addr pool \<and> factory_data pool' = factory_data pool \<and>
    increment_size pool' = increment_size pool \<and> p_callback pool' = p_callback pool \<and> obj_name pool' = obj_name pool"
  using assms
  by (auto simp: em_pool_alloc_def em_pool_allocate_find_def em_pool_create_block_def Let_def
      split: prod.splits list.splits option.splits outcome.splits if_splits)

lemma from_block_end: "em_pool_alloc_from_block b sz = (p, b') \<Longrightarrow> b_end b' = b_end b"
  by (auto simp: em_pool_alloc_from_block_def Let_def split: if_splits)

lemma find_space_ends: "find_space bs sz = Some (p, bs') \<Longrightarrow> map b_end bs' = map b_end bs"
  by (induction bs arbitrary: bs') (auto simp: from_block_end split: prod.splits if_splits)

lemma find_ends:
  assumes "em_pool_allocate_find pol pool sz s = (r, pool', s')"
  shows "\<exists>pre. map b_end (block_list pool') = pre @ map b_end (block_list pool)"
proof (cases "find_space (block_list pool) sz")
  case None
  then show ?thesis
    using assms
    by (auto simp: em_pool_allocate_find_def em_pool_create_block_def Let_def call_callback_def from_block_end
        split: prod.splits option.splits outcome.splits if_splits)
next
  case (Some q)
  then show ?thesis using assms find_space_ends by (cases q) (auto simp: em_pool_allocate_find_def)
qed

text \<open>Allocation never changes a pool's first region, which is the last of the list.\<close>

lemma alloc_keeps_first_region:
  assumes "em_pool_alloc pol pool sz s = (r, pool', s')" "block_list pool \<noteq> []"
  shows "last (pool_regions pool') = last (pool_regions pool)"
proof -
  obtain b bs where bl: "block_list pool = b # bs" using assms(2) by (cases "block_list pool") auto
  obtain p b' where fb: "em_pool_alloc_from_block b sz = (p, b')" by force
  have e: "map b_end (b' # bs) = map b_end (block_list pool)" using bl from_block_end [OF fb] by simp
  have "\<exists>pre. map b_end (block_list pool') = pre @ map b_end (block_list pool)"
  proof (cases "p = 0")
    case True
    then have "em_pool_allocate_find pol (pool\<lparr>block_list := b' # bs\<rparr>) sz s = (r, pool', s')"
      using assms(1) bl fb by (simp add: em_pool_alloc_def)
    from find_ends [OF this] e show ?thesis by simp
  next
    case False
    then have "pool' = pool\<lparr>block_list := b' # bs\<rparr>" using assms(1) bl fb by (simp add: em_pool_alloc_def)
    then show ?thesis using e by (intro exI [of _ "[]"]) simp
  qed
  then obtain pre where pre: "map b_end (block_list pool') = pre @ map b_end (block_list pool)" by blast
  then have "block_list pool' \<noteq> []" using assms(2) by auto
  then have "b_end (last (block_list pool')) = b_end (last (block_list pool))"
    using pre assms(2) by (metis last_appendR last_map map_is_Nil_conv)
  then show ?thesis using alloc_keeps_pool [OF assms] by (simp add: pool_regions_def)
qed

section \<open>Allocation by clients and destruction of the factory\<close>

lemma client_alloc_ok:
  assumes rec: "block_recycler c_malloc h_ok (\<lambda>h a n. c_free h a)" and inv: "caching_ok h_ok cp"
    and p: "p \<in> set (cp_used_list cp)" "cp_pools cp p = Some pool"
    and sz: "unat sz + unat (increment_size pool) + 44 < 2 ^ 64"
    and res: "cpool_alloc (caching_policy c_malloc c_free exn) p sz cp = Some (r, cp')"
  shows "mem_ok h_ok cp'" "cp_view cp' = cp_view (cp\<lparr>cp_pools := cp_pools cp'\<rparr>)"
    "\<forall>q. q \<noteq> p \<longrightarrow> cp_pools cp' q = cp_pools cp q" "dom (cp_pools cp') = dom (cp_pools cp)"
    "\<exists>pool'. cp_pools cp' p = Some pool' \<and> class_ok pool'"
proof -
  let ?pol = "caching_policy c_malloc c_free exn" and ?R = "pools_regions ((cp_pools cp)(p := None))"
  obtain pool' cp1 where al: "em_pool_alloc ?pol pool sz cp = (r, pool', cp1)"
      "cp' = cp1\<lparr>cp_pools := (cp_pools cp1)(p \<mapsto> pool')\<rparr>"
    using res p(2) by (auto simp: cpool_alloc_def split: prod.splits)
  have mem: "mem_ok h_ok cp" using inv by (simp add: caching_ok_def)
  then have fin: "finite (dom (cp_pools cp))" and pool: "pool_ok pool" "p_addr pool = p"
    using p(2) by (auto simp: mem_ok_def)
  have src: "cp_src h_ok (cp_view cp) cp (mset (pool_regions pool) + ?R)"
    using mem pools_regions_split [OF fin p(2)] by (simp add: mem_ok_def)
  note prov = block_recycler.axioms(1) [OF caching_recycler [OF rec, of exn]]
  have "user_ok [] (block_list pool)" by (simp add: user_ok_def)
  from block_provider.alloc_safe [OF prov refl pool(1) this src sz] al(1)
  have post: "pool_ok pool'" "cp_src h_ok (cp_view cp) cp1 (mset (pool_regions pool') + ?R)"
    by (auto simp: alloc_post_def)
  note s = src_step [OF post(2)] and v = view_eqD [OF src_step(1) [OF post(2)]]
  have ne: "block_list pool \<noteq> []" using pool(1) by (simp add: pool_ok_def)
  note keep = alloc_keeps_pool [OF al(1) ne]
  have pa: "p_addr pool' = p" using keep pool(2) by simp
  show "mem_ok h_ok cp'"
    unfolding mem_ok_iff using mem s v al(2) post(1) pa pools_regions_upd [OF fin, of p pool']
    by (auto simp: mem_ok_iff)
  show "cp_view cp' = cp_view (cp\<lparr>cp_pools := cp_pools cp'\<rparr>)" using v al(2) by (simp add: cp_view_def)
  show "\<forall>q. q \<noteq> p \<longrightarrow> cp_pools cp' q = cp_pools cp q" using v al(2) by simp
  show "dom (cp_pools cp') = dom (cp_pools cp)" using v al(2) p(2) by auto
  have "class_ok pool" using inv p(2) by (auto simp: caching_ok_def)
  then show "\<exists>pool'. cp_pools cp' p = Some pool' \<and> class_ok pool'"
    using keep alloc_keeps_first_region [OF al(1) ne] al(2) by (simp add: class_ok_def)
qed

lemma client_alloc_inv:
  assumes rec: "block_recycler c_malloc h_ok (\<lambda>h a n. c_free h a)" and inv: "caching_ok h_ok cp"
    and p: "p \<in> set (cp_used_list cp)" "cp_pools cp p = Some pool"
    and sz: "unat sz + unat (increment_size pool) + 44 < 2 ^ 64"
    and res: "cpool_alloc (caching_policy c_malloc c_free exn) p sz cp = Some (r, cp')"
  shows "caching_ok h_ok cp' \<and> cp_same cp cp'"
proof -
  note c = client_alloc_ok [OF assms]
  note v = view_eqD [OF c(2)]
  have nin: "p \<notin> set (concat (cp_free_list cp))" using inv p(1) by (auto simp: caching_ok_def)
  have fr: "\<forall>i<EM_CACHING_POOL_ARRAY_SIZE. \<forall>q\<in>set (cp_free_list cp ! i). cp_pools cp' q = cp_pools cp q"
    using c(3) nin inv in_concat_nth by (metis caching_ok_def)
  have cls: "class_ok pl" if "cp_pools cp' q = Some pl" for q pl
    using that c(3,5) inv by (cases "q = p") (auto simp: caching_ok_def)
  have "caching_ok h_ok cp'"
    unfolding caching_ok_def
  proof (intro conjI)
    show "\<forall>i<EM_CACHING_POOL_ARRAY_SIZE. \<forall>q\<in>set (cp_free_list cp' ! i).
        pool_fresh (the (cp_pools cp' q)) \<and> factory_data (the (cp_pools cp' q)) = of_nat i"
      using fr free_pool [OF inv] v by simp
    show "dom (cp_pools cp') = set (cp_all cp')" unfolding c(4) using inv v by (simp add: caching_ok_def)
  qed (use inv c(1) cls v in \<open>auto simp: caching_ok_def\<close>)
  then show ?thesis using v by (simp add: cp_same_def)
qed

text \<open>Destroying the pools of a list: each is unlinked and all of its memory goes back.\<close>

lemma destroy_list_ok:
  assumes rec: "block_recycler c_malloc h_ok (\<lambda>h a n. c_free h a)"
  shows "mem_ok h_ok cp \<Longrightarrow> distinct ps \<Longrightarrow> set ps \<subseteq> dom (cp_pools cp) \<Longrightarrow>
    \<exists>cp'. cpool_destroy_list (caching_policy c_malloc c_free exn) ps cp = Some cp' \<and> mem_ok h_ok cp' \<and>
      dom (cp_pools cp') = dom (cp_pools cp) - set ps \<and> cp_depth cp' = cp_depth cp \<and>
      (distinct (cp_used_list cp) \<longrightarrow> cp_used_list cp' = filter (\<lambda>p. p \<notin> set ps) (cp_used_list cp)) \<and>
      (distinct (concat (cp_free_list cp)) \<longrightarrow>
        cp_free_list cp' = map (filter (\<lambda>p. p \<notin> set ps)) (cp_free_list cp))"
proof (induction ps arbitrary: cp)
  case Nil
  have "map (filter (\<lambda>p. True)) xs = xs" for xs :: "ptr list list" by (induction xs) simp_all
  then show ?case using Nil by simp
next
  case (Cons p ps)
  obtain pool where pool: "cp_pools cp p = Some pool" using Cons.prems(3) by auto
  let ?cp = "cpool_erase p cp"
  have e: "mem_ok h_ok ?cp" "cp_pools ?cp = cp_pools cp" "cp_depth ?cp = cp_depth cp"
    using Cons.prems(1) by (auto simp: mem_ok_iff cpool_erase_def)
  from drop_ok [OF rec e(1), of p pool exn] pool e(2) obtain cp1 where
    d: "cpool_drop (caching_policy c_malloc c_free exn) pool ?cp = Some cp1" "mem_ok h_ok cp1"
      "cp_view cp1 = cp_view (?cp\<lparr>cp_pools := (cp_pools cp)(p := None)\<rparr>)" by auto
  note v = view_eqD [OF d(3)]
  have "set ps \<subseteq> dom (cp_pools cp1)" using v Cons.prems(2,3) by auto
  from Cons.IH [OF d(2) _ this] Cons.prems(2) obtain cp2 where
    c: "cpool_destroy_list (caching_policy c_malloc c_free exn) ps cp1 = Some cp2" "mem_ok h_ok cp2"
      "dom (cp_pools cp2) = dom (cp_pools cp1) - set ps" "cp_depth cp2 = cp_depth cp1"
      "distinct (cp_used_list cp1) \<longrightarrow> cp_used_list cp2 = filter (\<lambda>p. p \<notin> set ps) (cp_used_list cp1)"
      "distinct (concat (cp_free_list cp1)) \<longrightarrow>
        cp_free_list cp2 = map (filter (\<lambda>p. p \<notin> set ps)) (cp_free_list cp1)" by auto
  have u: "distinct (cp_used_list cp) \<longrightarrow> cp_used_list cp2 = filter (\<lambda>q. q \<notin> set (p # ps)) (cp_used_list cp)"
    using c(5) v by (auto simp: cpool_erase_def distinct_remove1_removeAll removeAll_filter_not_eq conj_commute
        intro!: filter_cong)
  have f: "cp_free_list cp2 = map (filter (\<lambda>q. q \<notin> set (p # ps))) (cp_free_list cp)"
    if "distinct (concat (cp_free_list cp))"
  proof -
    have l: "distinct x" if "x \<in> set (cp_free_list cp)" for x
      using \<open>distinct (concat _)\<close> that by (auto simp: distinct_concat_iff)
    have r: "map (remove1 p) (cp_free_list cp) = map (removeAll p) (cp_free_list cp)"
      using l by (auto intro!: distinct_remove1_removeAll)
    have "concat (map (removeAll p) xs) = removeAll p (concat xs)" for xs by (induction xs) simp_all
    then have "distinct (concat (cp_free_list cp1))"
      using v r that by (simp add: cpool_erase_def distinct_removeAll)
    then show ?thesis
      using c(6) v r by (auto simp: cpool_erase_def removeAll_filter_not_eq intro!: filter_cong)
  qed
  show ?case using pool d(1) c(1-4) v e(3) u f by auto
qed

lemma destroy_ok_all:
  assumes rec: "block_recycler c_malloc h_ok (\<lambda>h a n. c_free h a)" and inv: "caching_ok h_ok cp"
  shows "\<exists>cp'. em_caching_pool_destroy (caching_policy c_malloc c_free exn) cp = Some cp' \<and>
    h_ok (cp_heap cp') {#} \<and> cp_used_size cp' = 0 \<and> cp_pools cp' = Map.empty"
proof -
  have i: "mem_ok h_ok cp" "distinct (cp_used_list cp)" "distinct (concat (cp_free_list cp))"
    "dom (cp_pools cp) = set (cp_all cp)" "set (cp_used_list cp) \<inter> set (concat (cp_free_list cp)) = {}"
    using inv by (simp_all add: caching_ok_def)
  then have "set (concat (cp_free_list cp)) \<subseteq> dom (cp_pools cp)" by simp
  from destroy_list_ok [OF rec i(1,3) this, of exn] i(2,3) obtain cp1 where
    c1: "cpool_destroy_list (caching_policy c_malloc c_free exn) (concat (cp_free_list cp)) cp = Some cp1"
      "mem_ok h_ok cp1" "dom (cp_pools cp1) = dom (cp_pools cp) - set (concat (cp_free_list cp))"
      "cp_used_list cp1 = filter (\<lambda>p. p \<notin> set (concat (cp_free_list cp))) (cp_used_list cp)" by blast
  have u: "cp_used_list cp1 = cp_used_list cp" using c1(4) i(5) by (auto intro!: filter_True)
  have d: "dom (cp_pools cp1) = set (cp_used_list cp1)"
    unfolding c1(3) u i(4) using i(5) by auto
  from destroy_list_ok [OF rec c1(2), of "cp_used_list cp1" exn] d u i(2) obtain cp2 where
    c2: "cpool_destroy_list (caching_policy c_malloc c_free exn) (cp_used_list cp1) cp1 = Some cp2"
      "mem_ok h_ok cp2" "dom (cp_pools cp2) = {}" by auto
  then have "cp_pools cp2 = Map.empty" by simp
  then show ?thesis
    using c1(1) c2 by (simp add: em_caching_pool_destroy_def mem_ok_iff pools_regions_def)
qed

section \<open>Reachable factories\<close>

lemma init_ok:
  assumes "h_ok h {#}"
  shows "caching_ok h_ok (em_caching_pool_init mutex_created mx h)"
proof -
  have "concat (replicate n []) = []" for n by (induction n) simp_all
  then show ?thesis
    using assms
    by (auto simp: caching_ok_def mem_ok_iff em_caching_pool_init_def pools_regions_def free_total_def)
qed

text \<open>
  The histories of a factory: creation, hand-outs, releases of pools that are out, and allocations from
  them.
\<close>

inductive cp_reach ::
  "('h \<Rightarrow> em_size_t \<Rightarrow> ptr \<times> 'h) \<Rightarrow> ('h \<Rightarrow> ptr \<Rightarrow> 'h) \<Rightarrow> bool \<Rightarrow> em_size_t \<Rightarrow> 'h \<Rightarrow> 'h em_caching_pool \<Rightarrow> bool"
  for c_malloc c_free mutex_created mx h where
  Init: "cp_reach c_malloc c_free mutex_created mx h (em_caching_pool_init mutex_created mx h)"
| Create: "cp_reach c_malloc c_free mutex_created mx h cp \<Longrightarrow>
     cpool_create_pool fmt (caching_policy c_malloc c_free exn) name sz inc cb cp = (p, cp') \<Longrightarrow>
     cp_reach c_malloc c_free mutex_created mx h cp'"
| Release: "cp_reach c_malloc c_free mutex_created mx h cp \<Longrightarrow> p \<in> set (cp_used_list cp) \<Longrightarrow>
     cpool_release_pool (caching_policy c_malloc c_free exn) p cp = Some cp' \<Longrightarrow>
     cp_reach c_malloc c_free mutex_created mx h cp'"
| Alloc: "cp_reach c_malloc c_free mutex_created mx h cp \<Longrightarrow> p \<in> set (cp_used_list cp) \<Longrightarrow>
     cp_pools cp p = Some pool \<Longrightarrow> unat sz + unat (increment_size pool) + 44 < 2 ^ 64 \<Longrightarrow>
     cpool_alloc (caching_policy c_malloc c_free exn) p sz cp = Some (r, cp') \<Longrightarrow>
     cp_reach c_malloc c_free mutex_created mx h cp'"

lemma reach_ok:
  assumes rec: "block_recycler c_malloc h_ok (\<lambda>h a n. c_free h a)" and h: "h_ok h {#}"
    and mx: "unat mx + 65536 < 2 ^ 64" and r: "cp_reach c_malloc c_free mutex_created mx h cp"
  shows "caching_ok h_ok cp \<and> cp_max_capacity cp = mx \<and> cp_locker cp = mutex_created \<and> cp_depth cp = 0"
  using r
proof induction
  case Init
  then show ?case using init_ok [of h_ok h mutex_created mx, OF h] by (simp add: em_caching_pool_init_def)
next
  case (Create cp fmt exn name sz inc cb p cp')
  then have "caching_ok h_ok cp" by simp
  from create_pool_ok [OF rec this Create.hyps(2)] Create.IH show ?case by (simp add: cp_same_def)
next
  case (Release cp p exn cp')
  then have "caching_ok h_ok cp" "unat (cp_max_capacity cp) + 65536 < 2 ^ 64" using mx by simp_all
  from release_pool_ok [OF rec this(1) Release.hyps(2) this(2), of exn] Release show ?case
    by (auto simp: cp_same_def)
next
  case (Alloc cp p pool sz exn r cp')
  then have "caching_ok h_ok cp" by simp
  from client_alloc_inv [OF rec this Alloc.hyps(2-5)] Alloc.IH show ?case by (simp add: cp_same_def)
qed

text \<open>
  The bump source of the pool examples as \<open>malloc\<close>; under it the factory's own policy is a source of
  blocks that takes them back.
\<close>

definition bump_c_free :: "nat \<Rightarrow> ptr \<Rightarrow> nat" where
  "bump_c_free h p = h"

lemma bump_heap: "block_recycler bump_alloc bump_ok (\<lambda>h a n. bump_c_free h a)"
proof -
  have "(\<lambda>h a n. bump_c_free h a) = bump_free" by (intro ext) (simp add: bump_c_free_def bump_free_def)
  then show ?thesis using bump_recycler by simp
qed

interpretation caching: block_recycler
  "block_alloc (caching_policy bump_alloc bump_c_free exn)" "cp_src bump_ok v"
  "the (block_free (caching_policy bump_alloc bump_c_free exn))"
  by (rule caching_recycler [OF bump_heap])

text \<open>A factory that has handed out one pool.\<close>

definition ex_init :: "nat em_caching_pool" where
  "ex_init = em_caching_pool_init True 100000 4096"

definition ex_cp :: "nat em_caching_pool" where
  "ex_cp = snd (cpool_create_pool (\<lambda>f _. f) (caching_policy bump_alloc bump_c_free 7) None 100 512 None ex_init)"

lemma ex_cp_reach: "cp_reach bump_alloc bump_c_free True 100000 4096 ex_cp"
  unfolding ex_cp_def ex_init_def by (rule Create [OF Init prod.collapse [symmetric]])

lemma bump_start: "bump_ok 4096 {#}"
  by (simp add: bump_ok_def)

lemma ex_caching_ok: "caching_ok bump_ok ex_init" "caching_ok bump_ok ex_cp" "cp_max_capacity ex_cp = 100000"
  using reach_ok [OF bump_heap bump_start _ Init] reach_ok [OF bump_heap bump_start _ ex_cp_reach]
  by (simp_all add: ex_init_def)

lemma ex_index: "cpool_index 100 = 0"
  by code_simp

lemma ex_create: "fst (cpool_create_pool (\<lambda>f _. f) (caching_policy bump_alloc bump_c_free 7) None 100 512 None ex_init) = 4096"
  "cp_used_list ex_cp = [4096]"
  by (simp_all add: ex_cp_def cpool_create_pool_def ex_index ex_init_def em_caching_pool_init_def caching_const
      cp_lock_def em_pool_create_int_def pool_const caching_policy_def default_block_alloc_def
      on_block_alloc_eq bump_alloc_def cpool_hand_out_def em_pool_init_int_def Let_def)

text \<open>The factory when that pool has been released: it is the one pool of the first free list.\<close>

definition ex_recycled :: "nat em_caching_pool" where
  "ex_recycled = the (cpool_release_pool (caching_policy bump_alloc bump_c_free 7) 4096 ex_cp)"

lemma ex_release:
  "cpool_release_pool (caching_policy bump_alloc bump_c_free 7) 4096 ex_cp = Some ex_recycled"
  using release_pool_ok [OF bump_heap ex_caching_ok(2), of 4096 7] ex_create(2) ex_caching_ok(3)
  by (auto simp: ex_recycled_def)

lemma ex_recycled_reach: "cp_reach bump_alloc bump_c_free True 100000 4096 ex_recycled"
  by (rule Release [OF ex_cp_reach _ ex_release]) (simp add: ex_create(2))

lemma ex_cp_fields: "cp_free_list ex_cp = replicate 16 []" "cp_capacity ex_cp = 0" "cp_max_capacity ex_cp = 100000"
  "\<exists>pool b. cp_pools ex_cp 4096 = Some pool \<and> capacity pool = 256 \<and> factory_data pool = 0 \<and> block_list pool = [b]"
  by (simp_all add: ex_cp_def cpool_create_pool_def ex_index ex_init_def em_caching_pool_init_def caching_const
      cp_lock_def cp_unlock_def em_pool_create_int_def pool_const caching_policy_def default_block_alloc_def
      on_block_alloc_eq bump_alloc_def cpool_hand_out_def em_pool_init_int_def Let_def)

lemma ex_recycled: "cp_free_list ex_recycled ! 0 = [4096]" "cp_used_list ex_recycled = []"
proof -
  obtain pool b where p: "cp_pools ex_cp 4096 = Some pool" "capacity pool = 256" "factory_data pool = 0"
    "block_list pool = [b]" using ex_cp_fields(4) by blast
  have "cp_free_list ex_recycled ! 0 = [4096] \<and> cp_used_list ex_recycled = []"
    by (simp add: ex_recycled_def cpool_release_pool_def cpool_erase_def cp_lock_def cp_unlock_def ex_create(2)
        ex_cp_fields(1-3) p em_pool_get_capacity_def em_pool_reset_def reset_pool_def caching_const Let_def)
  then show "cp_free_list ex_recycled ! 0 = [4096]" "cp_used_list ex_recycled = []" by simp_all
qed

text \<open>A null pool is followed, not refused: no pool of a well-formed factory is at address 0.\<close>

lemma caching_release_null:
  assumes "caching_ok h_ok cp"
  shows "cpool_release_pool pol 0 cp = None"
proof -
  have "cp_pools cp 0 = None"
  proof (rule ccontr)
    assume "cp_pools cp 0 \<noteq> None"
    then obtain pool where "cp_pools cp 0 = Some pool" by blast
    then have "pool_ok pool" "p_addr pool = 0" using assms by (auto simp: caching_ok_def mem_ok_def)
    then show False by (simp add: pool_ok_def)
  qed
  then show ?thesis by (simp add: cpool_release_pool_def cpool_erase_def Let_def)
qed

section \<open>Properties\<close>

text \<open>
  C4. Whatever the history of a factory, its lists and counters are in step.  Every pool in one of the
  sixteen free lists is known, is fresh, has exactly the size of the list's class as its capacity, and
  carries the number of the list; the total of the free lists is the recorded capacity, which never
  exceeds the maximum; the used count is the number of pools out; the used size is the number of bytes
  taken from \<open>malloc\<close>; no pool is in two lists; and the mutex is left as it was found.
  A history is any sequence of creations, releases of pools that are out and allocations from them, the
  request and the increment together below the size of the address space.  \<open>malloc\<close> and \<open>free\<close> keep the
  contract of a source of blocks, and the maximum is more than the largest class below \<open>2 ^ 64\<close>: the code
  compares the sum of the two without regard to overflow.
\<close>
theorem caching_reach_invariant:
  assumes "block_recycler c_malloc h_ok (\<lambda>h a n. c_free h a)" "h_ok h {#}" "unat mx + 65536 < 2 ^ 64"
    and "cp_reach c_malloc c_free mutex_created mx h cp"
  shows "unat (cp_capacity cp) = free_total (cp_free_list cp) \<and> cp_capacity cp \<le> mx \<and>
    cp_used_count cp = of_nat (length (cp_used_list cp)) \<and> distinct (cp_all cp) \<and> cp_depth cp = 0 \<and>
    cp_used_size cp = of_nat (\<Sum>r\<in>#pools_regions (cp_pools cp). snd r) \<and>
    (\<forall>i<EM_CACHING_POOL_ARRAY_SIZE. \<forall>p\<in>set (cp_free_list cp ! i). \<exists>pool. cp_pools cp p = Some pool \<and>
       pool_fresh pool \<and> em_pool_get_capacity pool = pool_sizes ! i \<and> factory_data pool = of_nat i)"
proof -
  note inv = reach_ok [OF assms]
  have "\<forall>i<EM_CACHING_POOL_ARRAY_SIZE. \<forall>p\<in>set (cp_free_list cp ! i). \<exists>pool. cp_pools cp p = Some pool \<and>
      pool_fresh pool \<and> em_pool_get_capacity pool = pool_sizes ! i \<and> factory_data pool = of_nat i"
    using free_pool_class [OF conjunct1 [OF inv]] unfolding em_pool_get_capacity_def by blast
  then show ?thesis using inv by (auto simp: caching_ok_def mem_ok_iff word_le_nat_alt)
qed

lemma caching_reach_invariant_witness:
  "\<exists>pool. 4096 \<in> set (cp_free_list ex_recycled ! 0) \<and> cp_pools ex_recycled 4096 = Some pool \<and>
     em_pool_get_capacity pool = 256 \<and> pool_fresh pool \<and> cp_used_count ex_recycled = 0"
proof -
  have "(0 :: nat) < EM_CACHING_POOL_ARRAY_SIZE" "4096 \<in> set (cp_free_list ex_recycled ! 0)" "pool_sizes ! 0 = 256"
    by (simp_all add: ex_recycled(1) caching_const)
  then show ?thesis
    using caching_reach_invariant [OF bump_heap bump_start _ ex_recycled_reach] ex_recycled(2) by fastforce
qed

text \<open>
  Handing out: \<open>cpool_create_pool\<close> either returns null and leaves the lists as they were, or a pool
  that was not in use, is empty, has at least the capacity asked for and the growth increment given, and
  is the last of the used list; the other pools keep their contents.
\<close>
lemma caching_create_spec:
  assumes "block_recycler c_malloc h_ok (\<lambda>h a n. c_free h a)" "caching_ok h_ok cp"
    and "cpool_create_pool fmt (caching_policy c_malloc c_free exn) name sz inc cb cp = (p, cp')"
  shows "caching_ok h_ok cp' \<and> cp_same cp cp' \<and>
    (if p = 0 then cp_view cp' = cp_view cp else handed_out sz inc cp p cp')"
  by (rule create_pool_ok [OF assms])

lemma caching_create_spec_witness:
  "\<exists>pool. cp_pools ex_cp 4096 = Some pool \<and> pool_fresh pool \<and> 100 \<le> capacity pool \<and> increment_size pool = 512"
  using caching_create_spec [OF bump_heap ex_caching_ok(1), of "\<lambda>f _. f" 7 None 100 512 None 4096 ex_cp] ex_create(1)
  by (auto simp: handed_out_def ex_cp_def prod_eq_iff)

text \<open>
  Taking back: releasing a pool that is out never fails; the pool is either destroyed or, reset to its
  first block, put at the head of the free list of its own class, so that the class index test that
  guards against a corrupted pool never rejects one.
\<close>
lemma caching_release_spec:
  assumes "block_recycler c_malloc h_ok (\<lambda>h a n. c_free h a)" "caching_ok h_ok cp"
    and "p \<in> set (cp_used_list cp)" "unat (cp_max_capacity cp) + 65536 < 2 ^ 64"
  shows "\<exists>cp'. cpool_release_pool (caching_policy c_malloc c_free exn) p cp = Some cp' \<and>
    caching_ok h_ok cp' \<and> cp_same cp cp' \<and> released cp p cp'"
  by (rule release_pool_ok [OF assms])

lemma caching_release_spec_witness:
  "\<exists>cp'. cpool_release_pool (caching_policy bump_alloc bump_c_free 7) 4096 ex_cp = Some cp' \<and>
     cp_used_list cp' = []"
  using caching_release_spec [OF bump_heap ex_caching_ok(2), of 4096 7] ex_create(2) ex_caching_ok(3)
  by (auto simp: released_def)

text \<open>
  C6. No leak: destroying a factory in any reachable state returns every region it ever took and has not
  yet given back, pools still in use included.
\<close>
theorem caching_destroy_all:
  assumes "block_recycler c_malloc h_ok (\<lambda>h a n. c_free h a)" "h_ok h {#}" "unat mx + 65536 < 2 ^ 64"
    and "cp_reach c_malloc c_free mutex_created mx h cp"
  shows "\<exists>cp'. em_caching_pool_destroy (caching_policy c_malloc c_free exn) cp = Some cp' \<and>
    h_ok (cp_heap cp') {#} \<and> cp_used_size cp' = 0 \<and> cp_pools cp' = Map.empty"
  using destroy_ok_all [OF assms(1)] reach_ok [OF assms] by blast

lemma caching_destroy_all_witness:
  "\<exists>cp'. em_caching_pool_destroy (caching_policy bump_alloc bump_c_free 7) ex_cp = Some cp' \<and>
     cp_used_size cp' = 0"
  using caching_destroy_all [OF bump_heap bump_start _ ex_cp_reach] by auto

end
