(* ===== verification/Emlib_Except.thy ===== *)
theory Emlib_Except
  imports Emlib_Errno
begin

text \<open>
  The exception construct, \<open>src/except.c\<close> and the macros of \<open>include/em/except.h\<close>: exception ids with
  names, the stack of handlers in a thread-local slot, and \<open>EM_TRY\<close>/\<open>EM_CATCH\<close>/\<open>EM_THROW\<close> over
  \<open>setjmp\<close> and \<open>longjmp\<close>.  The build is the default one, with exception names.
\<close>

section \<open>Exception ids\<close>

definition EM_MAX_EXCEPTION_ID :: nat where "EM_MAX_EXCEPTION_ID = 16"

text \<open>
  The module's variables and the calling thread's value in the slot.  \<open>thread_local_id\<close> is -1 until the
  first handler is pushed; \<open>ex_atexit\<close> counts the registrations of \<open>exception_cleanup\<close>; \<open>ex_prev\<close> holds
  the \<open>prev\<close> fields of the handler records, which are known by their address.
\<close>

record except_state =
  exception_id_names :: "string option list"
  thread_local_id :: int
  ex_atexit :: nat
  ex_slot :: "nat option"
  ex_prev :: "nat \<Rightarrow> nat option"

definition except_start :: except_state where
  "except_start = \<lparr>exception_id_names = replicate EM_MAX_EXCEPTION_ID None, thread_local_id = - 1,
     ex_atexit = 0, ex_slot = None, ex_prev = (\<lambda>_. None)\<rparr>"

text \<open>The scan for a free id, from the given index on.\<close>

function find_free_id :: "string option list \<Rightarrow> nat \<Rightarrow> nat option" where
  "find_free_id names i =
     (if i < EM_MAX_EXCEPTION_ID then (if names ! i = None then Some i else find_free_id names (i + 1))
      else None)"
  by pat_completeness auto
termination by (relation "measure (\<lambda>(names, i). EM_MAX_EXCEPTION_ID - i)") auto

declare find_free_id.simps [simp del]

definition em_exception_id_alloc ::
  "string option \<Rightarrow> except_state \<Rightarrow> emlib_ret_t \<times> int option \<times> except_state" where
  "em_exception_id_alloc name st =
     (case find_free_id (exception_id_names st) 1 of
        Some i \<Rightarrow> (EM_SUCC, Some (int i),
          st\<lparr>exception_id_names := (exception_id_names st)[i := name]\<rparr>)
      | None \<Rightarrow> (EM_ETOOMANY, None, st))"

definition em_exception_id_free :: "int \<Rightarrow> except_state \<Rightarrow> emlib_ret_t \<times> except_state" where
  "em_exception_id_free i st =
     (if \<not> (i > 0 \<and> i < int EM_MAX_EXCEPTION_ID) then (EM_EINVAL, st)
      else (EM_SUCC, st\<lparr>exception_id_names := (exception_id_names st)[nat i := None]\<rparr>))"

definition em_exception_id_name :: "int \<Rightarrow> except_state \<Rightarrow> string" where
  "em_exception_id_name i st =
     (if \<not> (i > 0 \<and> i < int EM_MAX_EXCEPTION_ID) then ''<Invalid ID>''
      else case exception_id_names st ! nat i of
             None \<Rightarrow> fst (c_snprintf 32 (''exception '' @ dec_int i))
           | Some name \<Rightarrow> name)"

section \<open>The handler stack\<close>

text \<open>
  \<open>pthread_getspecific\<close> and \<open>pthread_setspecific\<close> on the key -1 give null and an error.  The answer of
  \<open>em_thread_local_alloc\<close> is the parameter \<open>tls_alloc\<close>; a new key holds null.
\<close>

definition ex_get :: "except_state \<Rightarrow> nat option" where
  "ex_get st = (if thread_local_id st = - 1 then None else ex_slot st)"

definition ex_set :: "nat option \<Rightarrow> except_state \<Rightarrow> except_state" where
  "ex_set v st = (if thread_local_id st = - 1 then st else st\<lparr>ex_slot := v\<rparr>)"

definition exception_cleanup :: "except_state \<Rightarrow> except_state" where
  "exception_cleanup st =
     (let st' = (if thread_local_id st \<noteq> - 1 then st\<lparr>thread_local_id := - 1, ex_slot := None\<rparr> else st)
      in st'\<lparr>exception_id_names := replicate EM_MAX_EXCEPTION_ID None\<rparr>)"

definition em_push_exception_handler :: "emlib_ret_t + int \<Rightarrow> nat \<Rightarrow> except_state \<Rightarrow> except_state" where
  "em_push_exception_handler tls_alloc rec st =
     (let st1 = (if thread_local_id st = - 1
                 then (case tls_alloc of
                         Inl r \<Rightarrow> st\<lparr>ex_atexit := ex_atexit st + 1\<rparr>
                       | Inr i \<Rightarrow> st\<lparr>thread_local_id := i, ex_slot := None, ex_atexit := ex_atexit st + 1\<rparr>)
                 else st);
          parent_handler = ex_get st1
      in ex_set (Some rec) (st1\<lparr>ex_prev := (ex_prev st1)(rec := parent_handler)\<rparr>))"

definition em_pop_exception_handler :: "nat \<Rightarrow> except_state \<Rightarrow> except_state" where
  "em_pop_exception_handler rec st =
     (case ex_get st of
        Some h \<Rightarrow> if h = rec then ex_set (ex_prev st h) st else st
      | None \<Rightarrow> st)"

text \<open>
  How a statement ends: normally, by a jump to a handler with the value \<open>setjmp\<close> returns there, or by
  calling \<open>longjmp\<close> through a null handler.  \<open>longjmp\<close> with the value 0 delivers 1.
\<close>

datatype ending = Finished | Jump nat int | Crash

definition longjmp_value :: "int \<Rightarrow> int" where
  "longjmp_value v = (if v = 0 then 1 else v)"

definition em_throw_exception :: "int \<Rightarrow> except_state \<Rightarrow> ending \<times> except_state" where
  "em_throw_exception exception_id st =
     (case ex_get st of
        None \<Rightarrow> (Crash, st)
      | Some h \<Rightarrow> (Jump h (longjmp_value exception_id), em_pop_exception_handler h st))"

section \<open>Programs with try blocks\<close>

text \<open>
  Client code as far as exceptions see it: actions that leave a mark, sequences, throwing a value or the
  current code (\<open>EM_THROW(EM_GET_EXCEPTION())\<close>), and the two forms of a try block, with \<open>EM_CATCH(id)\<close>
  and with \<open>EM_CATCH_ANY\<close>.
\<close>

datatype stmt =
    Act nat
  | Seq stmt stmt
  | Throw int
  | Rethrow
  | Try stmt int stmt
  | TryAny stmt stmt

text \<open>
  Execution by the macros.  The record of a try block is a local variable, so its address is the nesting
  depth \<open>d\<close>; \<open>c\<close> is the enclosing block's \<open>em_x_code__\<close>.  The trace lists the actions done.
\<close>

definition em_end :: "nat \<Rightarrow> ending \<times> nat list \<times> except_state \<Rightarrow> ending \<times> nat list \<times> except_state" where
  "em_end rec res = (case res of
     (Finished, tr, st) \<Rightarrow> (Finished, tr, em_pop_exception_handler rec st)
   | r \<Rightarrow> r)"

fun exec :: "emlib_ret_t + int \<Rightarrow> nat \<Rightarrow> int \<Rightarrow> stmt \<Rightarrow> nat list \<times> except_state \<Rightarrow> ending \<times> nat list \<times> except_state" where
  "exec al d c (Act a) (tr, st) = (Finished, tr @ [a], st)"
| "exec al d c (Seq s1 s2) (tr, st) =
     (case exec al d c s1 (tr, st) of
        (Finished, tr', st') \<Rightarrow> exec al d c s2 (tr', st')
      | r \<Rightarrow> r)"
| "exec al d c (Throw i) (tr, st) = (let (e, st') = em_throw_exception i st in (e, tr, st'))"
| "exec al d c Rethrow (tr, st) = (let (e, st') = em_throw_exception c st in (e, tr, st'))"
| "exec al d c (Try body i handler) (tr, st) =
     (case exec al (d + 1) 0 body (tr, em_push_exception_handler al d st) of
        (Jump h code, tr', st') \<Rightarrow>
          if h = d then em_end d (if code = i then exec al (d + 1) code handler (tr', st') else (Finished, tr', st'))
          else (Jump h code, tr', st')
      | r \<Rightarrow> em_end d r)"
| "exec al d c (TryAny body handler) (tr, st) =
     (case exec al (d + 1) 0 body (tr, em_push_exception_handler al d st) of
        (Jump h code, tr', st') \<Rightarrow>
          if h = d then em_end d (exec al (d + 1) code handler (tr', st'))
          else (Jump h code, tr', st')
      | r \<Rightarrow> em_end d r)"

text \<open>
  The reference: structured exceptions, where a statement ends normally or with a code, and the innermost
  block takes any exception, running its handler only when the code matches.
\<close>

fun sem :: "int \<Rightarrow> stmt \<Rightarrow> nat list \<Rightarrow> nat list \<times> int option" where
  "sem c (Act a) tr = (tr @ [a], None)"
| "sem c (Seq s1 s2) tr =
     (case sem c s1 tr of (tr', None) \<Rightarrow> sem c s2 tr' | (tr', Some e) \<Rightarrow> (tr', Some e))"
| "sem c (Throw i) tr = (tr, Some (longjmp_value i))"
| "sem c Rethrow tr = (tr, Some (longjmp_value c))"
| "sem c (Try body i handler) tr =
     (case sem 0 body tr of
        (tr', None) \<Rightarrow> (tr', None)
      | (tr', Some e) \<Rightarrow> if e = i then sem e handler tr' else (tr', None))"
| "sem c (TryAny body handler) tr =
     (case sem 0 body tr of (tr', None) \<Rightarrow> (tr', None) | (tr', Some e) \<Rightarrow> sem e handler tr')"

section \<open>The handler stack implements structured exceptions\<close>

text \<open>
  The slot is usable and every handler on it belongs to a block further out.  \<open>same_below d\<close>: the slot is
  as before and so are the records of the enclosing blocks.
\<close>

definition handlers_ok :: "nat \<Rightarrow> except_state \<Rightarrow> bool" where
  "handlers_ok d st \<longleftrightarrow> thread_local_id st \<noteq> - 1 \<and> (\<forall>h. ex_slot st = Some h \<longrightarrow> h < d)"

definition same_below :: "nat \<Rightarrow> except_state \<Rightarrow> except_state \<Rightarrow> bool" where
  "same_below d st st' \<longleftrightarrow> thread_local_id st' = thread_local_id st \<and> (\<forall>h<d. ex_prev st' h = ex_prev st h)"

text \<open>What the outcome of the reference means for the handler stack.\<close>

definition implements ::
  "nat \<Rightarrow> except_state \<Rightarrow> nat list \<times> int option \<Rightarrow> ending \<times> nat list \<times> except_state \<Rightarrow> bool" where
  "implements d st ref res \<longleftrightarrow> (case (ref, res) of ((tr, x), (e, tr', st')) \<Rightarrow>
     tr' = tr \<and> same_below d st st' \<and>
     (case x of
        None \<Rightarrow> e = Finished \<and> ex_slot st' = ex_slot st
      | Some code \<Rightarrow>
          (case ex_slot st of
             None \<Rightarrow> e = Crash
           | Some h \<Rightarrow> e = Jump h code \<and> ex_slot st' = ex_prev st h)))"

lemma push_handler_ok:
  assumes "handlers_ok d st"
  shows "handlers_ok (d + 1) (em_push_exception_handler al d st)"
    "ex_slot (em_push_exception_handler al d st) = Some d"
    "ex_prev (em_push_exception_handler al d st) d = ex_slot st"
    "same_below d st (em_push_exception_handler al d st)"
  using assms
  by (auto simp: em_push_exception_handler_def handlers_ok_def same_below_def ex_get_def ex_set_def Let_def)

lemma throw_ok:
  "handlers_ok d st \<Longrightarrow>
     implements d st (tr, Some (longjmp_value i)) (let (e, st') = em_throw_exception i st in (e, tr, st'))"
  by (auto simp: implements_def em_throw_exception_def handlers_ok_def ex_get_def ex_set_def
      em_pop_exception_handler_def same_below_def split: option.splits)

lemma same_below_trans:
  "same_below d st st' \<Longrightarrow> same_below d' st' st'' \<Longrightarrow> d \<le> d' \<Longrightarrow> same_below d st st''"
  by (simp add: same_below_def)

lemma em_end_outer:
  assumes "handlers_ok d st" "implements d st ref res"
  shows "implements d st ref (em_end d res)"
proof -
  obtain tr x e tr' st' where r: "ref = (tr, x)" "res = (e, tr', st')" by (cases ref, cases res) auto
  show ?thesis
  proof (cases e)
    case Finished
    then have "x = None" using assms(2) r by (auto simp: implements_def split: option.splits)
    moreover have "em_pop_exception_handler d st' = st'"
      using assms r Finished \<open>x = None\<close>
      by (auto simp: implements_def handlers_ok_def em_pop_exception_handler_def ex_get_def split: option.splits)
    ultimately show ?thesis using assms(2) r Finished by (simp add: em_end_def)
  qed (use assms(2) r in \<open>simp_all add: em_end_def\<close>)
qed

lemma implements_weaken: "implements (d + 1) st ref res \<Longrightarrow> implements d st ref res"
  by (auto simp: implements_def same_below_def split: prod.splits)

lemma implements_from:
  assumes "handlers_ok d st" "same_below d st st'" "ex_slot st' = ex_slot st" "implements d st' ref res"
  shows "implements d st ref res"
  using assms by (auto simp: implements_def same_below_def handlers_ok_def split: prod.splits option.splits)

lemma handlers_ok_step:
  "handlers_ok d st \<Longrightarrow> same_below d st st' \<Longrightarrow> ex_slot st' = ex_slot st \<Longrightarrow> handlers_ok d st'"
  by (simp add: handlers_ok_def same_below_def)

lemma handlers_ok_Suc: "handlers_ok d st \<Longrightarrow> handlers_ok (d + 1) st"
  by (auto simp: handlers_ok_def less_Suc_eq)

text \<open>A try block: what its body leaves, whether it ends normally or throws.\<close>

lemma body_normal:
  assumes ok: "handlers_ok d st"
    and i: "implements (d + 1) (em_push_exception_handler al d st) (tr', None) res"
  shows "implements d st (tr', None) (em_end d res)"
proof -
  obtain e tr2 st' where r: "res = (e, tr2, st')" by (cases res) auto
  note p = push_handler_ok [OF ok, of al]
  have s: "e = Finished" "tr2 = tr'" "ex_slot st' = Some d" "ex_prev st' d = ex_slot st"
      "same_below (d + 1) (em_push_exception_handler al d st) st'"
    using i p r by (auto simp: implements_def same_below_def)
  then have "thread_local_id st' \<noteq> - 1" using p(1) by (simp add: same_below_def handlers_ok_def)
  then have "em_end d res = (Finished, tr', st'\<lparr>ex_slot := ex_slot st\<rparr>)"
    using s r by (simp add: em_end_def em_pop_exception_handler_def ex_get_def ex_set_def)
  then show ?thesis using s(5) p(4) by (auto simp: implements_def same_below_def)
qed

lemma body_throws:
  assumes ok: "handlers_ok d st"
    and i: "implements (d + 1) (em_push_exception_handler al d st) (tr', Some e) res"
  obtains st' where "res = (Jump d e, tr', st')" "same_below d st st'" "ex_slot st' = ex_slot st"
proof -
  obtain f tr2 st' where r: "res = (f, tr2, st')" by (cases res) auto
  note p = push_handler_ok [OF ok, of al]
  have "f = Jump d e" "tr2 = tr'" "ex_slot st' = ex_slot st" using i p r by (auto simp: implements_def)
  moreover have "same_below d st st'" using i p(4) r by (auto simp: implements_def same_below_def)
  ultimately show ?thesis using that r by blast
qed

lemma handler_runs:
  assumes ok: "handlers_ok d st" and st': "same_below d st st'" "ex_slot st' = ex_slot st"
    and i: "implements (d + 1) st' ref res"
  shows "implements d st ref (em_end d res)"
  using em_end_outer [OF ok implements_from [OF ok st' implements_weaken [OF i]]] .

lemma exec_implements:
  "handlers_ok d st \<Longrightarrow> implements d st (sem c s tr) (exec al d c s (tr, st))"
proof (induction s arbitrary: d c tr st)
  case (Act a)
  then show ?case by (simp add: implements_def same_below_def)
next
  case (Seq s1 s2)
  obtain tr1 x where x: "sem c s1 tr = (tr1, x)" by force
  obtain e tr2 st' where r: "exec al d c s1 (tr, st) = (e, tr2, st')" by (metis prod_cases3)
  note i = Seq.IH(1) [OF Seq.prems, of c tr, unfolded x r]
  show ?case
  proof (cases x)
    case None
    with i have s: "e = Finished" "tr2 = tr1" "same_below d st st'" "ex_slot st' = ex_slot st"
      by (simp_all add: implements_def)
    from implements_from [OF Seq.prems s(3,4) Seq.IH(2) [OF handlers_ok_step [OF Seq.prems s(3,4)]], of c tr1]
    show ?thesis using x r None s by simp
  next
    case (Some code)
    with i have "e \<noteq> Finished" by (auto simp: implements_def split: option.splits)
    then show ?thesis using i x r Some by (cases e) simp_all
  qed
next
  case (Throw i)
  then show ?case using throw_ok [OF Throw, of tr i] by simp
next
  case Rethrow
  then show ?case using throw_ok [OF Rethrow, of tr c] by simp
next
  case (Try body i handler)
  let ?st = "em_push_exception_handler al d st"
  note b = Try.IH(1) [OF push_handler_ok(1) [OF Try.prems, of al], of 0 tr]
  obtain tr1 x where x: "sem 0 body tr = (tr1, x)" by force
  show ?case
  proof (cases x)
    case None
    obtain tr2 st' where r: "exec al (d + 1) 0 body (tr, ?st) = (Finished, tr2, st')"
      using b x None by (auto simp: implements_def split: prod.splits)
    then show ?thesis using body_normal [OF Try.prems b [unfolded x None]] x None by simp
  next
    case (Some e)
    obtain st' where r: "exec al (d + 1) 0 body (tr, ?st) = (Jump d e, tr1, st')"
        "same_below d st st'" "ex_slot st' = ex_slot st"
      using body_throws [OF Try.prems b [unfolded x Some]] .
    note ok' = handlers_ok_Suc [OF handlers_ok_step [OF Try.prems r(2,3)]]
    show ?thesis
    proof (cases "e = i")
      case True
      from handler_runs [OF Try.prems r(2,3) Try.IH(2) [OF ok', of e tr1]] show ?thesis
        using x Some r(1) True by simp
    next
      case False
      have "implements (d + 1) st' (tr1, None) (Finished, tr1, st')" by (simp add: implements_def same_below_def)
      from handler_runs [OF Try.prems r(2,3) this] show ?thesis using x Some r(1) False by simp
    qed
  qed
next
  case (TryAny body handler)
  let ?st = "em_push_exception_handler al d st"
  note b = TryAny.IH(1) [OF push_handler_ok(1) [OF TryAny.prems, of al], of 0 tr]
  obtain tr1 x where x: "sem 0 body tr = (tr1, x)" by force
  show ?case
  proof (cases x)
    case None
    obtain tr2 st' where r: "exec al (d + 1) 0 body (tr, ?st) = (Finished, tr2, st')"
      using b x None by (auto simp: implements_def split: prod.splits)
    then show ?thesis using body_normal [OF TryAny.prems b [unfolded x None]] x None by simp
  next
    case (Some e)
    obtain st' where r: "exec al (d + 1) 0 body (tr, ?st) = (Jump d e, tr1, st')"
        "same_below d st st'" "ex_slot st' = ex_slot st"
      using body_throws [OF TryAny.prems b [unfolded x Some]] .
    note ok' = handlers_ok_Suc [OF handlers_ok_step [OF TryAny.prems r(2,3)]]
    from handler_runs [OF TryAny.prems r(2,3) TryAny.IH(2) [OF ok', of e tr1]] show ?thesis
      using x Some r(1) by simp
  qed
qed

lemma exec_finishes:
  assumes "handlers_ok d st" "sem c s tr = (tr', None)"
  shows "\<exists>st'. exec al d c s (tr, st) = (Finished, tr', st')"
proof -
  obtain e tr2 st' where r: "exec al d c s (tr, st) = (e, tr2, st')" by (metis prod_cases3)
  show ?thesis using exec_implements [OF assms(1), of c s tr al] unfolding assms(2) r by (simp add: implements_def)
qed

section \<open>Ids\<close>

lemma find_free_id_spec:
  "case find_free_id names i of
     Some k \<Rightarrow> i \<le> k \<and> k < EM_MAX_EXCEPTION_ID \<and> names ! k = None \<and> (\<forall>j. i \<le> j \<and> j < k \<longrightarrow> names ! j \<noteq> None)
   | None \<Rightarrow> \<forall>j. i \<le> j \<and> j < EM_MAX_EXCEPTION_ID \<longrightarrow> names ! j \<noteq> None"
proof (induction names i rule: find_free_id.induct)
  case (1 names i)
  show ?case
  proof (cases "i < EM_MAX_EXCEPTION_ID \<and> names ! i \<noteq> None")
    case True
    then have e: "find_free_id names i = find_free_id names (i + 1)" by (auto simp: find_free_id.simps [of names i])
    have step: "j = i \<or> Suc i \<le> j" if "i \<le> j" for j using that by auto
    show ?thesis using 1 True unfolding e by (auto split: option.splits dest!: step)
  next
    case False
    then have "find_free_id names i = (if i < EM_MAX_EXCEPTION_ID then Some i else None)"
      by (simp add: find_free_id.simps [of names i])
    then show ?thesis using False by auto
  qed
qed

definition ids_ok :: "except_state \<Rightarrow> bool" where
  "ids_ok st \<longleftrightarrow> length (exception_id_names st) = EM_MAX_EXCEPTION_ID"

lemma id_alloc_spec:
  assumes ok: "ids_ok st" and al: "em_exception_id_alloc (Some nm) st = (r, res, st')"
  shows "ids_ok st' \<and> (case res of
      Some i \<Rightarrow> r = EM_SUCC \<and> 0 < i \<and> i < int EM_MAX_EXCEPTION_ID \<and> exception_id_names st ! nat i = None \<and>
        em_exception_id_name i st' = nm \<and> em_exception_id_free i st' = (EM_SUCC, st) \<and>
        (\<forall>j. j \<noteq> i \<longrightarrow> em_exception_id_name j st' = em_exception_id_name j st)
    | None \<Rightarrow> r = EM_ETOOMANY \<and> st' = st \<and>
        (\<forall>j. 0 < j \<and> j < EM_MAX_EXCEPTION_ID \<longrightarrow> exception_id_names st ! j \<noteq> None))"
proof (cases "find_free_id (exception_id_names st) 1")
  case None
  then show ?thesis
    using ok al find_free_id_spec [where names = "exception_id_names st" and i = 1]
    by (auto simp: em_exception_id_alloc_def Suc_le_eq)
next
  case (Some k)
  then have k: "0 < k" "k < EM_MAX_EXCEPTION_ID" "exception_id_names st ! k = None"
    using find_free_id_spec [where names = "exception_id_names st" and i = 1] by auto
  have res: "r = EM_SUCC" "res = Some (int k)" "st' = st\<lparr>exception_id_names := (exception_id_names st)[k := Some nm]\<rparr>"
    using al Some by (auto simp: em_exception_id_alloc_def)
  have "(exception_id_names st)[k := None] = exception_id_names st" by (metis k(3) list_update_id)
  then have "em_exception_id_free (int k) st' = (EM_SUCC, st)"
    using res k by (simp add: em_exception_id_free_def)
  then show ?thesis
    using ok k res by (auto simp: ids_ok_def em_exception_id_name_def nat_eq_iff2)
qed

text \<open>
  A null name marks the id as free, so that the id allocated for it is handed out again.
\<close>

lemma id_alloc_null_name:
  "let (r1, i1, st1) = em_exception_id_alloc None except_start; (r2, i2, st2) = em_exception_id_alloc None st1
   in r1 = EM_SUCC \<and> r2 = EM_SUCC \<and> i1 = Some 1 \<and> i2 = i1"
  by (simp add: em_exception_id_alloc_def except_start_def find_free_id.simps EM_MAX_EXCEPTION_ID_def Let_def)

section \<open>Properties\<close>

text \<open>
  C8. The handler stack implements structured exceptions: any program of actions, throws and nested try
  blocks does the same actions as under the reference semantics; it ends normally exactly when that
  does, with the handler slot and the records of the enclosing blocks as they were; an exception it does
  not catch jumps to the innermost enclosing block with its code, that block's handler already popped,
  and crashes when there is none.
\<close>
theorem except_structured:
  assumes "handlers_ok d st"
  shows "implements d st (sem c s tr) (exec al d c s (tr, st))"
  by (rule exec_implements [OF assms])

text \<open>A block that rethrows from its handler to the block around it.\<close>

lemma except_structured_witness:
  "let (e, tr, st) = exec (Inr 0) 0 0 (TryAny (Try (Seq (Act 1) (Throw 5)) 5 (Seq (Act 2) Rethrow)) (Act 3))
       ([], except_start\<lparr>thread_local_id := 0\<rparr>)
   in e = Finished \<and> tr = [1, 2, 3] \<and> ex_slot st = None"
  using except_structured [of 0 "except_start\<lparr>thread_local_id := 0\<rparr>" 0
      "TryAny (Try (Seq (Act 1) (Throw 5)) 5 (Seq (Act 2) Rethrow)) (Act 3)" "[]" "Inr 0"]
  by (auto simp: implements_def handlers_ok_def except_start_def longjmp_value_def split: prod.splits)

text \<open>
  Allocating an id for a name gives an id from 1 to 15 that no exception had, under which the name is
  found and whose release restores the table; the names of the other ids stay. When it is refused all
  fifteen ids are taken and nothing changes.
\<close>
lemma exception_id_alloc_spec:
  assumes "ids_ok st" "em_exception_id_alloc (Some nm) st = (r, res, st')"
  shows "ids_ok st' \<and> (case res of
      Some i \<Rightarrow> r = EM_SUCC \<and> 0 < i \<and> i < int EM_MAX_EXCEPTION_ID \<and> exception_id_names st ! nat i = None \<and>
        em_exception_id_name i st' = nm \<and> em_exception_id_free i st' = (EM_SUCC, st) \<and>
        (\<forall>j. j \<noteq> i \<longrightarrow> em_exception_id_name j st' = em_exception_id_name j st)
    | None \<Rightarrow> r = EM_ETOOMANY \<and> st' = st \<and>
        (\<forall>j. 0 < j \<and> j < EM_MAX_EXCEPTION_ID \<longrightarrow> exception_id_names st ! j \<noteq> None))"
  by (rule id_alloc_spec [OF assms])

lemma exception_id_alloc_spec_witness:
  "em_exception_id_name 1 (snd (snd (em_exception_id_alloc (Some ''OOM'') except_start))) = ''OOM''"
  using exception_id_alloc_spec [of except_start "''OOM''" EM_SUCC "Some 1"
      "snd (snd (em_exception_id_alloc (Some ''OOM'') except_start))"]
  by (simp add: ids_ok_def except_start_def em_exception_id_alloc_def find_free_id.simps EM_MAX_EXCEPTION_ID_def)

end
