(* ===== verification/Emlib_Os.thy ===== *)
theory Emlib_Os
  imports Emlib_Pool
begin

text \<open>
  The synchronisation objects of \<open>src/os_core_unix.c\<close>: mutexes, atomic variables, reader/writer locks,
  semaphores and events.  The calls of POSIX threads they rest on follow the standard: a normal mutex
  relocked by its owner deadlocks, a recursive one counts, unlocking a mutex one does not hold is an
  error for a recursive one and undefined for a normal one.
\<close>

section \<open>POSIX threads\<close>

type_synonym tid = nat

text \<open>A call returns, blocks the calling thread, or is undefined.\<close>

datatype 'a sys = Returns 'a | Blocks | Undef

fun sys_bind :: "'a sys \<Rightarrow> ('a \<Rightarrow> 'b sys) \<Rightarrow> 'b sys" where
  "sys_bind (Returns x) f = f x"
| "sys_bind Blocks f = Blocks"
| "sys_bind Undef f = Undef"

lemma sys_bind_eq_Returns: "sys_bind m f = Returns y \<longleftrightarrow> (\<exists>x. m = Returns x \<and> f x = Returns y)"
  by (cases m) simp_all

definition EBUSY :: int where "EBUSY = 16"
definition EPERM :: int where "EPERM = 1"
definition EAGAIN :: int where "EAGAIN = 11"
definition EINVAL :: int where "EINVAL = 22"
definition EOVERFLOW :: int where "EOVERFLOW = 75"

lemmas posix_errno = EBUSY_def EPERM_def EAGAIN_def EINVAL_def EOVERFLOW_def

record pthread_mutex =
  pm_recursive :: bool
  pm_owner :: "tid option"
  pm_level :: nat

definition pthread_mutex_lock :: "tid \<Rightarrow> pthread_mutex \<Rightarrow> (int \<times> pthread_mutex) sys" where
  "pthread_mutex_lock t m =
     (case pm_owner m of
        None \<Rightarrow> Returns (0, m\<lparr>pm_owner := Some t, pm_level := 1\<rparr>)
      | Some u \<Rightarrow> if u = t \<and> pm_recursive m then Returns (0, m\<lparr>pm_level := pm_level m + 1\<rparr>) else Blocks)"

definition pthread_mutex_trylock :: "tid \<Rightarrow> pthread_mutex \<Rightarrow> (int \<times> pthread_mutex) sys" where
  "pthread_mutex_trylock t m =
     (case pthread_mutex_lock t m of Blocks \<Rightarrow> Returns (EBUSY, m) | r \<Rightarrow> r)"

definition pthread_mutex_unlock :: "tid \<Rightarrow> pthread_mutex \<Rightarrow> (int \<times> pthread_mutex) sys" where
  "pthread_mutex_unlock t m =
     (if pm_owner m = Some t
      then Returns (0, if pm_level m \<le> 1 then m\<lparr>pm_owner := None, pm_level := 0\<rparr>
                       else m\<lparr>pm_level := pm_level m - 1\<rparr>)
      else if pm_recursive m then Returns (EPERM, m) else Undef)"

definition pthread_mutex_destroy :: "pthread_mutex \<Rightarrow> int" where
  "pthread_mutex_destroy m = (if pm_owner m = None then 0 else EBUSY)"

section \<open>Mutexes\<close>

definition EM_MUTEX_SIMPLE :: int where "EM_MUTEX_SIMPLE = 1"
definition EM_MUTEX_RECURSE :: int where "EM_MUTEX_RECURSE = 2"

record em_mutex_t =
  m_mutex :: pthread_mutex
  m_obj_name :: string

definition sizeof_em_mutex_t :: em_size_t where "sizeof_em_mutex_t = 72"

text \<open>The name of an object: formatted with its address when it has a percent sign, cut to 31 characters.\<close>

definition object_name :: "(string \<Rightarrow> ptr \<Rightarrow> string) \<Rightarrow> string \<Rightarrow> ptr \<Rightarrow> string" where
  "object_name fmt name p =
     (if CHR ''%'' \<in> set name then take (EM_MAX_OBJ_NAME - 1) (fmt name p)
      else take (EM_MAX_OBJ_NAME - 1) name)"

text \<open>
  \<open>rcs\<close> are the answers of \<open>pthread_mutexattr_init\<close>, \<open>pthread_mutexattr_settype\<close>,
  \<open>pthread_mutex_init\<close> and \<open>pthread_mutexattr_destroy\<close>.
\<close>

definition init_mutex ::
  "(string \<Rightarrow> ptr \<Rightarrow> string) \<Rightarrow> int \<times> int \<times> int \<times> int \<Rightarrow> ptr \<Rightarrow> string option \<Rightarrow> int \<Rightarrow>
   emlib_ret_t \<times> em_mutex_t option" where
  "init_mutex fmt rcs p name type =
     (case rcs of (rc_attr, rc_type, rc_init, rc_destroy) \<Rightarrow>
        if rc_attr \<noteq> 0 then (EM_RETURN_OS_ERROR (of_int rc_attr), None)
        else if rc_type \<noteq> 0 then (EM_RETURN_OS_ERROR (of_int rc_type), None)
        else if rc_init \<noteq> 0 then (EM_RETURN_OS_ERROR (of_int rc_init), None)
        else if rc_destroy \<noteq> 0 then (EM_RETURN_OS_ERROR (of_int rc_destroy), None)
        else (EM_SUCC, Some
          \<lparr>m_mutex = \<lparr>pm_recursive = (type \<noteq> EM_MUTEX_SIMPLE), pm_owner = None, pm_level = 0\<rparr>,
           m_obj_name = object_name fmt (case name of None \<Rightarrow> ''mtx%p'' | Some nm \<Rightarrow> nm) p\<rparr>))"

text \<open>Creation allocates from a pool; a null result is refused.\<close>

definition em_mutex_create ::
  "(string \<Rightarrow> ptr \<Rightarrow> string) \<Rightarrow> int \<times> int \<times> int \<times> int \<Rightarrow> 's em_pool_factory_policy \<Rightarrow> em_pool_t \<Rightarrow>
   string option \<Rightarrow> int \<Rightarrow> 's \<Rightarrow> (emlib_ret_t \<times> (ptr \<times> em_mutex_t) option) outcome \<times> em_pool_t \<times> 's" where
  "em_mutex_create fmt rcs pol pool name type s =
     (case em_pool_alloc pol pool sizeof_em_mutex_t s of
        (Ret p, pool', s') \<Rightarrow>
          if p = 0 then (Ret (EM_ENOMEM, None), pool', s')
          else let (rc, m) = init_mutex fmt rcs p name type
               in (Ret (rc, map_option (Pair p) m), pool', s')
      | (Raised e, pool', s') \<Rightarrow> (Raised e, pool', s')
      | (Fault, pool', s') \<Rightarrow> (Fault, pool', s'))"

definition em_mutex_create_simple ::
  "(string \<Rightarrow> ptr \<Rightarrow> string) \<Rightarrow> int \<times> int \<times> int \<times> int \<Rightarrow> 's em_pool_factory_policy \<Rightarrow> em_pool_t \<Rightarrow>
   string option \<Rightarrow> 's \<Rightarrow> (emlib_ret_t \<times> (ptr \<times> em_mutex_t) option) outcome \<times> em_pool_t \<times> 's" where
  "em_mutex_create_simple fmt rcs pol pool name s = em_mutex_create fmt rcs pol pool name EM_MUTEX_SIMPLE s"

definition em_mutex_create_recursive ::
  "(string \<Rightarrow> ptr \<Rightarrow> string) \<Rightarrow> int \<times> int \<times> int \<times> int \<Rightarrow> 's em_pool_factory_policy \<Rightarrow> em_pool_t \<Rightarrow>
   string option \<Rightarrow> 's \<Rightarrow> (emlib_ret_t \<times> (ptr \<times> em_mutex_t) option) outcome \<times> em_pool_t \<times> 's" where
  "em_mutex_create_recursive fmt rcs pol pool name s = em_mutex_create fmt rcs pol pool name EM_MUTEX_RECURSE s"

definition os_status :: "int \<Rightarrow> emlib_ret_t" where
  "os_status rc = (if rc = 0 then EM_SUCC else EM_RETURN_OS_ERROR (of_int rc))"

text \<open>A null mutex is refused with \<open>EM_EINVAL\<close>.\<close>

definition on_mutex ::
  "(pthread_mutex \<Rightarrow> (int \<times> pthread_mutex) sys) \<Rightarrow> em_mutex_t option \<Rightarrow> (emlib_ret_t \<times> em_mutex_t option) sys" where
  "on_mutex call mutex =
     (case mutex of
        None \<Rightarrow> Returns (EM_EINVAL, None)
      | Some m \<Rightarrow> sys_bind (call (m_mutex m)) (\<lambda>(status, pm). Returns (os_status status, Some (m\<lparr>m_mutex := pm\<rparr>))))"

definition em_mutex_lock :: "tid \<Rightarrow> em_mutex_t option \<Rightarrow> (emlib_ret_t \<times> em_mutex_t option) sys" where
  "em_mutex_lock t mutex = on_mutex (pthread_mutex_lock t) mutex"

definition em_mutex_unlock :: "tid \<Rightarrow> em_mutex_t option \<Rightarrow> (emlib_ret_t \<times> em_mutex_t option) sys" where
  "em_mutex_unlock t mutex = on_mutex (pthread_mutex_unlock t) mutex"

definition em_mutex_trylock :: "tid \<Rightarrow> em_mutex_t option \<Rightarrow> (emlib_ret_t \<times> em_mutex_t option) sys" where
  "em_mutex_trylock t mutex = on_mutex (pthread_mutex_trylock t) mutex"

text \<open>
  The retry loop of \<open>em_mutex_destroy\<close>: while the mutex is busy it is unlocked and destroyed again.  The
  result is the last status and the mutex, gone when the status is 0.
\<close>

definition MUTEX_RETRY :: nat where "MUTEX_RETRY = 4"

fun destroy_retry :: "tid \<Rightarrow> nat \<Rightarrow> int \<Rightarrow> pthread_mutex \<Rightarrow> (int \<times> pthread_mutex) sys" where
  "destroy_retry t 0 status m = Returns (status, m)"
| "destroy_retry t (Suc left) status m =
     (let status' = pthread_mutex_destroy m
      in if status' = 0 then Returns (status', m)
         else if left > 0 \<and> status' = EBUSY
              then sys_bind (pthread_mutex_unlock t m) (\<lambda>(_, m'). destroy_retry t left status' m')
              else destroy_retry t left status' m)"

definition em_mutex_destroy :: "tid \<Rightarrow> em_mutex_t option \<Rightarrow> (emlib_ret_t \<times> em_mutex_t option) sys" where
  "em_mutex_destroy t mutex =
     (case mutex of
        None \<Rightarrow> Returns (EM_EINVAL, None)
      | Some m \<Rightarrow> sys_bind (destroy_retry t MUTEX_RETRY 0 (m_mutex m)) (\<lambda>(status, pm).
          Returns (os_status status, if status = 0 then None else Some (m\<lparr>m_mutex := pm\<rparr>))))"

section \<open>Atomic variables\<close>

text \<open>
  Each operation is a critical section of the variable's own mutex, which no operation leaves held; the
  value is a \<open>long\<close> and wraps.
\<close>

record em_atomic_t =
  a_mutex :: "em_mutex_t option"
  a_value :: "64 word"

definition em_atomic_inc_and_get :: "em_atomic_t \<Rightarrow> 64 word \<times> em_atomic_t" where
  "em_atomic_inc_and_get a = (let v = a_value a + 1 in (v, a\<lparr>a_value := v\<rparr>))"

definition em_atomic_dec_and_get :: "em_atomic_t \<Rightarrow> 64 word \<times> em_atomic_t" where
  "em_atomic_dec_and_get a = (let v = a_value a - 1 in (v, a\<lparr>a_value := v\<rparr>))"

definition em_atomic_add_and_get :: "em_atomic_t \<Rightarrow> 64 word \<Rightarrow> 64 word \<times> em_atomic_t" where
  "em_atomic_add_and_get a value = (let v = a_value a + value in (v, a\<lparr>a_value := v\<rparr>))"

definition em_atomic_get :: "em_atomic_t \<Rightarrow> 64 word" where
  "em_atomic_get a = a_value a"

definition em_atomic_set :: "em_atomic_t option \<Rightarrow> 64 word \<Rightarrow> em_atomic_t option" where
  "em_atomic_set a value = map_option (\<lambda>v. v\<lparr>a_value := value\<rparr>) a"

definition em_atomic_inc :: "em_atomic_t option \<Rightarrow> em_atomic_t option" where
  "em_atomic_inc a = map_option (\<lambda>v. snd (em_atomic_inc_and_get v)) a"

definition em_atomic_dec :: "em_atomic_t option \<Rightarrow> em_atomic_t option" where
  "em_atomic_dec a = map_option (\<lambda>v. snd (em_atomic_dec_and_get v)) a"

definition em_atomic_add :: "em_atomic_t option \<Rightarrow> 64 word \<Rightarrow> em_atomic_t option" where
  "em_atomic_add a value = map_option (\<lambda>v. snd (em_atomic_add_and_get v value)) a"

definition sizeof_em_atomic_t :: em_size_t where "sizeof_em_atomic_t = 16"

definition em_atomic_create ::
  "(string \<Rightarrow> ptr \<Rightarrow> string) \<Rightarrow> int \<times> int \<times> int \<times> int \<Rightarrow> 's em_pool_factory_policy \<Rightarrow> em_pool_t \<Rightarrow>
   64 word \<Rightarrow> 's \<Rightarrow> (emlib_ret_t \<times> em_atomic_t option) outcome \<times> em_pool_t \<times> 's" where
  "em_atomic_create fmt rcs pol pool initial s =
     (case em_pool_alloc pol pool sizeof_em_atomic_t s of
        (Ret p, pool1, s1) \<Rightarrow>
          if p = 0 then (Ret (EM_ENOMEM, None), pool1, s1)
          else (case em_mutex_create fmt rcs pol pool1 (Some ''atm%p'') EM_MUTEX_SIMPLE s1 of
                  (Ret (rc, m), pool2, s2) \<Rightarrow>
                    (Ret (rc, if rc \<noteq> EM_SUCC then None
                              else Some \<lparr>a_mutex = map_option snd m, a_value = initial\<rparr>), pool2, s2)
                | (Raised e, pool2, s2) \<Rightarrow> (Raised e, pool2, s2)
                | (Fault, pool2, s2) \<Rightarrow> (Fault, pool2, s2))
      | (Raised e, pool1, s1) \<Rightarrow> (Raised e, pool1, s1)
      | (Fault, pool1, s1) \<Rightarrow> (Fault, pool1, s1))"

definition em_atomic_destroy :: "tid \<Rightarrow> em_atomic_t option \<Rightarrow> (emlib_ret_t \<times> em_atomic_t option) sys" where
  "em_atomic_destroy t a =
     (case a of
        None \<Rightarrow> Returns (EM_EINVAL, None)
      | Some v \<Rightarrow> sys_bind (em_mutex_destroy t (a_mutex v)) (\<lambda>(status, m).
          Returns (status, Some (v\<lparr>a_mutex := if status = EM_SUCC then None else m\<rparr>))))"

section \<open>Reader/writer locks\<close>

record pthread_rwlock =
  rw_readers :: "tid list"
  rw_writer :: "tid option"

definition EDEADLK :: int where "EDEADLK = 35"

definition pthread_rwlock_rdlock :: "tid \<Rightarrow> pthread_rwlock \<Rightarrow> (int \<times> pthread_rwlock) sys" where
  "pthread_rwlock_rdlock t rw =
     (case rw_writer rw of
        None \<Rightarrow> Returns (0, rw\<lparr>rw_readers := t # rw_readers rw\<rparr>)
      | Some u \<Rightarrow> if u = t then Returns (EDEADLK, rw) else Blocks)"

definition pthread_rwlock_wrlock :: "tid \<Rightarrow> pthread_rwlock \<Rightarrow> (int \<times> pthread_rwlock) sys" where
  "pthread_rwlock_wrlock t rw =
     (case rw_writer rw of
        None \<Rightarrow> if rw_readers rw = [] then Returns (0, rw\<lparr>rw_writer := Some t\<rparr>) else Blocks
      | Some u \<Rightarrow> if u = t then Returns (EDEADLK, rw) else Blocks)"

definition pthread_rwlock_unlock :: "tid \<Rightarrow> pthread_rwlock \<Rightarrow> (int \<times> pthread_rwlock) sys" where
  "pthread_rwlock_unlock t rw =
     (if rw_writer rw = Some t then Returns (0, rw\<lparr>rw_writer := None\<rparr>)
      else if t \<in> set (rw_readers rw) then Returns (0, rw\<lparr>rw_readers := remove1 t (rw_readers rw)\<rparr>)
      else Undef)"

definition os_status_of :: "(int \<times> 'a) sys \<Rightarrow> (emlib_ret_t \<times> 'a) sys" where
  "os_status_of r = sys_bind r (\<lambda>(rc, x). Returns (os_status rc, x))"

definition em_rwmutex_lock_read :: "tid \<Rightarrow> pthread_rwlock \<Rightarrow> (emlib_ret_t \<times> pthread_rwlock) sys" where
  "em_rwmutex_lock_read t rw = os_status_of (pthread_rwlock_rdlock t rw)"

definition em_rwmutex_lock_write :: "tid \<Rightarrow> pthread_rwlock \<Rightarrow> (emlib_ret_t \<times> pthread_rwlock) sys" where
  "em_rwmutex_lock_write t rw = os_status_of (pthread_rwlock_wrlock t rw)"

definition em_rwmutex_unlock_write :: "tid \<Rightarrow> pthread_rwlock \<Rightarrow> (emlib_ret_t \<times> pthread_rwlock) sys" where
  "em_rwmutex_unlock_write t rw = os_status_of (pthread_rwlock_unlock t rw)"

definition em_rwmutex_unlock_read :: "tid \<Rightarrow> pthread_rwlock \<Rightarrow> (emlib_ret_t \<times> pthread_rwlock) sys" where
  "em_rwmutex_unlock_read t rw = em_rwmutex_unlock_write t rw"

text \<open>\<open>rc\<close> is the answer of \<open>pthread_rwlock_init\<close>; destroying a lock that is held is an error.\<close>

definition sizeof_em_rwmutex_t :: em_size_t where "sizeof_em_rwmutex_t = 56"

definition em_rwmutex_create ::
  "int \<Rightarrow> 's em_pool_factory_policy \<Rightarrow> em_pool_t \<Rightarrow> 's \<Rightarrow>
   (emlib_ret_t \<times> (ptr \<times> pthread_rwlock) option) outcome \<times> em_pool_t \<times> 's" where
  "em_rwmutex_create rc pol pool s =
     (case em_pool_alloc pol pool sizeof_em_rwmutex_t s of
        (Ret p, pool', s') \<Rightarrow>
          (Ret (if p = 0 then (EM_ENOMEM, None)
                else if rc \<noteq> 0 then (EM_RETURN_OS_ERROR (of_int rc), None)
                else (EM_SUCC, Some (p, \<lparr>rw_readers = [], rw_writer = None\<rparr>))), pool', s')
      | (Raised e, pool', s') \<Rightarrow> (Raised e, pool', s')
      | (Fault, pool', s') \<Rightarrow> (Fault, pool', s'))"

definition pthread_rwlock_destroy :: "pthread_rwlock \<Rightarrow> int" where
  "pthread_rwlock_destroy rw = (if rw_readers rw = [] \<and> rw_writer rw = None then 0 else EBUSY)"

definition em_rwmutex_destroy :: "pthread_rwlock \<Rightarrow> emlib_ret_t" where
  "em_rwmutex_destroy rw = os_status (pthread_rwlock_destroy rw)"

section \<open>Semaphores\<close>

definition SEM_VALUE_MAX :: nat where "SEM_VALUE_MAX = 2147483647"

record em_sem_t =
  sem_value :: nat
  sem_obj_name :: string

text \<open>
  \<open>em_sem_create\<close> after its allocations; \<open>addr\<close> is the semaphore's address.  The parameter \<open>maximum\<close> is
  not used by the code.
\<close>

definition sem_init_object ::
  "(string \<Rightarrow> ptr \<Rightarrow> string) \<Rightarrow> ptr \<Rightarrow> string option \<Rightarrow> 32 word \<Rightarrow> 32 word \<Rightarrow> emlib_ret_t \<times> em_sem_t option" where
  "sem_init_object fmt addr name initial maximum =
     (if addr = 0 then (EM_ENOMEM, None)
      else if unat initial > SEM_VALUE_MAX then (EM_RETURN_OS_ERROR (of_int EINVAL), None)
      else (EM_SUCC, Some \<lparr>sem_value = unat initial,
        sem_obj_name = object_name fmt (case name of None \<Rightarrow> ''sem%p'' | Some nm \<Rightarrow> nm) addr\<rparr>))"

text \<open>
  Creation allocates the object and then the system's semaphore; only the first result is checked, so that
  a pool that runs out at the second gives \<open>sem_init\<close> a null pointer.
\<close>

definition sizeof_em_sem_t :: em_size_t where "sizeof_em_sem_t = 40"
definition sizeof_sem_t :: em_size_t where "sizeof_sem_t = 32"

definition em_sem_create ::
  "(string \<Rightarrow> ptr \<Rightarrow> string) \<Rightarrow> 's em_pool_factory_policy \<Rightarrow> em_pool_t option \<Rightarrow> string option \<Rightarrow> 32 word \<Rightarrow> 32 word \<Rightarrow> 's \<Rightarrow>
   (emlib_ret_t \<times> em_sem_t option) outcome \<times> em_pool_t option \<times> 's" where
  "em_sem_create fmt pol pool name initial maximum s =
     (case pool of
        None \<Rightarrow> (Ret (EM_EINVAL, None), None, s)
      | Some pl \<Rightarrow>
          (case em_pool_alloc pol pl sizeof_em_sem_t s of
             (Ret p, pl1, s1) \<Rightarrow>
               if p = 0 then (Ret (EM_ENOMEM, None), Some pl1, s1)
               else
                 (case em_pool_alloc pol pl1 sizeof_sem_t s1 of
                    (Ret q, pl2, s2) \<Rightarrow>
                      (if q = 0 then Fault else Ret (sem_init_object fmt p name initial maximum), Some pl2, s2)
                  | (Raised e, pl2, s2) \<Rightarrow> (Raised e, Some pl2, s2)
                  | (Fault, pl2, s2) \<Rightarrow> (Fault, Some pl2, s2))
           | (Raised e, pl1, s1) \<Rightarrow> (Raised e, Some pl1, s1)
           | (Fault, pl1, s1) \<Rightarrow> (Fault, Some pl1, s1)))"

definition em_sem_destroy :: "int \<Rightarrow> em_sem_t option \<Rightarrow> emlib_ret_t" where
  "em_sem_destroy sem_destroy sem =
     (case sem of None \<Rightarrow> EM_EINVAL | Some _ \<Rightarrow> os_status sem_destroy)"

definition em_sem_wait :: "em_sem_t option \<Rightarrow> (emlib_ret_t \<times> em_sem_t option) sys" where
  "em_sem_wait sem =
     (case sem of
        None \<Rightarrow> Returns (EM_EINVAL, None)
      | Some s \<Rightarrow> if sem_value s = 0 then Blocks
                  else Returns (EM_SUCC, Some (s\<lparr>sem_value := sem_value s - 1\<rparr>)))"

definition em_sem_trywait :: "em_sem_t option \<Rightarrow> emlib_ret_t \<times> em_sem_t option" where
  "em_sem_trywait sem =
     (case sem of
        None \<Rightarrow> (EM_EINVAL, None)
      | Some s \<Rightarrow> if sem_value s = 0 then (EM_RETURN_OS_ERROR (of_int EAGAIN), Some s)
                  else (EM_SUCC, Some (s\<lparr>sem_value := sem_value s - 1\<rparr>)))"

definition em_sem_post :: "em_sem_t \<Rightarrow> emlib_ret_t \<times> em_sem_t" where
  "em_sem_post s =
     (if sem_value s = SEM_VALUE_MAX then (EM_RETURN_OS_ERROR (of_int EOVERFLOW), s)
      else (EM_SUCC, s\<lparr>sem_value := sem_value s + 1\<rparr>))"

section \<open>Events\<close>

text \<open>
  An event is a small state machine guarded by its own mutex, which every operation takes and gives back;
  only \<open>pthread_cond_wait\<close> gives it back in between.  So an operation is one step, and a wait is two: one
  that enters and one that leaves, with any number of wake-ups that find the event off between them.
\<close>

datatype event_state = EV_STATE_OFF | EV_STATE_SET | EV_STATE_PULSED

record em_event_t =
  ev_state :: event_state
  auto_reset :: bool
  threads_waiting :: "32 word"
  threads_to_release :: "32 word"

definition event_init :: "bool \<Rightarrow> bool \<Rightarrow> em_event_t" where
  "event_init manual_reset initial =
     \<lparr>ev_state = (if initial then EV_STATE_SET else EV_STATE_OFF), auto_reset = \<not> manual_reset,
      threads_waiting = 0, threads_to_release = (if initial then 1 else 0)\<rparr>"

text \<open>
  The allocation is not checked, and the status of \<open>init_mutex\<close> is dropped; the event is made of its state
  and the mutex, if that was initialised.
\<close>

definition sizeof_em_event_t :: em_size_t where "sizeof_em_event_t = 144"

definition em_event_create ::
  "(string \<Rightarrow> ptr \<Rightarrow> string) \<Rightarrow> int \<times> int \<times> int \<times> int \<Rightarrow> 's em_pool_factory_policy \<Rightarrow> em_pool_t \<Rightarrow> string option \<Rightarrow>
   bool \<Rightarrow> bool \<Rightarrow> 's \<Rightarrow> (emlib_ret_t \<times> em_event_t \<times> em_mutex_t option) outcome \<times> em_pool_t \<times> 's" where
  "em_event_create fmt rcs pol pool name manual_reset initial s =
     (case em_pool_alloc pol pool sizeof_em_event_t s of
        (Ret p, pool', s') \<Rightarrow>
          (if p = 0 then Fault
           else Ret (EM_SUCC, event_init manual_reset initial, snd (init_mutex fmt rcs p name EM_MUTEX_SIMPLE)), pool', s')
      | (Raised e, pool', s') \<Rightarrow> (Raised e, pool', s')
      | (Fault, pool', s') \<Rightarrow> (Fault, pool', s'))"

definition em_event_destroy :: "tid \<Rightarrow> em_mutex_t option \<Rightarrow> (emlib_ret_t \<times> em_mutex_t option) sys" where
  "em_event_destroy t mutex = sys_bind (em_mutex_destroy t mutex) (\<lambda>(_, m). Returns (EM_SUCC, m))"

definition event_on_one_release :: "em_event_t \<Rightarrow> em_event_t" where
  "event_on_one_release ev =
     (if ev_state ev = EV_STATE_SET then
        (if auto_reset ev then ev\<lparr>threads_to_release := 0, ev_state := EV_STATE_OFF\<rparr> else ev)
      else if auto_reset ev then ev\<lparr>threads_to_release := 0, ev_state := EV_STATE_OFF\<rparr>
      else
        let ev' = ev\<lparr>threads_to_release := threads_to_release ev - 1\<rparr>
        in if threads_to_release ev' = 0 then ev'\<lparr>ev_state := EV_STATE_OFF\<rparr> else ev')"

definition em_event_wait_enter :: "em_event_t \<Rightarrow> em_event_t" where
  "em_event_wait_enter ev = ev\<lparr>threads_waiting := threads_waiting ev + 1\<rparr>"

text \<open>The test of the loop and what follows it: \<^const>\<open>None\<close> when the thread sleeps on.\<close>

definition em_event_wait_leave :: "em_event_t \<Rightarrow> em_event_t option" where
  "em_event_wait_leave ev =
     (if ev_state ev = EV_STATE_OFF then None
      else Some (event_on_one_release (ev\<lparr>threads_waiting := threads_waiting ev - 1\<rparr>)))"

definition em_event_trywait :: "em_event_t \<Rightarrow> emlib_ret_t \<times> em_event_t" where
  "em_event_trywait ev =
     (if ev_state ev \<noteq> EV_STATE_OFF then (EM_SUCC, event_on_one_release ev) else (- 1, ev))"

definition em_event_set :: "em_event_t \<Rightarrow> emlib_ret_t \<times> em_event_t" where
  "em_event_set ev = (EM_SUCC, ev\<lparr>threads_to_release := 1, ev_state := EV_STATE_SET\<rparr>)"

definition em_event_pulse :: "em_event_t \<Rightarrow> emlib_ret_t \<times> em_event_t" where
  "em_event_pulse ev =
     (EM_SUCC, if threads_waiting ev \<noteq> 0
               then ev\<lparr>threads_to_release := if auto_reset ev then 1 else threads_waiting ev,
                       ev_state := EV_STATE_PULSED\<rparr>
               else ev)"

definition em_event_reset :: "em_event_t \<Rightarrow> emlib_ret_t \<times> em_event_t" where
  "em_event_reset ev = (EM_SUCC, ev\<lparr>ev_state := EV_STATE_OFF, threads_to_release := 0\<rparr>)"

text \<open>
  The event with the threads asleep in it, and two counters of the history: the waits that were let
  through and the releases that were granted, by the initial state, a set or a pulse.
\<close>

record event_sys =
  es_event :: em_event_t
  es_asleep :: "tid set"
  es_passed :: nat
  es_granted :: nat

inductive event_step :: "event_sys \<Rightarrow> event_sys \<Rightarrow> bool" where
  Sleep: "t \<notin> es_asleep s \<Longrightarrow> em_event_wait_leave (em_event_wait_enter (es_event s)) = None \<Longrightarrow>
    event_step s (s\<lparr>es_event := em_event_wait_enter (es_event s), es_asleep := insert t (es_asleep s)\<rparr>)"
| Pass: "t \<notin> es_asleep s \<Longrightarrow> em_event_wait_leave (em_event_wait_enter (es_event s)) = Some ev \<Longrightarrow>
    event_step s (s\<lparr>es_event := ev, es_passed := es_passed s + 1\<rparr>)"
| Wake: "t \<in> es_asleep s \<Longrightarrow> em_event_wait_leave (es_event s) = Some ev \<Longrightarrow>
    event_step s (s\<lparr>es_event := ev, es_asleep := es_asleep s - {t}, es_passed := es_passed s + 1\<rparr>)"
| Try: "em_event_trywait (es_event s) = (EM_SUCC, ev) \<Longrightarrow>
    event_step s (s\<lparr>es_event := ev, es_passed := es_passed s + 1\<rparr>)"
| Set: "em_event_set (es_event s) = (r, ev) \<Longrightarrow>
    event_step s (s\<lparr>es_event := ev, es_granted := es_granted s + 1\<rparr>)"
| Pulse: "em_event_pulse (es_event s) = (r, ev) \<Longrightarrow>
    event_step s (s\<lparr>es_event := ev, es_granted := es_granted s + 1\<rparr>)"
| Reset: "em_event_reset (es_event s) = (r, ev) \<Longrightarrow> event_step s (s\<lparr>es_event := ev\<rparr>)"

inductive_cases event_stepE [elim!]: "event_step s s'"

definition event_start :: "bool \<Rightarrow> bool \<Rightarrow> event_sys" where
  "event_start manual_reset initial =
     \<lparr>es_event = event_init manual_reset initial, es_asleep = {}, es_passed = 0,
      es_granted = (if initial then 1 else 0)\<rparr>"

text \<open>
  The invariant: the count of waiters is exact, the event is on exactly while there is a release left, so
  that the count of releases never goes below zero, and an automatic event has let no more waits through
  than were granted, with one in hand while it is on.
\<close>

definition event_ok :: "event_sys \<Rightarrow> bool" where
  "event_ok s \<longleftrightarrow> finite (es_asleep s) \<and> threads_waiting (es_event s) = of_nat (card (es_asleep s)) \<and>
     (ev_state (es_event s) = EV_STATE_OFF \<longleftrightarrow> threads_to_release (es_event s) = 0) \<and>
     (auto_reset (es_event s) \<longrightarrow>
        es_passed s + (if ev_state (es_event s) = EV_STATE_OFF then 0 else 1) \<le> es_granted s)"

section \<open>Facts\<close>

text \<open>
  A recursive mutex, held any number of times and given back as often, is as before; every other thread
  waits meanwhile.
\<close>

locale reentrant =
  fixes acquire release :: "tid \<Rightarrow> 'm \<Rightarrow> 'm sys"
    and holds :: "'m \<Rightarrow> (tid \<times> nat) option"
  assumes acquire_free: "holds m = None \<Longrightarrow> \<exists>m'. acquire t m = Returns m' \<and> holds m' = Some (t, 1)"
    and acquire_own: "holds m = Some (t, n) \<Longrightarrow> \<exists>m'. acquire t m = Returns m' \<and> holds m' = Some (t, n + 1)"
    and acquire_other: "holds m = Some (u, n) \<Longrightarrow> u \<noteq> t \<Longrightarrow> acquire t m = Blocks"
    and release_last: "holds m = Some (t, 1) \<Longrightarrow> \<exists>m'. release t m = Returns m' \<and> holds m' = None"
    and release_own: "holds m = Some (t, n + 2) \<Longrightarrow> \<exists>m'. release t m = Returns m' \<and> holds m' = Some (t, n + 1)"

fun repeat_sys :: "nat \<Rightarrow> ('m \<Rightarrow> 'm sys) \<Rightarrow> 'm \<Rightarrow> 'm sys" where
  "repeat_sys 0 f m = Returns m"
| "repeat_sys (Suc n) f m = sys_bind (f m) (repeat_sys n f)"

context reentrant
begin

lemma acquire_more: "holds m = Some (t, k) \<Longrightarrow>
    \<exists>m'. repeat_sys n (acquire t) m = Returns m' \<and> holds m' = Some (t, k + n)"
proof (induction n arbitrary: m k)
  case (Suc n)
  obtain m1 where m1: "acquire t m = Returns m1" "holds m1 = Some (t, k + 1)"
    using acquire_own [OF Suc.prems] by blast
  from Suc.IH [OF m1(2)] m1(1) show ?case by auto
qed simp

lemma acquire_many: "holds m = None \<Longrightarrow>
    \<exists>m'. repeat_sys (Suc n) (acquire t) m = Returns m' \<and> holds m' = Some (t, Suc n)"
  using acquire_free [of m t] acquire_more [of _ t 1 n] by fastforce

lemma release_many: "holds m = Some (t, Suc n) \<Longrightarrow>
    \<exists>m'. repeat_sys (Suc n) (release t) m = Returns m' \<and> holds m' = None"
proof (induction n arbitrary: m)
  case 0
  then show ?case using release_last [of m t] by auto
next
  case (Suc n)
  obtain m1 where m1: "release t m = Returns m1" "holds m1 = Some (t, Suc n)"
    using release_own [of m t n] Suc.prems by auto
  from Suc.IH [OF m1(2)] m1(1) show ?case by (metis repeat_sys.simps(2) sys_bind.simps(1))
qed

text \<open>Balanced use: in between, exactly one thread holds it; afterwards nobody does.\<close>

lemma balanced:
  assumes "holds m = None"
  obtains m1 m2 where "repeat_sys (Suc n) (acquire t) m = Returns m1" "holds m1 = Some (t, Suc n)"
    "\<And>u. u \<noteq> t \<Longrightarrow> acquire u m1 = Blocks" "repeat_sys (Suc n) (release t) m1 = Returns m2" "holds m2 = None"
  using acquire_many [OF assms, of n t] release_many acquire_other by metis

end

definition pm_holds :: "pthread_mutex \<Rightarrow> (tid \<times> nat) option" where
  "pm_holds m = map_option (\<lambda>t. (t, pm_level m)) (pm_owner m)"

text \<open>The recursive mutexes are those whose flag is set; the flag never changes.\<close>

definition recursive_lock :: "tid \<Rightarrow> pthread_mutex \<Rightarrow> pthread_mutex sys" where
  "recursive_lock t m = sys_bind (em_mutex_lock t (Some \<lparr>m_mutex = m\<lparr>pm_recursive := True\<rparr>, m_obj_name = ''''\<rparr>))
     (\<lambda>(r, m'). if r = EM_SUCC then Returns (m_mutex (the m')) else Undef)"

definition recursive_unlock :: "tid \<Rightarrow> pthread_mutex \<Rightarrow> pthread_mutex sys" where
  "recursive_unlock t m = sys_bind (em_mutex_unlock t (Some \<lparr>m_mutex = m\<lparr>pm_recursive := True\<rparr>, m_obj_name = ''''\<rparr>))
     (\<lambda>(r, m'). if r = EM_SUCC then Returns (m_mutex (the m')) else Undef)"

interpretation rm: reentrant recursive_lock recursive_unlock pm_holds
  by unfold_locales
    (auto simp: recursive_lock_def recursive_unlock_def em_mutex_lock_def em_mutex_unlock_def on_mutex_def
      pthread_mutex_lock_def pthread_mutex_unlock_def pm_holds_def os_status_def split: option.splits)

text \<open>Destruction gives back at most three levels held by the caller.\<close>

lemma destroy_retry_own:
  assumes "pm_owner m = Some t" "1 \<le> pm_level m"
  shows "destroy_retry t (Suc left) st m =
    (if pm_level m \<le> left then Returns (0, m\<lparr>pm_owner := None, pm_level := 0\<rparr>)
     else Returns (EBUSY, m\<lparr>pm_level := pm_level m - left\<rparr>))"
  using assms
proof (induction left arbitrary: m st)
  case 0
  then show ?case by (simp add: pthread_mutex_destroy_def posix_errno)
next
  case (Suc left)
  have b: "pthread_mutex_destroy m = EBUSY" using Suc.prems by (simp add: pthread_mutex_destroy_def)
  show ?case
  proof (cases "pm_level m = 1")
    case True
    have d: "pthread_mutex_destroy (m\<lparr>pm_owner := None, pm_level := 0\<rparr>) = 0"
      by (simp add: pthread_mutex_destroy_def)
    from True have "pthread_mutex_unlock t m = Returns (0, m\<lparr>pm_owner := None, pm_level := 0\<rparr>)"
      using Suc.prems by (simp add: pthread_mutex_unlock_def)
    then show ?thesis
      using True b d by (subst destroy_retry.simps) (simp add: Let_def posix_errno)
  next
    case False
    let ?m = "m\<lparr>pm_level := pm_level m - 1\<rparr>"
    have u: "pthread_mutex_unlock t m = Returns (0, ?m)"
      using Suc.prems False by (simp add: pthread_mutex_unlock_def)
    from Suc.IH [of ?m EBUSY] False Suc.prems u show ?thesis
      by (subst destroy_retry.simps) (auto simp: b Let_def posix_errno)
  qed
qed

lemma destroy_retry_foreign:
  assumes "pm_owner m = Some u" "u \<noteq> t" "pm_recursive m"
  shows "destroy_retry t (Suc left) st m = Returns (EBUSY, m)"
  using assms
  by (induction left arbitrary: st)
    (simp_all add: pthread_mutex_destroy_def pthread_mutex_unlock_def posix_errno Let_def)

lemma mutex_destroy_cases:
  assumes "pm_recursive (m_mutex m)" "pm_holds (m_mutex m) = Some (u, n)" "1 \<le> n"
  shows "em_mutex_destroy t (Some m) =
    (if u = t \<and> n \<le> 3 then Returns (EM_SUCC, None)
     else Returns (EM_RETURN_OS_ERROR 16,
       Some (if u = t then m\<lparr>m_mutex := (m_mutex m)\<lparr>pm_level := n - 3\<rparr>\<rparr> else m)))"
proof -
  have o: "pm_owner (m_mutex m) = Some u" "pm_level (m_mutex m) = n"
    using assms(2) by (auto simp: pm_holds_def)
  have r: "MUTEX_RETRY = Suc 3" by (simp add: MUTEX_RETRY_def)
  show ?thesis
  proof (cases "u = t")
    case True
    then show ?thesis
      using destroy_retry_own [of "m_mutex m" t 3 0] o assms(3)
      by (simp add: em_mutex_destroy_def r os_status_def posix_errno)
  next
    case False
    then show ?thesis
      using destroy_retry_foreign [OF o(1) False assms(1), of 3 0]
      by (simp add: em_mutex_destroy_def r os_status_def posix_errno)
  qed
qed

lemma event_start_ok: "event_ok (event_start manual_reset initial)"
  by (simp add: event_ok_def event_start_def event_init_def)

lemmas event_defs = em_event_wait_enter_def em_event_wait_leave_def event_on_one_release_def
  em_event_trywait_def em_event_set_def em_event_pulse_def em_event_reset_def

text \<open>One release, in every state: it keeps the count in step and uses up an automatic event.\<close>

lemma one_release:
  assumes "ev_state ev \<noteq> EV_STATE_OFF" "threads_to_release ev \<noteq> 0" "ev' = event_on_one_release ev"
  shows "(ev_state ev' = EV_STATE_OFF \<longleftrightarrow> threads_to_release ev' = 0) \<and> auto_reset ev' = auto_reset ev \<and>
    threads_waiting ev' = threads_waiting ev \<and> (auto_reset ev \<longrightarrow> ev_state ev' = EV_STATE_OFF)"
  using assms by (auto simp: event_on_one_release_def Let_def)

lemma wait_leave:
  assumes "em_event_wait_leave ev = Some ev'" "ev_state ev = EV_STATE_OFF \<longleftrightarrow> threads_to_release ev = 0"
  shows "ev_state ev \<noteq> EV_STATE_OFF \<and> (ev_state ev' = EV_STATE_OFF \<longleftrightarrow> threads_to_release ev' = 0) \<and>
    auto_reset ev' = auto_reset ev \<and> threads_waiting ev' = threads_waiting ev - 1 \<and>
    (auto_reset ev \<longrightarrow> ev_state ev' = EV_STATE_OFF)"
  using assms one_release [of "ev\<lparr>threads_waiting := threads_waiting ev - 1\<rparr>" ev']
  by (auto simp: em_event_wait_leave_def split: if_splits)

lemma event_step_ok:
  assumes "event_step s s'" and ok: "event_ok s"
  shows "event_ok s'"
  using assms(1)
proof (cases rule: event_step.cases)
  case (Sleep t)
  then show ?thesis using ok by (auto simp: event_ok_def em_event_wait_enter_def add.commute)
next
  case (Pass t ev)
  have "ev_state (es_event s) = EV_STATE_OFF \<longleftrightarrow> threads_to_release (es_event s) = 0"
    using ok by (simp add: event_ok_def)
  then have w: "ev_state (es_event s) \<noteq> EV_STATE_OFF" "ev_state ev = EV_STATE_OFF \<longleftrightarrow> threads_to_release ev = 0"
    "auto_reset ev = auto_reset (es_event s)" "threads_waiting ev = threads_waiting (es_event s)"
    "auto_reset (es_event s) \<longrightarrow> ev_state ev = EV_STATE_OFF"
    using wait_leave [OF Pass(3)] by (simp_all add: em_event_wait_enter_def)
  show ?thesis unfolding Pass(1) using ok w by (simp add: event_ok_def)
next
  case (Wake t ev)
  have "card (es_asleep s) = Suc (card (es_asleep s - {t}))"
    using ok Wake(2) by (metis card.remove event_ok_def)
  then have c: "of_nat (card (es_asleep s - {t})) = (of_nat (card (es_asleep s)) - 1 :: 32 word)"
    by (metis add_diff_cancel_left' of_nat_Suc)
  have "ev_state (es_event s) = EV_STATE_OFF \<longleftrightarrow> threads_to_release (es_event s) = 0"
    using ok by (simp add: event_ok_def)
  note w = wait_leave [OF Wake(3) this]
  show ?thesis unfolding Wake(1) using ok w by (auto simp: event_ok_def c)
next
  case (Try ev)
  then show ?thesis
    using ok one_release [of "es_event s" ev]
    by (auto simp: event_ok_def em_event_trywait_def errno split: if_splits)
qed (use ok in \<open>auto simp: event_ok_def em_event_set_def em_event_pulse_def em_event_reset_def split: if_splits\<close>)

lemma event_step_kind: "event_step s s' \<Longrightarrow> auto_reset (es_event s') = auto_reset (es_event s)"
  by (auto simp: event_defs Let_def split: if_splits)

lemma event_run_ok:
  assumes "event_step\<^sup>*\<^sup>* (event_start manual_reset initial) s"
  shows "event_ok s \<and> auto_reset (es_event s) = (\<not> manual_reset)"
  using assms
proof induction
  case base
  then show ?case by (simp add: event_start_ok) (simp add: event_start_def event_init_def)
qed (auto simp: event_step_ok event_step_kind)

text \<open>A manual event that is set lets every wait through until it is reset or pulsed.\<close>

lemma manual_set_stays:
  assumes "ev_state (es_event s) = EV_STATE_SET" "\<not> auto_reset (es_event s)" "event_step s s'"
  shows "ev_state (es_event s') = EV_STATE_SET \<or> es_passed s' = es_passed s"
  using assms(3) by (cases rule: event_step.cases) (use assms(1,2) in \<open>auto simp: event_defs Let_def split: if_splits\<close>)

text \<open>
  The documentation promises that pulsing a manual event releases all waiting threads.  A thread that
  polls in between takes the release: here thread 7 sleeps, the event is pulsed, another thread's
  \<open>em_event_trywait\<close> succeeds, and the event is off again with thread 7 still asleep.
\<close>

lemma manual_pulse_lost:
  "\<exists>s. event_step\<^sup>*\<^sup>* (event_start True False) s \<and> es_passed s = 1 \<and> es_granted s = 1 \<and>
     7 \<in> es_asleep s \<and> em_event_wait_leave (es_event s) = None"
proof -
  let ?s0 = "event_start True False"
  let ?s1 = "?s0\<lparr>es_event := em_event_wait_enter (es_event ?s0), es_asleep := insert 7 (es_asleep ?s0)\<rparr>"
  let ?s2 = "?s1\<lparr>es_event := snd (em_event_pulse (es_event ?s1)), es_granted := es_granted ?s1 + 1\<rparr>"
  let ?s3 = "?s2\<lparr>es_event := snd (em_event_trywait (es_event ?s2)), es_passed := es_passed ?s2 + 1\<rparr>"
  have e1: "es_event ?s1 = \<lparr>ev_state = EV_STATE_OFF, auto_reset = False, threads_waiting = 1, threads_to_release = 0\<rparr>"
    by (simp add: event_start_def event_init_def em_event_wait_enter_def)
  have "event_step ?s0 ?s1"
    by (rule Sleep) (simp_all add: event_start_def event_init_def em_event_wait_leave_def em_event_wait_enter_def)
  moreover have "event_step ?s1 ?s2" by (rule Pulse) (rule prod.collapse [symmetric])
  moreover have "event_step ?s2 ?s3"
    by (rule Try) (simp add: e1 em_event_pulse_def em_event_trywait_def)
  ultimately have "event_step\<^sup>*\<^sup>* ?s0 ?s3" by (meson converse_rtranclp_into_rtranclp rtranclp.rtrancl_refl)
  moreover have "es_passed ?s3 = 1" "es_granted ?s3 = 1" "7 \<in> es_asleep ?s3"
    by (simp_all add: event_start_def)
  moreover have "em_event_wait_leave (es_event ?s3) = None"
    by (simp add: e1 em_event_pulse_def em_event_trywait_def event_on_one_release_def em_event_wait_leave_def)
  ultimately show ?thesis by blast
qed

text \<open>
  The maximum given to \<open>em_sem_create\<close> has no effect: a semaphore created with initial count 1 and
  maximum 1 can be posted to 2.
\<close>

lemma sem_maximum_ignored:
  "em_sem_create fmt pol pool name initial max1 s = em_sem_create fmt pol pool name initial max2 s"
  "addr \<noteq> 0 \<Longrightarrow> map_option (\<lambda>s. sem_value (snd (em_sem_post s))) (snd (sem_init_object fmt addr name 1 1)) = Some 2"
  by (simp only: em_sem_create_def sem_init_object_def) (simp add: sem_init_object_def em_sem_post_def SEM_VALUE_MAX_def)

section \<open>Properties\<close>

text \<open>
  C10. In every history of an event the count of waiting threads is exact, the event is on exactly while a
  release is left (so that the unsigned count of releases never wraps below zero), and an automatic event
  lets through at most one wait per grant: the initial state, a set or a pulse.
\<close>
theorem event_invariant:
  assumes "event_step\<^sup>*\<^sup>* (event_start manual_reset initial) s"
  shows "threads_waiting (es_event s) = of_nat (card (es_asleep s)) \<and>
    (ev_state (es_event s) = EV_STATE_OFF \<longleftrightarrow> threads_to_release (es_event s) = 0) \<and>
    (\<not> manual_reset \<longrightarrow> es_passed s \<le> es_granted s)"
  using event_run_ok [OF assms] by (auto simp: event_ok_def)

lemma event_invariant_witness:
  "threads_waiting (es_event (event_start False True)) = 0 \<and>
   es_passed (event_start False True) \<le> es_granted (event_start False True)"
  using event_invariant [of False True "event_start False True"] by (simp add: event_start_def)

text \<open>
  A free recursive mutex locked any number of times by one thread is held by that thread alone, every
  other thread blocks on it, and as many unlocks make it free again.
\<close>
lemma mutex_balanced:
  assumes "pm_owner m = None"
  shows "\<exists>m1 m2. repeat_sys (Suc n) (recursive_lock t) m = Returns m1 \<and> pm_holds m1 = Some (t, Suc n) \<and>
    (\<forall>u. u \<noteq> t \<longrightarrow> recursive_lock u m1 = Blocks) \<and>
    repeat_sys (Suc n) (recursive_unlock t) m1 = Returns m2 \<and> pm_owner m2 = None"
proof -
  have "pm_holds m = None" using assms by (simp add: pm_holds_def)
  from rm.balanced [OF this, of n t] obtain m1 m2 where m:
    "repeat_sys (Suc n) (recursive_lock t) m = Returns m1" "pm_holds m1 = Some (t, Suc n)"
    "\<And>u. u \<noteq> t \<Longrightarrow> recursive_lock u m1 = Blocks"
    "repeat_sys (Suc n) (recursive_unlock t) m1 = Returns m2" "pm_holds m2 = None" by metis
  then have "pm_owner m2 = None" by (simp add: pm_holds_def)
  with m show ?thesis by metis
qed

lemma mutex_balanced_witness:
  "\<exists>m1. repeat_sys 3 (recursive_lock 4) \<lparr>pm_recursive = True, pm_owner = None, pm_level = 0\<rparr> = Returns m1 \<and>
     pm_holds m1 = Some (4, 3) \<and> recursive_lock 5 m1 = Blocks"
proof -
  have three: "Suc 2 = 3" by simp
  obtain m1 where m1: "repeat_sys (Suc 2) (recursive_lock 4) \<lparr>pm_recursive = True, pm_owner = None, pm_level = 0\<rparr> = Returns m1"
      "pm_holds m1 = Some (4, Suc 2)" "\<forall>u. u \<noteq> 4 \<longrightarrow> recursive_lock u m1 = Blocks"
    using mutex_balanced [of "\<lparr>pm_recursive = True, pm_owner = None, pm_level = 0\<rparr>" 2 4] by auto
  then have "recursive_lock 5 m1 = Blocks" by simp
  with m1(1,2) show ?thesis unfolding three by blast
qed

text \<open>
  Destroying a recursive mutex that is held works exactly when the caller holds it at most three times.
  Otherwise it fails with the code of \<open>EBUSY\<close>; when the caller holds it, the failed call has still given
  back three of its levels, and when another thread holds it nothing changes.
\<close>
lemma mutex_destroy_spec:
  assumes "pm_recursive (m_mutex m)" "pm_holds (m_mutex m) = Some (u, n)" "1 \<le> n"
  shows "em_mutex_destroy t (Some m) =
    (if u = t \<and> n \<le> 3 then Returns (EM_SUCC, None)
     else Returns (EM_RETURN_OS_ERROR 16,
       Some (if u = t then m\<lparr>m_mutex := (m_mutex m)\<lparr>pm_level := n - 3\<rparr>\<rparr> else m)))"
  by (rule mutex_destroy_cases [OF assms])

lemma mutex_destroy_spec_witness:
  "em_mutex_destroy 1 (Some \<lparr>m_mutex = \<lparr>pm_recursive = True, pm_owner = Some 1, pm_level = 3\<rparr>, m_obj_name = ''m''\<rparr>) =
     Returns (EM_SUCC, None)"
  using mutex_destroy_spec [of "\<lparr>m_mutex = \<lparr>pm_recursive = True, pm_owner = Some 1, pm_level = 3\<rparr>, m_obj_name = ''m''\<rparr>" 1 3 1]
  by (simp add: pm_holds_def)

end
