(* ===== verification/Emlib_Lock.thy ===== *)
theory Emlib_Lock
  imports Emlib_Os
begin

text \<open>
  Lock objects and group locks, \<open>src/lock.c\<close>.  A lock object made by the two constructors calls the mutex
  operations; locks are known by an address, 0 being the null pointer, and \<open>mutexes\<close> is the memory that
  holds them.  A group lock is a list of locks in the order of their priorities, a reference count and a
  list of handlers to call when it goes away.
\<close>

section \<open>Lock objects\<close>

type_synonym mutexes = "nat \<rightharpoonup> em_mutex_t"

text \<open>A null lock is refused; using a lock that is not in memory is undefined.\<close>

definition on_lock ::
  "(em_mutex_t option \<Rightarrow> (emlib_ret_t \<times> em_mutex_t option) sys) \<Rightarrow> nat \<Rightarrow> mutexes \<Rightarrow> (emlib_ret_t \<times> mutexes) sys" where
  "on_lock call l w =
     (if l = 0 then Returns (EM_FAIL, w)
      else case w l of
             None \<Rightarrow> Undef
           | Some m \<Rightarrow> sys_bind (call (Some m)) (\<lambda>(r, m'). Returns (r, w(l := m'))))"

definition em_lock :: "tid \<Rightarrow> nat \<Rightarrow> mutexes \<Rightarrow> (emlib_ret_t \<times> mutexes) sys" where
  "em_lock t l w = on_lock (em_mutex_lock t) l w"

definition em_trylock :: "tid \<Rightarrow> nat \<Rightarrow> mutexes \<Rightarrow> (emlib_ret_t \<times> mutexes) sys" where
  "em_trylock t l w = on_lock (em_mutex_trylock t) l w"

definition em_unlock :: "tid \<Rightarrow> nat \<Rightarrow> mutexes \<Rightarrow> (emlib_ret_t \<times> mutexes) sys" where
  "em_unlock t l w = on_lock (em_mutex_unlock t) l w"

definition em_lock_destroy :: "tid \<Rightarrow> nat \<Rightarrow> mutexes \<Rightarrow> mutexes sys" where
  "em_lock_destroy t l w =
     (if l = 0 then Returns w else sys_bind (on_lock (em_mutex_destroy t) l w) (\<lambda>(_, w'). Returns w'))"

text \<open>
  \<open>create_mutex_lock\<close>: \<open>lock_mem\<close> is what the pool gives for the lock object, and \<open>mutex\<close> the answer of
  \<open>em_mutex_create\<close> for the type.
\<close>

definition create_mutex_lock ::
  "nat \<Rightarrow> (int \<Rightarrow> emlib_ret_t \<times> em_mutex_t option) \<Rightarrow> int \<Rightarrow> mutexes \<Rightarrow> emlib_ret_t \<times> nat \<times> mutexes" where
  "create_mutex_lock lock_mem mutex type w =
     (if lock_mem = 0 then (EM_ENOMEM, 0, w)
      else case mutex type of
             (rc, m) \<Rightarrow> if rc \<noteq> EM_SUCC then (rc, 0, w) else (EM_SUCC, lock_mem, w(lock_mem := m)))"

definition em_lock_create_simple_mutex ::
  "nat \<Rightarrow> (int \<Rightarrow> emlib_ret_t \<times> em_mutex_t option) \<Rightarrow> mutexes \<Rightarrow> emlib_ret_t \<times> nat \<times> mutexes" where
  "em_lock_create_simple_mutex lock_mem mutex w = create_mutex_lock lock_mem mutex EM_MUTEX_SIMPLE w"

definition em_lock_create_recursive_mutex ::
  "nat \<Rightarrow> (int \<Rightarrow> emlib_ret_t \<times> em_mutex_t option) \<Rightarrow> mutexes \<Rightarrow> emlib_ret_t \<times> nat \<times> mutexes" where
  "em_lock_create_recursive_mutex lock_mem mutex w = create_mutex_lock lock_mem mutex EM_MUTEX_RECURSE w"

section \<open>Group locks\<close>

text \<open>An item is a priority and a lock, a handler a component and a function.\<close>

type_synonym grp_lock_item = "int \<times> nat"
type_synonym grp_destroy_callback = "nat \<times> nat"

record em_grp_lock_t =
  g_pool :: bool
  g_ref_cnt :: "em_atomic_t option"
  g_own_lock :: nat
  g_owner :: "tid option"
  g_owner_cnt :: int
  g_lock_list :: "grp_lock_item list"
  g_destroy_list :: "grp_destroy_callback list"

text \<open>The group with the locks in memory and the handlers called so far.\<close>

record grp_state =
  gs_mutexes :: mutexes
  gs_grp :: em_grp_lock_t
  gs_called :: "grp_destroy_callback list"

definition grp_lock_set_owner_thread :: "tid \<Rightarrow> em_grp_lock_t \<Rightarrow> em_grp_lock_t" where
  "grp_lock_set_owner_thread t g =
     (if g_owner g = None then g\<lparr>g_owner := Some t, g_owner_cnt := 1\<rparr>
      else g\<lparr>g_owner_cnt := g_owner_cnt g + 1\<rparr>)"

definition grp_lock_unset_owner_thread :: "em_grp_lock_t \<Rightarrow> em_grp_lock_t" where
  "grp_lock_unset_owner_thread g =
     (let n = g_owner_cnt g - 1
      in if n \<le> 0 then g\<lparr>g_owner := None, g_owner_cnt := 0\<rparr> else g\<lparr>g_owner_cnt := n\<rparr>)"

definition grp_lock_add_ref :: "em_grp_lock_t \<Rightarrow> emlib_ret_t \<times> em_grp_lock_t" where
  "grp_lock_add_ref g = (EM_SUCC, g\<lparr>g_ref_cnt := em_atomic_inc (g_ref_cnt g)\<rparr>)"

text \<open>The loop over the items; the result of locking one is not looked at.\<close>

fun lock_items :: "tid \<Rightarrow> grp_lock_item list \<Rightarrow> mutexes \<Rightarrow> mutexes sys" where
  "lock_items t [] w = Returns w"
| "lock_items t ((_, l) # items) w = sys_bind (em_lock t l w) (\<lambda>(_, w'). lock_items t items w')"

definition grp_lock_acquire :: "tid \<Rightarrow> grp_state \<Rightarrow> (emlib_ret_t \<times> grp_state) sys" where
  "grp_lock_acquire t s =
     sys_bind (lock_items t (g_lock_list (gs_grp s)) (gs_mutexes s)) (\<lambda>w.
       Returns (EM_SUCC, s\<lparr>gs_mutexes := w,
         gs_grp := snd (grp_lock_add_ref (grp_lock_set_owner_thread t (gs_grp s)))\<rparr>))"

text \<open>
  The loop of \<open>grp_lock_tryacquire\<close>.  \<open>taken\<close> are the items before the current one, the nearest first: the
  order in which the code goes back when one cannot be had.  It goes back with \<open>em_lock\<close>.
\<close>

fun trylock_items ::
  "tid \<Rightarrow> grp_lock_item list \<Rightarrow> grp_lock_item list \<Rightarrow> mutexes \<Rightarrow> (emlib_ret_t \<times> mutexes) sys" where
  "trylock_items t taken [] w = Returns (EM_SUCC, w)"
| "trylock_items t taken ((p, l) # items) w =
     sys_bind (em_trylock t l w) (\<lambda>(status, w').
       if status \<noteq> EM_SUCC then sys_bind (lock_items t taken w') (\<lambda>w''. Returns (status, w''))
       else trylock_items t ((p, l) # taken) items w')"

definition grp_lock_tryacquire :: "tid \<Rightarrow> grp_state \<Rightarrow> (emlib_ret_t \<times> grp_state) sys" where
  "grp_lock_tryacquire t s =
     sys_bind (trylock_items t [] (g_lock_list (gs_grp s)) (gs_mutexes s)) (\<lambda>(status, w).
       Returns (status, s\<lparr>gs_mutexes := w,
         gs_grp := (if status \<noteq> EM_SUCC then gs_grp s
                    else snd (grp_lock_add_ref (grp_lock_set_owner_thread t (gs_grp s))))\<rparr>))"

fun unlock_times :: "tid \<Rightarrow> nat \<Rightarrow> nat \<Rightarrow> mutexes \<Rightarrow> mutexes sys" where
  "unlock_times t 0 l w = Returns w"
| "unlock_times t (Suc n) l w = sys_bind (em_unlock t l w) (\<lambda>(_, w'). unlock_times t n l w')"

fun lock_times :: "tid \<Rightarrow> nat \<Rightarrow> nat \<Rightarrow> mutexes \<Rightarrow> mutexes sys" where
  "lock_times t 0 l w = Returns w"
| "lock_times t (Suc n) l w = sys_bind (em_lock t l w) (\<lambda>(_, w'). lock_times t n l w')"

fun unlock_chained :: "tid \<Rightarrow> nat \<Rightarrow> nat \<Rightarrow> grp_lock_item list \<Rightarrow> mutexes \<Rightarrow> mutexes sys" where
  "unlock_chained t own n [] w = Returns w"
| "unlock_chained t own n ((_, l) # items) w =
     sys_bind (if l \<noteq> own then unlock_times t n l w else Returns w) (unlock_chained t own n items)"

definition grp_lock_destroy :: "tid \<Rightarrow> grp_state \<Rightarrow> (emlib_ret_t \<times> grp_state) sys" where
  "grp_lock_destroy t s =
     (let g = gs_grp s in
      if \<not> g_pool g then Returns (EM_EINVAL, s)
      else sys_bind (unlock_chained t (g_own_lock g) (nat (g_owner_cnt g)) (g_lock_list g) (gs_mutexes s)) (\<lambda>w1.
           sys_bind (em_lock_destroy t (g_own_lock g) w1) (\<lambda>w2.
           sys_bind (em_atomic_destroy t (g_ref_cnt g)) (\<lambda>(_, ref).
             Returns (EM_SUCC, s\<lparr>gs_mutexes := w2, gs_grp := g\<lparr>g_ref_cnt := ref, g_pool := False\<rparr>,
               gs_called := gs_called s @ g_destroy_list g\<rparr>)))))"

text \<open>The count is put into an \<open>int\<close> before it is compared: its lower 32 bits decide.\<close>

definition grp_lock_dec_ref :: "tid \<Rightarrow> grp_state \<Rightarrow> (emlib_ret_t \<times> grp_state) sys" where
  "grp_lock_dec_ref t s =
     (case g_ref_cnt (gs_grp s) of
        None \<Rightarrow> Undef
      | Some a \<Rightarrow>
          (let (cnt, a') = em_atomic_dec_and_get a;
               s' = s\<lparr>gs_grp := (gs_grp s)\<lparr>g_ref_cnt := Some a'\<rparr>\<rparr>
           in if (ucast cnt :: 32 word) = 0 then sys_bind (grp_lock_destroy t s') (\<lambda>(_, s''). Returns (EM_EGONE, s''))
              else Returns (EM_SUCC, s')))"

definition grp_lock_release :: "tid \<Rightarrow> grp_state \<Rightarrow> (emlib_ret_t \<times> grp_state) sys" where
  "grp_lock_release t s =
     (let s1 = s\<lparr>gs_grp := grp_lock_unset_owner_thread (gs_grp s)\<rparr>
      in sys_bind (lock_items t (rev (g_lock_list (gs_grp s1))) (gs_mutexes s1)) (\<lambda>w.
           grp_lock_dec_ref t (s1\<lparr>gs_mutexes := w\<rparr>)))"

definition add_handler :: "nat \<Rightarrow> nat \<Rightarrow> grp_state \<Rightarrow> grp_state" where
  "add_handler component handler s =
     s\<lparr>gs_grp := (gs_grp s)\<lparr>g_destroy_list := g_destroy_list (gs_grp s) @ [(component, handler)]\<rparr>\<rparr>"

definition grp_lock_add_handler ::
  "tid \<Rightarrow> nat \<Rightarrow> nat \<Rightarrow> bool \<Rightarrow> grp_state \<Rightarrow> (emlib_ret_t \<times> grp_state) sys" where
  "grp_lock_add_handler t component handler acquire_lock s =
     (if acquire_lock
      then sys_bind (grp_lock_acquire t s) (\<lambda>(_, s1).
           sys_bind (grp_lock_release t (add_handler component handler s1)) (\<lambda>(_, s2). Returns (EM_SUCC, s2)))
      else Returns (EM_SUCC, add_handler component handler s))"

text \<open>
  Creation: whether the group's own pool was created, and the answers of \<open>em_atomic_create\<close> and
  \<open>em_lock_create_recursive_mutex\<close> in it.  The result is a null pointer or the group.
\<close>

definition em_grp_lock_create ::
  "tid \<Rightarrow> bool \<Rightarrow> emlib_ret_t \<times> em_atomic_t option \<Rightarrow> emlib_ret_t \<times> nat \<times> em_mutex_t \<Rightarrow> grp_state \<Rightarrow>
   (emlib_ret_t \<times> bool \<times> grp_state) sys" where
  "em_grp_lock_create t new_pool atomic own s =
     (if \<not> new_pool then Returns (EM_ENOMEM, False, s)
      else
        let g0 = \<lparr>g_pool = True, g_ref_cnt = None, g_own_lock = 0, g_owner = None, g_owner_cnt = 0,
                  g_lock_list = [], g_destroy_list = []\<rparr>;
            (rc1, a) = atomic
        in if rc1 \<noteq> EM_SUCC
           then sys_bind (grp_lock_destroy t (s\<lparr>gs_grp := g0\<rparr>)) (\<lambda>(_, s'). Returns (rc1, False, s'))
           else
             let g1 = g0\<lparr>g_ref_cnt := a\<rparr>;
                 (rc2, l, m) = own
             in if rc2 \<noteq> EM_SUCC
                then sys_bind (grp_lock_destroy t (s\<lparr>gs_grp := g1\<rparr>)) (\<lambda>(_, s'). Returns (rc2, False, s'))
                else Returns (EM_SUCC, True,
                  s\<lparr>gs_grp := g1\<lparr>g_own_lock := l, g_lock_list := [(0, l)]\<rparr>,
                    gs_mutexes := (gs_mutexes s)(l \<mapsto> m)\<rparr>))"

definition em_grp_lock_create_w_handler ::
  "tid \<Rightarrow> bool \<Rightarrow> emlib_ret_t \<times> em_atomic_t option \<Rightarrow> emlib_ret_t \<times> nat \<times> em_mutex_t \<Rightarrow> nat \<Rightarrow> nat \<Rightarrow>
   grp_state \<Rightarrow> (emlib_ret_t \<times> bool \<times> grp_state) sys" where
  "em_grp_lock_create_w_handler t new_pool atomic own member handler s =
     sys_bind (em_grp_lock_create t new_pool atomic own s) (\<lambda>(status, made, s').
       if status = EM_SUCC
       then sys_bind (grp_lock_add_handler t member handler False s') (\<lambda>(_, s''). Returns (status, made, s''))
       else Returns (status, made, s'))"

definition em_grp_lock_add_handler :: "tid \<Rightarrow> nat \<Rightarrow> nat \<Rightarrow> grp_state \<Rightarrow> (emlib_ret_t \<times> grp_state) sys" where
  "em_grp_lock_add_handler t component handler s = grp_lock_add_handler t component handler True s"

text \<open>The first handler that matches is unlinked.\<close>

definition em_grp_lock_del_handler :: "tid \<Rightarrow> nat \<Rightarrow> nat \<Rightarrow> grp_state \<Rightarrow> (emlib_ret_t \<times> grp_state) sys" where
  "em_grp_lock_del_handler t component handler s =
     sys_bind (grp_lock_acquire t s) (\<lambda>(_, s1).
     sys_bind (grp_lock_release t (s1\<lparr>gs_grp := (gs_grp s1)\<lparr>
         g_destroy_list := remove1 (component, handler) (g_destroy_list (gs_grp s1))\<rparr>\<rparr>)) (\<lambda>(_, s2).
       Returns (EM_SUCC, s2)))"

text \<open>The old group is the one in the state; the new one is returned with the handlers it was given.\<close>

definition em_grp_lock_replace ::
  "tid \<Rightarrow> em_grp_lock_t \<Rightarrow> grp_state \<Rightarrow> (emlib_ret_t \<times> em_grp_lock_t \<times> grp_state) sys" where
  "em_grp_lock_replace t new_lock s =
     sys_bind (grp_lock_destroy t (s\<lparr>gs_grp := (gs_grp s)\<lparr>g_destroy_list := []\<rparr>\<rparr>)) (\<lambda>(_, s').
       Returns (EM_SUCC,
         new_lock\<lparr>g_destroy_list := g_destroy_list new_lock @ g_destroy_list (gs_grp s)\<rparr>, s'))"

text \<open>The new item goes before the first one whose priority is not smaller.\<close>

fun chain_insert :: "int \<Rightarrow> nat \<Rightarrow> grp_lock_item list \<Rightarrow> grp_lock_item list" where
  "chain_insert pos l [] = [(pos, l)]"
| "chain_insert pos l ((p, k) # items) =
     (if p \<ge> pos then (pos, l) # (p, k) # items else (p, k) # chain_insert pos l items)"

definition em_grp_lock_chain_lock :: "tid \<Rightarrow> nat \<Rightarrow> int \<Rightarrow> grp_state \<Rightarrow> (emlib_ret_t \<times> grp_state) sys" where
  "em_grp_lock_chain_lock t l pos s =
     sys_bind (grp_lock_acquire t s) (\<lambda>(_, s1).
     sys_bind (lock_times t (nat (g_owner_cnt (gs_grp s1))) l (gs_mutexes s1)) (\<lambda>w.
     sys_bind (grp_lock_release t (s1\<lparr>gs_mutexes := w,
         gs_grp := (gs_grp s1)\<lparr>g_lock_list := chain_insert pos l (g_lock_list (gs_grp s1))\<rparr>\<rparr>)) (\<lambda>(_, s2).
       Returns (EM_SUCC, s2))))"

fun remove_lock :: "nat \<Rightarrow> grp_lock_item list \<Rightarrow> grp_lock_item list" where
  "remove_lock l [] = []"
| "remove_lock l ((p, k) # items) = (if k = l then items else (p, k) # remove_lock l items)"

definition em_grp_lock_unchain_lock :: "tid \<Rightarrow> nat \<Rightarrow> grp_state \<Rightarrow> (emlib_ret_t \<times> grp_state) sys" where
  "em_grp_lock_unchain_lock t l s =
     sys_bind (grp_lock_acquire t s) (\<lambda>(_, s1).
     sys_bind (if l \<in> snd ` set (g_lock_list (gs_grp s1))
               then unlock_times t (nat (g_owner_cnt (gs_grp s1))) l (gs_mutexes s1)
               else Returns (gs_mutexes s1)) (\<lambda>w.
     sys_bind (grp_lock_release t (s1\<lparr>gs_mutexes := w,
         gs_grp := (gs_grp s1)\<lparr>g_lock_list := remove_lock l (g_lock_list (gs_grp s1))\<rparr>\<rparr>)) (\<lambda>(_, s2).
       Returns (EM_SUCC, s2))))"

definition em_grp_lock_get_ref :: "em_grp_lock_t \<Rightarrow> 32 word option" where
  "em_grp_lock_get_ref g = map_option (\<lambda>a. ucast (em_atomic_get a)) (g_ref_cnt g)"

section \<open>Locking a list of recursive locks\<close>

text \<open>A lock the thread can take without waiting: recursive, and free or its own.\<close>

definition takeable :: "tid \<Rightarrow> mutexes \<Rightarrow> nat \<Rightarrow> bool" where
  "takeable t w l \<longleftrightarrow> l \<noteq> 0 \<and> (\<exists>m. w l = Some m \<and> pm_recursive (m_mutex m) \<and>
     (pm_owner (m_mutex m) = None \<and> pm_level (m_mutex m) = 0 \<or> pm_owner (m_mutex m) = Some t))"

text \<open>A lock held by \<open>t\<close> once more.\<close>

definition once_more :: "tid \<Rightarrow> em_mutex_t \<Rightarrow> em_mutex_t" where
  "once_more t m = m\<lparr>m_mutex := (m_mutex m)\<lparr>pm_owner := Some t, pm_level := pm_level (m_mutex m) + 1\<rparr>\<rparr>"

definition all_once_more :: "tid \<Rightarrow> nat set \<Rightarrow> mutexes \<Rightarrow> mutexes" where
  "all_once_more t L w = (\<lambda>l. if l \<in> L then map_option (once_more t) (w l) else w l)"

lemma em_lock_takeable:
  assumes "takeable t w l"
  shows "em_lock t l w = Returns (EM_SUCC, all_once_more t {l} w)"
proof -
  obtain m where m: "l \<noteq> 0" "w l = Some m" "pm_recursive (m_mutex m)"
      "pm_owner (m_mutex m) = None \<and> pm_level (m_mutex m) = 0 \<or> pm_owner (m_mutex m) = Some t"
    using assms by (auto simp: takeable_def)
  then have "pthread_mutex_lock t (m_mutex m) = Returns (0, m_mutex (once_more t m))"
    by (auto simp: pthread_mutex_lock_def once_more_def)
  moreover have "w(l \<mapsto> once_more t m) = all_once_more t {l} w" using m by (auto simp: all_once_more_def)
  ultimately show ?thesis
    using m by (simp add: em_lock_def on_lock_def em_mutex_lock_def on_mutex_def os_status_def)
      (simp add: once_more_def)
qed

lemma takeable_once_more:
  "takeable t w l \<Longrightarrow> takeable t (all_once_more t L w) l"
  by (auto simp: takeable_def all_once_more_def once_more_def)

lemma all_once_more_insert:
  "l \<notin> L \<Longrightarrow> all_once_more t L (all_once_more t {l} w) = all_once_more t (insert l L) w"
  by (auto simp: all_once_more_def)

lemma lock_items_takeable:
  "distinct (map snd items) \<Longrightarrow> \<forall>l\<in>snd ` set items. takeable t w l \<Longrightarrow>
     lock_items t items w = Returns (all_once_more t (snd ` set items) w)"
proof (induction items arbitrary: w)
  case Nil
  then show ?case by (simp add: all_once_more_def)
next
  case (Cons i items)
  obtain p l where i: "i = (p, l)" by force
  have "lock_items t items (all_once_more t {l} w) =
      Returns (all_once_more t (snd ` set items) (all_once_more t {l} w))"
    using Cons.prems by (intro Cons.IH) (auto intro: takeable_once_more)
  then show ?case
    using Cons.prems i em_lock_takeable [of t w l] all_once_more_insert [of l "snd ` set items"] by force
qed

text \<open>A lock held by another thread blocks.\<close>

lemma em_lock_blocked:
  assumes "l \<noteq> 0" "w l = Some m" "pm_owner (m_mutex m) = Some t" "u \<noteq> t"
  shows "em_lock u l w = Blocks"
  using assms by (simp add: em_lock_def on_lock_def em_mutex_lock_def on_mutex_def pthread_mutex_lock_def)

section \<open>Group locks at work\<close>

definition grp_ids :: "grp_state \<Rightarrow> nat set" where
  "grp_ids s = snd ` set (g_lock_list (gs_grp s))"

text \<open>A group that thread \<open>t\<close> can acquire at once: all of its locks are recursive, and free or \<open>t\<close>'s.\<close>

definition grp_ready :: "tid \<Rightarrow> grp_state \<Rightarrow> bool" where
  "grp_ready t s \<longleftrightarrow> g_ref_cnt (gs_grp s) \<noteq> None \<and> distinct (map snd (g_lock_list (gs_grp s))) \<and>
     (\<forall>l\<in>grp_ids s. takeable t (gs_mutexes s) l) \<and>
     (g_owner (gs_grp s) = None \<and> g_owner_cnt (gs_grp s) = 0 \<or>
      g_owner (gs_grp s) = Some t \<and> 1 \<le> g_owner_cnt (gs_grp s))"

lemma acquire_ready:
  assumes "grp_ready t s"
  shows "grp_lock_acquire t s = Returns (EM_SUCC, s\<lparr>gs_mutexes := all_once_more t (grp_ids s) (gs_mutexes s),
    gs_grp := snd (grp_lock_add_ref (grp_lock_set_owner_thread t (gs_grp s)))\<rparr>)"
  using assms lock_items_takeable [of "g_lock_list (gs_grp s)" t "gs_mutexes s"]
  by (simp add: grp_lock_acquire_def grp_ready_def grp_ids_def)

lemma set_unset_owner:
  assumes "grp_ready t s"
  shows "grp_lock_unset_owner_thread (snd (grp_lock_add_ref (grp_lock_set_owner_thread t (gs_grp s)))) =
      (gs_grp s)\<lparr>g_ref_cnt := em_atomic_inc (g_ref_cnt (gs_grp s))\<rparr>"
    "1 \<le> g_owner_cnt (snd (grp_lock_add_ref (grp_lock_set_owner_thread t (gs_grp s))))"
    "g_lock_list (snd (grp_lock_add_ref (grp_lock_set_owner_thread t (gs_grp s)))) = g_lock_list (gs_grp s)"
  using assms
  by (cases "gs_grp s"; auto simp: grp_ready_def grp_lock_unset_owner_thread_def grp_lock_add_ref_def
      grp_lock_set_owner_thread_def Let_def)+

text \<open>Releasing locks everything once more, and leaves the rest as it was before the acquire.\<close>

lemma acquire_release:
  assumes r: "grp_ready t s" and a: "g_ref_cnt (gs_grp s) = Some a" "ucast (a_value a) \<noteq> (0 :: 32 word)"
  defines "L \<equiv> grp_ids s"
  shows "\<exists>s1. grp_lock_acquire t s = Returns (EM_SUCC, s1) \<and>
    grp_lock_release t s1 = Returns (EM_SUCC,
      s\<lparr>gs_mutexes := all_once_more t L (all_once_more t L (gs_mutexes s))\<rparr>)"
proof -
  let ?g = "snd (grp_lock_add_ref (grp_lock_set_owner_thread t (gs_grp s)))"
  let ?w = "all_once_more t L (gs_mutexes s)"
  let ?s1 = "s\<lparr>gs_mutexes := ?w, gs_grp := ?g\<rparr>"
  have u: "grp_lock_unset_owner_thread ?g = (gs_grp s)\<lparr>g_ref_cnt := em_atomic_inc (g_ref_cnt (gs_grp s))\<rparr>"
    by (rule set_unset_owner(1) [OF r])
  have "lock_items t (rev (g_lock_list (gs_grp s))) ?w = Returns (all_once_more t L ?w)"
    using r lock_items_takeable [of "rev (g_lock_list (gs_grp s))" t ?w]
    by (auto simp: grp_ready_def L_def grp_ids_def rev_map [symmetric] intro: takeable_once_more)
  then have "grp_lock_release t ?s1 = Returns (EM_SUCC, s\<lparr>gs_mutexes := all_once_more t L ?w\<rparr>)"
    using a by (simp add: grp_lock_release_def u grp_lock_dec_ref_def em_atomic_inc_def em_atomic_inc_and_get_def
        em_atomic_dec_and_get_def Let_def)
  then show ?thesis using acquire_ready [OF r] unfolding L_def by blast
qed

lemma acquire_blocked:
  assumes "g_lock_list (gs_grp s) = (p, l) # items" "l \<noteq> 0" "gs_mutexes s l = Some m"
    "pm_owner (m_mutex m) = Some t" "u \<noteq> t"
  shows "grp_lock_acquire u s = Blocks"
  using assms em_lock_blocked [of l "gs_mutexes s" m t u] by (simp add: grp_lock_acquire_def)

lemma relocks:
  assumes r: "grp_ready t s" and a: "g_ref_cnt (gs_grp s) = Some a" "ucast (a_value a) \<noteq> (0 :: 32 word)"
    and ne: "g_lock_list (gs_grp s) \<noteq> []"
  shows "\<exists>s1 s2. grp_lock_acquire t s = Returns (EM_SUCC, s1) \<and> grp_lock_release t s1 = Returns (EM_SUCC, s2) \<and>
    gs_grp s2 = gs_grp s \<and>
    (\<forall>l\<in>grp_ids s. \<exists>m m2. gs_mutexes s l = Some m \<and> gs_mutexes s2 l = Some m2 \<and>
       pm_owner (m_mutex m2) = Some t \<and> pm_level (m_mutex m2) = pm_level (m_mutex m) + 2) \<and>
    (\<forall>u. u \<noteq> t \<longrightarrow> grp_lock_acquire u s2 = Blocks)"
proof -
  let ?L = "grp_ids s"
  let ?s2 = "s\<lparr>gs_mutexes := all_once_more t ?L (all_once_more t ?L (gs_mutexes s))\<rparr>"
  obtain s1 where s1: "grp_lock_acquire t s = Returns (EM_SUCC, s1)" "grp_lock_release t s1 = Returns (EM_SUCC, ?s2)"
    using acquire_release [OF r a] by blast
  have lv: "\<exists>m m2. gs_mutexes s l = Some m \<and> gs_mutexes ?s2 l = Some m2 \<and>
      pm_owner (m_mutex m2) = Some t \<and> pm_level (m_mutex m2) = pm_level (m_mutex m) + 2" if "l \<in> ?L" for l
    using r that by (auto simp: grp_ready_def takeable_def all_once_more_def once_more_def)
  obtain p l items where g: "g_lock_list (gs_grp s) = (p, l) # items" using ne by (cases "g_lock_list (gs_grp s)") auto
  then have l: "l \<in> ?L" by (simp add: grp_ids_def)
  then have "l \<noteq> 0" using r by (simp add: grp_ready_def takeable_def)
  then have "\<forall>u. u \<noteq> t \<longrightarrow> grp_lock_acquire u ?s2 = Blocks"
    using acquire_blocked [of ?s2 p l items] lv [OF l] g by auto
  then show ?thesis using s1 lv by (intro exI [of _ s1] exI [of _ ?s2]) simp
qed

text \<open>The end of a group that nobody owns.\<close>

lemma destroy_retry_returns:
  "pm_recursive m \<Longrightarrow> \<exists>r m'. destroy_retry t n st m = Returns (r, m')"
proof (induction n arbitrary: m st)
  case (Suc n)
  have "\<exists>r m'. pthread_mutex_unlock t m = Returns (r, m') \<and> pm_recursive m'"
    using Suc.prems by (simp add: pthread_mutex_unlock_def)
  then obtain r m' where "pthread_mutex_unlock t m = Returns (r, m')" "pm_recursive m'" by blast
  then show ?case using Suc.IH [of m'] Suc.IH [OF Suc.prems] by (simp add: Let_def)
qed simp

lemma unlock_chained_none: "unlock_chained t own 0 items w = Returns w"
  by (induction items) auto

definition grp_idle :: "grp_state \<Rightarrow> bool" where
  "grp_idle s \<longleftrightarrow> g_pool (gs_grp s) \<and> g_owner_cnt (gs_grp s) \<le> 0 \<and>
     (\<exists>m. gs_mutexes s (g_own_lock (gs_grp s)) = Some m \<and> pm_recursive (m_mutex m)) \<and>
     (\<exists>a. g_ref_cnt (gs_grp s) = Some a \<and> (\<exists>am. a_mutex a = Some am \<and> pm_recursive (m_mutex am) = False \<and>
        pm_owner (m_mutex am) = None))"

lemma destroy_idle:
  assumes "grp_idle s"
  shows "\<exists>s'. grp_lock_destroy t s = Returns (EM_SUCC, s') \<and> gs_called s' = gs_called s @ g_destroy_list (gs_grp s) \<and>
    \<not> g_pool (gs_grp s')"
proof -
  obtain m a am where i: "gs_mutexes s (g_own_lock (gs_grp s)) = Some m" "pm_recursive (m_mutex m)"
      "g_ref_cnt (gs_grp s) = Some a" "a_mutex a = Some am" "pm_owner (m_mutex am) = None"
      "g_pool (gs_grp s)" "g_owner_cnt (gs_grp s) \<le> 0"
    using assms by (auto simp: grp_idle_def)
  obtain r m' where "destroy_retry t MUTEX_RETRY 0 (m_mutex m) = Returns (r, m')"
    using destroy_retry_returns [OF i(2)] by blast
  then have "\<exists>w. em_lock_destroy t (g_own_lock (gs_grp s)) (gs_mutexes s) = Returns w"
    using i(1) by (simp add: em_lock_destroy_def on_lock_def em_mutex_destroy_def)
  then obtain w where w: "em_lock_destroy t (g_own_lock (gs_grp s)) (gs_mutexes s) = Returns w" by blast
  have "destroy_retry t MUTEX_RETRY 0 (m_mutex am) = Returns (0, m_mutex am)"
    using i(5) by (simp add: MUTEX_RETRY_def numeral_eq_Suc pthread_mutex_destroy_def Let_def)
  then obtain ref where "em_atomic_destroy t (g_ref_cnt (gs_grp s)) = Returns (EM_SUCC, ref)"
    using i(3,4) by (simp add: em_atomic_destroy_def em_mutex_destroy_def os_status_def)
  then show ?thesis using i w by (simp add: grp_lock_destroy_def unlock_chained_none Let_def)
qed

lemma last_reference:
  assumes idle: "grp_idle s" and a: "g_ref_cnt (gs_grp s) = Some a" "a_value a = 1"
  shows "\<exists>s'. grp_lock_dec_ref t s = Returns (EM_EGONE, s') \<and>
    gs_called s' = gs_called s @ g_destroy_list (gs_grp s) \<and> grp_lock_destroy t s' = Returns (EM_EINVAL, s')"
proof -
  let ?s = "s\<lparr>gs_grp := (gs_grp s)\<lparr>g_ref_cnt := Some (a\<lparr>a_value := 0\<rparr>)\<rparr>\<rparr>"
  have "grp_idle ?s" using idle a by (auto simp: grp_idle_def)
  from destroy_idle [OF this, of t] obtain s' where s': "grp_lock_destroy t ?s = Returns (EM_SUCC, s')"
      "gs_called s' = gs_called s @ g_destroy_list (gs_grp s)" "\<not> g_pool (gs_grp s')" by auto
  then show ?thesis
    using a by (intro exI [of _ s'])
      (simp add: grp_lock_dec_ref_def em_atomic_dec_and_get_def grp_lock_destroy_def Let_def)
qed

text \<open>Chaining keeps the items in the order of their priorities.\<close>

lemma chain_insert_set: "set (chain_insert pos l items) = insert (pos, l) (set items)"
  by (induction pos l items rule: chain_insert.induct) auto

lemma chain_insert_sorted: "sorted (map fst items) \<Longrightarrow> sorted (map fst (chain_insert pos l items))"
  by (induction pos l items rule: chain_insert.induct) (auto simp: chain_insert_set)

lemma chain_insert_distinct:
  "l \<notin> snd ` set items \<Longrightarrow> distinct (map snd items) \<Longrightarrow> distinct (map snd (chain_insert pos l items))"
  by (induction pos l items rule: chain_insert.induct) (auto simp: chain_insert_set image_iff)

text \<open>
  A list of locks of which one is simple and already the thread's own: locking it deadlocks, whatever the
  place of that lock in the list.
\<close>

lemma lock_items_deadlock:
  "distinct (map snd items) \<Longrightarrow> l \<in> snd ` set items \<Longrightarrow> l \<noteq> 0 \<Longrightarrow> w l = Some m \<Longrightarrow>
     \<not> pm_recursive (m_mutex m) \<Longrightarrow> pm_owner (m_mutex m) = Some t \<Longrightarrow>
     \<forall>k\<in>snd ` set items. k \<noteq> l \<longrightarrow> takeable t w k \<Longrightarrow> lock_items t items w = Blocks"
proof (induction items arbitrary: w)
  case (Cons i items)
  obtain p k where i: "i = (p, k)" by force
  show ?case
  proof (cases "k = l")
    case True
    then show ?thesis
      using Cons.prems i
      by (simp add: em_lock_def on_lock_def em_mutex_lock_def on_mutex_def pthread_mutex_lock_def)
  next
    case False
    then have t: "takeable t w k" using Cons.prems(7) i by simp
    have tk: "\<forall>j\<in>snd ` set items. j \<noteq> l \<longrightarrow> takeable t (all_once_more t {k} w) j"
      using Cons.prems(7) i by (auto intro: takeable_once_more)
    have "all_once_more t {k} w l = Some m" using Cons.prems(4) False by (simp add: all_once_more_def)
    from Cons.IH [OF _ _ Cons.prems(3) this Cons.prems(5,6) tk] Cons.prems(1,2) i False
    have "lock_items t items (all_once_more t {k} w) = Blocks" by auto
    then show ?thesis using em_lock_takeable [OF t] i by simp
  qed
qed simp

lemma chain_simple_deadlock:
  assumes r: "grp_ready t s" and o: "g_owner (gs_grp s) = None" and l: "l \<notin> grp_ids s" "l \<noteq> 0"
    and m: "gs_mutexes s l = Some m" "\<not> pm_recursive (m_mutex m)" "pm_owner (m_mutex m) = None"
  shows "em_grp_lock_chain_lock t l pos s = Blocks"
proof -
  let ?g = "snd (grp_lock_add_ref (grp_lock_set_owner_thread t (gs_grp s)))"
  let ?w = "all_once_more t (grp_ids s) (gs_mutexes s)" and ?items = "chain_insert pos l (g_lock_list (gs_grp s))"
  let ?m = "m\<lparr>m_mutex := (m_mutex m)\<lparr>pm_owner := Some t, pm_level := 1\<rparr>\<rparr>"
  have w: "?w l = Some m" using l(1) m(1) by (simp add: all_once_more_def)
  have cnt: "g_owner_cnt ?g = 1" using o by (simp add: grp_lock_add_ref_def grp_lock_set_owner_thread_def)
  have one: "lock_times t 1 l ?w = Returns (?w(l \<mapsto> ?m))"
    using w l(2) m(3)
    by (simp add: em_lock_def on_lock_def em_mutex_lock_def on_mutex_def pthread_mutex_lock_def)
  have "\<forall>k\<in>snd ` set ?items. k \<noteq> l \<longrightarrow> takeable t (?w(l \<mapsto> ?m)) k"
  proof (intro ballI impI)
    fix k assume k: "k \<in> snd ` set ?items" "k \<noteq> l"
    then have "takeable t (gs_mutexes s) k" using r by (auto simp: grp_ready_def grp_ids_def chain_insert_set)
    from takeable_once_more [OF this, of "grp_ids s"] k(2) show "takeable t (?w(l \<mapsto> ?m)) k"
      by (simp add: takeable_def)
  qed
  then have "lock_items t (rev ?items) (?w(l \<mapsto> ?m)) = Blocks"
    using r l chain_insert_distinct [of l "g_lock_list (gs_grp s)" pos] m(2)
    by (intro lock_items_deadlock [where l = l and m = ?m])
      (auto simp: rev_map [symmetric] grp_ready_def grp_ids_def chain_insert_set)
  then show ?thesis
    using acquire_ready [OF r] set_unset_owner(1,3) [OF r] cnt one
    by (simp add: em_grp_lock_chain_lock_def grp_lock_release_def grp_lock_unset_owner_thread_def Let_def)
qed

section \<open>Properties\<close>

text \<open>A group of one recursive lock, at address 9, with two references.\<close>

definition ex_grp :: grp_state where
  "ex_grp = \<lparr>gs_mutexes = [9 \<mapsto> \<lparr>m_mutex = \<lparr>pm_recursive = True, pm_owner = None, pm_level = 0\<rparr>, m_obj_name = ''g''\<rparr>],
     gs_grp = \<lparr>g_pool = True, g_ref_cnt = Some \<lparr>a_mutex = Some \<lparr>m_mutex = \<lparr>pm_recursive = False, pm_owner = None,
         pm_level = 0\<rparr>, m_obj_name = ''a''\<rparr>, a_value = 1\<rparr>,
       g_own_lock = 9, g_owner = None, g_owner_cnt = 0, g_lock_list = [(0, 9)], g_destroy_list = [(1, 2), (3, 4)]\<rparr>,
     gs_called = []\<rparr>"

text \<open>
  C7. A group lock is never released.  \<open>grp_lock_release\<close> goes through the locks with \<open>em_lock\<close> where it
  has to call \<open>em_unlock\<close>: in a group whose reference count, cut to the 32 bits of an \<open>int\<close>, is not 0,
  after an acquire and its release, both reporting success, the owner and the reference count are as before, but every lock of the group is held by the thread two levels deeper, and
  every other thread that acquires the group blocks.
\<close>
theorem group_release_relocks:
  assumes "grp_ready t s" "g_ref_cnt (gs_grp s) = Some a" "ucast (a_value a) \<noteq> (0 :: 32 word)" "g_lock_list (gs_grp s) \<noteq> []"
  shows "\<exists>s1 s2. grp_lock_acquire t s = Returns (EM_SUCC, s1) \<and> grp_lock_release t s1 = Returns (EM_SUCC, s2) \<and>
    gs_grp s2 = gs_grp s \<and>
    (\<forall>l\<in>grp_ids s. \<exists>m m2. gs_mutexes s l = Some m \<and> gs_mutexes s2 l = Some m2 \<and>
       pm_owner (m_mutex m2) = Some t \<and> pm_level (m_mutex m2) = pm_level (m_mutex m) + 2) \<and>
    (\<forall>u. u \<noteq> t \<longrightarrow> grp_lock_acquire u s2 = Blocks)"
  by (rule relocks [OF assms])

lemma group_release_relocks_witness:
  "\<exists>s1 s2. grp_lock_acquire 1 ex_grp = Returns (EM_SUCC, s1) \<and> grp_lock_release 1 s1 = Returns (EM_SUCC, s2) \<and>
     grp_lock_acquire 2 s2 = Blocks"
proof -
  have "\<exists>s1 s2. grp_lock_acquire 1 ex_grp = Returns (EM_SUCC, s1) \<and> grp_lock_release 1 s1 = Returns (EM_SUCC, s2) \<and>
      gs_grp s2 = gs_grp ex_grp \<and>
      (\<forall>l\<in>grp_ids ex_grp. \<exists>m m2. gs_mutexes ex_grp l = Some m \<and> gs_mutexes s2 l = Some m2 \<and>
         pm_owner (m_mutex m2) = Some 1 \<and> pm_level (m_mutex m2) = pm_level (m_mutex m) + 2) \<and>
      (\<forall>u. u \<noteq> 1 \<longrightarrow> grp_lock_acquire u s2 = Blocks)"
    by (rule group_release_relocks) (auto simp: ex_grp_def grp_ready_def grp_ids_def takeable_def)
  then show ?thesis by (metis numeral_eq_one_iff semiring_norm(85))
qed

text \<open>
  A reference count of \<open>2 ^ 32 + 1\<close> counts as one: giving up a reference then destroys the group although
  \<open>2 ^ 32\<close> are left.
\<close>

lemma ref_count_truncated:
  assumes "grp_idle s" "g_ref_cnt (gs_grp s) = Some a" "a_value a = 0x100000001"
  shows "\<exists>s'. grp_lock_dec_ref t s = Returns (EM_EGONE, s') \<and> \<not> g_pool (gs_grp s')"
proof -
  let ?s = "s\<lparr>gs_grp := (gs_grp s)\<lparr>g_ref_cnt := Some (a\<lparr>a_value := 0x100000000\<rparr>)\<rparr>\<rparr>"
  have "grp_idle ?s" using assms by (auto simp: grp_idle_def)
  from destroy_idle [OF this, of t] obtain s' where "grp_lock_destroy t ?s = Returns (EM_SUCC, s')" "\<not> g_pool (gs_grp s')" by auto
  then show ?thesis using assms(2,3)
    by (intro exI [of _ s']) (simp add: grp_lock_dec_ref_def em_atomic_dec_and_get_def Let_def)
qed

text \<open>
  The last reference: dropping it on a group nobody owns calls every handler once, in the order of
  registration, answers \<open>EM_EGONE\<close>, and marks the group so that destroying it again is refused and calls
  nothing.
\<close>
lemma group_last_reference:
  assumes "grp_idle s" "g_ref_cnt (gs_grp s) = Some a" "a_value a = 1"
  shows "\<exists>s'. grp_lock_dec_ref t s = Returns (EM_EGONE, s') \<and>
    gs_called s' = gs_called s @ g_destroy_list (gs_grp s) \<and> grp_lock_destroy t s' = Returns (EM_EINVAL, s')"
  by (rule last_reference [OF assms])

lemma group_last_reference_witness:
  "\<exists>s'. grp_lock_dec_ref 1 ex_grp = Returns (EM_EGONE, s') \<and> gs_called s' = [(1, 2), (3, 4)]"
proof -
  have "\<exists>s'. grp_lock_dec_ref 1 ex_grp = Returns (EM_EGONE, s') \<and>
      gs_called s' = gs_called ex_grp @ g_destroy_list (gs_grp ex_grp) \<and>
      grp_lock_destroy 1 s' = Returns (EM_EINVAL, s')"
    by (rule group_last_reference [where a = "the (g_ref_cnt (gs_grp ex_grp))"]) (simp_all add: ex_grp_def grp_idle_def)
  then show ?thesis by (auto simp: ex_grp_def)
qed

text \<open>
  Chaining a simple mutex to a group deadlocks the caller, wherever its priority puts it: the release
  at the end of \<open>em_grp_lock_chain_lock\<close> locks again the mutex that the call itself has just locked.
\<close>
lemma group_chain_simple_deadlock:
  assumes "grp_ready t s" "g_owner (gs_grp s) = None" "l \<notin> grp_ids s" "l \<noteq> 0"
    and "gs_mutexes s l = Some m" "\<not> pm_recursive (m_mutex m)" "pm_owner (m_mutex m) = None"
  shows "em_grp_lock_chain_lock t l pos s = Blocks"
  by (rule chain_simple_deadlock [OF assms])

lemma group_chain_simple_deadlock_witness:
  "em_grp_lock_chain_lock 1 5 0 (ex_grp\<lparr>gs_mutexes := (gs_mutexes ex_grp)
     (5 \<mapsto> \<lparr>m_mutex = \<lparr>pm_recursive = False, pm_owner = None, pm_level = 0\<rparr>, m_obj_name = ''s''\<rparr>)\<rparr>) = Blocks"
  by (rule group_chain_simple_deadlock) (auto simp: ex_grp_def grp_ready_def grp_ids_def takeable_def)

end
