(* ===== verification/Emlib_Time.thy ===== *)
theory Emlib_Time
  imports Emlib_Errno
begin

text \<open>
  Time values and time stamps: \<open>em_time_val\<close> and its macros (\<open>include/em/types.h\<close>),
  \<open>src/os_time_common.c\<close>, \<open>src/os_timestamp_common.c\<close>, \<open>src/os_timestamp_posix.c\<close>,
  \<open>src/os_time_unix.c\<close> and the inline functions of \<open>include/em/os.h\<close>.  Seconds and milliseconds of a
  time value are integers (the C \<open>long\<close> of 64 bits is never close to its bounds); time stamps are
  64-bit words and the high-precision arithmetic is that of a signed 64-bit register, \<^const>\<open>s64\<close>.
\<close>

section \<open>Time values\<close>

record em_time_val =
  tv_sec :: int
  tv_msec :: int

definition EM_TIME_VAL_MSEC :: "em_time_val \<Rightarrow> int" where
  "EM_TIME_VAL_MSEC t = tv_sec t * 1000 + tv_msec t"

definition EM_TIME_VAL_EQ :: "em_time_val \<Rightarrow> em_time_val \<Rightarrow> bool" where
  "EM_TIME_VAL_EQ t1 t2 \<longleftrightarrow> tv_sec t1 = tv_sec t2 \<and> tv_msec t1 = tv_msec t2"

definition EM_TIME_VAL_GT :: "em_time_val \<Rightarrow> em_time_val \<Rightarrow> bool" where
  "EM_TIME_VAL_GT t1 t2 \<longleftrightarrow> tv_sec t1 > tv_sec t2 \<or> tv_sec t1 = tv_sec t2 \<and> tv_msec t1 > tv_msec t2"

definition EM_TIME_VAL_GTE :: "em_time_val \<Rightarrow> em_time_val \<Rightarrow> bool" where
  "EM_TIME_VAL_GTE t1 t2 \<longleftrightarrow> EM_TIME_VAL_GT t1 t2 \<or> EM_TIME_VAL_EQ t1 t2"

definition EM_TIME_VAL_LT :: "em_time_val \<Rightarrow> em_time_val \<Rightarrow> bool" where
  "EM_TIME_VAL_LT t1 t2 \<longleftrightarrow> \<not> EM_TIME_VAL_GTE t1 t2"

definition EM_TIME_VAL_LTE :: "em_time_val \<Rightarrow> em_time_val \<Rightarrow> bool" where
  "EM_TIME_VAL_LTE t1 t2 \<longleftrightarrow> \<not> EM_TIME_VAL_GT t1 t2"

text \<open>The \<open>do ... while\<close> loop of \<open>em_time_val_normalize\<close>; it is entered with \<open>msec \<le> -1000\<close> only.\<close>

function borrow_loop :: "int \<Rightarrow> int \<Rightarrow> int \<times> int" where
  "borrow_loop sec msec =
     (let sec' = sec - 1; msec' = msec + 1000
      in if msec' \<le> - 1000 then borrow_loop sec' msec' else (sec', msec'))"
  by pat_completeness auto
termination
  by (relation "measure (\<lambda>(s, m). nat (- m))") auto

declare borrow_loop.simps [simp del]

definition em_time_val_normalize :: "em_time_val \<Rightarrow> em_time_val" where
  "em_time_val_normalize t =
     (let (sec, msec) =
            (if tv_msec t \<ge> 1000
             then (tv_sec t + c_div (tv_msec t) 1000, c_mod (tv_msec t) 1000)
             else if tv_msec t \<le> - 1000 then borrow_loop (tv_sec t) (tv_msec t)
             else (tv_sec t, tv_msec t));
          (sec, msec) =
            (if sec \<ge> 1 \<and> msec < 0 then (sec - 1, msec + 1000)
             else if sec < 0 \<and> msec > 0 then (sec + 1, msec - 1000)
             else (sec, msec))
      in \<lparr>tv_sec = sec, tv_msec = msec\<rparr>)"

definition EM_TIME_VAL_ADD :: "em_time_val \<Rightarrow> em_time_val \<Rightarrow> em_time_val" where
  "EM_TIME_VAL_ADD t1 t2 =
     em_time_val_normalize \<lparr>tv_sec = tv_sec t1 + tv_sec t2, tv_msec = tv_msec t1 + tv_msec t2\<rparr>"

definition EM_TIME_VAL_SET :: "em_time_val \<Rightarrow> em_time_val" where
  "EM_TIME_VAL_SET t2 = em_time_val_normalize \<lparr>tv_sec = tv_sec t2, tv_msec = tv_msec t2\<rparr>"

definition EM_TIME_VAL_SUB :: "em_time_val \<Rightarrow> em_time_val \<Rightarrow> em_time_val" where
  "EM_TIME_VAL_SUB t1 t2 =
     em_time_val_normalize \<lparr>tv_sec = tv_sec t1 - tv_sec t2, tv_msec = tv_msec t1 - tv_msec t2\<rparr>"

section \<open>Calendar time\<close>

text \<open>The C library's \<open>struct tm\<close>, its \<open>localtime\<close> and \<open>mktime\<close> (parameters).\<close>

record tm =
  tm_year :: int
  tm_mon :: int
  tm_mday :: int
  tm_hour :: int
  tm_min :: int
  tm_sec :: int
  tm_wday :: int
  tm_isdst :: int

record em_parsed_time =
  pt_wday :: int
  pt_day :: int
  pt_mon :: int
  pt_year :: int
  pt_hour :: int
  pt_min :: int
  pt_sec :: int
  pt_msec :: int

definition em_time_decode :: "(int \<Rightarrow> tm) \<Rightarrow> em_time_val \<Rightarrow> emlib_ret_t \<times> em_parsed_time" where
  "em_time_decode localtime tv =
     (let t = localtime (tv_sec tv)
      in (EM_SUCC, \<lparr>pt_wday = tm_wday t, pt_day = tm_mday t, pt_mon = tm_mon t, pt_year = tm_year t + 1900,
                    pt_hour = tm_hour t, pt_min = tm_min t, pt_sec = tm_sec t, pt_msec = tv_msec tv\<rparr>))"

text \<open>\<open>tm_wday\<close> is not set by the code; \<open>mktime\<close> ignores it.\<close>

definition em_time_encode :: "(tm \<Rightarrow> int) \<Rightarrow> em_parsed_time \<Rightarrow> emlib_ret_t \<times> em_time_val" where
  "em_time_encode mktime pt =
     (let t = \<lparr>tm_year = pt_year pt - 1900, tm_mon = pt_mon pt, tm_mday = pt_day pt, tm_hour = pt_hour pt,
               tm_min = pt_min pt, tm_sec = pt_sec pt, tm_wday = 0, tm_isdst = 0\<rparr>
      in (EM_SUCC, \<lparr>tv_sec = mktime t, tv_msec = pt_msec pt\<rparr>))"

definition em_time_local_to_gmt :: "em_time_val \<Rightarrow> emlib_ret_t" where
  "em_time_local_to_gmt tv = EM_EBUG"

definition em_time_gmt_to_local :: "em_time_val \<Rightarrow> emlib_ret_t" where
  "em_time_gmt_to_local tv = EM_EBUG"

section \<open>Time stamps\<close>

type_synonym em_timestamp = uint64

definition ts_lo :: "em_timestamp \<Rightarrow> uint32" where "ts_lo t = ucast t"
definition ts_hi :: "em_timestamp \<Rightarrow> uint32" where "ts_hi t = ucast (drop_bit 32 t)"

definition em_set_timestamp32 :: "uint32 \<Rightarrow> uint32 \<Rightarrow> em_timestamp" where
  "em_set_timestamp32 hi lo = push_bit 32 (ucast hi) + ucast lo"

definition em_cmp_timestamp :: "em_timestamp \<Rightarrow> em_timestamp \<Rightarrow> int" where
  "em_cmp_timestamp t1 t2 = (if t1 < t2 then - 1 else if t1 > t2 then 1 else 0)"

definition em_add_timestamp :: "em_timestamp \<Rightarrow> em_timestamp \<Rightarrow> em_timestamp" where
  "em_add_timestamp t1 t2 = t1 + t2"

definition em_add_timestamp32 :: "em_timestamp \<Rightarrow> uint32 \<Rightarrow> em_timestamp" where
  "em_add_timestamp32 t1 t2 = t1 + ucast t2"

definition em_sub_timestamp :: "em_timestamp \<Rightarrow> em_timestamp \<Rightarrow> em_timestamp" where
  "em_sub_timestamp t1 t2 = t1 - t2"

definition em_sub_timestamp32 :: "em_timestamp \<Rightarrow> uint32 \<Rightarrow> em_timestamp" where
  "em_sub_timestamp32 t1 t2 = t1 - ucast t2"

definition em_timestamp_diff32 :: "em_timestamp \<Rightarrow> em_timestamp \<Rightarrow> int" where
  "em_timestamp_diff32 t1 t2 = sint (ucast (t2 - t1) :: 32 word)"

text \<open>\<open>clock_gettime\<close> is a parameter: an \<open>errno\<close>, or seconds and nanoseconds.\<close>

definition NSEC_PER_SEC :: uint64 where "NSEC_PER_SEC = 1000000000"

definition em_get_timestamp :: "uint32 + int \<times> int \<Rightarrow> emlib_ret_t + em_timestamp" where
  "em_get_timestamp clock =
     (case clock of
        Inl e \<Rightarrow> Inl (EM_RETURN_OS_ERROR e)
      | Inr (sec, nsec) \<Rightarrow> Inr (of_int sec * NSEC_PER_SEC + of_int nsec))"

definition em_get_timestamp_freq :: em_timestamp where
  "em_get_timestamp_freq = em_set_timestamp32 0 (ucast NSEC_PER_SEC)"

text \<open>The clock frequency, with its guard against a division by zero, and the common conversion.\<close>

definition get_elapsed :: "em_timestamp \<Rightarrow> em_timestamp \<Rightarrow> int" where
  "get_elapsed start stop = sint (stop - start)"

definition freq_of :: "em_timestamp \<Rightarrow> int" where
  "freq_of ts = (let f = sint ts in if f = 0 then 1 else f)"

definition elapsed_unit :: "int \<Rightarrow> em_timestamp \<Rightarrow> em_timestamp \<Rightarrow> int" where
  "elapsed_unit unit_per_sec start stop =
     c_div (s64 (get_elapsed start stop * unit_per_sec)) (freq_of em_get_timestamp_freq)"

definition elapsed_msec :: "em_timestamp \<Rightarrow> em_timestamp \<Rightarrow> int" where
  "elapsed_msec start stop = elapsed_unit 1000 start stop"

definition elapsed_usec :: "em_timestamp \<Rightarrow> em_timestamp \<Rightarrow> int" where
  "elapsed_usec start stop = elapsed_unit 1000000 start stop"

definition em_elapsed_nanosec :: "em_timestamp \<Rightarrow> em_timestamp \<Rightarrow> uint32" where
  "em_elapsed_nanosec start stop = of_int (elapsed_unit 1000000000 start stop)"

definition em_elapsed_usec :: "em_timestamp \<Rightarrow> em_timestamp \<Rightarrow> uint32" where
  "em_elapsed_usec start stop = of_int (elapsed_usec start stop)"

definition em_elapsed_msec :: "em_timestamp \<Rightarrow> em_timestamp \<Rightarrow> uint32" where
  "em_elapsed_msec start stop = of_int (elapsed_msec start stop)"

definition em_elapsed_msec64 :: "em_timestamp \<Rightarrow> em_timestamp \<Rightarrow> uint64" where
  "em_elapsed_msec64 start stop = of_int (elapsed_msec start stop)"

definition em_elapsed_time :: "em_timestamp \<Rightarrow> em_timestamp \<Rightarrow> em_time_val" where
  "em_elapsed_time start stop =
     (let elapsed = elapsed_msec start stop
      in if elapsed = 0 then \<lparr>tv_sec = 0, tv_msec = 0\<rparr>
         else \<lparr>tv_sec = c_div elapsed 1000, tv_msec = c_mod elapsed 1000\<rparr>)"

definition em_elapsed_cycle :: "em_timestamp \<Rightarrow> em_timestamp \<Rightarrow> uint32" where
  "em_elapsed_cycle start stop = ts_lo stop - ts_lo start"

definition em_gettickcount :: "uint32 + int \<times> int \<Rightarrow> emlib_ret_t + em_time_val" where
  "em_gettickcount clock =
     (case em_get_timestamp clock of
        Inl e \<Rightarrow> Inl e
      | Inr ts \<Rightarrow> Inr (em_elapsed_time (em_set_timestamp32 0 0) ts))"

section \<open>Wall clock and sleeping\<close>

text \<open>\<open>gettimeofday\<close> and \<open>nanosleep\<close> are parameters.\<close>

definition em_gettimeofday :: "uint32 + int \<times> int \<Rightarrow> emlib_ret_t + em_time_val" where
  "em_gettimeofday tod =
     (case tod of
        Inl e \<Rightarrow> Inl (EM_RETURN_OS_ERROR e)
      | Inr (sec, usec) \<Rightarrow> Inr \<lparr>tv_sec = sec, tv_msec = c_div usec 1000\<rparr>)"

record em_sleep_val =
  sv_sec :: int
  sv_nsec :: int

definition TIME2SV_T :: "uint32 \<Rightarrow> nat \<Rightarrow> nat \<Rightarrow> em_sleep_val" where
  "TIME2SV_T time t2s t2ns =
     (if time > 0
      then \<lparr>sv_sec = int (unat time div t2s), sv_nsec = int ((unat time mod t2s) * t2ns)\<rparr>
      else \<lparr>sv_sec = 0, sv_nsec = 0\<rparr>)"

definition em_sleep_impl :: "(int \<Rightarrow> int \<Rightarrow> uint32 option) \<Rightarrow> em_sleep_val \<Rightarrow> emlib_ret_t" where
  "em_sleep_impl nanosleep sv =
     (if \<not> sv_sec sv \<ge> 0 then EM_EINVAL
      else (case nanosleep (sv_sec sv) (sv_nsec sv) of
              Some e \<Rightarrow> EM_RETURN_OS_ERROR e
            | None \<Rightarrow> EM_SUCC))"

definition em_sleep :: "(int \<Rightarrow> int \<Rightarrow> uint32 option) \<Rightarrow> uint32 \<Rightarrow> emlib_ret_t" where
  "em_sleep nanosleep sec = em_sleep_impl nanosleep (TIME2SV_T sec 1 1000000000)"

definition em_usleep :: "(int \<Rightarrow> int \<Rightarrow> uint32 option) \<Rightarrow> uint32 \<Rightarrow> emlib_ret_t" where
  "em_usleep nanosleep usec = em_sleep_impl nanosleep (TIME2SV_T usec 1000000 1000)"

definition em_msleep :: "(int \<Rightarrow> int \<Rightarrow> uint32 option) \<Rightarrow> uint32 \<Rightarrow> emlib_ret_t" where
  "em_msleep nanosleep msec = em_sleep_impl nanosleep (TIME2SV_T msec 1000 1000000)"

section \<open>Normal form and order\<close>

definition time_normal :: "em_time_val \<Rightarrow> bool" where
  "time_normal t \<longleftrightarrow> \<bar>tv_msec t\<bar> < 1000 \<and> (tv_sec t > 0 \<longrightarrow> tv_msec t \<ge> 0) \<and> (tv_sec t < 0 \<longrightarrow> tv_msec t \<le> 0)"

lemma borrow_loop_spec:
  "m \<le> - 1000 \<Longrightarrow> fst (borrow_loop s m) * 1000 + snd (borrow_loop s m) = s * 1000 + m \<and>
     - 1000 < snd (borrow_loop s m) \<and> snd (borrow_loop s m) \<le> 0"
proof (induction s m rule: borrow_loop.induct)
  case (1 s m)
  show ?case
  proof (cases "m + 1000 \<le> - 1000")
    case True
    then have e: "borrow_loop s m = borrow_loop (s - 1) (m + 1000)"
      by (subst borrow_loop.simps) (simp add: Let_def)
    show ?thesis unfolding e using 1(1) [OF refl refl True True] by simp
  next
    case False
    then have e: "borrow_loop s m = (s - 1, m + 1000)"
      by (subst borrow_loop.simps) (simp add: Let_def)
    show ?thesis unfolding e using False 1(2) by simp
  qed
qed

definition carry_step :: "em_time_val \<Rightarrow> int \<times> int" where
  "carry_step t =
     (if tv_msec t \<ge> 1000 then (tv_sec t + c_div (tv_msec t) 1000, c_mod (tv_msec t) 1000)
      else if tv_msec t \<le> - 1000 then borrow_loop (tv_sec t) (tv_msec t)
      else (tv_sec t, tv_msec t))"

lemma carry_step_spec:
  "fst (carry_step t) * 1000 + snd (carry_step t) = EM_TIME_VAL_MSEC t \<and> \<bar>snd (carry_step t)\<bar> < 1000"
proof -
  consider "tv_msec t \<ge> 1000" | "tv_msec t \<le> - 1000" | "- 1000 < tv_msec t" "tv_msec t < 1000" by linarith
  then show ?thesis
  proof cases
    case 1
    have "tv_msec t div 1000 * 1000 + tv_msec t mod 1000 = tv_msec t" by (rule div_mult_mod_eq)
    with 1 show ?thesis by (simp add: carry_step_def EM_TIME_VAL_MSEC_def c_div_nonneg c_mod_nonneg)
  next
    case 2
    then show ?thesis
      using borrow_loop_spec [OF 2, of "tv_sec t"] by (auto simp: carry_step_def EM_TIME_VAL_MSEC_def)
  next
    case 3
    then show ?thesis by (simp add: carry_step_def EM_TIME_VAL_MSEC_def)
  qed
qed

lemma normalize_spec:
  "time_normal (em_time_val_normalize t)"
  "EM_TIME_VAL_MSEC (em_time_val_normalize t) = EM_TIME_VAL_MSEC t"
proof -
  obtain s m where sm: "carry_step t = (s, m)" by force
  then have c: "s * 1000 + m = EM_TIME_VAL_MSEC t" "\<bar>m\<bar> < 1000" using carry_step_spec [of t] by auto
  have "em_time_val_normalize t =
      (if s \<ge> 1 \<and> m < 0 then \<lparr>tv_sec = s - 1, tv_msec = m + 1000\<rparr>
       else if s < 0 \<and> m > 0 then \<lparr>tv_sec = s + 1, tv_msec = m - 1000\<rparr> else \<lparr>tv_sec = s, tv_msec = m\<rparr>)"
    unfolding em_time_val_normalize_def carry_step_def [symmetric] sm by simp
  then show "time_normal (em_time_val_normalize t)"
    "EM_TIME_VAL_MSEC (em_time_val_normalize t) = EM_TIME_VAL_MSEC t"
    using c by (auto simp: time_normal_def EM_TIME_VAL_MSEC_def split: if_splits)
qed

lemma trunc_div_unique:
  assumes "\<bar>m\<bar> < 1000" "s > 0 \<longrightarrow> m \<ge> 0" "s < 0 \<longrightarrow> m \<le> (0 :: int)"
  shows "c_div (s * 1000 + m) 1000 = s \<and> c_mod (s * 1000 + m) 1000 = m"
proof -
  have "c_div (s * 1000 + m) 1000 = s"
  proof (cases "s * 1000 + m \<ge> 0")
    case True
    then have "c_div (s * 1000 + m) 1000 = (s * 1000 + m) div 1000" by (simp add: c_div_nonneg)
    also have "0 \<le> m" using assms True by linarith
    then have "(s * 1000 + m) div 1000 = s" using assms(1) by simp
    finally show ?thesis .
  next
    case False
    then have "c_div (s * 1000 + m) 1000 = - ((- (s * 1000 + m)) div 1000)" by (simp add: c_div_def)
    also have "m \<le> 0" using assms False by linarith
    then have "((- s) * 1000 + (- m)) div 1000 = - s" using assms(1) by simp
    then have "- ((- (s * 1000 + m)) div 1000) = s" by simp
    finally show ?thesis .
  qed
  then show ?thesis by (simp add: c_mod_def)
qed

lemma time_normal_trunc:
  assumes "time_normal t"
  shows "t = \<lparr>tv_sec = c_div (EM_TIME_VAL_MSEC t) 1000, tv_msec = c_mod (EM_TIME_VAL_MSEC t) 1000\<rparr>"
  using trunc_div_unique [of "tv_msec t" "tv_sec t"] assms
  by (simp add: time_normal_def EM_TIME_VAL_MSEC_def)

lemma normalize_trunc:
  "em_time_val_normalize t =
     \<lparr>tv_sec = c_div (EM_TIME_VAL_MSEC t) 1000, tv_msec = c_mod (EM_TIME_VAL_MSEC t) 1000\<rparr>"
  using time_normal_trunc [OF normalize_spec(1)] by (simp add: normalize_spec(2))

lemma time_eq_iff:
  assumes "time_normal t1" "time_normal t2"
  shows "EM_TIME_VAL_EQ t1 t2 \<longleftrightarrow> EM_TIME_VAL_MSEC t1 = EM_TIME_VAL_MSEC t2"
proof
  assume eq: "EM_TIME_VAL_MSEC t1 = EM_TIME_VAL_MSEC t2"
  have "t1 = \<lparr>tv_sec = c_div (EM_TIME_VAL_MSEC t1) 1000, tv_msec = c_mod (EM_TIME_VAL_MSEC t1) 1000\<rparr>"
    by (rule time_normal_trunc [OF assms(1)])
  also have "\<dots> = t2" unfolding eq by (rule time_normal_trunc [OF assms(2), symmetric])
  finally show "EM_TIME_VAL_EQ t1 t2" by (simp add: EM_TIME_VAL_EQ_def)
qed (simp add: EM_TIME_VAL_EQ_def EM_TIME_VAL_MSEC_def)

lemma time_gt_iff:
  assumes "time_normal t1" "time_normal t2"
  shows "EM_TIME_VAL_GT t1 t2 \<longleftrightarrow> EM_TIME_VAL_MSEC t1 > EM_TIME_VAL_MSEC t2"
  using assms by (auto simp: EM_TIME_VAL_GT_def EM_TIME_VAL_MSEC_def time_normal_def)

lemma time_compare:
  assumes "time_normal t1" "time_normal t2"
  shows "EM_TIME_VAL_LT t1 t2 \<longleftrightarrow> EM_TIME_VAL_MSEC t1 < EM_TIME_VAL_MSEC t2"
    "EM_TIME_VAL_LTE t1 t2 \<longleftrightarrow> EM_TIME_VAL_MSEC t1 \<le> EM_TIME_VAL_MSEC t2"
    "EM_TIME_VAL_GTE t1 t2 \<longleftrightarrow> EM_TIME_VAL_MSEC t1 \<ge> EM_TIME_VAL_MSEC t2"
  by (auto simp: EM_TIME_VAL_LT_def EM_TIME_VAL_LTE_def EM_TIME_VAL_GTE_def time_eq_iff [OF assms]
      time_gt_iff [OF assms])

lemma time_arith:
  "time_normal (EM_TIME_VAL_ADD a b)" "EM_TIME_VAL_MSEC (EM_TIME_VAL_ADD a b) = EM_TIME_VAL_MSEC a + EM_TIME_VAL_MSEC b"
  "time_normal (EM_TIME_VAL_SUB a b)" "EM_TIME_VAL_MSEC (EM_TIME_VAL_SUB a b) = EM_TIME_VAL_MSEC a - EM_TIME_VAL_MSEC b"
  by (simp_all add: EM_TIME_VAL_ADD_def EM_TIME_VAL_SUB_def normalize_spec)
    (simp_all add: EM_TIME_VAL_MSEC_def algebra_simps)

section \<open>The tick count\<close>

lemma sint_of_int64: "0 \<le> n \<Longrightarrow> n < 2 ^ 63 \<Longrightarrow> sint (of_int n :: uint64) = n"
  by (simp add: signed_of_int signed_take_bit_int_eq_self)

lemma freq_value: "freq_of em_get_timestamp_freq = 1000000000"
  by (simp add: em_get_timestamp_freq_def em_set_timestamp32_def NSEC_PER_SEC_def freq_of_def)

lemma elapsed_unit_exact:
  assumes "0 \<le> n" "n * u < 2 ^ 63" "0 < u"
  shows "elapsed_unit u 0 (of_int n) = n * u div 1000000000"
proof -
  have "n \<le> n * u" using assms mult_left_mono [of 1 u n] by simp
  then have "get_elapsed 0 (of_int n) = n"
    using assms by (simp add: get_elapsed_def sint_of_int64)
  moreover have nu: "0 \<le> n * u" using assms by simp
  then have "s64 (n * u) = n * u" using assms(2) by (intro s64_id) simp_all
  ultimately show ?thesis using nu by (simp add: elapsed_unit_def freq_value c_div_nonneg)
qed

lemma gettickcount_exact:
  assumes "0 \<le> sec" "0 \<le> nsec" "nsec < 1000000000" "(sec * 1000000000 + nsec) * 1000 < 2 ^ 63"
  shows "em_gettickcount (Inr (sec, nsec)) = Inr \<lparr>tv_sec = sec, tv_msec = nsec div 1000000\<rparr>"
proof -
  let ?n = "sec * 1000000000 + nsec"
  have z: "em_set_timestamp32 0 0 = 0" by (simp add: em_set_timestamp32_def)
  have ts: "em_get_timestamp (Inr (sec, nsec)) = Inr (of_int ?n)"
    by (simp add: em_get_timestamp_def NSEC_PER_SEC_def)
  have "elapsed_msec 0 (of_int ?n) = ?n * 1000 div 1000000000"
    unfolding elapsed_msec_def using assms by (intro elapsed_unit_exact) simp_all
  also have "\<dots> = ?n div 1000000"
    using div_mult_mult2 [of 1000 ?n 1000000] by simp
  also have "\<dots> = sec * 1000 + nsec div 1000000"
    using div_mult_self3 [of 1000000 "sec * 1000" nsec] by (simp add: algebra_simps)
  finally have el: "elapsed_msec 0 (of_int ?n) = sec * 1000 + nsec div 1000000" .
  have m: "0 \<le> nsec div 1000000" "nsec div 1000000 < 1000" using assms(2,3) by auto
  then have "em_elapsed_time 0 (of_int ?n) = \<lparr>tv_sec = sec, tv_msec = nsec div 1000000\<rparr>"
    unfolding em_elapsed_time_def el Let_def
    using assms(1) trunc_div_unique [of "nsec div 1000000" sec] by auto
  then show ?thesis unfolding em_gettickcount_def z ts by simp
qed

section \<open>Properties\<close>

text \<open>
  \<open>em_time_val_normalize\<close> is the truncating division of the total: whatever the signs of the fields,
  the result has the seconds and milliseconds that C's \<open>/\<close> and \<open>%\<close> give for the total milliseconds, which
  it preserves.
\<close>
lemma time_normalize_exact:
  "em_time_val_normalize t =
     \<lparr>tv_sec = c_div (EM_TIME_VAL_MSEC t) 1000, tv_msec = c_mod (EM_TIME_VAL_MSEC t) 1000\<rparr> \<and>
   EM_TIME_VAL_MSEC (em_time_val_normalize t) = EM_TIME_VAL_MSEC t"
  using normalize_trunc normalize_spec by blast

text \<open>
  On normalised values the comparison macros order by total milliseconds, and addition and
  subtraction are exact on the totals and give normalised values again.
\<close>
lemma time_compare_exact:
  assumes "time_normal a" "time_normal b"
  shows "(EM_TIME_VAL_LT a b \<longleftrightarrow> EM_TIME_VAL_MSEC a < EM_TIME_VAL_MSEC b) \<and>
    (EM_TIME_VAL_LTE a b \<longleftrightarrow> EM_TIME_VAL_MSEC a \<le> EM_TIME_VAL_MSEC b) \<and>
    (EM_TIME_VAL_EQ a b \<longleftrightarrow> a = b) \<and>
    time_normal (EM_TIME_VAL_SUB a b) \<and>
    EM_TIME_VAL_MSEC (EM_TIME_VAL_SUB (EM_TIME_VAL_ADD a b) b) = EM_TIME_VAL_MSEC a"
  using time_compare [OF assms] time_arith by (cases a; cases b) (auto simp: EM_TIME_VAL_EQ_def)

lemma time_compare_exact_witness:
  "EM_TIME_VAL_LT \<lparr>tv_sec = - 1, tv_msec = - 500\<rparr> \<lparr>tv_sec = 0, tv_msec = - 999\<rparr>"
  using time_compare_exact [of "\<lparr>tv_sec = - 1, tv_msec = - 500\<rparr>" "\<lparr>tv_sec = 0, tv_msec = - 999\<rparr>"]
  by (simp add: time_normal_def EM_TIME_VAL_MSEC_def)

text \<open>
  As long as the clock value in nanoseconds times 1000 fits a signed 64-bit integer, that is for
  the first 106 days of uptime, \<open>em_gettickcount\<close> returns the clock's seconds and milliseconds.
\<close>
lemma time_tick_exact:
  assumes "0 \<le> sec" "0 \<le> nsec" "nsec < 1000000000" "(sec * 1000000000 + nsec) * 1000 < 2 ^ 63"
  shows "em_gettickcount (Inr (sec, nsec)) = Inr \<lparr>tv_sec = sec, tv_msec = nsec div 1000000\<rparr>"
  by (rule gettickcount_exact [OF assms])

lemma time_tick_exact_witness: "em_gettickcount (Inr (86400, 999999)) = Inr \<lparr>tv_sec = 86400, tv_msec = 0\<rparr>"
  using time_tick_exact [of 86400 999999] by simp

text \<open>
  After 107.6 days of uptime the product overflows and the tick count is negative.
\<close>
lemma time_tick_overflow:
  "em_gettickcount (Inr (9300000, 0)) = Inr \<lparr>tv_sec = - 9146744, tv_msec = - 73\<rparr>"
  by (simp add: em_gettickcount_def em_get_timestamp_def NSEC_PER_SEC_def em_set_timestamp32_def
      em_elapsed_time_def elapsed_msec_def elapsed_unit_def freq_value get_elapsed_def s64_def c_div_def
      c_mod_def Let_def)

end
