(* ===== verification/Emlib_Heap.thy ===== *)
theory Emlib_Heap
  imports Emlib_Prelude "HOL-Library.Multiset"
begin

text \<open>
  The array heap that \<open>src/timer.c\<close> keeps, on lists: positions, the heap order, and the two repair
  loops as functions on the list of elements.  The loops move a hole: the element being placed is
  kept aside and written once.  \<open>Emlib_Timer\<close> shows that the code's loops compute these functions.
\<close>

section \<open>Positions and order\<close>

definition HEAP_PARENT :: "nat \<Rightarrow> nat" where
  "HEAP_PARENT x = (if x = 0 then 0 else (x - 1) div 2)"

definition HEAP_LEFT :: "nat \<Rightarrow> nat" where
  "HEAP_LEFT x = (x + x) + 1"

lemma parent_less: "0 < x \<Longrightarrow> HEAP_PARENT x < x"
  by (auto simp: HEAP_PARENT_def)

lemma parent_le: "HEAP_PARENT x \<le> x"
  by (auto simp: HEAP_PARENT_def)

lemma left_greater: "x < HEAP_LEFT x"
  by (simp add: HEAP_LEFT_def)

lemma parent_child: "0 < j \<Longrightarrow> HEAP_PARENT j = i \<longleftrightarrow> j = HEAP_LEFT i \<or> j = HEAP_LEFT i + 1"
  unfolding HEAP_PARENT_def HEAP_LEFT_def by simp presburger

lemma parent_left: "HEAP_PARENT (HEAP_LEFT i) = i" "HEAP_PARENT (Suc (HEAP_LEFT i)) = i"
  by (auto simp: HEAP_PARENT_def HEAP_LEFT_def)

definition heap_order :: "('e \<Rightarrow> 'k::linorder) \<Rightarrow> 'e list \<Rightarrow> bool" where
  "heap_order k xs \<longleftrightarrow> (\<forall>j<length xs. 0 < j \<longrightarrow> k (xs ! HEAP_PARENT j) \<le> k (xs ! j))"

text \<open>The heap order everywhere but at the hole \<open>i\<close>, on the way up and on the way down.\<close>

definition order_above :: "('e \<Rightarrow> 'k::linorder) \<Rightarrow> 'e list \<Rightarrow> nat \<Rightarrow> bool" where
  "order_above k zs i \<longleftrightarrow>
     (\<forall>j<length zs. 0 < j \<longrightarrow> j \<noteq> i \<longrightarrow> k (zs ! HEAP_PARENT j) \<le> k (zs ! j)) \<and>
     (\<forall>j<length zs. 0 < j \<longrightarrow> 0 < i \<longrightarrow> HEAP_PARENT j = i \<longrightarrow> k (zs ! HEAP_PARENT i) \<le> k (zs ! j))"

definition order_below :: "('e \<Rightarrow> 'k::linorder) \<Rightarrow> 'e list \<Rightarrow> nat \<Rightarrow> bool" where
  "order_below k zs i \<longleftrightarrow>
     (\<forall>j<length zs. 0 < j \<longrightarrow> HEAP_PARENT j \<noteq> i \<longrightarrow> k (zs ! HEAP_PARENT j) \<le> k (zs ! j)) \<and>
     (\<forall>j<length zs. 0 < j \<longrightarrow> 0 < i \<longrightarrow> HEAP_PARENT j = i \<longrightarrow> k (zs ! HEAP_PARENT i) \<le> k (zs ! j))"

section \<open>The repair loops\<close>

function sift_up :: "('e \<Rightarrow> 'k::linorder) \<Rightarrow> 'e list \<Rightarrow> 'e \<Rightarrow> nat \<Rightarrow> 'e list" where
  "sift_up k xs e i =
     (if 0 < i \<and> k e < k (xs ! HEAP_PARENT i)
      then sift_up k (xs[i := xs ! HEAP_PARENT i]) e (HEAP_PARENT i)
      else xs[i := e])"
  by pat_completeness auto
termination
  by (relation "measure (\<lambda>(k, xs, e, i). i)") (auto simp: parent_less)

declare sift_up.simps [simp del]

definition small_child :: "('e \<Rightarrow> 'k::linorder) \<Rightarrow> 'e list \<Rightarrow> nat \<Rightarrow> nat" where
  "small_child k xs c = (if c + 1 < length xs \<and> k (xs ! (c + 1)) < k (xs ! c) then c + 1 else c)"

lemma small_child_ge: "c \<le> small_child k xs c" "small_child k xs c \<le> c + 1"
  by (simp_all add: small_child_def)

lemma small_child_less: "c < length xs \<Longrightarrow> small_child k xs c < length xs"
  by (simp add: small_child_def)

function sift_down :: "('e \<Rightarrow> 'k::linorder) \<Rightarrow> 'e list \<Rightarrow> 'e \<Rightarrow> nat \<Rightarrow> 'e list" where
  "sift_down k xs e i =
     (if HEAP_LEFT i < length xs
      then (let c = small_child k xs (HEAP_LEFT i)
            in if k (xs ! c) < k e then sift_down k (xs[i := xs ! c]) e c else xs[i := e])
      else xs[i := e])"
  by pat_completeness auto
termination
proof (relation "measure (\<lambda>(k, xs, e, i). length xs - i)")
  fix k :: "'e \<Rightarrow> 'k::linorder" and xs :: "'e list" and e :: 'e and i c :: nat
  assume "HEAP_LEFT i < length xs" "c = small_child k xs (HEAP_LEFT i)"
  then have "i < length xs" "i < c"
    using left_greater [of i] small_child_ge(1) [of "HEAP_LEFT i" k xs] by linarith+
  then show "((k, xs[i := xs ! c], e, c), k, xs, e, i) \<in> measure (\<lambda>(k, xs, e, i). length xs - i)"
    by simp
qed simp

declare sift_down.simps [simp del]

lemma sift_up_done: "\<not> (0 < i \<and> k e < k (xs ! HEAP_PARENT i)) \<Longrightarrow> sift_up k xs e i = xs[i := e]"
  by (subst sift_up.simps) (simp only: if_False)

lemma sift_up_length [simp]: "length (sift_up k xs e i) = length xs"
  by (induction k xs e i rule: sift_up.induct) (subst sift_up.simps, simp)

lemma sift_down_length [simp]: "length (sift_down k xs e i) = length xs"
  by (induction k xs e i rule: sift_down.induct) (subst sift_down.simps, simp add: Let_def)

lemma mset_hole_move:
  assumes "i < length xs" "j < length xs" "i \<noteq> j"
  shows "mset ((xs[i := xs ! j])[j := e]) = mset (xs[i := e])"
  using assms by (simp add: mset_update nth_list_update add_mset_commute)

lemma mset_sift_up: "i < length xs \<Longrightarrow> mset (sift_up k xs e i) = mset (xs[i := e])"
proof (induction k xs e i rule: sift_up.induct)
  case (1 k xs e i)
  show ?case
  proof (cases "0 < i \<and> k e < k (xs ! HEAP_PARENT i)")
    case True
    then have "HEAP_PARENT i < i" by (simp add: parent_less)
    with True 1 mset_hole_move [of i xs "HEAP_PARENT i" e] show ?thesis
      by (subst sift_up.simps) simp
  next
    case False
    from sift_up_done [OF this] show ?thesis by simp
  qed
qed

lemma mset_sift_down: "i < length xs \<Longrightarrow> mset (sift_down k xs e i) = mset (xs[i := e])"
proof (induction k xs e i rule: sift_down.induct)
  case (1 k xs e i)
  let ?c = "small_child k xs (HEAP_LEFT i)"
  show ?case
  proof (cases "HEAP_LEFT i < length xs \<and> k (xs ! ?c) < k e")
    case True
    have "i < ?c" using left_greater small_child_ge(1) by (rule order_less_le_trans)
    moreover have "?c < length xs" using True small_child_less by blast
    ultimately show ?thesis
      using True 1 mset_hole_move [of i xs ?c e] by (subst sift_down.simps) (simp add: Let_def)
  next
    case False
    then show ?thesis by (subst sift_down.simps) (auto simp: Let_def)
  qed
qed

section \<open>Correctness\<close>

lemma sift_up_order:
  "i < length xs \<Longrightarrow> order_above k (xs[i := e]) i \<Longrightarrow> heap_order k (sift_up k xs e i)"
proof (induction k xs e i rule: sift_up.induct)
  case (1 k xs e i)
  let ?p = "HEAP_PARENT i"
  show ?case
  proof (cases "0 < i \<and> k e < k (xs ! ?p)")
    case True
    then have p: "?p < i" "?p \<noteq> i" by (auto dest: parent_less)
    have a: "k ((xs[i := e]) ! HEAP_PARENT j) \<le> k ((xs[i := e]) ! j)"
      if "j < length xs" "0 < j" "j \<noteq> i" for j
      using 1(3) that by (simp add: order_above_def)
    have b: "k (xs ! ?p) \<le> k ((xs[i := e]) ! j)" if "j < length xs" "0 < j" "HEAP_PARENT j = i" for j
      using 1(3) that True p by (auto simp: order_above_def)
    let ?zs = "(xs[i := xs ! ?p])[?p := e]"
    have "k (?zs ! HEAP_PARENT j) \<le> k (?zs ! j)" if j: "j < length xs" "0 < j" "j \<noteq> ?p" for j
    proof (cases "j = i")
      case True
      then show ?thesis using \<open>0 < i \<and> k e < k (xs ! ?p)\<close> p 1(2) by simp
    next
      case False
      have pj: "HEAP_PARENT j < length xs" using j(1) parent_le order_le_less_trans by blast
      from a [OF j(1,2) False] b [OF j(1,2)] True False j p 1(2) pj show ?thesis
        by (cases "HEAP_PARENT j = i"; cases "HEAP_PARENT j = ?p") (auto simp: nth_list_update)
    qed
    moreover have "k (?zs ! HEAP_PARENT ?p) \<le> k (?zs ! j)"
      if j: "j < length xs" "0 < j" "0 < ?p" "HEAP_PARENT j = ?p" for j
    proof -
      have pp: "HEAP_PARENT ?p < ?p" using j(3) by (rule parent_less)
      have "k (xs ! HEAP_PARENT ?p) \<le> k (xs ! ?p)" using a [of ?p] p pp 1(2) j(3) by simp
      moreover have "k (xs ! ?p) \<le> k (?zs ! j)"
      proof (cases "j = i")
        case False
        then have "j \<noteq> ?p" using j parent_less [OF j(2)] by auto
        with a [OF j(1,2) False] False j(4) p 1(2) show ?thesis by (simp add: nth_list_update)
      qed (use p 1(2) in simp)
      ultimately show ?thesis using pp p 1(2) by (simp add: nth_list_update)
    qed
    ultimately have "order_above k ?zs ?p" by (simp add: order_above_def)
    with True p 1(1,2) show ?thesis by (subst sift_up.simps) simp
  next
    case False
    then have "heap_order k (xs[i := e])"
      using 1(2,3) parent_less [of i] by (auto simp: order_above_def heap_order_def nth_list_update)
    with sift_up_done [OF False] show ?thesis by simp
  qed
qed

lemma small_child_le:
  assumes "HEAP_LEFT i < length xs" "j < length xs" "0 < j" "HEAP_PARENT j = i"
  shows "k (xs ! small_child k xs (HEAP_LEFT i)) \<le> k (xs ! j)"
  using assms by (auto simp: small_child_def parent_child not_less)

lemma small_child_parent: "HEAP_PARENT (small_child k xs (HEAP_LEFT i)) = i"
  by (simp add: small_child_def parent_left)

lemma sift_down_order:
  "i < length xs \<Longrightarrow> order_below k (xs[i := e]) i \<Longrightarrow> heap_order k (sift_down k xs e i)"
proof (induction k xs e i rule: sift_down.induct)
  case (1 k xs e i)
  let ?c = "small_child k xs (HEAP_LEFT i)"
  have c: "i < ?c" using left_greater small_child_ge(1) by (rule order_less_le_trans)
  have a: "k ((xs[i := e]) ! HEAP_PARENT j) \<le> k ((xs[i := e]) ! j)"
    if "j < length xs" "0 < j" "HEAP_PARENT j \<noteq> i" for j
    using 1(3) that by (simp add: order_below_def)
  have b: "k (xs ! HEAP_PARENT i) \<le> k (xs ! j)"
    if j: "j < length xs" "0 < j" "0 < i" "HEAP_PARENT j = i" for j
    using 1(3) j parent_less [OF j(2)] parent_less [OF j(3)] by (auto simp: order_below_def)
  show ?case
  proof (cases "HEAP_LEFT i < length xs \<and> k (xs ! ?c) < k e")
    case True
    then have cl: "?c < length xs" using small_child_less by blast
    let ?zs = "(xs[i := xs ! ?c])[?c := e]"
    have z: "?zs ! j = (if j = ?c then e else if j = i then xs ! ?c else xs ! j)" if "j < length xs" for j
      using that c cl 1(2) by (simp add: nth_list_update)
    have "k (?zs ! HEAP_PARENT j) \<le> k (?zs ! j)" if j: "j < length xs" "0 < j" "HEAP_PARENT j \<noteq> ?c" for j
    proof -
      have pj: "HEAP_PARENT j < j" using j(2) by (rule parent_less)
      then have pl: "HEAP_PARENT j < length xs" using j(1) by simp
      consider "j = ?c" | "j \<noteq> ?c" "HEAP_PARENT j = i" | "j = i" | "j \<noteq> ?c" "HEAP_PARENT j \<noteq> i" "j \<noteq> i" by blast
      then show ?thesis
      proof cases
        case 1
        have "k (xs ! ?c) \<le> k e" using True less_imp_le by blast
        with 1 show ?thesis using z [OF j(1)] z [OF pl] j(3) by (simp add: small_child_parent)
      next
        case 2
        then have "j \<noteq> i" using pj by auto
        then show ?thesis
          using z [OF j(1)] z [OF pl] 2 j small_child_le [of i xs j k] True by simp
      next
        case 3
        then show ?thesis using z [OF j(1)] z [OF pl] c b [of ?c] cl j pj by (simp add: small_child_parent)
      next
        case 4
        then show ?thesis using z [OF j(1)] z [OF pl] a [OF j(1,2)] j(3) by simp
      qed
    qed
    moreover have "k (?zs ! HEAP_PARENT ?c) \<le> k (?zs ! j)"
      if j: "j < length xs" "0 < j" "HEAP_PARENT j = ?c" for j
    proof -
      have jn: "j \<noteq> i" "j \<noteq> ?c" using parent_less [OF j(2)] j(3) c by auto
      have "k (xs ! ?c) \<le> k (xs ! j)" using a [OF j(1,2)] j(3) c jn by simp
      then show ?thesis using z [OF j(1)] z [OF 1(2)] c jn by (simp add: small_child_parent)
    qed
    ultimately have "order_below k ?zs ?c" by (simp add: order_below_def)
    with True c cl 1(1,2) show ?thesis by (subst sift_down.simps) (simp add: Let_def)
  next
    case False
    have "k ((xs[i := e]) ! HEAP_PARENT j) \<le> k ((xs[i := e]) ! j)" if j: "j < length xs" "0 < j" for j
    proof (cases "HEAP_PARENT j = i")
      case True
      then have "HEAP_LEFT i < length xs" using j by (auto simp: parent_child)
      then have "k e \<le> k (xs ! j)"
        using False small_child_le [OF _ j True] order_trans not_less by metis
      then show ?thesis using True parent_less [OF j(2)] 1(2) by simp
    qed (use a j in simp)
    then have "heap_order k (xs[i := e])" by (simp add: heap_order_def)
    with False show ?thesis by (subst sift_down.simps) (auto simp: Let_def)
  qed
qed

lemma heap_order_root:
  "heap_order k xs \<Longrightarrow> j < length xs \<Longrightarrow> k (xs ! 0) \<le> k (xs ! j)"
proof (induction j rule: less_induct)
  case (less j)
  show ?case
  proof (cases "j = 0")
    case False
    then have "k (xs ! 0) \<le> k (xs ! HEAP_PARENT j)"
      using less parent_less [of j] by (meson bot_nat_0.not_eq_extremum order_less_trans)
    also have "\<dots> \<le> k (xs ! j)" using less(2,3) False by (simp add: heap_order_def)
    finally show ?thesis .
  qed simp
qed

section \<open>Insertion and removal\<close>

definition heap_insert :: "('e \<Rightarrow> 'k::linorder) \<Rightarrow> 'e list \<Rightarrow> 'e \<Rightarrow> 'e list" where
  "heap_insert k xs e = sift_up k (xs @ [e]) e (length xs)"

text \<open>The last element takes the free place and moves down, or up when it is smaller than its parent.\<close>

definition heap_remove :: "('e \<Rightarrow> 'k::linorder) \<Rightarrow> 'e list \<Rightarrow> nat \<Rightarrow> 'e list" where
  "heap_remove k xs i =
     (let ys = butlast xs; e = last xs
      in if i < length ys
         then (let zs = ys[i := e]
               in if k (zs ! HEAP_PARENT i) \<le> k e then sift_down k zs e i else sift_up k zs e i)
         else ys)"

lemma heap_insert_spec:
  assumes "heap_order k xs"
  shows "heap_order k (heap_insert k xs e)" "mset (heap_insert k xs e) = add_mset e (mset xs)"
proof -
  have "order_above k (xs @ [e]) (length xs)"
    unfolding order_above_def
  proof (intro conjI allI impI)
    fix j assume j: "j < length (xs @ [e])" "0 < j" "j \<noteq> length xs"
    then show "k ((xs @ [e]) ! HEAP_PARENT j) \<le> k ((xs @ [e]) ! j)"
      using assms parent_less [OF j(2)] by (simp add: heap_order_def nth_append)
  next
    fix j assume "j < length (xs @ [e])" "0 < j" "HEAP_PARENT j = length xs"
    then show "k ((xs @ [e]) ! HEAP_PARENT (length xs)) \<le> k ((xs @ [e]) ! j)"
      using parent_less [of j] by simp
  qed
  then show "heap_order k (heap_insert k xs e)"
    unfolding heap_insert_def by (intro sift_up_order) simp_all
  show "mset (heap_insert k xs e) = add_mset e (mset xs)"
    unfolding heap_insert_def by (subst mset_sift_up) simp_all
qed

lemma heap_order_butlast: "heap_order k xs \<Longrightarrow> heap_order k (butlast xs)"
  unfolding heap_order_def
proof (intro allI impI)
  fix j assume "\<forall>j<length xs. 0 < j \<longrightarrow> k (xs ! HEAP_PARENT j) \<le> k (xs ! j)"
    and "j < length (butlast xs)" "0 < j"
  then show "k (butlast xs ! HEAP_PARENT j) \<le> k (butlast xs ! j)"
    using parent_less [of j] by (simp add: nth_butlast)
qed

lemma remove_mset:
  assumes "i < length xs"
  shows "mset xs = add_mset (xs ! i) (if i < length (butlast xs) then mset ((butlast xs)[i := last xs])
    else mset (butlast xs))"
proof -
  obtain ys e where xs: "xs = ys @ [e]" using assms by (cases xs rule: rev_cases) auto
  show ?thesis
  proof (cases "i < length ys")
    case True
    then have "ys ! i \<in># mset ys" by simp
    with True xs show ?thesis by (simp add: mset_update nth_append)
  next
    case False
    then have "i = length ys" using assms xs by simp
    then show ?thesis using xs by simp
  qed
qed

lemma heap_remove_spec:
  assumes ho: "heap_order k xs" and i: "i < length xs"
  shows "heap_order k (heap_remove k xs i)" "add_mset (xs ! i) (mset (heap_remove k xs i)) = mset xs"
proof -
  let ?ys = "butlast xs" and ?e = "last xs"
  let ?zs = "?ys[i := ?e]"
  have hb: "heap_order k ?ys" using ho by (rule heap_order_butlast)
  show "add_mset (xs ! i) (mset (heap_remove k xs i)) = mset xs"
    using remove_mset [OF i] by (simp add: heap_remove_def Let_def mset_sift_up mset_sift_down)
  show "heap_order k (heap_remove k xs i)"
  proof (cases "i < length ?ys")
    case False
    then show ?thesis using hb by (simp add: heap_remove_def Let_def)
  next
    case True
    have o: "k (?ys ! HEAP_PARENT j) \<le> k (?ys ! j)" if "j < length ?ys" "0 < j" for j
      using hb that by (simp add: heap_order_def)
    have two: "k (?ys ! HEAP_PARENT i) \<le> k (?ys ! j)" if "j < length ?ys" "0 < j" "0 < i" "HEAP_PARENT j = i" for j
      using o [OF that(1,2)] o [OF True that(3)] that(4) by simp
    show ?thesis
    proof (cases "k (?zs ! HEAP_PARENT i) \<le> k ?e")
      case le: True
      have "order_below k ?zs i"
        unfolding order_below_def
      proof (intro conjI allI impI)
        fix j assume j: "j < length ?zs" "0 < j" "HEAP_PARENT j \<noteq> i"
        then show "k (?zs ! HEAP_PARENT j) \<le> k (?zs ! j)"
          using le o [of j] True by (cases "j = i") auto
      next
        fix j assume j: "j < length ?zs" "0 < j" "0 < i" "HEAP_PARENT j = i"
        then show "k (?zs ! HEAP_PARENT i) \<le> k (?zs ! j)"
          using two [of j] parent_less [OF j(2)] parent_less [OF j(3)] by simp
      qed
      then show ?thesis
        using True le by (simp add: heap_remove_def Let_def sift_down_order)
    next
      case gt: False
      then have i0: "0 < i" using True by (cases "i = 0") (auto simp: HEAP_PARENT_def)
      then have lt: "k ?e < k (?ys ! HEAP_PARENT i)" using gt parent_less [of i] by simp
      have "order_above k ?zs i"
        unfolding order_above_def
      proof (intro conjI allI impI)
        fix j assume j: "j < length ?zs" "0 < j" "j \<noteq> i"
        then show "k (?zs ! HEAP_PARENT j) \<le> k (?zs ! j)"
          using o [of j] two [of j] lt i0 True by (cases "HEAP_PARENT j = i") auto
      next
        fix j assume j: "j < length ?zs" "0 < j" "0 < i" "HEAP_PARENT j = i"
        then show "k (?zs ! HEAP_PARENT i) \<le> k (?zs ! j)"
          using two [of j] parent_less [OF j(2)] parent_less [OF j(3)] by simp
      qed
      then show ?thesis
        using True gt by (simp add: heap_remove_def Let_def sift_up_order)
    qed
  qed
qed

end
