(* ===== verification/Emlib_Timer.thy ===== *)
theory Emlib_Timer
  imports Emlib_Heap Emlib_Time "HOL-Library.Product_Lexorder"
begin

text \<open>
  The timer heap of \<open>src/timer.c\<close>.  Timer entries are objects of the application, named by numbers and
  kept in a store; the heap array holds their addresses (\<^const>\<open>None\<close> for a cell that was never
  written), and the parallel array \<open>timer_ids\<close> holds heap slots or, negated, the links of the free
  list.  An access outside an array makes the operation \<^const>\<open>None\<close>.  Sizes are far below \<open>2^31\<close>,
  so the casts between \<open>int\<close> and \<open>size_t\<close> keep values.  A callback is a number; what it does to the
  heap is a parameter of the poll.
\<close>

section \<open>State\<close>

record em_timer_entry =
  te_id :: int
  te_cb :: "nat option"
  te_timer_id :: int
  te_value :: em_time_val
  te_grp_lock :: "nat option"

text \<open>
  \<open>th_lock\<close> is the depth of the heap's lock, if it has one; \<open>th_grp_refs\<close> counts the references taken
  on each group lock; \<open>th_mem_ok\<close> says whether the pool still gives memory.
\<close>

record em_timer_heap =
  th_max_size :: nat
  th_cur_size :: nat
  th_max_per_poll :: nat
  th_lock :: "nat option"
  th_auto_delete :: bool
  th_heap :: "nat option list"
  th_ids :: "int list"
  th_freelist :: int
  th_entries :: "nat \<Rightarrow> em_timer_entry"
  th_grp_refs :: "nat \<Rightarrow> int"
  th_mem_ok :: bool

definition F_DONT_CALL :: nat where "F_DONT_CALL = 1"
definition F_DONT_ASSERT :: nat where "F_DONT_ASSERT = 2"
definition F_SET_ID :: nat where "F_SET_ID = 4"
definition DEFAULT_MAX_TIMED_OUT_PER_POLL :: nat where "DEFAULT_MAX_TIMED_OUT_PER_POLL = 64"
definition EM_MAXINT32 :: int where "EM_MAXINT32 = 0x7fffffff"

definition lock_timer_heap :: "em_timer_heap \<Rightarrow> em_timer_heap" where
  "lock_timer_heap ht = ht\<lparr>th_lock := map_option Suc (th_lock ht)\<rparr>"

definition unlock_timer_heap :: "em_timer_heap \<Rightarrow> em_timer_heap" where
  "unlock_timer_heap ht = ht\<lparr>th_lock := map_option (\<lambda>d. d - 1) (th_lock ht)\<rparr>"

abbreviation entry :: "em_timer_heap \<Rightarrow> nat \<Rightarrow> em_timer_entry" where
  "entry ht e \<equiv> th_entries ht e"

definition set_entry :: "em_timer_heap \<Rightarrow> nat \<Rightarrow> em_timer_entry \<Rightarrow> em_timer_heap" where
  "set_entry ht e v = ht\<lparr>th_entries := (th_entries ht)(e := v)\<rparr>"

text \<open>Reads and writes of the two arrays.\<close>

definition rd_heap :: "em_timer_heap \<Rightarrow> nat \<Rightarrow> nat option" where
  "rd_heap ht i = (if i < length (th_heap ht) then th_heap ht ! i else None)"

definition rd_id :: "em_timer_heap \<Rightarrow> int \<Rightarrow> int option" where
  "rd_id ht i = (if 0 \<le> i then mem_get (th_ids ht) (nat i) else None)"

definition wr_id :: "em_timer_heap \<Rightarrow> int \<Rightarrow> int \<Rightarrow> em_timer_heap option" where
  "wr_id ht i v = (if 0 \<le> i then map_option (\<lambda>m. ht\<lparr>th_ids := m\<rparr>) (mem_set (th_ids ht) (nat i) v) else None)"

definition copy_node :: "em_timer_heap \<Rightarrow> nat \<Rightarrow> nat \<Rightarrow> em_timer_heap option" where
  "copy_node ht slot moved_node =
     do { h \<leftarrow> mem_set (th_heap ht) slot (Some moved_node);
          wr_id (ht\<lparr>th_heap := h\<rparr>) (te_timer_id (entry ht moved_node)) (int slot) }"

definition pop_freelist :: "em_timer_heap \<Rightarrow> (int \<times> em_timer_heap) option" where
  "pop_freelist ht =
     do { v \<leftarrow> rd_id ht (th_freelist ht);
          Some (th_freelist ht, ht\<lparr>th_freelist := - v\<rparr>) }"

definition push_freelist :: "em_timer_heap \<Rightarrow> int \<Rightarrow> em_timer_heap option" where
  "push_freelist ht old_id =
     do { ht' \<leftarrow> wr_id ht old_id (- th_freelist ht);
          Some (ht'\<lparr>th_freelist := old_id\<rparr>) }"

section \<open>The repair loops\<close>

lemma copy_node_cur: "copy_node ht s e = Some ht' \<Longrightarrow> th_cur_size ht' = th_cur_size ht"
  by (auto simp: copy_node_def wr_id_def mem split: if_splits bind_splits)

definition small_child_of :: "em_timer_heap \<Rightarrow> nat \<Rightarrow> nat option" where
  "small_child_of ht child =
     (if child + 1 < th_cur_size ht
      then do { a \<leftarrow> rd_heap ht (child + 1); b \<leftarrow> rd_heap ht child;
                Some (if EM_TIME_VAL_LT (te_value (entry ht a)) (te_value (entry ht b))
                      then child + 1 else child) }
      else Some child)"

lemma small_child_of_ge: "small_child_of ht c = Some c' \<Longrightarrow> c \<le> c'"
  by (auto simp: small_child_of_def split: if_splits bind_splits)

lemma reheap_down_decreases:
  assumes "child < th_cur_size ht" "small_child_of ht child = Some child'" "copy_node ht slot c = Some ht'"
  shows "th_cur_size ht' - HEAP_LEFT child' < th_cur_size ht - child"
  using small_child_of_ge [OF assms(2)] left_greater [of child'] copy_node_cur [OF assms(3)] assms(1)
  by linarith

function reheap_down :: "em_timer_heap \<Rightarrow> nat \<Rightarrow> nat \<Rightarrow> nat \<Rightarrow> em_timer_heap option" where
  "reheap_down ht moved_node slot child =
     (if child < th_cur_size ht
      then do { child' \<leftarrow> small_child_of ht child;
                c \<leftarrow> rd_heap ht child';
                if EM_TIME_VAL_LT (te_value (entry ht c)) (te_value (entry ht moved_node))
                then do { ht' \<leftarrow> copy_node ht slot c;
                          reheap_down ht' moved_node child' (HEAP_LEFT child') }
                else copy_node ht slot moved_node }
      else copy_node ht slot moved_node)"
  by pat_completeness auto
termination
proof (relation "measure (\<lambda>(ht, m, slot, child). th_cur_size ht - child)", goal_cases)
  case (2 ht m slot child child' c ht')
  from reheap_down_decreases [OF 2(1,2,5)] show ?case by simp
qed simp

text \<open>The callers pass \<open>HEAP_PARENT (slot)\<close> as the first parent, so it is not an argument here.\<close>

function reheap_up :: "em_timer_heap \<Rightarrow> nat \<Rightarrow> nat \<Rightarrow> em_timer_heap option" where
  "reheap_up ht moved_node slot =
     (if slot > 0
      then do { p \<leftarrow> rd_heap ht (HEAP_PARENT slot);
                if EM_TIME_VAL_LT (te_value (entry ht moved_node)) (te_value (entry ht p))
                then do { ht' \<leftarrow> copy_node ht slot p;
                          reheap_up ht' moved_node (HEAP_PARENT slot) }
                else copy_node ht slot moved_node }
      else copy_node ht slot moved_node)"
  by pat_completeness auto
termination
  by (relation "measure (\<lambda>(ht, m, slot). slot)") (auto simp: parent_less)

declare reheap_down.simps [simp del] reheap_up.simps [simp del]

section \<open>Removal, growth, insertion\<close>

text \<open>The end of \<open>remove_node\<close>: the last node moves to the slot that became free.\<close>

definition refill_slot :: "em_timer_heap \<Rightarrow> nat \<Rightarrow> em_timer_heap option" where
  "refill_slot ht slot =
     (if slot < th_cur_size ht
      then do { moved \<leftarrow> rd_heap ht (th_cur_size ht);
                h \<leftarrow> copy_node ht slot moved;
                p \<leftarrow> rd_heap h (HEAP_PARENT slot);
                if EM_TIME_VAL_GTE (te_value (entry h moved)) (te_value (entry h p))
                then reheap_down h moved slot (HEAP_LEFT slot)
                else reheap_up h moved slot }
      else Some ht)"

definition remove_node :: "em_timer_heap \<Rightarrow> nat \<Rightarrow> (nat \<times> em_timer_heap) option" where
  "remove_node ht slot =
     do { removed \<leftarrow> rd_heap ht slot;
          ht1 \<leftarrow> push_freelist ht (te_timer_id (entry ht removed));
          let ht2 = ht1\<lparr>th_cur_size := th_cur_size ht1 - 1\<rparr>;
          let ht3 = set_entry ht2 removed ((entry ht2 removed)\<lparr>te_timer_id := - 1\<rparr>);
          ht4 \<leftarrow> refill_slot ht3 slot;
          Some (removed, ht4) }"

text \<open>
  Neither of the two allocations is checked.  When the pool gives no memory, \<open>memcpy\<close> copies the arrays to
  a null pointer, or the pool's callback throws and leaves the heap locked: the call does not return.
\<close>

definition grow_heap :: "em_timer_heap \<Rightarrow> em_timer_heap option" where
  "grow_heap ht =
     (if th_mem_ok ht
      then (let n = th_max_size ht; new_size = n * 2
            in do { h \<leftarrow> mem_slice (th_heap ht) 0 n;
                    ids \<leftarrow> mem_slice (th_ids ht) 0 n;
                    Some (ht\<lparr>th_heap := h @ replicate (new_size - n) None,
                             th_ids := ids @ map (\<lambda>i. - int (i + 1)) [n..<new_size],
                             th_max_size := new_size\<rparr>) })
      else None)"

definition insert_node :: "em_timer_heap \<Rightarrow> nat \<Rightarrow> em_timer_heap option" where
  "insert_node ht new_node =
     do { ht1 \<leftarrow> (if th_cur_size ht + 2 \<ge> th_max_size ht then grow_heap ht else Some ht);
          ht2 \<leftarrow> reheap_up ht1 new_node (th_cur_size ht1);
          Some (ht2\<lparr>th_cur_size := th_cur_size ht2 + 1\<rparr>) }"

definition schedule_entry ::
  "em_timer_heap \<Rightarrow> nat \<Rightarrow> em_time_val \<Rightarrow> (emlib_ret_t \<times> em_timer_heap) option" where
  "schedule_entry ht e future_time =
     (if th_cur_size ht < th_max_size ht
      then do { (i, ht1) \<leftarrow> pop_freelist ht;
                let ht2 = set_entry ht1 e ((entry ht1 e)\<lparr>te_timer_id := i, te_value := future_time\<rparr>);
                ht3 \<leftarrow> insert_node ht2 e;
                Some (0, ht3) }
      else Some (- 1, ht))"

definition cancel :: "em_timer_heap \<Rightarrow> nat \<Rightarrow> nat \<Rightarrow> (nat \<times> em_timer_heap) option" where
  "cancel ht e flags =
     (let dead = set_entry ht e ((entry ht e)\<lparr>te_timer_id := - 1\<rparr>);
          i = te_timer_id (entry ht e)
      in if i < 0 \<or> i > int (th_max_size ht) then Some (0, dead)
         else do {
           slot \<leftarrow> rd_id ht i;
           if slot < 0 then Some (0, dead)
           else do {
             n \<leftarrow> rd_heap ht (nat slot);
             if e \<noteq> n then Some (0, dead)
             else do {
               (r, ht') \<leftarrow> remove_node ht (nat slot);
               if flags mod 2 = 0 then None else Some (1, ht') } } })"

section \<open>The interface\<close>

definition em_timer_heap_mem_size :: "em_size_t \<Rightarrow> em_size_t" where
  "em_timer_heap_mem_size n = 80 + (n + 2) * (8 + 4) + 132"

text \<open>The three allocations from the pool are answered by the parameters; the first is the heap object.\<close>

definition em_timer_heap_create ::
  "bool \<Rightarrow> bool \<Rightarrow> bool \<Rightarrow> bool \<Rightarrow> nat \<Rightarrow> (nat \<Rightarrow> em_timer_entry) \<Rightarrow> emlib_ret_t \<times> em_timer_heap option" where
  "em_timer_heap_create ok1 ok2 ok3 grow_ok n ents =
     (let sz = n + 2
      in if \<not> ok1 then (EM_ENOMEM, None)
         else if \<not> ok2 then (EM_ENOMEM, None)
         else if \<not> ok3 then (EM_ENOMEM, None)
         else (EM_SUCC, Some
           \<lparr>th_max_size = sz, th_cur_size = 0, th_max_per_poll = DEFAULT_MAX_TIMED_OUT_PER_POLL,
            th_lock = None, th_auto_delete = False, th_heap = replicate sz None,
            th_ids = map (\<lambda>i. - int (i + 1)) [0..<sz], th_freelist = 1, th_entries = ents,
            th_grp_refs = (\<lambda>_. 0), th_mem_ok = grow_ok\<rparr>))"

text \<open>The result says whether \<open>em_lock_destroy\<close> was called.\<close>

definition em_timer_heap_destroy :: "em_timer_heap \<Rightarrow> bool \<times> em_timer_heap" where
  "em_timer_heap_destroy ht =
     (if th_lock ht \<noteq> None \<and> th_auto_delete ht then (True, ht\<lparr>th_lock := None\<rparr>) else (False, ht))"

definition em_timer_heap_set_lock :: "em_timer_heap \<Rightarrow> nat option \<Rightarrow> bool \<Rightarrow> bool \<times> em_timer_heap" where
  "em_timer_heap_set_lock ht lock auto_del =
     (th_lock ht \<noteq> None \<and> th_auto_delete ht, ht\<lparr>th_lock := lock, th_auto_delete := auto_del\<rparr>)"

definition em_timer_heap_set_max_timed_out_per_poll :: "em_timer_heap \<Rightarrow> nat \<Rightarrow> nat \<times> em_timer_heap" where
  "em_timer_heap_set_max_timed_out_per_poll ht n = (th_max_per_poll ht, ht\<lparr>th_max_per_poll := n\<rparr>)"

definition em_timer_entry_init :: "em_timer_entry \<Rightarrow> int \<Rightarrow> nat option \<Rightarrow> em_timer_entry" where
  "em_timer_entry_init t i cb = t\<lparr>te_timer_id := - 1, te_id := i, te_cb := cb, te_grp_lock := None\<rparr>"

definition em_timer_entry_running :: "em_timer_entry \<Rightarrow> bool" where
  "em_timer_entry_running t \<longleftrightarrow> te_timer_id t \<ge> 1"

definition add_ref :: "em_timer_heap \<Rightarrow> nat option \<Rightarrow> em_timer_heap" where
  "add_ref ht g = (case g of None \<Rightarrow> ht
     | Some l \<Rightarrow> ht\<lparr>th_grp_refs := (th_grp_refs ht)(l := th_grp_refs ht l + 1)\<rparr>)"

definition dec_ref :: "em_timer_heap \<Rightarrow> nat option \<Rightarrow> em_timer_heap" where
  "dec_ref ht g = (case g of None \<Rightarrow> ht
     | Some l \<Rightarrow> ht\<lparr>th_grp_refs := (th_grp_refs ht)(l := th_grp_refs ht l - 1)\<rparr>)"

text \<open>\<open>ticks\<close> is what \<open>em_gettickcount\<close> wrote.\<close>

definition schedule_w_grp_lock ::
  "em_time_val \<Rightarrow> em_timer_heap \<Rightarrow> nat \<Rightarrow> em_time_val \<Rightarrow> bool \<Rightarrow> int \<Rightarrow> nat option \<Rightarrow>
   (emlib_ret_t \<times> em_timer_heap) option" where
  "schedule_w_grp_lock ticks ht e delay set_id id_val grp =
     (if te_cb (entry ht e) = None then Some (EM_EINVAL, ht)
      else if \<not> te_timer_id (entry ht e) < 1 then Some (EM_EINVALIDOP, ht)
      else do {
        let expires = EM_TIME_VAL_ADD ticks delay;
        (status, ht1) \<leftarrow> schedule_entry (lock_timer_heap ht) e expires;
        let ht2 = (if status = EM_SUCC
                   then add_ref (set_entry ht1 e ((entry ht1 e)
                          \<lparr>te_id := (if set_id then id_val else te_id (entry ht1 e)), te_grp_lock := grp\<rparr>)) grp
                   else ht1);
        Some (status, unlock_timer_heap ht2) })"

definition em_timer_heap_schedule ::
  "em_time_val \<Rightarrow> em_timer_heap \<Rightarrow> nat \<Rightarrow> em_time_val \<Rightarrow> (emlib_ret_t \<times> em_timer_heap) option" where
  "em_timer_heap_schedule ticks ht e delay = schedule_w_grp_lock ticks ht e delay False 1 None"

definition em_timer_heap_schedule_w_grp_lock ::
  "em_time_val \<Rightarrow> em_timer_heap \<Rightarrow> nat \<Rightarrow> em_time_val \<Rightarrow> int \<Rightarrow> nat option \<Rightarrow>
   (emlib_ret_t \<times> em_timer_heap) option" where
  "em_timer_heap_schedule_w_grp_lock ticks ht e delay id_val grp =
     schedule_w_grp_lock ticks ht e delay True id_val grp"

definition cancel_timer ::
  "em_timer_heap \<Rightarrow> nat \<Rightarrow> nat \<Rightarrow> int \<Rightarrow> (nat \<times> em_timer_heap) option" where
  "cancel_timer ht e flags id_val =
     do { (n, ht1) \<leftarrow> cancel (lock_timer_heap ht) e (flags div 2 * 2 + F_DONT_CALL);
          let ht2 = (if flags div F_SET_ID mod 2 = 1
                     then set_entry ht1 e ((entry ht1 e)\<lparr>te_id := id_val\<rparr>) else ht1);
          let grp = te_grp_lock (entry ht2 e);
          let ht3 = (if grp = None then ht2
                     else dec_ref (set_entry ht2 e ((entry ht2 e)\<lparr>te_grp_lock := None\<rparr>)) grp);
          Some (n, unlock_timer_heap ht3) }"

definition em_timer_heap_cancel :: "em_timer_heap \<Rightarrow> nat \<Rightarrow> (nat \<times> em_timer_heap) option" where
  "em_timer_heap_cancel ht e = cancel_timer ht e 0 0"

definition em_timer_heap_cancel_if_active ::
  "em_timer_heap \<Rightarrow> nat \<Rightarrow> int \<Rightarrow> (nat \<times> em_timer_heap) option" where
  "em_timer_heap_cancel_if_active ht e id_val = cancel_timer ht e (F_SET_ID + F_DONT_ASSERT) id_val"

text \<open>
  One round of the poll loop takes the root out, keeps its id aside, runs the callback unlocked, and
  gives the id back.  \<open>run\<close> is the effect of the callbacks.  The result lists the entries fired.
  The loop re-reads its limit, which a callback may raise, so it runs on fuel; \<^const>\<open>None\<close> when that
  is used up.
\<close>

definition poll_round ::
  "(nat \<Rightarrow> nat \<Rightarrow> em_timer_heap \<Rightarrow> em_timer_heap option) \<Rightarrow> em_timer_heap \<Rightarrow> (nat \<times> em_timer_heap) option" where
  "poll_round run ht =
     do { (node, ht1) \<leftarrow> remove_node ht 0;
          (node_id, ht2) \<leftarrow> pop_freelist ht1;
          let grp = te_grp_lock (entry ht2 node);
          let ht3 = unlock_timer_heap (set_entry ht2 node ((entry ht2 node)\<lparr>te_grp_lock := None\<rparr>));
          ht4 \<leftarrow> (case te_cb (entry ht3 node) of None \<Rightarrow> Some ht3 | Some c \<Rightarrow> run c node ht3);
          ht5 \<leftarrow> push_freelist (lock_timer_heap (dec_ref ht4 grp)) node_id;
          Some (node, ht5) }"

fun poll_loop ::
  "(nat \<Rightarrow> nat \<Rightarrow> em_timer_heap \<Rightarrow> em_timer_heap option) \<Rightarrow> em_time_val \<Rightarrow> nat \<Rightarrow> nat \<Rightarrow> em_timer_heap \<Rightarrow>
   (nat list \<times> em_timer_heap) option" where
  "poll_loop run now 0 n ht = None"
| "poll_loop run now (Suc fuel) n ht =
     (if th_cur_size ht = 0 then Some ([], ht)
      else do {
        e \<leftarrow> rd_heap ht 0;
        if EM_TIME_VAL_LTE (te_value (entry ht e)) now \<and> n < th_max_per_poll ht
        then do { (node, ht1) \<leftarrow> poll_round run ht;
                  (es, ht2) \<leftarrow> poll_loop run now fuel (n + 1) ht1;
                  Some (node # es, ht2) }
        else Some ([], ht) })"

definition em_timer_heap_poll ::
  "(nat \<Rightarrow> nat \<Rightarrow> em_timer_heap \<Rightarrow> em_timer_heap option) \<Rightarrow> nat \<Rightarrow> em_time_val \<Rightarrow> em_timer_heap \<Rightarrow> bool \<Rightarrow>
   (nat \<times> em_time_val option \<times> nat list \<times> em_timer_heap) option" where
  "em_timer_heap_poll run fuel now ht want_delay =
     (let forever = \<lparr>tv_sec = EM_MAXINT32, tv_msec = EM_MAXINT32\<rparr>; ht1 = lock_timer_heap ht
      in if th_cur_size ht1 = 0 \<and> want_delay
         then Some (0, Some forever, [], unlock_timer_heap ht1)
         else do {
           (es, ht2) \<leftarrow> poll_loop run now fuel 0 ht1;
           d \<leftarrow> (if th_cur_size ht2 \<noteq> 0 \<and> want_delay
                 then do { e \<leftarrow> rd_heap ht2 0;
                           let t = EM_TIME_VAL_SUB (te_value (entry ht2 e)) now;
                           Some (Some (if tv_sec t < 0 \<or> tv_msec t < 0
                                       then \<lparr>tv_sec = 0, tv_msec = 0\<rparr> else t)) }
                 else Some (if want_delay then Some forever else None));
           Some (length es, d, es, unlock_timer_heap ht2) })"

definition em_timer_heap_count :: "em_timer_heap \<Rightarrow> nat" where
  "em_timer_heap_count ht = th_cur_size ht"

definition em_timer_heap_earliest_time ::
  "em_timer_heap \<Rightarrow> (emlib_ret_t \<times> em_time_val option \<times> em_timer_heap) option" where
  "em_timer_heap_earliest_time ht =
     (if \<not> th_cur_size ht \<noteq> 0 then Some (EM_EINVAL, None, ht)
      else do { e \<leftarrow> rd_heap (lock_timer_heap ht) 0;
                Some (EM_SUCC, Some (te_value (entry ht e)), unlock_timer_heap (lock_timer_heap ht)) })"

section \<open>The loops compute the list heap\<close>

definition tkey :: "em_time_val \<Rightarrow> int \<times> int" where
  "tkey t = (tv_sec t, tv_msec t)"

definition due :: "em_timer_heap \<Rightarrow> nat \<Rightarrow> int \<times> int" where
  "due ht e = tkey (te_value (entry ht e))"

definition tid :: "em_timer_heap \<Rightarrow> nat \<Rightarrow> nat" where
  "tid ht e = nat (te_timer_id (entry ht e))"

lemma LT_due: "EM_TIME_VAL_LT (te_value (entry ht a)) (te_value (entry ht b)) \<longleftrightarrow> due ht a < due ht b"
  by (auto simp: EM_TIME_VAL_LT_def EM_TIME_VAL_GTE_def EM_TIME_VAL_GT_def EM_TIME_VAL_EQ_def due_def
      tkey_def less_prod_def)

lemma GTE_due: "EM_TIME_VAL_GTE (te_value (entry ht a)) (te_value (entry ht b)) \<longleftrightarrow> due ht b \<le> due ht a"
  using LT_due [of ht a b] by (auto simp: EM_TIME_VAL_LT_def not_less)

text \<open>
  \<open>nodes_ok ht xs\<close>: the first cells of the array hold \<open>xs\<close> and the id of each points back at its cell.
  \<open>hole_ok ht xs h e\<close>: the same outside the hole \<open>h\<close>, where \<open>e\<close> may still be placed.
\<close>

definition ids_ok :: "em_timer_heap \<Rightarrow> nat list \<Rightarrow> bool" where
  "ids_ok ht xs \<longleftrightarrow> (\<forall>x\<in>set xs. 1 \<le> te_timer_id (entry ht x) \<and> tid ht x < length (th_ids ht)) \<and>
     distinct (map (tid ht) xs)"

definition hole_ok :: "em_timer_heap \<Rightarrow> nat list \<Rightarrow> nat \<Rightarrow> nat \<Rightarrow> bool" where
  "hole_ok ht xs h e \<longleftrightarrow> h < length xs \<and> length xs \<le> length (th_heap ht) \<and> ids_ok ht (xs[h := e]) \<and>
     (\<forall>j<length xs. j \<noteq> h \<longrightarrow> th_heap ht ! j = Some (xs ! j) \<and> th_ids ht ! tid ht (xs ! j) = int j)"

definition nodes_ok :: "em_timer_heap \<Rightarrow> nat list \<Rightarrow> bool" where
  "nodes_ok ht xs \<longleftrightarrow> length xs \<le> length (th_heap ht) \<and> ids_ok ht xs \<and>
     (\<forall>j<length xs. th_heap ht ! j = Some (xs ! j) \<and> th_ids ht ! tid ht (xs ! j) = int j)"

definition frame :: "nat set \<Rightarrow> em_timer_heap \<Rightarrow> em_timer_heap \<Rightarrow> bool" where
  "frame K ht ht' \<longleftrightarrow> ht' = ht\<lparr>th_heap := th_heap ht', th_ids := th_ids ht'\<rparr> \<and>
     length (th_heap ht') = length (th_heap ht) \<and> length (th_ids ht') = length (th_ids ht) \<and>
     (\<forall>i. i \<notin> K \<longrightarrow> th_ids ht' ! i = th_ids ht ! i)"

lemma frameD:
  assumes "frame K ht ht'"
  shows "th_entries ht' = th_entries ht" "th_cur_size ht' = th_cur_size ht" "th_max_size ht' = th_max_size ht"
    "th_freelist ht' = th_freelist ht" "length (th_heap ht') = length (th_heap ht)"
    "length (th_ids ht') = length (th_ids ht)" "th_lock ht' = th_lock ht" "th_mem_ok ht' = th_mem_ok ht"
    "th_max_per_poll ht' = th_max_per_poll ht" "\<And>i. i \<notin> K \<Longrightarrow> th_ids ht' ! i = th_ids ht ! i"
    "due ht' = due ht" "tid ht' = tid ht" "th_grp_refs ht' = th_grp_refs ht"
proof -
  have e: "ht' = ht\<lparr>th_heap := th_heap ht', th_ids := th_ids ht'\<rparr>"
    using assms unfolding frame_def by blast
  show "th_entries ht' = th_entries ht" "th_cur_size ht' = th_cur_size ht" "th_max_size ht' = th_max_size ht"
    "th_freelist ht' = th_freelist ht" "th_lock ht' = th_lock ht" "th_mem_ok ht' = th_mem_ok ht"
    "th_max_per_poll ht' = th_max_per_poll ht" "th_grp_refs ht' = th_grp_refs ht"
    by (subst e, simp)+
  then show "due ht' = due ht" "tid ht' = tid ht" by (auto simp: due_def tid_def)
qed (use assms in \<open>auto simp: frame_def\<close>)

lemma frame_trans: "frame K a b \<Longrightarrow> frame K b c \<Longrightarrow> frame K a c"
  unfolding frame_def by (metis (no_types, lifting) em_timer_heap.surjective em_timer_heap.update_convs(6,7))

lemma copy_node_eq:
  assumes "s < length (th_heap ht)" "1 \<le> te_timer_id (entry ht e)" "tid ht e < length (th_ids ht)"
  shows "copy_node ht s e =
    Some (ht\<lparr>th_heap := (th_heap ht)[s := Some e], th_ids := (th_ids ht)[tid ht e := int s]\<rparr>)"
  using assms by (simp add: copy_node_def wr_id_def mem tid_def)

lemma ids_ok_cong: "th_entries ht' = th_entries ht \<Longrightarrow> length (th_ids ht') = length (th_ids ht) \<Longrightarrow>
    ids_ok ht' xs = ids_ok ht xs"
  by (simp add: ids_ok_def tid_def cong: map_cong)

lemma nodes_ok_cong:
  "th_entries ht' = th_entries ht \<Longrightarrow> th_ids ht' = th_ids ht \<Longrightarrow> th_heap ht' = th_heap ht \<Longrightarrow>
   nodes_ok ht' xs = nodes_ok ht xs"
  by (simp add: nodes_ok_def ids_ok_cong [of ht' ht]) (simp add: tid_def)

lemma nodes_ok_extend:
  assumes "nodes_ok ht xs" "th_entries h = th_entries ht" "th_heap h = th_heap ht @ a" "th_ids h = th_ids ht @ b"
  shows "nodes_ok h xs"
proof -
  have t: "tid h = tid ht" using assms(2) by (auto simp: tid_def)
  have "tid ht (xs ! j) < length (th_ids ht)" if "j < length xs" for j
    using assms(1) that by (auto simp: nodes_ok_def ids_ok_def)
  then show ?thesis using assms by (auto simp: nodes_ok_def ids_ok_def t nth_append)
qed

lemma ids_ok_mset: "mset xs = mset ys \<Longrightarrow> ids_ok ht xs = ids_ok ht ys"
  unfolding ids_ok_def by (metis mset_eq_imp_distinct_iff mset_eq_setD mset_map)

lemma nodes_hole: "nodes_ok ht xs \<Longrightarrow> h < length xs \<Longrightarrow> hole_ok ht xs h (xs ! h)"
  by (simp add: nodes_ok_def hole_ok_def)

text \<open>Filling the hole, and moving it to another position.\<close>

lemma place_node:
  assumes ho: "hole_ok ht xs h e" and K: "tid ht ` set (xs[h := e]) \<subseteq> K"
  shows "\<exists>ht'. copy_node ht h e = Some ht' \<and> nodes_ok ht' (xs[h := e]) \<and> frame K ht ht'"
proof -
  let ?ht = "ht\<lparr>th_heap := (th_heap ht)[h := Some e], th_ids := (th_ids ht)[tid ht e := int h]\<rparr>"
  have h: "h < length xs" "length xs \<le> length (th_heap ht)" "ids_ok ht (xs[h := e])"
    using ho by (auto simp: hole_ok_def)
  have e: "e \<in> set (xs[h := e])" using h(1) by (rule set_update_memI)
  have te: "1 \<le> te_timer_id (entry ht e)" "tid ht e < length (th_ids ht)"
    using e h(3) by (auto simp: ids_ok_def)
  have cn: "copy_node ht h e = Some ?ht" using h te by (intro copy_node_eq) simp_all
  have t: "tid ?ht = tid ht" by (auto simp: tid_def)
  have ne: "tid ht e \<noteq> tid ht (xs ! j)" if "j < length xs" "j \<noteq> h" for j
    using h(1,3) that nth_eq_iff_index_eq [of "map (tid ht) (xs[h := e])" j h] by (auto simp: ids_ok_def)
  have "th_heap ?ht ! j = Some (xs[h := e] ! j) \<and> th_ids ?ht ! tid ht (xs[h := e] ! j) = int j"
    if j: "j < length xs" for j
  proof (cases "j = h")
    case True
    then show ?thesis using h te by simp
  next
    case False
    then have "th_heap ht ! j = Some (xs ! j)" "th_ids ht ! tid ht (xs ! j) = int j"
      using ho j by (auto simp: hole_ok_def)
    then show ?thesis using False ne [OF j False] by simp
  qed
  then have "nodes_ok ?ht (xs[h := e])"
    using h by (simp add: nodes_ok_def t ids_ok_cong [of ?ht ht])
  moreover have "tid ht e \<in> K" using K e by auto
  then have "frame K ht ?ht" by (auto simp: frame_def intro: nth_list_update_neq)
  ultimately show ?thesis using cn by blast
qed

lemma move_hole:
  assumes ho: "hole_ok ht xs h e" and p: "p < length xs" "p \<noteq> h"
    and K: "tid ht ` set (xs[h := e]) \<subseteq> K"
  shows "\<exists>ht'. copy_node ht h (xs ! p) = Some ht' \<and> hole_ok ht' (xs[h := xs ! p]) p e \<and> frame K ht ht'"
proof -
  let ?x = "xs ! p"
  let ?ht = "ht\<lparr>th_heap := (th_heap ht)[h := Some ?x], th_ids := (th_ids ht)[tid ht ?x := int h]\<rparr>"
  have h: "h < length xs" "length xs \<le> length (th_heap ht)" "ids_ok ht (xs[h := e])"
    using ho by (auto simp: hole_ok_def)
  have x: "?x \<in> set (xs[h := e])" using p h(1) by (metis length_list_update nth_list_update_neq nth_mem)
  have te: "1 \<le> te_timer_id (entry ht ?x)" "tid ht ?x < length (th_ids ht)"
    using x h(3) by (auto simp: ids_ok_def)
  have cn: "copy_node ht h ?x = Some ?ht" using h te by (intro copy_node_eq) simp_all
  have t: "tid ?ht = tid ht" by (auto simp: tid_def)
  have ne: "tid ht ?x \<noteq> tid ht (xs ! j)" if "j < length xs" "j \<noteq> h" "j \<noteq> p" for j
    using h(1,3) p that nth_eq_iff_index_eq [of "map (tid ht) (xs[h := e])" j p] by (auto simp: ids_ok_def)
  have "th_heap ?ht ! j = Some (xs[h := ?x] ! j) \<and> th_ids ?ht ! tid ht (xs[h := ?x] ! j) = int j"
    if j: "j < length xs" "j \<noteq> p" for j
  proof (cases "j = h")
    case True
    then show ?thesis using h te by simp
  next
    case False
    then have "th_heap ht ! j = Some (xs ! j)" "th_ids ht ! tid ht (xs ! j) = int j"
      using ho j by (auto simp: hole_ok_def)
    then show ?thesis using False ne [OF j(1) False j(2)] by simp
  qed
  moreover have "ids_ok ht ((xs[h := ?x])[p := e])"
    using h(3) ids_ok_mset [OF mset_hole_move [OF h(1) p(1) p(2)[symmetric]]] by simp
  ultimately have "hole_ok ?ht (xs[h := ?x]) p e"
    using h p by (simp add: hole_ok_def t ids_ok_cong [of ?ht ht])
  moreover have "tid ht ?x \<in> K" using K x by auto
  then have "frame K ht ?ht" by (auto simp: frame_def intro: nth_list_update_neq)
  ultimately show ?thesis using cn by blast
qed

lemma hole_set_move:
  assumes "h < length xs" "p < length xs" "p \<noteq> h"
  shows "set ((xs[h := xs ! p])[p := e]) = set (xs[h := e])"
  using mset_hole_move [OF assms(1,2) assms(3)[symmetric]] by (rule mset_eq_setD)

lemma reheap_up_refines:
  "hole_ok ht xs h e \<Longrightarrow> tid ht ` set (xs[h := e]) \<subseteq> K \<Longrightarrow>
   \<exists>ht'. reheap_up ht e h = Some ht' \<and> nodes_ok ht' (sift_up (due ht) xs e h) \<and> frame K ht ht'"
proof (induction h arbitrary: ht xs rule: less_induct)
  case (less h)
  have h: "h < length xs" "length xs \<le> length (th_heap ht)" using less(2) by (auto simp: hole_ok_def)
  let ?p = "HEAP_PARENT h"
  show ?case
  proof (cases "0 < h \<and> due ht e < due ht (xs ! ?p)")
    case False
    have rd: "0 < h \<Longrightarrow> rd_heap ht ?p = Some (xs ! ?p)"
      using less(2) h parent_less [of h] by (auto simp: hole_ok_def rd_heap_def)
    have "reheap_up ht e h = copy_node ht h e"
      using False rd by (subst reheap_up.simps) (auto simp: LT_due)
    then show ?thesis using place_node [OF less(2,3)] sift_up_done [OF False] by simp
  next
    case True
    then have p: "?p < h" "?p < length xs" "?p \<noteq> h" using h parent_less [of h] by auto
    then have rd: "rd_heap ht ?p = Some (xs ! ?p)" using less(2) h by (auto simp: hole_ok_def rd_heap_def)
    obtain ht1 where ht1: "copy_node ht h (xs ! ?p) = Some ht1" "hole_ok ht1 (xs[h := xs ! ?p]) ?p e"
        "frame K ht ht1"
      using move_hole [OF less(2) p(2,3) less(3)] by blast
    note fr = frameD [OF ht1(3)]
    have "tid ht1 ` set ((xs[h := xs ! ?p])[?p := e]) \<subseteq> K"
      using less(3) hole_set_move [OF h(1) p(2,3)] fr by simp
    from less(1) [OF p(1) ht1(2) this] obtain ht2 where
      ht2: "reheap_up ht1 e ?p = Some ht2"
        "nodes_ok ht2 (sift_up (due ht1) (xs[h := xs ! ?p]) e ?p)" "frame K ht1 ht2" by blast
    have "reheap_up ht e h = Some ht2"
      using True rd ht1(1) ht2(1) by (subst reheap_up.simps) (simp add: LT_due)
    moreover have "sift_up (due ht) xs e h = sift_up (due ht1) (xs[h := xs ! ?p]) e ?p"
      using True fr by (subst sift_up.simps) simp
    ultimately show ?thesis using ht2 frame_trans [OF ht1(3) ht2(3)] by simp
  qed
qed

lemma small_child_refines:
  assumes "hole_ok ht xs h e" "th_cur_size ht = length xs" "h < c" "c < length xs"
  shows "small_child_of ht c = Some (small_child (due ht) xs c)"
  using assms by (auto simp: small_child_of_def small_child_def hole_ok_def rd_heap_def LT_due)

lemma reheap_down_refines:
  "hole_ok ht xs h e \<Longrightarrow> th_cur_size ht = length xs \<Longrightarrow> tid ht ` set (xs[h := e]) \<subseteq> K \<Longrightarrow>
   \<exists>ht'. reheap_down ht e h (HEAP_LEFT h) = Some ht' \<and> nodes_ok ht' (sift_down (due ht) xs e h) \<and>
     frame K ht ht'"
proof (induction "length xs - h" arbitrary: ht xs h rule: less_induct)
  case less
  have h: "h < length xs" "length xs \<le> length (th_heap ht)" using less(2) by (auto simp: hole_ok_def)
  show ?case
  proof (cases "HEAP_LEFT h < length xs")
    case False
    then have "reheap_down ht e h (HEAP_LEFT h) = copy_node ht h e"
      using less(3) by (subst reheap_down.simps) simp
    moreover have "sift_down (due ht) xs e h = xs[h := e]"
      using False by (subst sift_down.simps) simp
    ultimately show ?thesis using place_node [OF less(2,4)] by simp
  next
    case True
    define c where "c = small_child (due ht) xs (HEAP_LEFT h)"
    have hc: "h < c" unfolding c_def using left_greater small_child_ge(1) by (rule order_less_le_trans)
    have cl: "c < length xs" unfolding c_def using True by (rule small_child_less)
    have sc: "small_child_of ht (HEAP_LEFT h) = Some c"
      unfolding c_def using less(2,3) left_greater True by (rule small_child_refines)
    have rd: "rd_heap ht c = Some (xs ! c)"
      using less(2) hc cl h by (auto simp: hole_ok_def rd_heap_def)
    show ?thesis
    proof (cases "due ht (xs ! c) < due ht e")
      case lt: False
      have "reheap_down ht e h (HEAP_LEFT h) = copy_node ht h e"
        using less(3) True sc rd lt by (subst reheap_down.simps) (simp add: LT_due)
      moreover have "sift_down (due ht) xs e h = xs[h := e]"
        using True lt by (subst sift_down.simps) (simp add: Let_def c_def [symmetric])
      ultimately show ?thesis using place_node [OF less(2,4)] by simp
    next
      case lt: True
      have ch: "c \<noteq> h" using hc by simp
      obtain ht1 where ht1: "copy_node ht h (xs ! c) = Some ht1" "hole_ok ht1 (xs[h := xs ! c]) c e"
          "frame K ht ht1"
        using move_hole [OF less(2) cl ch less(4)] by blast
      note fr = frameD [OF ht1(3)]
      have K: "tid ht1 ` set ((xs[h := xs ! c])[c := e]) \<subseteq> K"
        using less(4) hole_set_move [OF h(1) cl ch] fr by simp
      have "length (xs[h := xs ! c]) - c < length xs - h" using hc cl by simp
      from less(1) [OF this ht1(2) _ K] obtain ht2 where
        ht2: "reheap_down ht1 e c (HEAP_LEFT c) = Some ht2"
          "nodes_ok ht2 (sift_down (due ht1) (xs[h := xs ! c]) e c)" "frame K ht1 ht2"
        using less(3) fr by auto
      have "reheap_down ht e h (HEAP_LEFT h) = Some ht2"
        using less(3) True sc rd lt ht1(1) ht2(1) by (subst reheap_down.simps) (simp add: LT_due)
      moreover have "sift_down (due ht) xs e h = sift_down (due ht1) (xs[h := xs ! c]) e c"
        using True lt fr by (subst sift_down.simps) (simp add: Let_def c_def [symmetric])
      ultimately show ?thesis using ht2 frame_trans [OF ht1(3) ht2(3)] by simp
    qed
  qed
qed

section \<open>The free list\<close>

fun free_chain :: "int list \<Rightarrow> int \<Rightarrow> nat list \<Rightarrow> nat \<Rightarrow> bool" where
  "free_chain ids f [] m \<longleftrightarrow> f = int m"
| "free_chain ids f (x # xs) m \<longleftrightarrow> f = int x \<and> x < length ids \<and> free_chain ids (- (ids ! x)) xs m"

lemma free_chain_cong:
  "\<forall>i\<in>set fl. ids' ! i = ids ! i \<Longrightarrow> length ids' = length ids \<Longrightarrow> free_chain ids' f fl m = free_chain ids f fl m"
  by (induction fl arbitrary: f) auto

lemma free_chain_interval:
  assumes "m \<le> length ids" "\<forall>i. a \<le> i \<longrightarrow> i < m \<longrightarrow> ids ! i = - int (i + 1)" "a \<le> m"
  shows "free_chain ids (int a) [a..<m] m"
  using assms
proof (induction "m - a" arbitrary: a)
  case (Suc n)
  then have "[a..<m] = a # [Suc a..<m]" by (simp add: upt_conv_Cons)
  moreover have "free_chain ids (int (Suc a)) [Suc a..<m] m" using Suc by (intro Suc(1)) auto
  ultimately show ?case using Suc by (simp add: add.commute)
qed simp

lemma free_chain_grow:
  "free_chain ids f fl m \<Longrightarrow> m \<le> n \<Longrightarrow> length ids = m \<Longrightarrow>
   free_chain (ids @ map (\<lambda>i. - int (i + 1)) [m..<n]) f (fl @ [m..<n]) n"
proof (induction fl arbitrary: f)
  case Nil
  have "free_chain (ids @ map (\<lambda>i. - int (i + 1)) [m..<n]) (int m) [m..<n] n"
    using Nil by (intro free_chain_interval) (auto simp: nth_append)
  then show ?case using Nil by simp
next
  case (Cons x fl)
  then show ?case by (auto simp: nth_append)
qed

section \<open>The invariant\<close>

text \<open>
  \<open>fl\<close> is the free list and \<open>limbo\<close> the ids a poll keeps aside.  Used, free and limbo ids are together
  each id from 1 on exactly once.
\<close>

definition nodes :: "em_timer_heap \<Rightarrow> nat list" where
  "nodes ht = map the (take (th_cur_size ht) (th_heap ht))"

definition tinv :: "em_timer_heap \<Rightarrow> nat list \<Rightarrow> nat list \<Rightarrow> bool" where
  "tinv ht fl limbo \<longleftrightarrow>
     length (th_heap ht) = th_max_size ht \<and> length (th_ids ht) = th_max_size ht \<and>
     th_cur_size ht \<le> th_max_size ht \<and> nodes_ok ht (nodes ht) \<and> heap_order (due ht) (nodes ht) \<and>
     free_chain (th_ids ht) (th_freelist ht) fl (th_max_size ht) \<and>
     mset (map (tid ht) (nodes ht)) + mset fl + mset limbo = mset [1..<th_max_size ht]"

definition pending :: "em_timer_heap \<Rightarrow> ((int \<times> int) \<times> nat) multiset" where
  "pending ht = image_mset (\<lambda>e. (due ht e, e)) (mset (nodes ht))"

lemma nodes_length: "tinv ht fl limbo \<Longrightarrow> length (nodes ht) = th_cur_size ht"
  by (simp add: tinv_def nodes_def)

lemma nodes_eqI:
  "nodes_ok ht xs \<Longrightarrow> th_cur_size ht = length xs \<Longrightarrow> nodes ht = xs"
  by (auto simp: nodes_def nodes_ok_def min_absorb2 intro!: nth_equalityI)

lemma tinv_distinct:
  assumes "tinv ht fl limbo"
  shows "distinct (map (tid ht) (nodes ht) @ fl @ limbo)"
proof -
  have m: "mset (map (tid ht) (nodes ht) @ fl @ limbo) = mset [1..<th_max_size ht]"
    using assms by (simp add: tinv_def ac_simps)
  show ?thesis using mset_eq_imp_distinct_iff [OF m] by (simp only: distinct_upt)
qed

lemma tinv_id_unused:
  assumes "tinv ht fl limbo" "i \<in> set fl \<union> set limbo"
  shows "i \<notin> tid ht ` set (nodes ht)" "1 \<le> i" "i < th_max_size ht"
proof -
  have m: "mset (map (tid ht) (nodes ht) @ fl @ limbo) = mset [1..<th_max_size ht]"
    using assms(1) by (simp add: tinv_def ac_simps)
  show "i \<notin> tid ht ` set (nodes ht)" using tinv_distinct [OF assms(1)] assms(2) by auto
  have "i \<in> set [1..<th_max_size ht]" using mset_eq_setD [OF m] assms(2) by auto
  then show "1 \<le> i" "i < th_max_size ht" by auto
qed

lemma tinv_count:
  assumes "tinv ht fl limbo" "1 \<le> th_max_size ht"
  shows "th_cur_size ht + length fl + length limbo + 1 = th_max_size ht"
proof -
  have "size (mset (map (tid ht) (nodes ht)) + mset fl + mset limbo) = size (mset [1..<th_max_size ht])"
    using assms(1) by (simp add: tinv_def)
  then show ?thesis using nodes_length [OF assms(1)] assms(2) by simp
qed

section \<open>The operations keep the invariant\<close>

definition same_env :: "em_timer_heap \<Rightarrow> em_timer_heap \<Rightarrow> bool" where
  "same_env ht ht' \<longleftrightarrow> th_lock ht' = th_lock ht \<and> th_max_per_poll ht' = th_max_per_poll ht \<and>
     th_grp_refs ht' = th_grp_refs ht \<and> th_mem_ok ht' = th_mem_ok ht"

lemma same_env_trans: "same_env a b \<Longrightarrow> same_env b c \<Longrightarrow> same_env a c"
  by (simp add: same_env_def)

lemma frame_env: "frame K a b \<Longrightarrow> same_env a b"
  using frameD(7,8,9,13) by (simp add: same_env_def)

lemma heap_create_ok:
  assumes "em_timer_heap_create ok1 ok2 ok3 grow_ok n ents = (EM_SUCC, Some ht)"
  shows "tinv ht [1..<n + 2] []" "nodes ht = []" "th_max_size ht = n + 2" "th_mem_ok ht = grow_ok"
    "th_lock ht = None" "th_entries ht = ents" "th_cur_size ht = 0" "th_max_per_poll ht = 64"
proof -
  have ht: "ht = \<lparr>th_max_size = n + 2, th_cur_size = 0, th_max_per_poll = 64, th_lock = None,
      th_auto_delete = False, th_heap = replicate (n + 2) None,
      th_ids = map (\<lambda>i. - int (i + 1)) [0..<n + 2], th_freelist = 1, th_entries = ents,
      th_grp_refs = (\<lambda>_. 0), th_mem_ok = grow_ok\<rparr>"
    using assms by (auto simp: em_timer_heap_create_def Let_def DEFAULT_MAX_TIMED_OUT_PER_POLL_def errno
        split: if_splits)
  have "free_chain (map (\<lambda>i. - int (i + 1)) [0..<n + 2]) (int 1) [1..<n + 2] (n + 2)"
    by (rule free_chain_interval) (auto simp: nth_append simp del: upt_Suc)
  then show "tinv ht [1..<n + 2] []"
    by (simp add: ht tinv_def nodes_def nodes_ok_def ids_ok_def heap_order_def del: upt_Suc)
qed (use assms in \<open>auto simp: em_timer_heap_create_def Let_def nodes_def errno
    DEFAULT_MAX_TIMED_OUT_PER_POLL_def split: if_splits\<close>)

lemma tinv_cong:
  assumes "tinv ht fl limbo" "th_heap ht' = th_heap ht" "th_ids ht' = th_ids ht" "th_cur_size ht' = th_cur_size ht"
    "th_max_size ht' = th_max_size ht" "th_freelist ht' = th_freelist ht"
    "\<forall>e\<in>set (nodes ht). te_timer_id (entry ht' e) = te_timer_id (entry ht e) \<and>
       te_value (entry ht' e) = te_value (entry ht e)"
  shows "tinv ht' fl limbo" "nodes ht' = nodes ht"
proof -
  show n: "nodes ht' = nodes ht" using assms by (simp add: nodes_def)
  have t: "tid ht' e = tid ht e" "due ht' e = due ht e" if "e \<in> set (nodes ht)" for e
    using assms(7) that by (simp_all add: tid_def due_def)
  have "image_mset (tid ht') (mset (nodes ht)) = image_mset (tid ht) (mset (nodes ht))"
    using t by (intro image_mset_cong) simp
  moreover have "nodes_ok ht' (nodes ht)"
    using assms t by (auto simp: tinv_def nodes_ok_def ids_ok_def cong: map_cong)
  moreover have "HEAP_PARENT j < length (nodes ht)" if "j < length (nodes ht)" for j
    using that parent_le order_le_less_trans by blast
  then have "heap_order (due ht') (nodes ht)"
    using assms(1) t by (auto simp: tinv_def heap_order_def)
  ultimately show "tinv ht' fl limbo" using assms n by (simp add: tinv_def)
qed

lemma pop_ok:
  assumes "tinv ht (x # fl) limbo"
  shows "\<exists>f. pop_freelist ht = Some (int x, ht\<lparr>th_freelist := f\<rparr>) \<and>
    tinv (ht\<lparr>th_freelist := f\<rparr>) fl (x # limbo)"
proof -
  have c: "th_freelist ht = int x" "x < length (th_ids ht)"
    "free_chain (th_ids ht) (- (th_ids ht ! x)) fl (th_max_size ht)"
    using assms by (auto simp: tinv_def)
  let ?ht = "ht\<lparr>th_freelist := - (th_ids ht ! x)\<rparr>"
  have "pop_freelist ht = Some (int x, ?ht)" using c by (simp add: pop_freelist_def rd_id_def mem)
  moreover have "nodes ?ht = nodes ht" "tid ?ht = tid ht" "due ?ht = due ht"
    by (auto simp: nodes_def tid_def due_def)
  then have "tinv ?ht fl (x # limbo)"
    using assms c by (auto simp: tinv_def nodes_ok_def ids_ok_def)
  ultimately show ?thesis by blast
qed

lemma push_ok:
  assumes "tinv ht fl (x # limbo)"
  shows "\<exists>m. push_freelist ht (int x) = Some (ht\<lparr>th_ids := m, th_freelist := int x\<rparr>) \<and>
    tinv (ht\<lparr>th_ids := m, th_freelist := int x\<rparr>) (x # fl) limbo"
proof -
  have u: "x \<notin> tid ht ` set (nodes ht)" "x < length (th_ids ht)"
    using tinv_id_unused [OF assms, of x] assms by (auto simp: tinv_def)
  have d: "distinct (fl @ x # limbo)" using tinv_distinct [OF assms] by simp
  let ?m = "(th_ids ht)[x := - th_freelist ht]"
  let ?ht = "ht\<lparr>th_ids := ?m, th_freelist := int x\<rparr>"
  have "push_freelist ht (int x) = Some ?ht"
    using u by (simp add: push_freelist_def wr_id_def mem)
  moreover have n: "nodes ?ht = nodes ht" "tid ?ht = tid ht" "due ?ht = due ht"
    by (auto simp: nodes_def tid_def due_def)
  have "\<forall>i\<in>set fl. ?m ! i = th_ids ht ! i" using d by (auto intro!: nth_list_update_neq)
  then have "free_chain ?m (th_freelist ht) fl (th_max_size ht)"
    using assms by (subst free_chain_cong [of fl _ "th_ids ht"]) (auto simp: tinv_def)
  moreover have "x \<noteq> tid ht (nodes ht ! j)" if "j < length (nodes ht)" for j using u(1) that by auto
  then have "nodes_ok ?ht (nodes ht)"
    using assms n by (auto simp: tinv_def nodes_ok_def ids_ok_def nth_list_update)
  ultimately show ?thesis
    using assms u n by (intro exI [of _ ?m] conjI) (auto simp: tinv_def)
qed

lemma grow_ok:
  assumes "tinv ht fl limbo" "th_mem_ok ht" "1 \<le> th_max_size ht"
  shows "\<exists>ht'. grow_heap ht = Some ht' \<and> tinv ht' (fl @ [th_max_size ht..<2 * th_max_size ht]) limbo \<and>
    nodes ht' = nodes ht \<and> th_max_size ht' = 2 * th_max_size ht \<and> th_cur_size ht' = th_cur_size ht \<and>
    th_entries ht' = th_entries ht \<and> same_env ht ht'"
proof -
  let ?n = "th_max_size ht"
  let ?ht = "ht\<lparr>th_heap := th_heap ht @ replicate ?n None,
      th_ids := th_ids ht @ map (\<lambda>i. - int (i + 1)) [?n..<2 * ?n], th_max_size := 2 * ?n\<rparr>"
  have l: "length (th_heap ht) = ?n" "length (th_ids ht) = ?n" "th_cur_size ht \<le> ?n"
    using assms(1) by (auto simp: tinv_def)
  have g: "grow_heap ht = Some ?ht"
    using assms(2) l by (simp add: grow_heap_def mem Let_def mult.commute)
  have n: "nodes ?ht = nodes ht" "tid ?ht = tid ht" "due ?ht = due ht"
    using l by (auto simp: nodes_def tid_def due_def)
  have no: "nodes_ok ht (nodes ht)" using assms(1) by (simp add: tinv_def)
  have "nodes_ok ?ht (nodes ht)" by (rule nodes_ok_extend [OF no]) simp_all
  moreover have "free_chain (th_ids ?ht) (th_freelist ht) (fl @ [?n..<2 * ?n]) (2 * ?n)"
    using free_chain_grow [of "th_ids ht" "th_freelist ht" fl ?n "2 * ?n"] assms(1) l by (simp add: tinv_def)
  moreover have "[1..<2 * ?n] = [1..<?n] @ [?n..<2 * ?n]"
    using assms(3) upt_add_eq_append [of 1 ?n ?n] by (simp add: mult_2)
  then have "mset (map (tid ht) (nodes ht)) + mset (fl @ [?n..<2 * ?n]) + mset limbo = mset [1..<2 * ?n]"
    using assms(1) by (simp add: tinv_def ac_simps)
  ultimately have "tinv ?ht (fl @ [?n..<2 * ?n]) limbo"
    using assms(1) l n by (auto simp: tinv_def)
  with g n show ?thesis by (auto simp: same_env_def)
qed

lemma insert_placed:
  assumes inv: "tinv ht fl (x # limbo)" and e: "e \<notin> set (nodes ht)" "te_timer_id (entry ht e) = int x"
    and room: "th_cur_size ht + 1 \<le> th_max_size ht"
  shows "\<exists>ht'. reheap_up ht e (th_cur_size ht) = Some ht' \<and>
    (let h = ht'\<lparr>th_cur_size := th_cur_size ht' + 1\<rparr> in
       tinv h fl limbo \<and> mset (nodes h) = add_mset e (mset (nodes ht)) \<and>
       th_cur_size ht' = th_cur_size ht \<and> th_max_size h = th_max_size ht \<and>
       th_entries h = th_entries ht \<and> same_env ht h)"
proof -
  let ?n = "th_cur_size ht" and ?xs = "nodes ht"
  have x: "x \<notin> tid ht ` set ?xs" "1 \<le> x" "x < length (th_ids ht)"
    using tinv_id_unused [OF inv, of x] inv by (auto simp: tinv_def)
  have tx: "tid ht e = x" using e(2) by (simp add: tid_def)
  have l: "length ?xs = ?n" using inv by (rule nodes_length)
  have ok: "nodes_ok ht ?xs" "length (th_heap ht) = th_max_size ht" using inv by (auto simp: tinv_def)
  have "ids_ok ht (?xs @ [e])" using ok(1) x tx e(2) by (auto simp: nodes_ok_def ids_ok_def)
  moreover have lu: "(?xs @ [e])[?n := e] = ?xs @ [e]" unfolding l [symmetric] by (rule list_update_length)
  ultimately have ho: "hole_ok ht (?xs @ [e]) ?n e"
    using ok l room by (auto simp: hole_ok_def nodes_ok_def nth_append)
  have K: "tid ht ` set ((?xs @ [e])[?n := e]) \<subseteq> tid ht ` insert e (set ?xs)"
    by (simp add: lu)
  obtain ht' where h': "reheap_up ht e ?n = Some ht'"
      "nodes_ok ht' (sift_up (due ht) (?xs @ [e]) e ?n)" "frame (tid ht ` insert e (set ?xs)) ht ht'"
    using reheap_up_refines [OF ho K] by blast
  note fr = frameD [OF h'(3)]
  let ?h = "ht'\<lparr>th_cur_size := th_cur_size ht' + 1\<rparr>"
  have si: "sift_up (due ht) (?xs @ [e]) e ?n = heap_insert (due ht) ?xs e" using l by (simp add: heap_insert_def)
  have hi: "heap_order (due ht) (heap_insert (due ht) ?xs e)"
      "mset (heap_insert (due ht) ?xs e) = add_mset e (mset ?xs)"
    using inv heap_insert_spec by (auto simp: tinv_def)
  have same: "tid ?h = tid ht" "due ?h = due ht" using fr by (auto simp: tid_def due_def)
  have nh: "nodes_ok ?h (heap_insert (due ht) ?xs e)"
    using h'(2) si nodes_ok_cong [of ?h ht'] by simp
  then have nn: "nodes ?h = heap_insert (due ht) ?xs e"
    using fr l by (intro nodes_eqI) (simp_all add: heap_insert_def)
  have "\<forall>i\<in>set fl. i \<notin> tid ht ` insert e (set ?xs)"
    using tinv_distinct [OF inv] tx by auto
  then have "free_chain (th_ids ht') (th_freelist ht) fl (th_max_size ht)"
    using fr inv by (subst free_chain_cong [of fl _ "th_ids ht"]) (auto simp: tinv_def)
  then have "tinv ?h fl limbo"
    using inv fr nh nn hi same tx room by (auto simp: tinv_def)
  then show ?thesis
    using h'(1) fr hi(2) nn frame_env [OF h'(3)] by (auto simp: Let_def same_env_def)
qed

lemma insert_ok:
  assumes inv: "tinv ht fl (x # limbo)" and e: "e \<notin> set (nodes ht)" "te_timer_id (entry ht e) = int x"
    and mem: "th_cur_size ht + 2 \<ge> th_max_size ht \<longrightarrow> th_mem_ok ht"
  shows "\<exists>ht' fl'. insert_node ht e = Some ht' \<and> tinv ht' fl' limbo \<and>
    mset (nodes ht') = add_mset e (mset (nodes ht)) \<and> th_cur_size ht' = th_cur_size ht + 1 \<and>
    th_entries ht' = th_entries ht \<and> same_env ht ht' \<and>
    th_max_size ht' = (if th_cur_size ht + 2 \<ge> th_max_size ht then 2 * th_max_size ht else th_max_size ht)"
proof (cases "th_cur_size ht + 2 \<ge> th_max_size ht")
  case True
  have m: "1 \<le> th_max_size ht" using tinv_id_unused [OF inv, of x] by simp
  obtain h1 where h1: "grow_heap ht = Some h1" "tinv h1 (fl @ [th_max_size ht..<2 * th_max_size ht]) (x # limbo)"
      "nodes h1 = nodes ht" "th_max_size h1 = 2 * th_max_size ht" "th_cur_size h1 = th_cur_size ht"
      "th_entries h1 = th_entries ht" "same_env ht h1"
    using grow_ok [OF inv _ m] mem True by blast
  have r: "th_cur_size h1 + 1 \<le> th_max_size h1" using h1(4,5) inv m by (simp add: tinv_def)
  from insert_placed [OF h1(2) _ _ r, of e] e h1 obtain h2 where
    "reheap_up h1 e (th_cur_size h1) = Some h2"
    "let h = h2\<lparr>th_cur_size := th_cur_size h2 + 1\<rparr> in
       tinv h (fl @ [th_max_size ht..<2 * th_max_size ht]) limbo \<and> mset (nodes h) = add_mset e (mset (nodes h1)) \<and>
       th_cur_size h2 = th_cur_size h1 \<and> th_max_size h = th_max_size h1 \<and>
       th_entries h = th_entries h1 \<and> same_env h1 h"
    by auto
  with True h1 same_env_trans [OF h1(7)] show ?thesis
    by (auto simp: insert_node_def Let_def)
next
  case False
  then have r: "th_cur_size ht + 1 \<le> th_max_size ht" by simp
  from insert_placed [OF inv e r] False show ?thesis by (auto simp: insert_node_def Let_def)
qed

lemma schedule_entry_ok:
  assumes inv: "tinv ht (x # fl) limbo" and e: "e \<notin> set (nodes ht)"
    and mem: "th_cur_size ht + 2 \<ge> th_max_size ht \<longrightarrow> th_mem_ok ht"
  shows "\<exists>ht' fl'. schedule_entry ht e t = Some (0, ht') \<and> tinv ht' fl' limbo \<and>
    pending ht' = add_mset (tkey t, e) (pending ht) \<and> th_cur_size ht' = th_cur_size ht + 1 \<and>
    th_entries ht' = (th_entries ht)(e := (entry ht e)\<lparr>te_timer_id := int x, te_value := t\<rparr>) \<and> same_env ht ht' \<and>
    th_max_size ht' = (if th_cur_size ht + 2 \<ge> th_max_size ht then 2 * th_max_size ht else th_max_size ht)"
proof -
  have m: "1 \<le> th_max_size ht" using inv by (auto simp: tinv_def)
  have lt: "th_cur_size ht < th_max_size ht" using tinv_count [OF inv m] by simp
  obtain f where f: "pop_freelist ht = Some (int x, ht\<lparr>th_freelist := f\<rparr>)"
      "tinv (ht\<lparr>th_freelist := f\<rparr>) fl (x # limbo)"
    using pop_ok [OF inv] by blast
  let ?h1 = "ht\<lparr>th_freelist := f\<rparr>"
  let ?h2 = "set_entry ?h1 e ((entry ?h1 e)\<lparr>te_timer_id := int x, te_value := t\<rparr>)"
  have n1: "nodes ?h1 = nodes ht" by (simp add: nodes_def)
  have h2: "tinv ?h2 fl (x # limbo)" "nodes ?h2 = nodes ht"
    using tinv_cong [OF f(2), of ?h2] e n1 by (auto simp: set_entry_def)
  obtain h3 fl' where h3: "insert_node ?h2 e = Some h3" "tinv h3 fl' limbo"
      "mset (nodes h3) = add_mset e (mset (nodes ht))" "th_cur_size h3 = th_cur_size ht + 1"
      "th_entries h3 = th_entries ?h2" "same_env ?h2 h3"
      "th_max_size h3 = (if th_cur_size ht + 2 \<ge> th_max_size ht then 2 * th_max_size ht else th_max_size ht)"
    using insert_ok [OF h2(1), of e] h2(2) e mem by (auto simp: set_entry_def)
  have "due h3 e = tkey t" "\<And>d. d \<in> set (nodes ht) \<Longrightarrow> due h3 d = due ht d"
    using h3(5) e by (auto simp: due_def set_entry_def)
  moreover from this have "image_mset (\<lambda>d. (due h3 d, d)) (mset (nodes ht)) =
      image_mset (\<lambda>d. (due ht d, d)) (mset (nodes ht))"
    by (intro image_mset_cong) simp
  ultimately have "pending h3 = add_mset (tkey t, e) (pending ht)"
    unfolding pending_def h3(3) by simp
  moreover have "same_env ht h3" using h3(6) by (simp add: same_env_def set_entry_def)
  ultimately show ?thesis
    using f(1) h3 lt by (auto simp: schedule_entry_def set_entry_def)
qed

text \<open>
  Removal in two steps: the node is detached (its id goes to the free list, the size drops), then the
  hole it leaves is repaired.  \<open>rest xs i\<close> is what remains, with the last element in the hole.
\<close>

definition detach :: "em_timer_heap \<Rightarrow> nat \<Rightarrow> em_timer_heap" where
  "detach ht e = ht\<lparr>th_ids := (th_ids ht)[tid ht e := - th_freelist ht], th_freelist := int (tid ht e),
     th_cur_size := th_cur_size ht - 1,
     th_entries := (th_entries ht)(e := (entry ht e)\<lparr>te_timer_id := - 1\<rparr>)\<rparr>"

definition rest :: "nat list \<Rightarrow> nat \<Rightarrow> nat list" where
  "rest xs i = (if i < length (butlast xs) then (butlast xs)[i := last xs] else butlast xs)"

lemma rest_mset: "i < length xs \<Longrightarrow> mset xs = add_mset (xs ! i) (mset (rest xs i))"
  using remove_mset [of i xs] by (simp add: rest_def)

lemma rest_set: "i < length xs \<Longrightarrow> set xs = insert (xs ! i) (set (rest xs i))"
  using rest_mset [of i xs] by (metis set_mset_add_mset_insert set_mset_mset)

lemma rest_length: "length (rest xs i) = length xs - 1"
  by (simp add: rest_def)

lemma detach_same: "due (detach ht e) = due ht" "d \<noteq> e \<Longrightarrow> tid (detach ht e) d = tid ht d"
  by (auto simp: detach_def due_def tid_def)

lemma remove_node_split:
  assumes "nodes_ok ht (nodes ht)" "slot < length (nodes ht)" "e = nodes ht ! slot"
  shows "remove_node ht slot = map_option (Pair e) (refill_slot (detach ht e) slot)" "tid ht e < length (th_ids ht)"
proof -
  have rd: "rd_heap ht slot = Some e" using assms by (auto simp: nodes_ok_def rd_heap_def)
  have "e \<in> set (nodes ht)" using assms by simp
  then have e: "1 \<le> te_timer_id (entry ht e)" "tid ht e < length (th_ids ht)"
    using assms(1) by (auto simp: nodes_ok_def ids_ok_def)
  then show "tid ht e < length (th_ids ht)" by simp
  have id: "te_timer_id (entry ht e) = int (tid ht e)" using e by (simp add: tid_def)
  have "push_freelist ht (te_timer_id (entry ht e)) =
      Some (ht\<lparr>th_ids := (th_ids ht)[tid ht e := - th_freelist ht], th_freelist := int (tid ht e)\<rparr>)"
    unfolding id push_freelist_def wr_id_def using e(2) by (simp add: mem)
  then show "remove_node ht slot = map_option (Pair e) (refill_slot (detach ht e) slot)"
    using rd by (simp add: remove_node_def detach_def set_entry_def Let_def map_option_case
        split: option.splits)
qed

lemma detach_cells:
  assumes no: "nodes_ok ht (nodes ht)" and slot: "slot < length (nodes ht)" and e: "e = nodes ht ! slot"
  shows "ids_ok (detach ht e) (rest (nodes ht) slot)"
    "\<And>d. d \<in> set (rest (nodes ht) slot) \<Longrightarrow> tid (detach ht e) d = tid ht d \<and> tid ht d \<noteq> tid ht e"
    "\<And>j. j < length (nodes ht) \<Longrightarrow> j \<noteq> slot \<Longrightarrow> th_heap (detach ht e) ! j = Some (nodes ht ! j) \<and>
       th_ids (detach ht e) ! tid (detach ht e) (nodes ht ! j) = int j"
proof -
  let ?xs = "nodes ht" and ?h = "detach ht e" and ?zs = "rest (nodes ht) slot"
  have ids: "ids_ok ht (e # ?zs)"
    using ids_ok_mset [of ?xs "e # ?zs"] rest_mset [OF slot] no e by (simp add: nodes_ok_def)
  show zt: "tid ?h d = tid ht d \<and> tid ht d \<noteq> tid ht e" if d: "d \<in> set ?zs" for d
  proof -
    have "tid ht d \<in> tid ht ` set ?zs" using d by (rule imageI)
    then have "tid ht d \<noteq> tid ht e" using ids by (auto simp: ids_ok_def)
    then show ?thesis using detach_same(2) [of d e ht] by auto
  qed
  then have m: "map (tid ?h) ?zs = map (tid ht) ?zs" by simp
  have "distinct (map (tid ?h) ?zs)" unfolding m using ids by (simp add: ids_ok_def)
  moreover have "entry ?h d = entry ht d" if "d \<in> set ?zs" for d
    using zt [OF that] by (auto simp: detach_def)
  moreover have "length (th_ids ?h) = length (th_ids ht)" by (simp add: detach_def)
  ultimately show "ids_ok ?h ?zs" using ids zt by (simp add: ids_ok_def)
  have dist: "distinct (map (tid ht) ?xs)" using no by (simp add: nodes_ok_def ids_ok_def)
  fix j assume j: "j < length ?xs" "j \<noteq> slot"
  then have ne: "tid ht (?xs ! j) \<noteq> tid ht e"
    using dist slot e nth_eq_iff_index_eq [of "map (tid ht) ?xs" j slot] by simp
  then have "tid ?h (?xs ! j) = tid ht (?xs ! j)" by (intro detach_same(2)) auto
  with ne no j show "th_heap ?h ! j = Some (?xs ! j) \<and> th_ids ?h ! tid ?h (?xs ! j) = int j"
    by (simp add: nodes_ok_def detach_def)
qed

lemma refill_hole:
  assumes no: "nodes_ok h zs" and s: "slot < length zs" "th_cur_size h = length zs"
  shows "\<exists>h'. (do { p \<leftarrow> rd_heap h (HEAP_PARENT slot);
      if EM_TIME_VAL_GTE (te_value (entry h (zs ! slot))) (te_value (entry h p))
      then reheap_down h (zs ! slot) slot (HEAP_LEFT slot) else reheap_up h (zs ! slot) slot }) = Some h' \<and>
    nodes_ok h' (if due h (zs ! HEAP_PARENT slot) \<le> due h (zs ! slot) then sift_down (due h) zs (zs ! slot) slot
       else sift_up (due h) zs (zs ! slot) slot) \<and> frame (tid h ` set zs) h h'"
proof -
  have ho: "hole_ok h zs slot (zs ! slot)" by (rule nodes_hole [OF no s(1)])
  have K: "tid h ` set (zs[slot := zs ! slot]) \<subseteq> tid h ` set zs" by simp
  have "HEAP_PARENT slot < length zs" using s(1) parent_le order_le_less_trans by blast
  then have rd: "rd_heap h (HEAP_PARENT slot) = Some (zs ! HEAP_PARENT slot)"
    using no by (auto simp: nodes_ok_def rd_heap_def)
  show ?thesis
    using rd reheap_down_refines [OF ho s(2) K] reheap_up_refines [OF ho K]
    by (cases "due h (zs ! HEAP_PARENT slot) \<le> due h (zs ! slot)") (auto simp: GTE_due)
qed

lemma refill_ok:
  assumes no: "nodes_ok ht (nodes ht)" and l: "th_cur_size ht = length (nodes ht)"
    and slot: "slot < length (nodes ht)" and e: "e = nodes ht ! slot"
  shows "\<exists>h. refill_slot (detach ht e) slot = Some h \<and> nodes_ok h (heap_remove (due ht) (nodes ht) slot) \<and>
    frame (tid ht ` set (rest (nodes ht) slot)) (detach ht e) h"
proof -
  let ?xs = "nodes ht" and ?h = "detach ht e" and ?zs = "rest (nodes ht) slot"
  note c = detach_cells [OF no slot e]
  have len: "length ?xs \<le> length (th_heap ?h)" "th_cur_size ?h = length ?xs - 1"
    using no l by (auto simp: nodes_ok_def detach_def)
  have t: "tid ?h ` set ?zs = tid ht ` set ?zs" using c(2) by force
  show ?thesis
  proof (cases "slot < length ?xs - 1")
    case False
    then have z: "?zs = butlast ?xs" "heap_remove (due ht) ?xs slot = butlast ?xs"
      by (simp_all add: rest_def heap_remove_def Let_def)
    then have "nodes_ok ?h (butlast ?xs)"
      using c(1,3) False len by (auto simp: nodes_ok_def nth_butlast)
    then show ?thesis using z False len by (auto simp: refill_slot_def frame_def)
  next
    case True
    then have z: "?zs = (butlast ?xs)[slot := last ?xs]" "slot < length ?zs" "?zs ! slot = last ?xs"
      by (simp_all add: rest_def)
    have nn: "?xs \<noteq> []" using True by auto
    have rdm: "rd_heap ?h (length ?xs - 1) = Some (last ?xs)"
      using c(3) [of "length ?xs - 1"] True nn len by (auto simp: rd_heap_def last_conv_nth)
    have ho: "hole_ok ?h (butlast ?xs) slot (last ?xs)"
      using True c(1,3) z len by (auto simp: hole_ok_def nth_butlast)
    obtain h where h: "copy_node ?h slot (last ?xs) = Some h" "nodes_ok h ?zs" "frame (tid ht ` set ?zs) ?h h"
      using place_node [OF ho, of "tid ht ` set ?zs"] z(1) t by auto
    note fr = frameD [OF h(3)]
    have cs: "th_cur_size h = length ?zs" using fr len by (simp add: rest_length)
    obtain h' where h': "(do { p \<leftarrow> rd_heap h (HEAP_PARENT slot);
        if EM_TIME_VAL_GTE (te_value (entry h (?zs ! slot))) (te_value (entry h p))
        then reheap_down h (?zs ! slot) slot (HEAP_LEFT slot) else reheap_up h (?zs ! slot) slot }) = Some h'"
      "nodes_ok h' (if due h (?zs ! HEAP_PARENT slot) \<le> due h (?zs ! slot)
         then sift_down (due h) ?zs (?zs ! slot) slot else sift_up (due h) ?zs (?zs ! slot) slot)"
      "frame (tid h ` set ?zs) h h'"
      using refill_hole [OF h(2) z(2) cs] by blast
    have rm: "heap_remove (due ht) ?xs slot = (if due h (?zs ! HEAP_PARENT slot) \<le> due h (?zs ! slot)
         then sift_down (due h) ?zs (?zs ! slot) slot else sift_up (due h) ?zs (?zs ! slot) slot)"
      using True z fr by (simp add: heap_remove_def Let_def detach_same)
    have f2: "frame (tid ht ` set ?zs) h h'" using h'(3) fr t by simp
    have "refill_slot ?h slot = Some h'"
      using True len rdm h(1) h'(1) [unfolded z(3)] by (simp add: refill_slot_def)
    with h'(2) frame_trans [OF h(3) f2] show ?thesis unfolding rm by blast
  qed
qed

lemma remove_ok:
  assumes inv: "tinv ht fl limbo" and slot: "slot < th_cur_size ht" and e: "e = nodes ht ! slot"
  shows "\<exists>ht'. remove_node ht slot = Some (e, ht') \<and> tinv ht' (tid ht e # fl) limbo \<and>
    mset (nodes ht) = add_mset e (mset (nodes ht')) \<and>
    th_cur_size ht' = th_cur_size ht - 1 \<and> th_max_size ht' = th_max_size ht \<and>
    th_entries ht' = (th_entries ht)(e := (entry ht e)\<lparr>te_timer_id := - 1\<rparr>) \<and> same_env ht ht'"
proof -
  let ?xs = "nodes ht" and ?zs = "rest (nodes ht) slot"
  have l: "th_cur_size ht = length ?xs" using nodes_length [OF inv] by simp
  have no: "nodes_ok ht ?xs" and sl: "slot < length ?xs" using inv slot l by (auto simp: tinv_def)
  obtain h where h: "refill_slot (detach ht e) slot = Some h" "nodes_ok h (heap_remove (due ht) ?xs slot)"
      "frame (tid ht ` set ?zs) (detach ht e) h"
    using refill_ok [OF no l sl e] by blast
  note fr = frameD [OF h(3)] and c = detach_cells [OF no sl e]
  have hs: "heap_order (due ht) (heap_remove (due ht) ?xs slot)"
    "mset (heap_remove (due ht) ?xs slot) = mset ?zs"
    using heap_remove_spec [of "due ht" ?xs slot] inv sl rest_mset [OF sl] by (auto simp: tinv_def)
  have nn: "nodes h = heap_remove (due ht) ?xs slot"
    using h(2) fr mset_eq_length [OF hs(2)] l by (intro nodes_eqI) (simp_all add: rest_length detach_def)
  have ts: "\<forall>d\<in>set ?zs. tid h d = tid ht d" using c(2) fr by simp
  then have "image_mset (tid h) (mset ?zs) = image_mset (tid ht) (mset ?zs)"
    by (intro image_mset_cong) simp
  then have ms: "mset (map (tid h) (nodes h)) + mset (tid ht e # fl) + mset limbo = mset [1..<th_max_size ht]"
    using inv rest_mset [OF sl] e by (simp add: tinv_def nn hs(2))
  have "tid ht e \<notin> tid ht ` set ?zs" using c(2) by force
  then have "th_ids h ! tid ht e = - th_freelist ht"
    using fr(10) remove_node_split(2) [OF no sl e] by (simp add: detach_def)
  moreover have "th_ids h ! i = th_ids ht ! i" if "i \<in> set fl" for i
  proof -
    have "i \<notin> tid ht ` set ?xs" using tinv_id_unused(1) [OF inv] that by auto
    then have "i \<notin> tid ht ` set ?zs" "i \<noteq> tid ht e" using rest_set [OF sl] e by auto
    then show ?thesis using fr(10) by (simp add: detach_def)
  qed
  ultimately have "free_chain (th_ids h) (- (th_ids h ! tid ht e)) fl (th_max_size ht)"
    using inv fr by (subst free_chain_cong [of fl _ "th_ids ht"]) (auto simp: tinv_def detach_def)
  moreover have "th_cur_size ht - 1 \<le> th_max_size ht" using inv by (auto simp: tinv_def)
  moreover have d: "th_heap (detach ht e) = th_heap ht" "length (th_ids (detach ht e)) = length (th_ids ht)"
    "th_cur_size (detach ht e) = th_cur_size ht - 1" "th_max_size (detach ht e) = th_max_size ht"
    "th_freelist (detach ht e) = int (tid ht e)" by (simp_all add: detach_def)
  ultimately have "tinv h (tid ht e # fl) limbo"
    using ms hs(1) h(2) fr nn inv remove_node_split(2) [OF no sl e]
    by (simp add: tinv_def detach_same d)
  moreover have "mset ?xs = add_mset e (mset (nodes h))" using rest_mset [OF sl] e nn hs(2) by simp
  moreover have "same_env ht h" using frame_env [OF h(3)] by (simp add: same_env_def detach_def)
  ultimately show ?thesis
    using remove_node_split(1) [OF no sl e] h(1) fr by (auto simp: detach_def)
qed

section \<open>A queue of timers\<close>

text \<open>
  What the heap promises to its users: a priority queue.  \<open>pend\<close> is the bag of waiting elements with
  their keys.
\<close>

fun fill :: "('s \<Rightarrow> 'e \<Rightarrow> 'k \<Rightarrow> 's option) \<Rightarrow> 's \<Rightarrow> ('k \<times> 'e) list \<Rightarrow> 's option" where
  "fill ins s [] = Some s"
| "fill ins s ((k, e) # xs) = (case ins s e k of None \<Rightarrow> None | Some s' \<Rightarrow> fill ins s' xs)"

fun drain :: "('s \<Rightarrow> ('e \<times> 's) option) \<Rightarrow> nat \<Rightarrow> 's \<Rightarrow> ('e list \<times> 's) option" where
  "drain pop 0 s = Some ([], s)"
| "drain pop (Suc n) s = (case pop s of None \<Rightarrow> None
     | Some (e, s') \<Rightarrow> map_option (\<lambda>(es, r). (e # es, r)) (drain pop n s'))"

locale min_queue =
  fixes ins :: "'s \<Rightarrow> 'e \<Rightarrow> 'k::linorder \<Rightarrow> 's option"
    and pop :: "'s \<Rightarrow> ('e \<times> 's) option"
    and inv :: "'s \<Rightarrow> bool"
    and pend :: "'s \<Rightarrow> ('k \<times> 'e) multiset"
  assumes ins_ok: "\<And>s e k. inv s \<Longrightarrow> e \<notin> snd ` set_mset (pend s) \<Longrightarrow>
      \<exists>s'. ins s e k = Some s' \<and> inv s' \<and> pend s' = add_mset (k, e) (pend s)"
    and pop_ok: "\<And>s. inv s \<Longrightarrow> pend s \<noteq> {#} \<Longrightarrow>
      \<exists>k e s'. pop s = Some (e, s') \<and> inv s' \<and> pend s = add_mset (k, e) (pend s') \<and>
        (\<forall>p\<in>#pend s. k \<le> fst p)"
begin

lemma fill_ok:
  "inv s \<Longrightarrow> distinct (map snd xs) \<Longrightarrow> snd ` set xs \<inter> snd ` set_mset (pend s) = {} \<Longrightarrow>
   \<exists>s'. fill ins s xs = Some s' \<and> inv s' \<and> pend s' = mset xs + pend s"
proof (induction xs arbitrary: s)
  case (Cons x xs)
  obtain k e where x: "x = (k, e)" by force
  obtain s1 where s1: "ins s e k = Some s1" "inv s1" "pend s1 = add_mset (k, e) (pend s)"
    using ins_ok [OF Cons.prems(1), of e k] Cons.prems(3) x by auto
  have "snd ` set xs \<inter> snd ` set_mset (pend s1) = {}" using Cons.prems(2,3) s1(3) x by auto
  with Cons.IH [OF s1(2)] Cons.prems(2) s1 x show ?case by auto
qed simp

lemma drain_sorted:
  "inv s \<Longrightarrow> size (pend s) = n \<Longrightarrow>
   \<exists>ks es s'. drain pop n s = Some (es, s') \<and> inv s' \<and> pend s' = {#} \<and> sorted ks \<and>
     length ks = length es \<and> mset (zip ks es) = pend s"
proof (induction n arbitrary: s)
  case 0
  then show ?case by (intro exI [of _ "[]"]) simp
next
  case (Suc n)
  then have ne: "pend s \<noteq> {#}" by auto
  obtain k e s1 where s1: "pop s = Some (e, s1)" "inv s1" "pend s = add_mset (k, e) (pend s1)"
      "\<forall>p\<in>#pend s. k \<le> fst p"
    using pop_ok [OF Suc.prems(1) ne] by blast
  have "size (pend s1) = n" using s1(3) Suc.prems(2) by simp
  from Suc.IH [OF s1(2) this] obtain ks es s' where
    d: "drain pop n s1 = Some (es, s')" "inv s'" "pend s' = {#}" "sorted ks" "length ks = length es"
      "mset (zip ks es) = pend s1" by blast
  have "k \<le> x" if "x \<in> set ks" for x
  proof -
    obtain i where "i < length ks" "ks ! i = x" using \<open>x \<in> set ks\<close> by (auto simp: in_set_conv_nth)
    then obtain y where "(x, y) \<in> set (zip ks es)" using d(5) by (auto simp: set_zip)
    then have "(x, y) \<in># pend s1" using d(6) by (metis set_mset_mset)
    then show ?thesis using s1(3,4) by auto
  qed
  with d(4) have "sorted (k # ks)" by simp
  with d s1 show ?case by (intro exI [of _ "k # ks"] exI [of _ "e # es"] exI [of _ s']) simp
qed

end

definition timer_ok :: "em_timer_heap \<Rightarrow> bool" where
  "timer_ok ht \<longleftrightarrow> th_cur_size ht + 2 \<le> th_max_size ht \<and> (\<exists>fl. tinv ht fl [])"

definition t_ins :: "em_timer_heap \<Rightarrow> nat \<Rightarrow> int \<times> int \<Rightarrow> em_timer_heap option" where
  "t_ins ht e k = (case schedule_entry ht e \<lparr>tv_sec = fst k, tv_msec = snd k\<rparr> of
     Some (r, ht') \<Rightarrow> if r = EM_SUCC then Some ht' else None | None \<Rightarrow> None)"

definition t_pop :: "em_timer_heap \<Rightarrow> (nat \<times> em_timer_heap) option" where
  "t_pop ht = (if th_cur_size ht = 0 then None else remove_node ht 0)"

lemma pending_members: "snd ` set_mset (pending ht) = set (nodes ht)"
  by (auto simp: pending_def image_iff)

lemma nodes_running:
  "tinv ht fl limbo \<Longrightarrow> e \<in> set (nodes ht) \<Longrightarrow> 1 \<le> te_timer_id (entry ht e)"
  by (auto simp: tinv_def nodes_ok_def ids_ok_def)

lemma schedule_entry_timer:
  assumes ok: "timer_ok ht" and e: "e \<notin> set (nodes ht)"
    and mem: "th_cur_size ht + 2 < th_max_size ht \<or> th_mem_ok ht"
  shows "\<exists>ht'. schedule_entry ht e t = Some (EM_SUCC, ht') \<and> timer_ok ht' \<and>
    pending ht' = add_mset (tkey t, e) (pending ht) \<and> same_env ht ht' \<and>
    (\<exists>i. th_entries ht' = (th_entries ht)(e := (entry ht e)\<lparr>te_timer_id := i, te_value := t\<rparr>))"
proof -
  obtain fl where fl: "tinv ht fl []" "th_cur_size ht + 2 \<le> th_max_size ht"
    using ok by (auto simp: timer_ok_def)
  obtain x fl' where x: "fl = x # fl'" using tinv_count [OF fl(1)] fl(2) by (cases fl) auto
  have "th_cur_size ht + 2 \<ge> th_max_size ht \<longrightarrow> th_mem_ok ht" using mem by auto
  from schedule_entry_ok [OF fl(1) [unfolded x] e this, of t] obtain ht' fl'' where
    s: "schedule_entry ht e t = Some (0, ht')" "tinv ht' fl'' []" "pending ht' = add_mset (tkey t, e) (pending ht)"
      "th_cur_size ht' = th_cur_size ht + 1" "same_env ht ht'"
      "th_entries ht' = (th_entries ht)(e := (entry ht e)\<lparr>te_timer_id := int x, te_value := t\<rparr>)"
      "th_max_size ht' = (if th_cur_size ht + 2 \<ge> th_max_size ht then 2 * th_max_size ht else th_max_size ht)"
    by blast
  have "timer_ok ht'" using s(2,4,7) fl(2) by (auto simp: timer_ok_def)
  then show ?thesis using s by (auto simp: errno)
qed

text \<open>Without memory a heap that has to grow takes no further entry.\<close>

lemma schedule_entry_full:
  assumes ok: "timer_ok ht" and full: "th_cur_size ht + 2 = th_max_size ht" "\<not> th_mem_ok ht"
  shows "schedule_entry ht e t = None"
proof -
  obtain fl where fl: "tinv ht fl []" using ok by (auto simp: timer_ok_def)
  obtain x fl' where x: "fl = x # fl'" using tinv_count [OF fl] full(1) by (cases fl) auto
  obtain f where f: "pop_freelist ht = Some (int x, ht\<lparr>th_freelist := f\<rparr>)" using pop_ok [OF fl [unfolded x]] by blast
  then show ?thesis
    using full by (simp add: schedule_entry_def insert_node_def grow_heap_def set_entry_def Let_def)
qed

lemma remove_pending:
  assumes inv: "tinv ht fl limbo" and slot: "slot < th_cur_size ht" and e: "e = nodes ht ! slot"
    and r: "remove_node ht slot = Some (d, ht')"
  shows "d = e" "tinv ht' (tid ht e # fl) limbo" "pending ht = add_mset (due ht e, e) (pending ht')"
    "th_cur_size ht' = th_cur_size ht - 1" "th_max_size ht' = th_max_size ht" "same_env ht ht'"
    "th_entries ht' = (th_entries ht)(e := (entry ht e)\<lparr>te_timer_id := - 1\<rparr>)" "e \<notin> set (nodes ht')"
proof -
  have rm: "d = e" "tinv ht' (tid ht e # fl) limbo" "mset (nodes ht) = add_mset e (mset (nodes ht'))"
    "th_cur_size ht' = th_cur_size ht - 1" "th_max_size ht' = th_max_size ht" "same_env ht ht'"
    "th_entries ht' = (th_entries ht)(e := (entry ht e)\<lparr>te_timer_id := - 1\<rparr>)"
    using remove_ok [OF inv slot e] r by auto
  then show "d = e" "tinv ht' (tid ht e # fl) limbo"
    "th_cur_size ht' = th_cur_size ht - 1" "th_max_size ht' = th_max_size ht" "same_env ht ht'"
    "th_entries ht' = (th_entries ht)(e := (entry ht e)\<lparr>te_timer_id := - 1\<rparr>)" by simp_all
  show "e \<notin> set (nodes ht')" using nodes_running [OF rm(2), of e] rm(7) by auto
  have "due ht' = due ht" using rm(7) by (auto simp: due_def)
  then show "pending ht = add_mset (due ht e, e) (pending ht')" by (simp add: pending_def rm(3))
qed

lemma root_minimal:
  assumes "tinv ht fl limbo" "p \<in># pending ht"
  shows "due ht (nodes ht ! 0) \<le> fst p"
proof -
  obtain e where e: "e \<in> set (nodes ht)" "fst p = due ht e" using assms(2) by (auto simp: pending_def)
  then obtain j where "j < length (nodes ht)" "nodes ht ! j = e" by (auto simp: in_set_conv_nth)
  with heap_order_root [of "due ht" "nodes ht" j] assms(1) e(2) show ?thesis by (auto simp: tinv_def)
qed

lemma t_pop_ok:
  assumes ok: "timer_ok ht" and ne: "pending ht \<noteq> {#}"
  shows "\<exists>k e ht'. t_pop ht = Some (e, ht') \<and> timer_ok ht' \<and> pending ht = add_mset (k, e) (pending ht') \<and>
    (\<forall>p\<in>#pending ht. k \<le> fst p)"
proof -
  obtain fl where fl: "tinv ht fl []" "th_cur_size ht + 2 \<le> th_max_size ht"
    using ok by (auto simp: timer_ok_def)
  have "nodes ht \<noteq> []" using ne by (auto simp: pending_def)
  then have c: "0 < th_cur_size ht" using nodes_length [OF fl(1)] by (cases "nodes ht") auto
  obtain ht' where r: "remove_node ht 0 = Some (nodes ht ! 0, ht')" using remove_ok [OF fl(1) c refl] by blast
  note rm = remove_pending [OF fl(1) c refl r]
  have "timer_ok ht'" using rm(2,4,5,6) fl by (auto simp: timer_ok_def same_env_def)
  then show ?thesis using r c rm(3) root_minimal [OF fl(1)] by (auto simp: t_pop_def)
qed

lemma t_pop_mem: "t_pop ht = Some (e, ht') \<Longrightarrow> timer_ok ht \<Longrightarrow> th_mem_ok ht' = th_mem_ok ht"
  using remove_pending(6) by (auto simp: t_pop_def timer_ok_def same_env_def split: if_splits)

interpretation tq: min_queue t_ins t_pop "\<lambda>ht. timer_ok ht \<and> th_mem_ok ht" pending
proof unfold_locales
  fix ht e k
  assume "timer_ok ht \<and> th_mem_ok ht" "e \<notin> snd ` set_mset (pending ht)"
  then show "\<exists>ht'. t_ins ht e k = Some ht' \<and> (timer_ok ht' \<and> th_mem_ok ht') \<and> pending ht' = add_mset (k, e) (pending ht)"
    using schedule_entry_timer [of ht e "\<lparr>tv_sec = fst k, tv_msec = snd k\<rparr>"]
    by (auto simp: t_ins_def pending_members tkey_def same_env_def)
next
  fix ht
  assume "timer_ok ht \<and> th_mem_ok ht" "pending ht \<noteq> {#}"
  then show "\<exists>k e ht'. t_pop ht = Some (e, ht') \<and> (timer_ok ht' \<and> th_mem_ok ht') \<and>
      pending ht = add_mset (k, e) (pending ht') \<and> (\<forall>p\<in>#pending ht. k \<le> fst p)"
    using t_pop_ok t_pop_mem by meson
qed

lemma create_timer_ok:
  assumes "em_timer_heap_create ok1 ok2 ok3 True n ents = (EM_SUCC, Some ht)"
  shows "timer_ok ht" "pending ht = {#}" "th_mem_ok ht"
  using heap_create_ok [OF assms] by (auto simp: timer_ok_def pending_def)

section \<open>Schedule, cancel, poll\<close>

lemma tinv_lock: "tinv (lock_timer_heap ht) fl limbo = tinv ht fl limbo"
  "nodes (lock_timer_heap ht) = nodes ht" "pending (lock_timer_heap ht) = pending ht"
  "timer_ok (lock_timer_heap ht) = timer_ok ht" "due (lock_timer_heap ht) = due ht"
proof -
  have n: "nodes (lock_timer_heap h) = nodes h" "tid (lock_timer_heap h) = tid h"
      "due (lock_timer_heap h) = due h" for h
    by (auto simp: nodes_def tid_def due_def lock_timer_heap_def)
  show t: "tinv (lock_timer_heap ht) fl limbo = tinv ht fl limbo" for fl limbo
    by (simp add: tinv_def n nodes_ok_def ids_ok_def) (simp add: lock_timer_heap_def)
  show "nodes (lock_timer_heap ht) = nodes ht" "pending (lock_timer_heap ht) = pending ht"
    "due (lock_timer_heap ht) = due ht"
    by (simp_all add: n pending_def)
  show "timer_ok (lock_timer_heap ht) = timer_ok ht"
    by (simp add: timer_ok_def t) (simp add: lock_timer_heap_def)
qed

text \<open>A change of the fields outside the heap arrays, of ids, callbacks and group locks.\<close>

definition outer :: "em_timer_heap \<Rightarrow> em_timer_heap \<Rightarrow> bool" where
  "outer ht ht' \<longleftrightarrow> th_heap ht' = th_heap ht \<and> th_ids ht' = th_ids ht \<and> th_cur_size ht' = th_cur_size ht \<and>
     th_max_size ht' = th_max_size ht \<and> th_freelist ht' = th_freelist ht \<and> th_mem_ok ht' = th_mem_ok ht \<and>
     th_max_per_poll ht' = th_max_per_poll ht \<and>
     (\<forall>e. te_timer_id (entry ht' e) = te_timer_id (entry ht e) \<and> te_value (entry ht' e) = te_value (entry ht e))"

lemma outer_ok:
  assumes "outer ht ht'"
  shows "tinv ht fl limbo \<Longrightarrow> tinv ht' fl limbo" "nodes ht' = nodes ht" "pending ht' = pending ht"
    "timer_ok ht \<Longrightarrow> timer_ok ht'" "th_cur_size ht' = th_cur_size ht" "th_max_size ht' = th_max_size ht"
    "th_mem_ok ht' = th_mem_ok ht" "th_max_per_poll ht' = th_max_per_poll ht"
proof -
  show t: "tinv ht fl limbo \<Longrightarrow> tinv ht' fl limbo" for fl limbo
    using tinv_cong(1) [of ht fl limbo ht'] assms by (simp add: outer_def)
  show n: "nodes ht' = nodes ht" using assms by (simp add: outer_def nodes_def)
  have "due ht' = due ht" using assms by (auto simp: outer_def due_def)
  then show "pending ht' = pending ht" by (simp add: pending_def n)
  show "timer_ok ht \<Longrightarrow> timer_ok ht'" using t assms by (auto simp: timer_ok_def outer_def)
qed (use assms in \<open>simp_all add: outer_def\<close>)

lemma outer_intros:
  "outer ht (lock_timer_heap ht)" "outer ht (unlock_timer_heap ht)" "outer ht (add_ref ht g)"
  "outer ht (dec_ref ht g)" "outer ht (set_entry ht e ((entry ht e)\<lparr>te_id := i\<rparr>))"
  "outer ht (set_entry ht e ((entry ht e)\<lparr>te_grp_lock := g\<rparr>))"
  "outer ht (set_entry ht e ((entry ht e)\<lparr>te_id := i, te_grp_lock := g\<rparr>))"
  by (auto simp: outer_def lock_timer_heap_def unlock_timer_heap_def add_ref_def dec_ref_def set_entry_def
      split: option.splits)

lemma outer_trans: "outer a b \<Longrightarrow> outer b c \<Longrightarrow> outer a c"
  by (simp add: outer_def)

lemma schedule_ok:
  assumes ok: "timer_ok ht" and cb: "te_cb (entry ht e) \<noteq> None"
    and idle: "\<not> em_timer_entry_running (entry ht e)" and mem: "th_cur_size ht + 2 < th_max_size ht \<or> th_mem_ok ht"
  shows "\<exists>ht'. schedule_w_grp_lock ticks ht e delay set_id i g = Some (EM_SUCC, ht') \<and> timer_ok ht' \<and>
    th_mem_ok ht' = th_mem_ok ht \<and> pending ht' = add_mset (tkey (EM_TIME_VAL_ADD ticks delay), e) (pending ht)"
proof -
  have e: "e \<notin> set (nodes (lock_timer_heap ht))"
    using idle ok nodes_running by (auto simp: em_timer_entry_running_def timer_ok_def tinv_lock)
  let ?t = "EM_TIME_VAL_ADD ticks delay"
  obtain h1 where h1: "schedule_entry (lock_timer_heap ht) e ?t = Some (EM_SUCC, h1)" "timer_ok h1"
      "pending h1 = add_mset (tkey ?t, e) (pending ht)" "th_mem_ok h1 = th_mem_ok ht"
    using schedule_entry_timer [OF _ e, of ?t] ok mem
    by (auto simp: tinv_lock same_env_def) (auto simp: lock_timer_heap_def)
  let ?j = "if set_id then i else te_id (entry h1 e)"
  let ?h2 = "add_ref (set_entry h1 e ((entry h1 e)\<lparr>te_id := ?j, te_grp_lock := g\<rparr>)) g"
  have "outer h1 (unlock_timer_heap ?h2)"
    by (rule outer_trans [OF outer_trans [OF outer_intros(7) outer_intros(3)] outer_intros(2)])
  from outer_ok(3,4,7) [OF this] h1 cb idle show ?thesis
    by (auto simp: schedule_w_grp_lock_def em_timer_entry_running_def Let_def)
qed

lemma cancel_ok:
  assumes ok: "timer_ok ht" and e: "e \<in> set (nodes ht)"
  shows "\<exists>ht'. cancel ht e 1 = Some (1, ht') \<and> timer_ok ht' \<and>
    pending ht = add_mset (due ht e, e) (pending ht') \<and> te_timer_id (entry ht' e) = - 1"
proof -
  obtain fl where fl: "tinv ht fl []" "th_cur_size ht + 2 \<le> th_max_size ht"
    using ok by (auto simp: timer_ok_def)
  have no: "nodes_ok ht (nodes ht)" "length (th_ids ht) = th_max_size ht" using fl(1) by (auto simp: tinv_def)
  obtain j where j: "j < length (nodes ht)" "nodes ht ! j = e" using e by (auto simp: in_set_conv_nth)
  then have jc: "j < th_cur_size ht" using nodes_length [OF fl(1)] by simp
  have "1 \<le> te_timer_id (entry ht e)" "tid ht e < length (th_ids ht)"
    using no(1) e by (auto simp: nodes_ok_def ids_ok_def)
  moreover from this have "rd_id ht (te_timer_id (entry ht e)) = Some (int j)"
    using no(1) j by (auto simp: rd_id_def mem nodes_ok_def tid_def)
  moreover have "rd_heap ht j = Some e" using no(1) j by (auto simp: rd_heap_def nodes_ok_def)
  moreover obtain ht' where r: "remove_node ht j = Some (e, ht')"
    using remove_ok [OF fl(1) jc j(2) [symmetric]] by blast
  ultimately have c: "cancel ht e 1 = Some (1, ht')"
    using no(2) by (simp add: cancel_def Let_def tid_def)
  note rm = remove_pending [OF fl(1) jc j(2) [symmetric] r]
  have "timer_ok ht'" using rm(2,4,5,6) fl by (auto simp: timer_ok_def same_env_def)
  then show ?thesis using c rm(3,7) by simp
qed

lemma cancel_idle: "te_timer_id (entry ht e) = - 1 \<Longrightarrow> cancel ht e f = Some (0, ht)"
  by (cases ht) (simp add: cancel_def set_entry_def Let_def fun_upd_idem)

lemma em_cancel_ok:
  assumes ok: "timer_ok ht" and e: "e \<in> set (nodes ht)"
  shows "\<exists>ht'. em_timer_heap_cancel ht e = Some (1, ht') \<and> timer_ok ht' \<and>
    pending ht = add_mset (due ht e, e) (pending ht') \<and> \<not> em_timer_entry_running (entry ht' e)"
proof -
  obtain h1 where h1: "cancel (lock_timer_heap ht) e 1 = Some (1, h1)" "timer_ok h1"
      "pending ht = add_mset (due ht e, e) (pending h1)" "te_timer_id (entry h1 e) = - 1"
    using cancel_ok [of "lock_timer_heap ht" e] ok e by (auto simp: tinv_lock)
  let ?h2 = "unlock_timer_heap (if te_grp_lock (entry h1 e) = None then h1
      else dec_ref (set_entry h1 e ((entry h1 e)\<lparr>te_grp_lock := None\<rparr>)) (te_grp_lock (entry h1 e)))"
  have "outer h1 ?h2"
    using outer_intros(2) outer_trans [OF outer_trans [OF outer_intros(6) outer_intros(4)] outer_intros(2)]
    by auto
  moreover have "em_timer_heap_cancel ht e = Some (1, ?h2)"
    using h1(1) by (simp add: em_timer_heap_cancel_def cancel_timer_def F_DONT_CALL_def F_SET_ID_def Let_def)
  ultimately show ?thesis
    using outer_ok(3,4) [of h1 ?h2] h1 by (auto simp: outer_def em_timer_entry_running_def)
qed

text \<open>
  What a callback may do: with one id kept aside by the poll it keeps the invariant, leaves room for the
  id to come back, and does not change the poll limit.  \<open>m\<close> says whether the pool gives memory, on which
  it depends whether a callback may let the heap grow.
\<close>

definition callback_ok :: "bool \<Rightarrow> (nat \<Rightarrow> nat \<Rightarrow> em_timer_heap \<Rightarrow> em_timer_heap option) \<Rightarrow> bool" where
  "callback_ok m run \<longleftrightarrow> (\<forall>c e ht fl x.
     tinv ht fl [x] \<and> th_cur_size ht + 3 \<le> th_max_size ht \<and> th_mem_ok ht = m \<and> e \<notin> set (nodes ht) \<longrightarrow>
     (\<exists>ht' fl'. run c e ht = Some ht' \<and> tinv ht' fl' [x] \<and> th_cur_size ht' + 2 \<le> th_max_size ht' \<and>
        th_mem_ok ht' = m \<and> th_max_per_poll ht' = th_max_per_poll ht))"

lemma poll_round_start:
  assumes fl: "tinv ht fl []" and c: "0 < th_cur_size ht" and e: "e = nodes ht ! 0"
  shows "\<exists>h1 f. remove_node ht 0 = Some (e, h1) \<and> pop_freelist h1 = Some (int (tid ht e), h1\<lparr>th_freelist := f\<rparr>) \<and>
    tinv (h1\<lparr>th_freelist := f\<rparr>) fl [tid ht e] \<and> th_cur_size h1 = th_cur_size ht - 1 \<and>
    th_max_size h1 = th_max_size ht \<and> same_env ht h1 \<and> e \<notin> set (nodes h1) \<and>
    pending ht = add_mset (due ht e, e) (pending h1)"
proof -
  obtain h1 where r: "remove_node ht 0 = Some (e, h1)" using remove_ok [OF fl c e] by blast
  note rm = remove_pending [OF fl c e r]
  from pop_ok [OF rm(2)] rm r show ?thesis by auto
qed

lemma poll_round_ok:
  assumes ok: "timer_ok ht" and c: "0 < th_cur_size ht" and run: "callback_ok (th_mem_ok ht) run"
  shows "\<exists>ht'. poll_round run ht = Some (nodes ht ! 0, ht') \<and> timer_ok ht' \<and> th_mem_ok ht' = th_mem_ok ht \<and>
    th_max_per_poll ht' = th_max_per_poll ht"
proof -
  obtain fl where fl: "tinv ht fl []" "th_cur_size ht + 2 \<le> th_max_size ht"
    using ok by (auto simp: timer_ok_def)
  let ?e = "nodes ht ! 0" let ?x = "tid ht ?e"
  obtain h1 f where h1: "remove_node ht 0 = Some (?e, h1)"
      "pop_freelist h1 = Some (int ?x, h1\<lparr>th_freelist := f\<rparr>)" "tinv (h1\<lparr>th_freelist := f\<rparr>) fl [?x]"
      "th_cur_size h1 = th_cur_size ht - 1" "th_max_size h1 = th_max_size ht" "same_env ht h1"
      "?e \<notin> set (nodes h1)"
    using poll_round_start [OF fl(1) c refl] by blast
  let ?h2 = "h1\<lparr>th_freelist := f\<rparr>"
  let ?h3 = "unlock_timer_heap (set_entry ?h2 ?e ((entry ?h2 ?e)\<lparr>te_grp_lock := None\<rparr>))"
  have o3: "outer ?h2 ?h3" by (rule outer_trans [OF outer_intros(6) outer_intros(2)])
  note p3 = outer_ok [OF o3]
  have t3: "tinv ?h3 fl [?x]" "th_cur_size ?h3 + 3 \<le> th_max_size ?h3" "th_mem_ok ?h3 = th_mem_ok ht" "?e \<notin> set (nodes ?h3)"
    using p3 h1 fl c by (auto simp: same_env_def nodes_def)
  obtain h4 fl' where h4: "(case te_cb (entry ?h3 ?e) of None \<Rightarrow> Some ?h3 | Some cb \<Rightarrow> run cb ?e ?h3) = Some h4"
      "tinv h4 fl' [?x]" "th_cur_size h4 + 2 \<le> th_max_size h4" "th_mem_ok h4 = th_mem_ok ht"
      "th_max_per_poll h4 = th_max_per_poll ?h3"
  proof (cases "te_cb (entry ?h3 ?e)")
    case None
    with t3 that [of ?h3 fl] show ?thesis by simp
  next
    case (Some cb)
    from run [unfolded callback_ok_def, rule_format, of ?h3 fl ?x ?e cb] t3 Some that show ?thesis by auto
  qed
  let ?h5 = "lock_timer_heap (dec_ref h4 (te_grp_lock (entry ?h2 ?e)))"
  have o5: "outer h4 ?h5" by (rule outer_trans [OF outer_intros(4) outer_intros(1)])
  note p5 = outer_ok [OF o5]
  obtain m where m: "push_freelist ?h5 (int ?x) = Some (?h5\<lparr>th_ids := m, th_freelist := int ?x\<rparr>)"
      "tinv (?h5\<lparr>th_ids := m, th_freelist := int ?x\<rparr>) (?x # fl') []"
    using push_ok [OF p5(1) [OF h4(2)]] by blast
  have "poll_round run ht = Some (?e, ?h5\<lparr>th_ids := m, th_freelist := int ?x\<rparr>)"
    using h1(1,2) h4(1) m(1) by (simp add: poll_round_def Let_def)
  moreover have "timer_ok (?h5\<lparr>th_ids := m, th_freelist := int ?x\<rparr>)" "th_mem_ok ?h5 = th_mem_ok ht"
    using m(2) p5(5,6,7) h4(3,4) by (auto simp: timer_ok_def)
  moreover have "th_max_per_poll ht = th_max_per_poll ?h5"
    using p5(8) h4(5) p3(8) h1(6) by (simp add: same_env_def)
  ultimately show ?thesis by simp
qed

lemma root_read:
  assumes "timer_ok ht" "0 < th_cur_size ht"
  shows "rd_heap ht 0 = Some (nodes ht ! 0)" "nodes ht ! 0 \<in> set (nodes ht)"
proof -
  obtain fl where fl: "tinv ht fl []" using assms(1) by (auto simp: timer_ok_def)
  have l: "0 < length (nodes ht)" using assms(2) nodes_length [OF fl] by simp
  then show "nodes ht ! 0 \<in> set (nodes ht)" by (rule nth_mem)
  have "length (nodes ht) \<le> length (th_heap ht)" using fl by (auto simp: tinv_def nodes_ok_def)
  with l have "0 < length (th_heap ht)" by (rule order_less_le_trans)
  moreover have "th_heap ht ! 0 = Some (nodes ht ! 0)" using fl l by (auto simp: tinv_def nodes_ok_def)
  ultimately show "rd_heap ht 0 = Some (nodes ht ! 0)" unfolding rd_heap_def by (simp only: if_True)
qed

lemma poll_loop_safe:
  assumes run: "callback_ok m run"
  shows "timer_ok ht \<Longrightarrow> th_mem_ok ht = m \<Longrightarrow> th_max_per_poll ht < n + fuel \<Longrightarrow> n \<le> th_max_per_poll ht \<Longrightarrow>
    \<exists>es ht'. poll_loop run now fuel n ht = Some (es, ht') \<and> timer_ok ht' \<and>
      n + length es \<le> th_max_per_poll ht"
proof (induction fuel arbitrary: n ht)
  case (Suc fuel)
  show ?case
  proof (cases "0 < th_cur_size ht \<and> EM_TIME_VAL_LTE (te_value (entry ht (nodes ht ! 0))) now \<and>
      n < th_max_per_poll ht")
    case False
    then show ?thesis using root_read [OF Suc.prems(1)] Suc.prems(1,4) by auto
  next
    case True
    then have c: "0 < th_cur_size ht" by simp
    obtain h1 where h1: "poll_round run ht = Some (nodes ht ! 0, h1)" "timer_ok h1"
        "th_max_per_poll h1 = th_max_per_poll ht" "th_mem_ok h1 = m"
      using poll_round_ok [OF Suc.prems(1) c, of run] run Suc.prems(2) by auto
    have "th_max_per_poll h1 < (n + 1) + fuel" "n + 1 \<le> th_max_per_poll h1"
      using Suc.prems(3) h1(3) True by simp_all
    from Suc.IH [OF h1(2,4) this] h1 True root_read(1) [OF Suc.prems(1)] show ?thesis by auto
  qed
qed simp

lemma LTE_key: "EM_TIME_VAL_LTE a b \<longleftrightarrow> tkey a \<le> tkey b"
  by (auto simp: EM_TIME_VAL_LTE_def EM_TIME_VAL_GT_def tkey_def less_eq_prod_def)

text \<open>Callbacks that leave the heap alone.\<close>

definition quiet :: "nat \<Rightarrow> nat \<Rightarrow> em_timer_heap \<Rightarrow> em_timer_heap option" where
  "quiet c e ht = Some ht"

lemma poll_round_quiet:
  assumes ok: "timer_ok ht" and c: "0 < th_cur_size ht"
  shows "\<exists>ht'. poll_round quiet ht = Some (nodes ht ! 0, ht') \<and> timer_ok ht' \<and>
    th_max_per_poll ht' = th_max_per_poll ht \<and>
    pending ht = add_mset (due ht (nodes ht ! 0), nodes ht ! 0) (pending ht')"
proof -
  obtain fl where fl: "tinv ht fl []" "th_cur_size ht + 2 \<le> th_max_size ht"
    using ok by (auto simp: timer_ok_def)
  let ?e = "nodes ht ! 0" let ?x = "tid ht ?e"
  obtain h1 f where h1: "remove_node ht 0 = Some (?e, h1)"
      "pop_freelist h1 = Some (int ?x, h1\<lparr>th_freelist := f\<rparr>)" "tinv (h1\<lparr>th_freelist := f\<rparr>) fl [?x]"
      "th_cur_size h1 = th_cur_size ht - 1" "th_max_size h1 = th_max_size ht" "same_env ht h1"
      "pending ht = add_mset (due ht ?e, ?e) (pending h1)"
    using poll_round_start [OF fl(1) c refl] by blast
  let ?h2 = "h1\<lparr>th_freelist := f\<rparr>" let ?g = "te_grp_lock (entry h1 ?e)"
  let ?h5 = "lock_timer_heap (dec_ref
    (unlock_timer_heap (set_entry ?h2 ?e ((entry ?h2 ?e)\<lparr>te_grp_lock := None\<rparr>))) ?g)"
  have "outer ?h2 ?h5"
    by (rule outer_trans [OF outer_trans [OF outer_trans [OF outer_intros(6) outer_intros(2)]
      outer_intros(4)] outer_intros(1)])
  note p5 = outer_ok [OF this]
  obtain m where m: "push_freelist ?h5 (int ?x) = Some (?h5\<lparr>th_ids := m, th_freelist := int ?x\<rparr>)"
      "tinv (?h5\<lparr>th_ids := m, th_freelist := int ?x\<rparr>) (?x # fl) []"
    using push_ok [OF p5(1) [OF h1(3)]] by blast
  let ?h6 = "?h5\<lparr>th_ids := m, th_freelist := int ?x\<rparr>"
  have "poll_round quiet ht = Some (?e, ?h6)"
    using h1(1,2) m(1) by (simp add: poll_round_def quiet_def Let_def split: option.splits)
  moreover have "timer_ok ?h6" "th_max_per_poll ht = th_max_per_poll ?h5"
    using m(2) p5(5,6,7,8) h1(4-6) fl(2) by (auto simp: timer_ok_def same_env_def)
  moreover have "due ?h6 = due ?h5" "nodes ?h6 = nodes ?h5" by (auto simp: due_def nodes_def)
  then have "pending ?h6 = pending ?h5" by (simp add: pending_def)
  moreover have "pending ?h5 = pending h1"
  proof -
    have "due ?h2 = due h1" "nodes ?h2 = nodes h1" by (auto simp: due_def nodes_def)
    then show ?thesis using p5(3) by (simp add: pending_def)
  qed
  ultimately show ?thesis using h1(7) by simp
qed

lemma poll_loop_exact:
  "timer_ok ht \<Longrightarrow> th_max_per_poll ht < n + fuel \<Longrightarrow> n \<le> th_max_per_poll ht \<Longrightarrow>
    \<exists>es ks ht'. poll_loop quiet now fuel n ht = Some (es, ht') \<and> timer_ok ht' \<and>
      length ks = length es \<and> sorted ks \<and> pending ht = mset (zip ks es) + pending ht' \<and>
      (\<forall>k\<in>set ks. k \<le> tkey now \<and> (\<forall>p\<in>#pending ht'. k \<le> fst p)) \<and>
      n + length es \<le> th_max_per_poll ht \<and>
      (n + length es < th_max_per_poll ht \<longrightarrow> (\<forall>p\<in>#pending ht'. tkey now < fst p))"
proof (induction fuel arbitrary: n ht)
  case (Suc fuel)
  obtain fl where fl: "tinv ht fl []" using Suc.prems(1) by (auto simp: timer_ok_def)
  let ?e = "nodes ht ! 0"
  show ?case
  proof (cases "0 < th_cur_size ht \<and> EM_TIME_VAL_LTE (te_value (entry ht ?e)) now \<and> n < th_max_per_poll ht")
    case False
    have "poll_loop quiet now (Suc fuel) n ht = Some ([], ht)"
      using False root_read [OF Suc.prems(1)] by auto
    moreover have "tkey now < fst p" if p: "p \<in># pending ht" "n < th_max_per_poll ht" for p
    proof -
      have "nodes ht \<noteq> []" using p(1) by (auto simp: pending_def)
      then have "th_cur_size ht \<noteq> 0" using nodes_length [OF fl] by (metis length_0_conv)
      then have "tkey now < due ht ?e" using False p(2) by (auto simp: LTE_key due_def)
      also have "\<dots> \<le> fst p" by (rule root_minimal [OF fl p(1)])
      finally show ?thesis .
    qed
    ultimately show ?thesis
      using Suc.prems by (intro exI [of _ "[]"] exI [of _ ht]) auto
  next
    case True
    then have c: "0 < th_cur_size ht" by simp
    obtain h1 where h1: "poll_round quiet ht = Some (?e, h1)" "timer_ok h1"
        "th_max_per_poll h1 = th_max_per_poll ht" "pending ht = add_mset (due ht ?e, ?e) (pending h1)"
      using poll_round_quiet [OF Suc.prems(1) c] by blast
    have "th_max_per_poll h1 < (n + 1) + fuel" "n + 1 \<le> th_max_per_poll h1"
      using Suc.prems(2) h1(3) True by simp_all
    from Suc.IH [OF h1(2) this] obtain es ks h2 where
      ih: "poll_loop quiet now fuel (n + 1) h1 = Some (es, h2)" "timer_ok h2" "length ks = length es" "sorted ks"
        "pending h1 = mset (zip ks es) + pending h2"
        "\<forall>k\<in>set ks. k \<le> tkey now \<and> (\<forall>p\<in>#pending h2. k \<le> fst p)"
        "n + 1 + length es \<le> th_max_per_poll h1"
        "n + 1 + length es < th_max_per_poll h1 \<longrightarrow> (\<forall>p\<in>#pending h2. tkey now < fst p)"
      by blast
    have min: "due ht ?e \<le> fst p" if "p \<in># mset (zip ks es) + pending h2" for p
      using root_minimal [OF fl, of p] h1(4) ih(5) that by simp
    have "due ht ?e \<le> k" if kin: "k \<in> set ks" for k
    proof -
      obtain i where "i < length ks" "ks ! i = k" using kin by (auto simp: in_set_conv_nth)
      then have "(k, es ! i) \<in># mset (zip ks es)" using ih(3) by (auto simp: set_zip)
      then show ?thesis using min [of "(k, es ! i)"] by simp
    qed
    then have "sorted (due ht ?e # ks)" using ih(4) by simp
    moreover have "due ht ?e \<le> tkey now" using True by (simp add: LTE_key due_def)
    moreover have "poll_loop quiet now (Suc fuel) n ht = Some (?e # es, h2)"
      using True h1(1) ih(1) root_read(1) [OF Suc.prems(1) c] by simp
    ultimately show ?thesis
      using ih h1(3,4) min by (intro exI [of _ "?e # es"] exI [of _ "due ht ?e # ks"] exI [of _ h2]) auto
  qed
qed simp

section \<open>Properties\<close>

text \<open>Idle entries with a callback, and a heap for one timer, for the examples.\<close>

definition ex_entries :: "nat \<Rightarrow> em_timer_entry" where
  "ex_entries e = \<lparr>te_id = 0, te_cb = Some 0, te_timer_id = - 1, te_value = \<lparr>tv_sec = 0, tv_msec = 0\<rparr>,
     te_grp_lock = None\<rparr>"

definition ex_heap :: em_timer_heap where
  "ex_heap = the (snd (em_timer_heap_create True True True True 1 ex_entries))"

lemma ex_heap_ok: "timer_ok ex_heap" "pending ex_heap = {#}" "th_entries ex_heap = ex_entries"
  "th_max_per_poll ex_heap = 64" "th_mem_ok ex_heap"
proof -
  have c: "em_timer_heap_create True True True True 1 ex_entries = (EM_SUCC, Some ex_heap)"
    by (simp add: ex_heap_def em_timer_heap_create_def Let_def)
  show "timer_ok ex_heap" "pending ex_heap = {#}" "th_mem_ok ex_heap" using create_timer_ok [OF c] by auto
  show "th_entries ex_heap = ex_entries" "th_max_per_poll ex_heap = 64" using heap_create_ok [OF c] by auto
qed

lemma ex_heap_one:
  "\<exists>ht. em_timer_heap_schedule \<lparr>tv_sec = 10, tv_msec = 0\<rparr> ex_heap 0 \<lparr>tv_sec = 5, tv_msec = 0\<rparr> = Some (EM_SUCC, ht) \<and>
     timer_ok ht \<and> pending ht = {#((15, 0), 0)#} \<and> th_mem_ok ht"
  using schedule_ok [OF ex_heap_ok(1), of 0 "\<lparr>tv_sec = 10, tv_msec = 0\<rparr>" "\<lparr>tv_sec = 5, tv_msec = 0\<rparr>" False 1 None]
  by (auto simp: em_timer_heap_schedule_def ex_heap_ok ex_entries_def em_timer_entry_running_def
      EM_TIME_VAL_ADD_def em_time_val_normalize_def tkey_def)

text \<open>
  C14. Scheduling: an entry without a callback is refused with \<open>EM_EINVAL\<close>, a running one with
  \<open>EM_EINVALIDOP\<close>, both without effect.  Any other entry is accepted when the heap has room for it or the
  pool gives the memory to grow, and the bag of pending timers grows by exactly that entry with the expiry
  time now plus delay.  A heap that has to grow in a pool without memory does not report that: the call
  does not return, since the allocations are not checked.
\<close>
theorem timer_schedule_spec:
  assumes "timer_ok ht"
  shows "if te_cb (entry ht e) = None
      then em_timer_heap_schedule_w_grp_lock ticks ht e delay i g = Some (EM_EINVAL, ht)
    else if em_timer_entry_running (entry ht e)
      then em_timer_heap_schedule_w_grp_lock ticks ht e delay i g = Some (EM_EINVALIDOP, ht)
    else if th_cur_size ht + 2 < th_max_size ht \<or> th_mem_ok ht
      then \<exists>ht'. em_timer_heap_schedule_w_grp_lock ticks ht e delay i g = Some (EM_SUCC, ht') \<and> timer_ok ht' \<and>
        pending ht' = add_mset (tkey (EM_TIME_VAL_ADD ticks delay), e) (pending ht)
    else em_timer_heap_schedule_w_grp_lock ticks ht e delay i g = None"
proof -
  have "em_timer_heap_schedule_w_grp_lock ticks ht e delay i g = None"
    if "te_cb (entry ht e) \<noteq> None" "\<not> em_timer_entry_running (entry ht e)"
      "\<not> (th_cur_size ht + 2 < th_max_size ht \<or> th_mem_ok ht)"
  proof -
    have l: "timer_ok (lock_timer_heap ht)" "th_cur_size (lock_timer_heap ht) + 2 = th_max_size (lock_timer_heap ht)"
        "\<not> th_mem_ok (lock_timer_heap ht)"
      using assms that(3) by (simp_all add: tinv_lock) (auto simp: lock_timer_heap_def timer_ok_def)
    show ?thesis
      using schedule_entry_full [OF l] that(1,2)
      by (simp add: em_timer_heap_schedule_w_grp_lock_def schedule_w_grp_lock_def em_timer_entry_running_def Let_def)
  qed
  moreover have "\<exists>ht'. em_timer_heap_schedule_w_grp_lock ticks ht e delay i g = Some (EM_SUCC, ht') \<and> timer_ok ht' \<and>
      pending ht' = add_mset (tkey (EM_TIME_VAL_ADD ticks delay), e) (pending ht)"
    if "te_cb (entry ht e) \<noteq> None" "\<not> em_timer_entry_running (entry ht e)"
      "th_cur_size ht + 2 < th_max_size ht \<or> th_mem_ok ht"
    using schedule_ok [OF assms that] unfolding em_timer_heap_schedule_w_grp_lock_def by blast
  moreover have "te_cb (entry ht e) = None \<Longrightarrow> em_timer_heap_schedule_w_grp_lock ticks ht e delay i g = Some (EM_EINVAL, ht)"
    "te_cb (entry ht e) \<noteq> None \<Longrightarrow> em_timer_entry_running (entry ht e) \<Longrightarrow>
      em_timer_heap_schedule_w_grp_lock ticks ht e delay i g = Some (EM_EINVALIDOP, ht)"
    by (auto simp: em_timer_heap_schedule_w_grp_lock_def schedule_w_grp_lock_def em_timer_entry_running_def)
  ultimately show ?thesis by presburger
qed

lemma timer_schedule_spec_witness:
  "\<exists>ht. em_timer_heap_schedule_w_grp_lock \<lparr>tv_sec = 1, tv_msec = 500\<rparr> ex_heap 7 \<lparr>tv_sec = 0, tv_msec = 700\<rparr> 3 None
     = Some (EM_SUCC, ht) \<and> pending ht = {#((2, 200), 7)#}"
  using timer_schedule_spec [OF ex_heap_ok(1), of 7 "\<lparr>tv_sec = 1, tv_msec = 500\<rparr>" "\<lparr>tv_sec = 0, tv_msec = 700\<rparr>" 3 None]
  by (auto simp: ex_heap_ok ex_entries_def em_timer_entry_running_def EM_TIME_VAL_ADD_def
      em_time_val_normalize_def tkey_def c_div_def c_mod_def)

text \<open>
  C15. Cancelling a pending entry removes exactly that entry, at whatever slot of the heap it is,
  reports 1 and leaves the entry idle.
\<close>
theorem timer_cancel_spec:
  assumes "timer_ok ht" "e \<in> set (nodes ht)"
  shows "\<exists>ht'. em_timer_heap_cancel ht e = Some (1, ht') \<and> timer_ok ht' \<and>
    pending ht = add_mset (due ht e, e) (pending ht') \<and> \<not> em_timer_entry_running (entry ht' e)"
  by (rule em_cancel_ok [OF assms])

lemma timer_cancel_spec_witness:
  "\<exists>ht ht'. em_timer_heap_schedule \<lparr>tv_sec = 10, tv_msec = 0\<rparr> ex_heap 0 \<lparr>tv_sec = 5, tv_msec = 0\<rparr> = Some (EM_SUCC, ht) \<and>
     em_timer_heap_cancel ht 0 = Some (1, ht') \<and> pending ht' = {#}"
proof -
  obtain ht where ht: "em_timer_heap_schedule \<lparr>tv_sec = 10, tv_msec = 0\<rparr> ex_heap 0 \<lparr>tv_sec = 5, tv_msec = 0\<rparr> = Some (EM_SUCC, ht)"
    "timer_ok ht" "pending ht = {#((15, 0), 0)#}" using ex_heap_one by blast
  have "set (nodes ht) = snd ` set_mset (pending ht)" by (simp only: pending_members)
  then have "0 \<in> set (nodes ht)" by (simp add: ht(3))
  from timer_cancel_spec [OF ht(2) this] ht show ?thesis by auto
qed

text \<open>
  C3. A poll never leaves the arrays, whatever the callbacks do within their contract (which lets a
  callback schedule one timer, its own again for instance, if the pool gives memory or the heap need not
  grow for it): with fuel above the per-poll limit it returns, fires at most that many timers, and the heap is well formed again.
\<close>
theorem timer_poll_safe:
  assumes "callback_ok (th_mem_ok ht) run" "timer_ok ht" "th_max_per_poll ht < fuel"
  shows "\<exists>es d ht'. em_timer_heap_poll run fuel now ht w = Some (length es, d, es, ht') \<and> timer_ok ht' \<and>
    length es \<le> th_max_per_poll ht"
proof -
  have lk: "timer_ok (lock_timer_heap ht)" "th_max_per_poll (lock_timer_heap ht) = th_max_per_poll ht"
    "th_mem_ok (lock_timer_heap ht) = th_mem_ok ht"
    using assms(2) by (simp_all add: tinv_lock) (simp_all add: lock_timer_heap_def)
  obtain es h where h: "poll_loop run now fuel 0 (lock_timer_heap ht) = Some (es, h)" "timer_ok h"
      "length es \<le> th_max_per_poll ht"
    using poll_loop_safe [OF assms(1) lk(1,3), of 0 fuel now] lk(2) assms(3) by auto
  have ul: "timer_ok (unlock_timer_heap x)" if "timer_ok x" for x
    using outer_ok(4) [OF outer_intros(2)] that by blast
  show ?thesis
    using h lk(1) ul [OF h(2)] ul [OF lk(1)] root_read(1) [OF h(2)]
    by (auto simp: em_timer_heap_poll_def Let_def)
qed

text \<open>A callback that schedules the fired timer again, as periodic timers do.\<close>

definition reschedule ::
  "em_time_val \<Rightarrow> em_time_val \<Rightarrow> nat \<Rightarrow> nat \<Rightarrow> em_timer_heap \<Rightarrow> em_timer_heap option" where
  "reschedule ticks delay c e ht = map_option snd (em_timer_heap_schedule ticks ht e delay)"

lemma reschedule_callback: "callback_ok True (reschedule ticks delay)"
  unfolding callback_ok_def
proof (intro allI impI)
  fix c e ht fl x
  assume a: "tinv ht fl [x] \<and> th_cur_size ht + 3 \<le> th_max_size ht \<and> th_mem_ok ht = True \<and> e \<notin> set (nodes ht)"
  let ?t = "EM_TIME_VAL_ADD ticks delay" and ?l = "lock_timer_heap ht"
  obtain y fl' where fl: "fl = y # fl'" using a tinv_count [of ht fl "[x]"] by (cases fl) auto
  obtain h1 fl1 where h1: "schedule_entry ?l e ?t = Some (0, h1)" "tinv h1 fl1 [x]"
      "th_cur_size h1 = th_cur_size ?l + 1" "same_env ?l h1" "th_max_size h1 = th_max_size ?l"
    using schedule_entry_ok [of ?l y fl' "[x]" e ?t] a fl
    by (auto simp: tinv_lock) (auto simp: lock_timer_heap_def)
  let ?h2 = "unlock_timer_heap (add_ref (set_entry h1 e
      ((entry h1 e)\<lparr>te_id := te_id (entry h1 e), te_grp_lock := None\<rparr>)) None)"
  have "outer h1 ?h2"
    by (rule outer_trans [OF outer_trans [OF outer_intros(7) outer_intros(3)] outer_intros(2)])
  note o = outer_ok [OF this]
  have l: "th_cur_size ?l = th_cur_size ht" "th_max_size ?l = th_max_size ht" "th_mem_ok ?l = th_mem_ok ht"
    "th_max_per_poll ?l = th_max_per_poll ht" by (simp_all add: lock_timer_heap_def)
  have "reschedule ticks delay c e ht =
      (if te_cb (entry ht e) = None \<or> \<not> te_timer_id (entry ht e) < 1 then Some ht else Some ?h2)"
    using h1(1) by (simp add: reschedule_def em_timer_heap_schedule_def schedule_w_grp_lock_def errno)
  then consider "reschedule ticks delay c e ht = Some ht" | "reschedule ticks delay c e ht = Some ?h2"
    by (auto split: if_splits)
  then show "\<exists>ht' fl'. reschedule ticks delay c e ht = Some ht' \<and> tinv ht' fl' [x] \<and>
      th_cur_size ht' + 2 \<le> th_max_size ht' \<and> th_mem_ok ht' = True \<and> th_max_per_poll ht' = th_max_per_poll ht"
  proof cases
    case 1
    with a show ?thesis by auto
  next
    case 2
    have "tinv ?h2 fl1 [x]" "th_cur_size ?h2 + 2 \<le> th_max_size ?h2" "th_mem_ok ?h2"
      "th_max_per_poll ?h2 = th_max_per_poll ht"
      using o(1) [OF h1(2)] o(5-8) h1(3-5) l a by (auto simp: same_env_def)
    with 2 show ?thesis by blast
  qed
qed

lemma timer_poll_safe_witness:
  "\<exists>ht es d ht'. em_timer_heap_schedule \<lparr>tv_sec = 10, tv_msec = 0\<rparr> ex_heap 0 \<lparr>tv_sec = 5, tv_msec = 0\<rparr> = Some (EM_SUCC, ht) \<and>
     em_timer_heap_poll (reschedule \<lparr>tv_sec = 20, tv_msec = 0\<rparr> \<lparr>tv_sec = 5, tv_msec = 0\<rparr>) (th_max_per_poll ht + 1)
       \<lparr>tv_sec = 20, tv_msec = 0\<rparr> ht True = Some (length es, d, es, ht') \<and> length es \<le> th_max_per_poll ht"
proof -
  obtain ht where ht: "em_timer_heap_schedule \<lparr>tv_sec = 10, tv_msec = 0\<rparr> ex_heap 0 \<lparr>tv_sec = 5, tv_msec = 0\<rparr> = Some (EM_SUCC, ht)"
    "timer_ok ht" "th_mem_ok ht" using ex_heap_one by blast
  have "callback_ok (th_mem_ok ht) (reschedule \<lparr>tv_sec = 20, tv_msec = 0\<rparr> \<lparr>tv_sec = 5, tv_msec = 0\<rparr>)"
    using reschedule_callback ht(3) by simp
  from timer_poll_safe [OF this ht(2), of "th_max_per_poll ht + 1" "\<lparr>tv_sec = 20, tv_msec = 0\<rparr>" True] ht(1)
  show ?thesis by auto
qed

text \<open>
  C2. What a poll fires, for callbacks that leave the heap alone: entries in non-decreasing order of
  expiry, all expired and none later than any that stays; and if the per-poll limit was not reached,
  every timer that stays expires after the time of the poll.
\<close>
theorem timer_poll_fires:
  assumes "timer_ok ht" "th_max_per_poll ht < fuel" "th_cur_size ht \<noteq> 0"
  shows "\<exists>es ks d ht'. em_timer_heap_poll quiet fuel now ht w = Some (length es, d, es, ht') \<and> timer_ok ht' \<and>
    length ks = length es \<and> sorted ks \<and> pending ht = mset (zip ks es) + pending ht' \<and>
    (\<forall>k\<in>set ks. k \<le> tkey now \<and> (\<forall>p\<in>#pending ht'. k \<le> fst p)) \<and>
    (length es < th_max_per_poll ht \<longrightarrow> (\<forall>p\<in>#pending ht'. tkey now < fst p))"
proof -
  have lk: "timer_ok (lock_timer_heap ht)" "th_max_per_poll (lock_timer_heap ht) = th_max_per_poll ht"
      "th_cur_size (lock_timer_heap ht) = th_cur_size ht"
    using assms(1) by (simp_all add: tinv_lock) (simp_all add: lock_timer_heap_def)
  obtain es ks h where h: "poll_loop quiet now fuel 0 (lock_timer_heap ht) = Some (es, h)" "timer_ok h"
      "length ks = length es" "sorted ks" "pending ht = mset (zip ks es) + pending h"
      "\<forall>k\<in>set ks. k \<le> tkey now \<and> (\<forall>p\<in>#pending h. k \<le> fst p)"
      "length es < th_max_per_poll ht \<longrightarrow> (\<forall>p\<in>#pending h. tkey now < fst p)"
    using poll_loop_exact [OF lk(1), of 0 fuel now] lk(2) assms(2) by (auto simp: tinv_lock)
  have u: "timer_ok (unlock_timer_heap h)" "pending (unlock_timer_heap h) = pending h"
    using outer_ok(3,4) [OF outer_intros(2)] h(2) by blast+
  have "\<exists>d. em_timer_heap_poll quiet fuel now ht w = Some (length es, d, es, unlock_timer_heap h)"
    using h(1) lk(3) assms(3) root_read(1) [OF h(2)] by (auto simp: em_timer_heap_poll_def Let_def)
  with u h(3-7) show ?thesis by metis
qed

lemma timer_poll_fires_witness:
  "\<exists>ht es ks d ht'. em_timer_heap_schedule \<lparr>tv_sec = 10, tv_msec = 0\<rparr> ex_heap 0 \<lparr>tv_sec = 5, tv_msec = 0\<rparr> = Some (EM_SUCC, ht) \<and>
     em_timer_heap_poll quiet (th_max_per_poll ht + 1) \<lparr>tv_sec = 15, tv_msec = 0\<rparr> ht False = Some (length es, d, es, ht') \<and>
     {#((15, 0), 0)#} = mset (zip ks es) + pending ht'"
proof -
  obtain ht where ht: "em_timer_heap_schedule \<lparr>tv_sec = 10, tv_msec = 0\<rparr> ex_heap 0 \<lparr>tv_sec = 5, tv_msec = 0\<rparr> = Some (EM_SUCC, ht)"
    "timer_ok ht" "pending ht = {#((15, 0), 0)#}" using ex_heap_one by blast
  have "th_cur_size ht \<noteq> 0"
    using ht(3) by (cases "th_cur_size ht = 0") (simp_all add: pending_def nodes_def)
  with timer_poll_fires [OF ht(2), of "th_max_per_poll ht + 1" "\<lparr>tv_sec = 15, tv_msec = 0\<rparr>" False]
  obtain es ks d ht' where "em_timer_heap_poll quiet (th_max_per_poll ht + 1) \<lparr>tv_sec = 15, tv_msec = 0\<rparr> ht False =
      Some (length es, d, es, ht')" "pending ht = mset (zip ks es) + pending ht'"
    by auto
  with ht show ?thesis
    by (intro exI [of _ ht] exI [of _ es] exI [of _ ks] exI [of _ d] exI [of _ ht']) simp
qed

text \<open>
  C16. The timer heap sorts: filling a well-formed empty heap with distinct entries and then removing the
  root as often gives all of them back in non-decreasing order of their expiry times.
\<close>
theorem timer_heap_sorts:
  assumes "em_timer_heap_create ok1 ok2 ok3 True n ents = (EM_SUCC, Some ht)" "distinct (map snd xs)"
  shows "\<exists>h1 ks es h2. fill t_ins ht xs = Some h1 \<and> drain t_pop (length xs) h1 = Some (es, h2) \<and>
    sorted ks \<and> length ks = length es \<and> mset (zip ks es) = mset xs \<and> pending h2 = {#}"
proof -
  note c = create_timer_ok [OF assms(1)]
  obtain h1 where h1: "fill t_ins ht xs = Some h1" "timer_ok h1" "pending h1 = mset xs"
    "th_mem_ok h1"
    using tq.fill_ok [OF conjI [OF c(1,3)] assms(2)] c(2) by auto
  with tq.drain_sorted [OF conjI [OF h1(2,4)], of "length xs"] show ?thesis by auto
qed

lemma timer_heap_sorts_witness:
  "\<exists>h1 es h2. fill t_ins ex_heap [((30, 0), 5), ((20, 0), 6)] = Some h1 \<and> drain t_pop 2 h1 = Some (es, h2) \<and>
     pending h2 = {#}"
proof -
  have "em_timer_heap_create True True True True 1 ex_entries = (EM_SUCC, Some ex_heap)"
    by (simp add: ex_heap_def em_timer_heap_create_def Let_def)
  from timer_heap_sorts [OF this, of "[((30, 0), 5), ((20, 0), 6)]"] show ?thesis
    by (simp del: fill.simps drain.simps add: numeral_2_eq_2) blast
qed

text \<open>
  A callback that schedules two timers corrupts a heap created for one: the poll keeps the fired
  timer's id aside, the growth test does not count it, and the second schedule takes an id from an
  empty free list, past the end of the id array.
\<close>
lemma timer_poll_two_schedules:
  "let sec = (\<lambda>s. \<lparr>tv_sec = s, tv_msec = 0\<rparr>);
       run = (\<lambda>c e h. do { (r1, h1) \<leftarrow> em_timer_heap_schedule (sec 20) h 1 (sec 1);
                           (r2, h2) \<leftarrow> em_timer_heap_schedule (sec 20) h1 2 (sec 1); Some h2 })
   in map_option (\<lambda>(r, h). em_timer_heap_poll run 65 (sec 20) h False = None)
        (em_timer_heap_schedule (sec 10) ex_heap 0 (sec 5)) = Some True"
  by code_simp

end
