(* ===== verification/Emlib_String.thy ===== *)
theory Emlib_String
  imports Emlib_Pool
begin

unbundle bit_operations_syntax

text \<open>
  Counted strings: \<open>src/string.c\<close>, \<open>include/em/string.h\<close>, \<open>include/em/string_i.h\<close> and the character
  classes of \<open>include/em/ctype.h\<close>.  An \<open>em_str_t\<close> is a pointer with two lengths, and the characters are
  in a byte memory, a function of the address.  A C string is its address; \<open>strlen\<close> looks for the NUL
  and is \<^const>\<open>None\<close> when there is none.  Bytes are compared as unsigned values, as \<open>memcmp\<close> and
  \<open>strncmp\<close> do.  \<open>PJ_HAS_CTYPE_H\<close> is defined nowhere, so the macros of \<open>compat/ctype.h\<close> are the
  character classes, and a form feed is not a space.  Number conversions are in \<open>Emlib_Number\<close>.
\<close>

type_synonym memory = "ptr \<Rightarrow> int8"

section \<open>Character classes\<close>

named_theorems ctype "definitions of the character classes"

definition isdigit :: "uint8 \<Rightarrow> bool" where [ctype]: "isdigit c \<longleftrightarrow> c \<ge> 0x30 \<and> c \<le> 0x39"
definition islower :: "uint8 \<Rightarrow> bool" where [ctype]: "islower c \<longleftrightarrow> c \<ge> 0x61 \<and> c \<le> 0x7A"
definition isupper :: "uint8 \<Rightarrow> bool" where [ctype]: "isupper c \<longleftrightarrow> c \<ge> 0x41 \<and> c \<le> 0x5A"
definition isalpha :: "uint8 \<Rightarrow> bool" where [ctype]: "isalpha c \<longleftrightarrow> islower c \<or> isupper c"
definition isalnum :: "uint8 \<Rightarrow> bool" where [ctype]: "isalnum c \<longleftrightarrow> isalpha c \<or> isdigit c"
definition isspace :: "uint8 \<Rightarrow> bool" where
  [ctype]: "isspace c \<longleftrightarrow> c = 0x20 \<or> c = 0x09 \<or> c = 0x0A \<or> c = 0x0D \<or> c = 0x0B"
definition tolower :: "uint8 \<Rightarrow> uint8" where
  [ctype]: "tolower c = (if c \<ge> 0x41 \<and> c \<le> 0x5A then c + 0x20 else c)"
definition toupper :: "uint8 \<Rightarrow> uint8" where
  [ctype]: "toupper c = (if c \<ge> 0x61 \<and> c \<le> 0x7A then c - 0x20 else c)"
definition isxdigit :: "uint8 \<Rightarrow> bool" where
  [ctype]: "isxdigit c \<longleftrightarrow> isdigit c \<or> (tolower c \<ge> 0x61 \<and> tolower c \<le> 0x66)"

definition em_isalnum :: "uint8 \<Rightarrow> bool" where [ctype]: "em_isalnum c = isalnum c"
definition em_isalpha :: "uint8 \<Rightarrow> bool" where [ctype]: "em_isalpha c = isalpha c"
definition em_isascii :: "uint8 \<Rightarrow> bool" where [ctype]: "em_isascii c \<longleftrightarrow> c < 128"
definition em_isdigit :: "uint8 \<Rightarrow> bool" where [ctype]: "em_isdigit c = isdigit c"
definition em_isspace :: "uint8 \<Rightarrow> bool" where [ctype]: "em_isspace c = isspace c"
definition em_islower :: "uint8 \<Rightarrow> bool" where [ctype]: "em_islower c = islower c"
definition em_isupper :: "uint8 \<Rightarrow> bool" where [ctype]: "em_isupper c = isupper c"
definition em_isblank :: "uint8 \<Rightarrow> bool" where [ctype]: "em_isblank c \<longleftrightarrow> c = 0x20 \<or> c = 0x09"
definition em_tolower :: "uint8 \<Rightarrow> uint8" where [ctype]: "em_tolower c = tolower c"
definition em_toupper :: "uint8 \<Rightarrow> uint8" where [ctype]: "em_toupper c = toupper c"
definition em_isxdigit :: "uint8 \<Rightarrow> bool" where [ctype]: "em_isxdigit c = isxdigit c"

definition em_hex_digits :: "int8 list" where
  "em_hex_digits =
     [0x30, 0x31, 0x32, 0x33, 0x34, 0x35, 0x36, 0x37, 0x38, 0x39, 0x61, 0x62, 0x63, 0x64, 0x65, 0x66]"

definition em_val_to_hex_digit :: "uint32 \<Rightarrow> ptr \<Rightarrow> memory \<Rightarrow> memory" where
  "em_val_to_hex_digit v p m =
     m(p := em_hex_digits ! unat (drop_bit 4 (v AND 0xF0)), p + 1 := em_hex_digits ! unat (v AND 0x0F))"

definition em_hex_digit_to_val :: "uint8 \<Rightarrow> uint32" where
  "em_hex_digit_to_val c =
     (if c \<le> 0x39 then (ucast c - 0x30) AND 0x0F
      else if c \<le> 0x46 then (ucast c - 0x41 + 10) AND 0x0F
      else (ucast c - 0x61 + 10) AND 0x0F)"

section \<open>Memory and C strings\<close>

definition chars :: "memory \<Rightarrow> ptr \<Rightarrow> nat \<Rightarrow> int8 list" where
  "chars m p n = map (\<lambda>i. m (p + of_nat i)) [0..<n]"

text \<open>
  The functions of \<open>string.h\<close>.  Copying through a null pointer, more bytes than an object can have, or
  between overlapping regions (for \<open>memcpy\<close>) is undefined in C and \<^const>\<open>None\<close> here.
\<close>

definition em_memset :: "memory \<Rightarrow> ptr \<Rightarrow> int8 \<Rightarrow> em_size_t \<Rightarrow> memory" where
  "em_memset m dst c n = (\<lambda>a. if a - dst < n then c else m a)"

definition em_memmove :: "memory \<Rightarrow> ptr \<Rightarrow> ptr \<Rightarrow> em_size_t \<Rightarrow> memory option" where
  "em_memmove m dst src n =
     (if n = 0 then Some m
      else if dst = 0 \<or> src = 0 \<or> \<not> n < 2 ^ 63 then None
      else Some (\<lambda>a. if a - dst < n then m (src + (a - dst)) else m a))"

definition em_memcpy :: "memory \<Rightarrow> ptr \<Rightarrow> ptr \<Rightarrow> em_size_t \<Rightarrow> memory option" where
  "em_memcpy m dst src n =
     (if n \<noteq> 0 \<and> (src - dst < n \<or> dst - src < n) then None else em_memmove m dst src n)"

fun memcmp_bytes :: "int8 list \<Rightarrow> int8 list \<Rightarrow> int" where
  "memcmp_bytes (a # as) (b # bs) = (if a \<noteq> b then uint a - uint b else memcmp_bytes as bs)"
| "memcmp_bytes _ _ = 0"

definition em_memcmp :: "memory \<Rightarrow> ptr \<Rightarrow> ptr \<Rightarrow> em_size_t \<Rightarrow> int" where
  "em_memcmp m buf1 buf2 n = memcmp_bytes (chars m buf1 (unat n)) (chars m buf2 (unat n))"

fun memchr_bytes :: "int8 list \<Rightarrow> int8 \<Rightarrow> ptr \<Rightarrow> ptr" where
  "memchr_bytes [] c p = 0"
| "memchr_bytes (x # xs) c p = (if x = c then p else memchr_bytes xs c (p + 1))"

definition em_memchr :: "memory \<Rightarrow> ptr \<Rightarrow> int8 \<Rightarrow> em_size_t \<Rightarrow> ptr" where
  "em_memchr m buf c n = memchr_bytes (chars m buf (unat n)) c buf"

partial_function (option) strlen_from :: "memory \<Rightarrow> ptr \<Rightarrow> nat \<Rightarrow> nat option" where
  "strlen_from m p n = (if m (p + of_nat n) = 0 then Some n else strlen_from m p (Suc n))"

definition em_ansi_strlen :: "memory \<Rightarrow> ptr \<Rightarrow> nat option" where
  "em_ansi_strlen m p = (if p = 0 then None else strlen_from m p 0)"

text \<open>\<open>strncmp\<close> and \<open>strncasecmp\<close> on the first \<open>n\<close> bytes of both: they stop at a NUL.\<close>

fun strncmp_bytes :: "(int8 \<Rightarrow> int8) \<Rightarrow> int8 list \<Rightarrow> int8 list \<Rightarrow> int" where
  "strncmp_bytes f (a # as) (b # bs) =
     (if f a \<noteq> f b then uint (f a) - uint (f b) else if a = 0 then 0 else strncmp_bytes f as bs)"
| "strncmp_bytes f _ _ = 0"

definition em_ansi_strncmp :: "memory \<Rightarrow> ptr \<Rightarrow> ptr \<Rightarrow> em_size_t \<Rightarrow> int" where
  "em_ansi_strncmp m a b n = strncmp_bytes (\<lambda>c. c) (chars m a (unat n)) (chars m b (unat n))"

definition em_ansi_strnicmp :: "memory \<Rightarrow> ptr \<Rightarrow> ptr \<Rightarrow> em_size_t \<Rightarrow> int" where
  "em_ansi_strnicmp m a b n = strncmp_bytes tolower (chars m a (unat n)) (chars m b (unat n))"

section \<open>Counted strings\<close>

record em_str_t =
  s_ptr :: ptr
  slen :: int
  blen :: int

definition str_bytes :: "memory \<Rightarrow> em_str_t \<Rightarrow> int8 list" where
  "str_bytes m s = chars m (s_ptr s) (nat (slen s))"

text \<open>\<open>s ? strlen(s) : 0\<close>\<close>

definition strlen_or_0 :: "memory \<Rightarrow> ptr \<Rightarrow> int option" where
  "strlen_or_0 m p = (if p = 0 then Some 0 else map_option int (em_ansi_strlen m p))"

definition em_str :: "memory \<Rightarrow> ptr \<Rightarrow> em_str_t option" where
  "em_str m str = do { n \<leftarrow> strlen_or_0 m str; Some \<lparr>s_ptr = str, slen = n, blen = 0\<rparr> }"

definition em_cstr :: "memory \<Rightarrow> em_str_t \<Rightarrow> ptr \<Rightarrow> em_str_t option" where
  "em_cstr m str s = do { n \<leftarrow> strlen_or_0 m s; Some (str\<lparr>s_ptr := s, slen := n, blen := 0\<rparr>) }"

definition em_strset :: "em_str_t \<Rightarrow> ptr \<Rightarrow> em_size_t \<Rightarrow> em_str_t" where
  "em_strset str p n = str\<lparr>s_ptr := p, slen := sint n\<rparr>"

definition em_strset2 :: "memory \<Rightarrow> em_str_t \<Rightarrow> ptr \<Rightarrow> em_str_t option" where
  "em_strset2 m str src = do { n \<leftarrow> strlen_or_0 m src; Some (str\<lparr>s_ptr := src, slen := n\<rparr>) }"

definition em_strset3 :: "em_str_t \<Rightarrow> ptr \<Rightarrow> ptr \<Rightarrow> em_str_t" where
  "em_strset3 str b e = str\<lparr>s_ptr := b, slen := sint (e - b)\<rparr>"

definition em_strlen :: "em_str_t \<Rightarrow> em_size_t" where "em_strlen str = of_int (slen str)"

definition em_strbuf :: "em_str_t \<Rightarrow> ptr" where "em_strbuf str = s_ptr str"


section \<open>Copying and appending\<close>

text \<open>
  The result is the target string, the memory, and whether the call returned the target (it returns null
  where the check of the room fails).
\<close>

definition em_strcpy :: "memory \<Rightarrow> em_str_t \<Rightarrow> em_str_t \<Rightarrow> (bool \<times> em_str_t \<times> memory) option" where
  "em_strcpy m dst src =
     (if \<not> blen dst \<ge> slen src then Some (False, dst, m)
      else do {
        m' \<leftarrow> (if slen src > 0 then em_memcpy m (s_ptr dst) (s_ptr src) (of_int (slen src)) else Some m);
        Some (True, dst\<lparr>slen := slen src\<rparr>, m')
      })"

text \<open>The number of bytes that \<open>em_strcpy2\<close> copies is the old length of the target.\<close>

definition em_strcpy2 :: "memory \<Rightarrow> em_str_t \<Rightarrow> ptr \<Rightarrow> (bool \<times> em_str_t \<times> memory) option" where
  "em_strcpy2 m dst src =
     do {
       len \<leftarrow> strlen_or_0 m src;
       if \<not> blen dst \<ge> len then Some (False, dst, m)
       else if len > 0 then do {
         m' \<leftarrow> em_memcpy m (s_ptr dst) src (of_int (slen dst));
         Some (True, dst\<lparr>slen := len\<rparr>, m')
       }
       else Some (True, dst, m)
     }"

definition em_strncpy :: "memory \<Rightarrow> em_str_t \<Rightarrow> em_str_t \<Rightarrow> int \<Rightarrow> (bool \<times> em_str_t \<times> memory) option" where
  "em_strncpy m dst src max_len =
     (if \<not> max_len \<ge> 0 then Some (False, dst, m)
      else
        (let n = (if max_len > slen src then slen src else max_len) in
         if \<not> blen dst \<ge> n then Some (False, dst, m)
         else do {
           m' \<leftarrow> (if n > 0 then em_memcpy m (s_ptr dst) (s_ptr src) (of_int n) else Some m);
           Some (True, dst\<lparr>slen := n\<rparr>, m')
         }))"

definition em_strncpy_with_null ::
  "memory \<Rightarrow> em_str_t \<Rightarrow> em_str_t \<Rightarrow> int \<Rightarrow> (bool \<times> em_str_t \<times> memory) option" where
  "em_strncpy_with_null m dst src max_len =
     (if \<not> max_len \<ge> 0 then Some (False, dst, m)
      else
        (let n = (if max_len \<le> slen src then max_len - 1 else slen src) in
         if \<not> blen dst \<ge> n then Some (False, dst, m)
         else do {
           m' \<leftarrow> em_memcpy m (s_ptr dst) (s_ptr src) (of_int n);
           Some (True, dst\<lparr>slen := n\<rparr>, m'(s_ptr dst + of_int n := 0))
         }))"

definition em_strcat :: "memory \<Rightarrow> em_str_t \<Rightarrow> em_str_t \<Rightarrow> (bool \<times> em_str_t \<times> memory) option" where
  "em_strcat m dst src =
     (if \<not> blen dst \<ge> slen dst + slen src then Some (False, dst, m)
      else if slen src \<noteq> 0 then do {
        m' \<leftarrow> em_memcpy m (s_ptr dst + of_int (slen dst)) (s_ptr src) (of_int (slen src));
        Some (True, dst\<lparr>slen := slen dst + slen src\<rparr>, m')
      }
      else Some (True, dst, m))"

text \<open>The check of the room in \<open>em_strcat2\<close> is an \<open>EMLIB_ASSERT\<close>, which goes on when it fails.\<close>

definition em_strcat2 :: "memory \<Rightarrow> em_str_t \<Rightarrow> ptr \<Rightarrow> (em_str_t \<times> memory) option" where
  "em_strcat2 m dst str =
     do {
       len \<leftarrow> strlen_or_0 m str;
       if len \<noteq> 0 then do {
         m' \<leftarrow> em_memcpy m (s_ptr dst + of_int (slen dst)) str (of_int len);
         Some (dst\<lparr>slen := slen dst + len\<rparr>, m')
       }
       else Some (dst, m)
     }"

section \<open>Comparison\<close>

definition length_order :: "em_str_t \<Rightarrow> em_str_t \<Rightarrow> int" where
  "length_order str1 str2 = (if slen str1 < slen str2 then - 1 else if slen str1 = slen str2 then 0 else 1)"

definition em_strcmp :: "memory \<Rightarrow> em_str_t \<Rightarrow> em_str_t \<Rightarrow> int" where
  "em_strcmp m str1 str2 =
     (if slen str1 = 0 then (if slen str2 = 0 then 0 else - 1)
      else if slen str2 = 0 then 1
      else
        (let shorter = (if slen str1 < slen str2 then slen str1 else slen str2);
             res = em_memcmp m (s_ptr str1) (s_ptr str2) (of_int shorter)
         in if res = 0 then length_order str1 str2 else res))"

definition em_stricmp :: "memory \<Rightarrow> em_str_t \<Rightarrow> em_str_t \<Rightarrow> int" where
  "em_stricmp m str1 str2 =
     (if slen str1 = 0 then (if slen str2 = 0 then 0 else - 1)
      else if slen str2 = 0 then 1
      else
        (let shorter = (if slen str1 < slen str2 then slen str1 else slen str2);
             res = em_ansi_strnicmp m (s_ptr str1) (s_ptr str2) (of_int shorter)
         in if res = 0 then length_order str1 str2 else res))"

text \<open>The cast \<open>(unsigned)str->slen\<close> keeps 32 bits of the length.\<close>

definition clip :: "em_size_t \<Rightarrow> em_str_t \<Rightarrow> em_str_t" where
  "clip len s = (if uint len < slen s mod 2 ^ 32 then s\<lparr>slen := sint len\<rparr> else s)"

definition em_strncmp :: "memory \<Rightarrow> em_str_t \<Rightarrow> em_str_t \<Rightarrow> em_size_t \<Rightarrow> int" where
  "em_strncmp m str1 str2 len = em_strcmp m (clip len str1) (clip len str2)"

definition em_strnicmp :: "memory \<Rightarrow> em_str_t \<Rightarrow> em_str_t \<Rightarrow> em_size_t \<Rightarrow> int" where
  "em_strnicmp m str1 str2 len = em_stricmp m (clip len str1) (clip len str2)"

text \<open>The variants on a C string; a null pointer counts as the empty string.\<close>

definition em_strcmp2 :: "memory \<Rightarrow> em_str_t \<Rightarrow> ptr \<Rightarrow> int option" where
  "em_strcmp2 m str1 str2 = do { copy2 \<leftarrow> em_str m str2; Some (em_strcmp m str1 copy2) }"

definition em_stricmp2 :: "memory \<Rightarrow> em_str_t \<Rightarrow> ptr \<Rightarrow> int option" where
  "em_stricmp2 m str1 str2 = do { copy2 \<leftarrow> em_str m str2; Some (em_stricmp m str1 copy2) }"

definition em_strncmp2 :: "memory \<Rightarrow> em_str_t \<Rightarrow> ptr \<Rightarrow> em_size_t \<Rightarrow> int option" where
  "em_strncmp2 m str1 str2 len = do { copy2 \<leftarrow> em_str m str2; Some (em_strncmp m str1 copy2 len) }"

definition em_strnicmp2 :: "memory \<Rightarrow> em_str_t \<Rightarrow> ptr \<Rightarrow> em_size_t \<Rightarrow> int option" where
  "em_strnicmp2 m str1 str2 len = do { copy2 \<leftarrow> em_str m str2; Some (em_strnicmp m str1 copy2 len) }"

section \<open>Searching\<close>

definition em_strchr :: "memory \<Rightarrow> em_str_t \<Rightarrow> int8 \<Rightarrow> ptr" where
  "em_strchr m str chr = (if slen str = 0 then 0 else em_memchr m (s_ptr str) chr (of_int (slen str)))"

text \<open>
  \<open>em_strspn\<close> counts every match of a character with the set, so that a character the set has twice
  counts twice.
\<close>

fun count_matches :: "int8 \<Rightarrow> int8 list \<Rightarrow> nat \<Rightarrow> nat" where
  "count_matches c [] cnt = cnt"
| "count_matches c (d # ds) cnt = count_matches c ds (if c = d then cnt + 1 else cnt)"

fun strspn_loop :: "int8 list \<Rightarrow> int8 list \<Rightarrow> nat \<Rightarrow> nat \<Rightarrow> nat" where
  "strspn_loop [] ds i cnt = cnt"
| "strspn_loop (c # cs) ds i cnt =
     (if cnt \<noteq> i then cnt else strspn_loop cs ds (i + 1) (count_matches c ds cnt))"

fun strcspn_loop :: "int8 list \<Rightarrow> int8 list \<Rightarrow> nat \<Rightarrow> nat" where
  "strcspn_loop [] ds i = i"
| "strcspn_loop (c # cs) ds i = (if list_ex (\<lambda>d. c = d) ds then i else strcspn_loop cs ds (i + 1))"

definition em_strspn :: "memory \<Rightarrow> em_str_t \<Rightarrow> em_str_t \<Rightarrow> int" where
  "em_strspn m str set_char = int (strspn_loop (str_bytes m str) (str_bytes m set_char) 0 0)"

definition em_strcspn :: "memory \<Rightarrow> em_str_t \<Rightarrow> em_str_t \<Rightarrow> int" where
  "em_strcspn m str set_char = int (strcspn_loop (str_bytes m str) (str_bytes m set_char) 0)"

definition em_strspn2 :: "memory \<Rightarrow> em_str_t \<Rightarrow> ptr \<Rightarrow> int option" where
  "em_strspn2 m str set_char =
     do { n \<leftarrow> em_ansi_strlen m set_char; Some (int (strspn_loop (str_bytes m str) (chars m set_char n) 0 0)) }"

definition em_strcspn2 :: "memory \<Rightarrow> em_str_t \<Rightarrow> ptr \<Rightarrow> int option" where
  "em_strcspn2 m str set_char =
     do { n \<leftarrow> em_ansi_strlen m set_char; Some (int (strcspn_loop (str_bytes m str) (chars m set_char n) 0)) }"

text \<open>The result is the index that \<open>em_strtok\<close> returns and the token it leaves in \<open>tok\<close>.\<close>

definition em_strtok :: "memory \<Rightarrow> em_str_t \<Rightarrow> em_str_t \<Rightarrow> em_str_t \<Rightarrow> int \<Rightarrow> int \<times> em_str_t" where
  "em_strtok m str delim tok start_idx =
     (if slen str = 0 \<or> slen str < start_idx then (slen str, tok\<lparr>slen := 0\<rparr>)
      else
        (let tok1 = tok\<lparr>s_ptr := s_ptr str + of_int start_idx, slen := slen str - start_idx\<rparr>;
             str_idx = em_strspn m tok1 delim
         in if start_idx + str_idx = slen str then (slen str, tok1)
            else
              (let tok2 = tok1\<lparr>s_ptr := s_ptr tok1 + of_int str_idx, slen := slen tok1 - str_idx\<rparr>
               in (start_idx + str_idx, tok2\<lparr>slen := em_strcspn m tok2 delim\<rparr>))))"

definition em_strtok2 :: "memory \<Rightarrow> em_str_t \<Rightarrow> ptr \<Rightarrow> em_str_t \<Rightarrow> int \<Rightarrow> (int \<times> em_str_t) option" where
  "em_strtok2 m str delim tok start_idx =
     (if slen str = 0 \<or> slen str < start_idx then Some (slen str, tok\<lparr>slen := 0\<rparr>)
      else do {
        let tok1 = tok\<lparr>s_ptr := s_ptr str + of_int start_idx, slen := slen str - start_idx\<rparr>;
        str_idx \<leftarrow> em_strspn2 m tok1 delim;
        if start_idx + str_idx = slen str then Some (slen str, tok1)
        else do {
          let tok2 = tok1\<lparr>s_ptr := s_ptr tok1 + of_int str_idx, slen := slen tok1 - str_idx\<rparr>;
          n \<leftarrow> em_strcspn2 m tok2 delim;
          Some (start_idx + str_idx, tok2\<lparr>slen := n\<rparr>)
        }
      })"

text \<open>\<open>for (; s <= ends; ++s)\<close>, with the number of positions left as the bound.\<close>

fun strstr_loop :: "(ptr \<Rightarrow> int) \<Rightarrow> ptr \<Rightarrow> nat \<Rightarrow> ptr" where
  "strstr_loop compare s 0 = 0"
| "strstr_loop compare s (Suc left) = (if compare s = 0 then s else strstr_loop compare (s + 1) left)"

definition em_strstr :: "memory \<Rightarrow> em_str_t \<Rightarrow> em_str_t \<Rightarrow> ptr" where
  "em_strstr m str substr =
     (if slen substr = 0 then s_ptr str
      else strstr_loop (\<lambda>s. em_ansi_strncmp m s (s_ptr substr) (of_int (slen substr)))
             (s_ptr str) (nat (slen str - slen substr + 1)))"

definition em_stristr :: "memory \<Rightarrow> em_str_t \<Rightarrow> em_str_t \<Rightarrow> ptr" where
  "em_stristr m str substr =
     (if slen substr = 0 then s_ptr str
      else strstr_loop (\<lambda>s. em_ansi_strnicmp m s (s_ptr substr) (of_int (slen substr)))
             (s_ptr str) (nat (slen str - slen substr + 1)))"

section \<open>Trimming\<close>

fun space_run :: "int8 list \<Rightarrow> int" where
  "space_run [] = 0"
| "space_run (c # cs) = (if em_isspace c then 1 + space_run cs else 0)"

definition em_strltrim :: "memory \<Rightarrow> em_str_t \<Rightarrow> em_str_t" where
  "em_strltrim m str =
     (let n = space_run (str_bytes m str) in str\<lparr>slen := slen str - n, s_ptr := s_ptr str + of_int n\<rparr>)"

definition em_strrtrim :: "memory \<Rightarrow> em_str_t \<Rightarrow> em_str_t" where
  "em_strrtrim m str = str\<lparr>slen := slen str - space_run (rev (str_bytes m str))\<rparr>"

definition em_strtrim :: "memory \<Rightarrow> em_str_t \<Rightarrow> em_str_t" where
  "em_strtrim m str = em_strrtrim m (em_strltrim m str)"


section \<open>Runs of memory\<close>

lemma length_chars [simp]: "length (chars m p n) = n" by (simp add: chars_def)

lemma nth_chars: "i < n \<Longrightarrow> chars m p n ! i = m (p + of_nat i)" by (simp add: chars_def)

lemma chars_0 [simp]: "chars m p 0 = []" by (simp add: chars_def)

lemma chars_eqI: "(\<And>i. i < n \<Longrightarrow> m' (q + of_nat i) = m (p + of_nat i)) \<Longrightarrow> chars m' q n = chars m p n"
  by (simp add: chars_def)

lemma chars_append: "chars m p (a + b) = chars m p a @ chars m (p + of_nat a) b"
  by (rule nth_equalityI) (auto simp: nth_append nth_chars ac_simps)

lemma chars_Suc: "chars m p (Suc n) = m p # chars m (p + 1) n"
  using chars_append [of m p 1 n] by (simp add: chars_def)

lemma take_chars: "k \<le> n \<Longrightarrow> take k (chars m p n) = chars m p k"
  using chars_append [of m p k "n - k"] by simp

lemma drop_chars: "k \<le> n \<Longrightarrow> drop k (chars m p n) = chars m (p + of_nat k) (n - k)"
  using chars_append [of m p k "n - k"] by simp

lemma length_str_bytes [simp]: "length (str_bytes m s) = nat (slen s)" by (simp add: str_bytes_def)

text \<open>\<open>p\<close> with \<open>n\<close> bytes and \<open>q\<close> with \<open>k\<close> bytes have no address in common.\<close>

definition separate :: "ptr \<Rightarrow> nat \<Rightarrow> ptr \<Rightarrow> nat \<Rightarrow> bool" where
  "separate p n q k \<longleftrightarrow> (\<forall>i < n. \<forall>j < k. p + of_nat i \<noteq> q + of_nat j)"

lemma separateD: "separate p n q k \<Longrightarrow> i < n \<Longrightarrow> j < k \<Longrightarrow> p + of_nat i \<noteq> q + of_nat j"
  by (simp add: separate_def)

lemma separate_below: "unat p + n \<le> unat q \<Longrightarrow> unat q + k \<le> 2 ^ 64 \<Longrightarrow> separate p n q k"
  unfolding separate_def
proof (intro allI impI)
  fix i j assume h: "unat p + n \<le> unat q" "unat q + k \<le> 2 ^ 64" "i < n" "j < k"
  have "unat (p + of_nat i) = unat p + i" "unat (q + of_nat j) = unat q + j"
    using h by (simp_all add: unat_word_ariths unat_of_nat take_bit_eq_mod)
  moreover have "unat p + i \<noteq> unat q + j" using h(1,3) by linarith
  ultimately show "p + of_nat i \<noteq> q + of_nat j" by metis
qed

lemma separate_sub:
  "separate p n q k \<Longrightarrow> a + n' \<le> n \<Longrightarrow> k' \<le> k \<Longrightarrow> separate (p + of_nat a) n' q k'"
  unfolding separate_def
proof (intro allI impI)
  fix i j assume h: "\<forall>i<n. \<forall>j<k. p + of_nat i \<noteq> q + of_nat j" "a + n' \<le> n" "k' \<le> k" "i < n'" "j < k'"
  then have "a + i < n" "j < k" by simp_all
  with h(1) have "p + of_nat (a + i) \<noteq> q + of_nat j" by blast
  then show "p + of_nat a + of_nat i \<noteq> q + of_nat j" by (simp add: ac_simps)
qed

lemma address_in: "a - p < of_nat n \<Longrightarrow> \<exists>i < n. (a :: ptr) = p + of_nat i"
proof -
  assume "a - p < of_nat n"
  then have "unat (a - p) < n"
    by (simp add: word_less_nat_alt unat_of_nat take_bit_eq_mod)
  moreover have "a = p + of_nat (unat (a - p))" by simp
  ultimately show ?thesis by blast
qed

lemma offset_less: "i < n \<Longrightarrow> n < 2 ^ 64 \<Longrightarrow> (of_nat i :: ptr) < of_nat n"
  by (simp add: word_less_nat_alt unat_of_nat take_bit_nat_eq_self)

lemma of_nat_inj: "(of_nat i :: ptr) = of_nat j \<Longrightarrow> i < 2 ^ 64 \<Longrightarrow> j < 2 ^ 64 \<Longrightarrow> i = j"
  by (simp add: word_unat_eq_iff unat_of_nat take_bit_nat_eq_self)

lemma memcpy_separate:
  assumes "separate d n s n" "n < 2 ^ 63" "n = 0 \<or> d \<noteq> 0 \<and> s \<noteq> 0"
  shows "\<exists>m'. em_memcpy m d s (of_nat n) = Some m' \<and> chars m' d n = chars m s n \<and>
    (\<forall>a. \<not> a - d < of_nat n \<longrightarrow> m' a = m a)"
proof (cases "n = 0")
  case True then show ?thesis by (simp add: em_memcpy_def em_memmove_def)
next
  case False
  have apart: "\<not> s - d < of_nat n" "\<not> d - s < of_nat n"
    using address_in [of s d n] address_in [of d s n] separateD [OF assms(1), of _ 0]
      separateD [OF assms(1), of 0] False by fastforce+
  have "(of_nat n :: ptr) \<noteq> 0" "(of_nat n :: ptr) < 2 ^ 63"
    using False assms(2) by (simp_all add: word_less_nat_alt unat_of_nat take_bit_nat_eq_self word_unat_eq_iff)
  then have "em_memcpy m d s (of_nat n) = Some (\<lambda>a. if a - d < of_nat n then m (s + (a - d)) else m a)"
    using apart assms(3) False by (simp add: em_memcpy_def em_memmove_def)
  moreover have "chars (\<lambda>a. if a - d < of_nat n then m (s + (a - d)) else m a) d n = chars m s n"
    by (rule chars_eqI) (use assms(2) in \<open>simp add: offset_less\<close>)
  ultimately show ?thesis by simp
qed

section \<open>Strings in their buffers\<close>

definition str_ok :: "em_str_t \<Rightarrow> bool" where
  "str_ok s \<longleftrightarrow> 0 \<le> slen s \<and> slen s < 2 ^ 63 \<and> (slen s = 0 \<or> s_ptr s \<noteq> 0)"

definition buffer_ok :: "em_str_t \<Rightarrow> bool" where
  "buffer_ok s \<longleftrightarrow> 0 \<le> slen s \<and> slen s \<le> blen s \<and> blen s < 2 ^ 63 \<and>
     s_ptr s \<noteq> 0 \<and> uint (s_ptr s) + blen s \<le> 2 ^ 64"

text \<open>
  What an update of the target \<open>dst\<close> to the contents \<open>bytes\<close> promises: it is made exactly when the bytes
  fit the buffer, it writes nowhere else, and a refusal changes nothing.
\<close>

definition updated :: "memory \<Rightarrow> em_str_t \<Rightarrow> int8 list \<Rightarrow> (bool \<times> em_str_t \<times> memory) option \<Rightarrow> bool" where
  "updated m dst bytes r \<longleftrightarrow>
     (if int (length bytes) \<le> blen dst then
        (\<exists>m'. r = Some (True, dst\<lparr>slen := int (length bytes)\<rparr>, m') \<and>
              chars m' (s_ptr dst) (length bytes) = bytes \<and>
              (\<forall>a. \<not> a - s_ptr dst < of_int (blen dst) \<longrightarrow> m' a = m a))
      else r = Some (False, dst, m))"

lemma outside_prefix:
  assumes "\<not> a - p < (of_nat n :: ptr)" "k \<le> n" "n < 2 ^ 64"
  shows "\<not> a - p < of_nat k"
proof
  assume "a - p < of_nat k"
  then obtain i where "i < k" "a = p + of_nat i" using address_in by blast
  then have "a - p < of_nat n" using assms(2,3) offset_less [of i n] by simp
  with assms(1) show False by simp
qed


lemma updated_refused: "blen dst < int (length bytes) \<Longrightarrow> updated m dst bytes (Some (False, dst, m))"
  by (simp add: updated_def)

lemma of_int_eq_of_nat: "0 \<le> k \<Longrightarrow> (of_int k :: ptr) = of_nat (nat k)" by simp

text \<open>One copy of \<open>n\<close> bytes behind the first \<open>k\<close> bytes of the target serves all three functions.\<close>

lemma updated_by_copy:
  assumes "buffer_ok dst" "separate (s_ptr dst) (nat (blen dst)) src n" "int (k + n) \<le> blen dst"
    and "n = 0 \<or> src \<noteq> 0 \<and> s_ptr dst + of_nat k \<noteq> 0"
  shows "\<exists>m'. em_memcpy m (s_ptr dst + of_nat k) src (of_nat n) = Some m' \<and>
    updated m dst (chars m (s_ptr dst) k @ chars m src n) (Some (True, dst\<lparr>slen := int (k + n)\<rparr>, m'))"
proof -
  let ?p = "s_ptr dst" and ?b = "nat (blen dst)"
  have b: "k + n \<le> ?b" "?b < 2 ^ 63" using assms(1,3) by (auto simp: buffer_ok_def)
  have "separate (?p + of_nat k) n src n" using separate_sub [OF assms(2), of k n n] b by simp
  with memcpy_separate [of "?p + of_nat k" n src m] assms b obtain m' where m':
    "em_memcpy m (?p + of_nat k) src (of_nat n) = Some m'" "chars m' (?p + of_nat k) n = chars m src n"
    "\<And>a. \<not> a - (?p + of_nat k) < of_nat n \<Longrightarrow> m' a = m a" by force
  have "chars m' ?p k = chars m ?p k"
  proof (rule chars_eqI)
    fix i assume i: "i < k"
    have "\<not> ?p + of_nat i - (?p + of_nat k) < of_nat n"
    proof
      assume "?p + of_nat i - (?p + of_nat k) < of_nat n"
      then obtain j where j: "j < n" "?p + of_nat i = ?p + of_nat k + of_nat j" using address_in by blast
      then have "(of_nat i :: ptr) = of_nat (k + j)" by (simp add: ac_simps)
      then have "i = k + j" by (rule of_nat_inj) (use i j b in simp_all)
      with i show False by simp
    qed
    then show "m' (?p + of_nat i) = m (?p + of_nat i)" by (rule m'(3))
  qed
  then have "chars m' ?p (k + n) = chars m ?p k @ chars m src n" by (simp add: chars_append m'(2))
  moreover have "m' a = m a" if "\<not> a - ?p < of_int (blen dst)" for a
  proof (rule m'(3), rule)
    assume "a - (?p + of_nat k) < of_nat n"
    then obtain j where "j < n" "a = ?p + of_nat (k + j)" using address_in by (force simp: ac_simps)
    then have "a - ?p < of_nat ?b" using b offset_less [of "k + j" ?b] by simp
    with that assms(1) show False by (simp add: buffer_ok_def)
  qed
  ultimately show ?thesis using m'(1) assms(3) by (auto simp: updated_def)
qed


lemma inside_nonzero: "buffer_ok dst \<Longrightarrow> k < nat (blen dst) \<Longrightarrow> s_ptr dst + of_nat k \<noteq> 0"
proof
  assume h: "buffer_ok dst" "k < nat (blen dst)" "s_ptr dst + of_nat k = 0"
  have "uint (s_ptr dst) + int k < 2 ^ 64" using h(1,2) unfolding buffer_ok_def by linarith
  moreover have "uint (s_ptr dst + of_nat k) = (uint (s_ptr dst) + int k) mod 2 ^ 64"
    by (simp add: uint_word_ariths(1) unsigned_of_nat take_bit_eq_mod of_nat_mod mod_simps)
  moreover have "uint (s_ptr dst) \<noteq> 0" using h(1) by (simp add: buffer_ok_def uint_0_iff)
  ultimately show False using h(3) uint_ge_0 [of "s_ptr dst"] by (simp add: mod_pos_pos_trivial)
qed

text \<open>
  C23. Copying, truncated copying and appending write the target to be the source, its first \<open>k\<close>
  characters, or the old contents followed by the source, exactly when that fits the buffer of the target,
  never write a byte outside that buffer, and otherwise refuse without any effect.  The source may be
  anything that does not overlap the buffer.
\<close>
theorem str_copy_spec:
  assumes "buffer_ok dst" "str_ok src" "separate (s_ptr dst) (nat (blen dst)) (s_ptr src) (nat (slen src))"
  shows "updated m dst (str_bytes m src) (em_strcpy m dst src) \<and>
    updated m dst (take k (str_bytes m src)) (em_strncpy m dst src (int k)) \<and>
    updated m dst (str_bytes m dst @ str_bytes m src) (em_strcat m dst src)"
proof -
  let ?p = "s_ptr dst"
  obtain n c where n: "slen src = int n" and c: "slen dst = int c"
    using assms(1,2) nonneg_int_cases unfolding str_ok_def buffer_ok_def by metis
  have src: "j = 0 \<or> s_ptr src \<noteq> 0" if "j \<le> n" for j using assms(2) n that by (auto simp: str_ok_def)
  have p: "?p \<noteq> 0" "0 \<le> blen dst" "int c \<le> blen dst" using assms(1) c by (auto simp: buffer_ok_def)
  have copy: "\<exists>m'. em_memcpy m ?p (s_ptr src) (of_nat j) = Some m' \<and>
      updated m dst (chars m (s_ptr src) j) (Some (True, dst\<lparr>slen := int j\<rparr>, m'))"
    if "j \<le> n" "int j \<le> blen dst" for j
    using updated_by_copy [where dst = dst and src = "s_ptr src" and n = j and k = 0 and m = m, OF assms(1)]
      separate_sub [OF assms(3), of 0 "nat (blen dst)" j] src [OF that(1)] that n p by simp
  have same: "dst\<lparr>slen := int c\<rparr> = dst" using c by (cases dst) simp
  have none: "updated m dst [] (Some (True, dst\<lparr>slen := 0\<rparr>, m))"
      "updated m dst (chars m ?p c) (Some (True, dst, m))"
    using p same by (simp_all add: updated_def)
  have "updated m dst (str_bytes m src) (em_strcpy m dst src)"
  proof (cases "slen src \<le> blen dst")
    case True
    then show ?thesis using copy [of n] none(1) n
      by (cases "n = 0") (auto simp: em_strcpy_def str_bytes_def)
  next
    case False
    then show ?thesis using n updated_refused [of dst "str_bytes m src" m] by (simp add: em_strcpy_def)
  qed
  moreover have "updated m dst (take k (str_bytes m src)) (em_strncpy m dst src (int k))"
  proof -
    define j where "j = min k n"
    have j: "take k (str_bytes m src) = chars m (s_ptr src) j" "j \<le> n"
      "(if int k > slen src then slen src else int k) = int j"
      using n by (auto simp: j_def str_bytes_def min_def take_chars)
    show ?thesis
    proof (cases "int j \<le> blen dst")
      case True
      then show ?thesis unfolding em_strncpy_def j Let_def
        using copy [OF j(2) True] none(1) by (cases "j = 0") auto
    next
      case False
      then show ?thesis unfolding em_strncpy_def j Let_def
        using updated_refused [of dst "chars m (s_ptr src) j" m] by simp
    qed
  qed
  moreover have "updated m dst (str_bytes m dst @ str_bytes m src) (em_strcat m dst src)"
  proof (cases "blen dst \<ge> int (c + n)")
    case True
    show ?thesis
    proof (cases "n = 0")
      case True
      then show ?thesis using none(2) n c p by (simp add: em_strcat_def str_bytes_def)
    next
      case False
      then have "?p + of_nat c \<noteq> 0" using inside_nonzero [OF assms(1), of c] True by auto
      then show ?thesis
        using updated_by_copy [where dst = dst and src = "s_ptr src" and n = n and k = c and m = m, OF assms(1)]
          assms(3) True n c src [of n] False by (auto simp: em_strcat_def str_bytes_def)
    qed
  next
    case False
    then show ?thesis
      using n c updated_refused [of dst "str_bytes m dst @ str_bytes m src" m]
      by (simp add: em_strcat_def str_bytes_def)
  qed
  ultimately show ?thesis by blast
qed


definition ex_mem :: memory where
  "ex_mem = (\<lambda>a. if a = 0x2000 then 0x61 else if a = 0x2001 then 0x62 else 0)"

definition ex_dst :: em_str_t where "ex_dst = \<lparr>s_ptr = 0x1000, slen = 1, blen = 8\<rparr>"

definition ex_src :: em_str_t where "ex_src = \<lparr>s_ptr = 0x2000, slen = 2, blen = 0\<rparr>"

lemma ex_chars: "chars ex_mem 0x2000 2 = [0x61, 0x62]" "ex_mem 0x2002 = 0"
  by (simp_all add: chars_def ex_mem_def upt_rec)

lemma str_copy_spec_witness:
  "updated ex_mem ex_dst (str_bytes ex_mem ex_src) (em_strcpy ex_mem ex_dst ex_src) \<and>
   updated ex_mem ex_dst (take 1 (str_bytes ex_mem ex_src)) (em_strncpy ex_mem ex_dst ex_src (int 1)) \<and>
   updated ex_mem ex_dst (str_bytes ex_mem ex_dst @ str_bytes ex_mem ex_src) (em_strcat ex_mem ex_dst ex_src)"
  by (rule str_copy_spec)
    (simp_all add: ex_dst_def ex_src_def buffer_ok_def str_ok_def separate_below)

lemma strlen_from_found:
  assumes "\<And>i. i < k \<Longrightarrow> m (p + of_nat (n + i)) \<noteq> 0" "m (p + of_nat (n + k)) = 0"
  shows "strlen_from m p n = Some (n + k)"
  using assms
proof (induction k arbitrary: n)
  case 0 then show ?case by (simp add: strlen_from.simps)
next
  case (Suc k)
  from Suc.prems(1) [of 0] have "m (p + of_nat n) \<noteq> 0" by simp
  moreover have "strlen_from m p (Suc n) = Some (Suc n + k)"
    by (rule Suc.IH) (use Suc.prems(1) [of "Suc _"] Suc.prems(2) in simp_all)
  ultimately show ?case by (simp add: strlen_from.simps)
qed

lemma strlen_found:
  assumes "p \<noteq> 0" "0 \<notin> set (chars m p n)" "m (p + of_nat n) = 0"
  shows "em_ansi_strlen m p = Some n"
proof -
  have "m (p + of_nat (0 + i)) \<noteq> 0" if "i < n" for i
    using assms(2) that by (auto simp: chars_def)
  then have "strlen_from m p 0 = Some (0 + n)" by (rule strlen_from_found) (use assms(3) in simp_all)
  with assms(1) show ?thesis by (simp add: em_ansi_strlen_def)
qed

text \<open>
  \<open>em_strcpy2\<close> copies as many bytes as the target had before, not as the source has: into an empty
  target with room for a non-empty C string it copies nothing and still reports the length of the source,
  and an empty source leaves the old contents in place instead of emptying the target.
\<close>
lemma strcpy2_copies_old_length:
  assumes "src \<noteq> 0" "0 \<notin> set (chars m src n)" "m (src + of_nat n) = 0" "int n \<le> blen dst"
  shows "(n > 0 \<and> slen dst = 0 \<longrightarrow> em_strcpy2 m dst src = Some (True, dst\<lparr>slen := int n\<rparr>, m)) \<and>
    (n = 0 \<longrightarrow> em_strcpy2 m dst src = Some (True, dst, m))"
  using strlen_found [OF assms(1-3)] assms(1,4)
  by (auto simp: em_strcpy2_def strlen_or_0_def em_memcpy_def em_memmove_def)

lemma strcpy2_copies_old_length_witness:
  "em_strcpy2 ex_mem (ex_dst\<lparr>slen := 0\<rparr>) 0x2000 = Some (True, ex_dst\<lparr>slen := 2\<rparr>, ex_mem)"
  using strcpy2_copies_old_length [of "0x2000" ex_mem 2 "ex_dst\<lparr>slen := 0\<rparr>"] ex_chars
  by (simp add: ex_dst_def)

lemma strncpy_with_null_zero:
  assumes "0 \<le> slen src" "blen dst \<ge> 0"
  shows "em_strncpy_with_null m dst src 0 = None"
  using assms by (simp add: em_strncpy_with_null_def em_memcpy_def em_memmove_def)

text \<open>The check before \<open>em_strncpy_with_null\<close> writes leaves no room for the NUL it adds.\<close>

lemma strncpy_with_null_overrun:
  assumes "em_memcpy m (s_ptr dst) (s_ptr src) (of_int (slen src)) = Some m'"
    and "0 \<le> slen src" "blen dst = slen src" "slen src < k"
  shows "em_strncpy_with_null m dst src k =
    Some (True, dst\<lparr>slen := blen dst\<rparr>, m'(s_ptr dst + of_int (blen dst) := 0))"
  using assms by (simp add: em_strncpy_with_null_def Let_def)

lemma strcat2_ignores_room:
  assumes "src \<noteq> 0" "0 \<notin> set (chars m src n)" "m (src + of_nat n) = 0" "n > 0"
    and "em_memcpy m (s_ptr dst + of_int (slen dst)) src (of_nat n) = Some m'"
  shows "em_strcat2 m dst src = Some (dst\<lparr>slen := slen dst + int n\<rparr>, m')"
  using strlen_found [OF assms(1-3)] assms(1,4,5) by (simp add: em_strcat2_def strlen_or_0_def)

section \<open>The order of strings\<close>

lemma memcmp_sign: "(uint a - uint b < 0 \<longleftrightarrow> a < b) \<and> (uint a - uint b = 0 \<longleftrightarrow> a = (b :: int8))"
  by (simp add: word_less_def word_uint_eq_iff)

lemma memcmp_take: "n = min (length xs) (length ys) \<Longrightarrow> memcmp_bytes (take n xs) (take n ys) = memcmp_bytes xs ys"
proof (induction xs ys arbitrary: n rule: memcmp_bytes.induct)
  case (1 a as b bs) then show ?case by (cases n) auto
qed auto

lemma memcmp_lexord:
  "(memcmp_bytes xs ys = 0 \<longleftrightarrow> take (length ys) xs = take (length xs) ys) \<and>
   (memcmp_bytes xs ys < 0 \<or> memcmp_bytes xs ys = 0 \<and> length xs < length ys \<longleftrightarrow>
    (xs, ys) \<in> lexord {(a, b). a < b})"
proof (induction xs ys rule: memcmp_bytes.induct)
  case (1 a as b bs)
  then show ?case by (auto simp: word_less_def word_uint_eq_iff)
qed (auto simp: neq_Nil_conv)

lemma chars_memcmp:
  assumes "str_ok s" "str_ok t"
  shows "em_memcmp m (s_ptr s) (s_ptr t) (of_int (min (slen s) (slen t))) = memcmp_bytes (str_bytes m s) (str_bytes m t)"
proof -
  obtain a b where ab: "slen s = int a" "slen t = int b" "int a < 2 ^ 63" "int b < 2 ^ 63"
    using assms nonneg_int_cases unfolding str_ok_def by metis
  define k where "k = min a b"
  have k: "min (slen s) (slen t) = int k" "k \<le> a" "k \<le> b" using ab by (auto simp: k_def)
  then have "unat (of_int (int k) :: em_size_t) = k"
    using ab by (simp add: unat_of_nat take_bit_nat_eq_self)
  then show ?thesis
    using memcmp_take [of k "str_bytes m s" "str_bytes m t"] k ab
    by (simp add: em_memcmp_def str_bytes_def k_def take_chars)
qed

text \<open>
  C21. \<open>em_strcmp\<close> is the lexicographic order of the characters as unsigned bytes: it is zero exactly on
  equal contents and negative exactly when the first string is before the second one, whatever
  characters, NUL included, they have.
\<close>
theorem strcmp_lexicographic:
  assumes "str_ok s" "str_ok t"
  shows "(em_strcmp m s t = 0 \<longleftrightarrow> str_bytes m s = str_bytes m t) \<and>
    (em_strcmp m s t < 0 \<longleftrightarrow> (str_bytes m s, str_bytes m t) \<in> lexord {(a, b). a < b})"
proof -
  have l: "0 \<le> slen s" "0 \<le> slen t" using assms by (simp_all add: str_ok_def)
  have len: "slen s < slen t \<longleftrightarrow> length (str_bytes m s) < length (str_bytes m t)"
    "slen s = slen t \<longleftrightarrow> length (str_bytes m s) = length (str_bytes m t)"
    "slen s = 0 \<longleftrightarrow> str_bytes m s = []" "slen t = 0 \<longleftrightarrow> str_bytes m t = []"
    using l by (auto simp flip: length_0_conv)
  have shorter: "(if slen s < slen t then slen s else slen t) = min (slen s) (slen t)" by simp
  have eq: "em_strcmp m s t =
    (if str_bytes m s = [] then (if str_bytes m t = [] then 0 else - 1)
     else if str_bytes m t = [] then 1
     else if memcmp_bytes (str_bytes m s) (str_bytes m t) = 0
     then (if length (str_bytes m s) < length (str_bytes m t) then - 1
           else if length (str_bytes m s) = length (str_bytes m t) then 0 else 1)
     else memcmp_bytes (str_bytes m s) (str_bytes m t))"
    unfolding em_strcmp_def Let_def shorter chars_memcmp [OF assms]
    by (simp only: length_order_def len)
  show ?thesis
    using memcmp_lexord [of "str_bytes m s" "str_bytes m t"] unfolding eq
    by (cases "str_bytes m s"; cases "str_bytes m t") (auto split: if_splits)
qed

lemma strcmp_lexicographic_witness:
  "(em_strcmp ex_mem ex_dst ex_src = 0 \<longleftrightarrow> str_bytes ex_mem ex_dst = str_bytes ex_mem ex_src) \<and>
   (em_strcmp ex_mem ex_dst ex_src < 0 \<longleftrightarrow>
     (str_bytes ex_mem ex_dst, str_bytes ex_mem ex_src) \<in> lexord {(a, b). a < b})"
  by (rule strcmp_lexicographic) (simp_all add: ex_dst_def ex_src_def str_ok_def)


section \<open>Tokens\<close>

text \<open>
  The tokens of a list: its maximal runs of characters that are not delimiters.  A client reads them with
  \<open>em_strtok\<close> by starting each call behind the token before, until the length of the string comes back;
  the number of calls is at most the length of the string and one.
\<close>

function tokens :: "int8 set \<Rightarrow> int8 list \<Rightarrow> int8 list list" where
  "tokens D xs =
     (let ys = dropWhile (\<lambda>c. c \<in> D) xs in
      if ys = [] then []
      else takeWhile (\<lambda>c. c \<notin> D) ys # tokens D (dropWhile (\<lambda>c. c \<notin> D) ys))"
  by pat_completeness auto
termination
proof (relation "measure (\<lambda>(D, xs). length xs)", goal_cases)
  case (2 D xs ys)
  then obtain c cs where "ys = c # cs" "c \<notin> D" by (metis hd_dropWhile list.exhaust_sel)
  then have "length (dropWhile (\<lambda>c. c \<notin> D) ys) < length ys" by (simp add: length_dropWhile_le le_imp_less_Suc)
  also have "\<dots> \<le> length xs" by (simp add: 2(1) length_dropWhile_le)
  finally show ?case by simp
qed simp

declare tokens.simps [simp del]

fun strtok_all :: "nat \<Rightarrow> memory \<Rightarrow> em_str_t \<Rightarrow> em_str_t \<Rightarrow> em_str_t \<Rightarrow> int \<Rightarrow> int8 list list option" where
  "strtok_all 0 m str delim tok idx = None"
| "strtok_all (Suc fuel) m str delim tok idx =
     (case em_strtok m str delim tok idx of
        (i, tok') \<Rightarrow>
          if i = slen str then Some []
          else map_option (Cons (str_bytes m tok')) (strtok_all fuel m str delim tok' (i + slen tok')))"

lemma count_matches_list: "count_matches c ds k = k + count_list ds c"
  by (induction c ds k rule: count_matches.induct) auto

lemma count_list_distinct: "distinct ds \<Longrightarrow> count_list ds c = (if c \<in> set ds then 1 else 0)"
  by (induction ds) (auto simp: count_list_0_iff)

lemma strspn_stop: "k \<noteq> i \<Longrightarrow> strspn_loop cs ds i k = k" by (cases cs) simp_all

lemma strspn_run:
  "distinct ds \<Longrightarrow> strspn_loop cs ds i i = i + length (takeWhile (\<lambda>c. c \<in> set ds) cs)"
proof (induction cs arbitrary: i)
  case (Cons c cs)
  then show ?case
    by (cases "c \<in> set ds")
      (simp_all add: count_matches_list count_list_distinct strspn_stop)
qed simp

lemma strcspn_run: "strcspn_loop cs ds i = i + length (takeWhile (\<lambda>c. c \<notin> set ds) cs)"
  by (induction cs ds i rule: strcspn_loop.induct) (auto simp: list_ex_iff)

text \<open>The part of a string behind its first \<open>k\<close> characters.\<close>

lemma str_bytes_drop:
  assumes "0 \<le> k" "k \<le> slen s"
  shows "str_bytes m (t\<lparr>s_ptr := s_ptr s + of_int k, slen := slen s - k\<rparr>) = drop (nat k) (str_bytes m s)"
  using assms drop_chars [of "nat k" "nat (slen s)" m "s_ptr s"] by (simp add: str_bytes_def nat_diff_distrib)

lemma strtok_step:
  assumes "str_ok str" "distinct (str_bytes m delim)" "0 \<le> idx" "idx \<le> slen str"
  shows "(let D = set (str_bytes m delim); xs = drop (nat idx) (str_bytes m str);
              ys = dropWhile (\<lambda>c. c \<in> D) xs;
              i = idx + int (length (takeWhile (\<lambda>c. c \<in> D) xs)) in
    (ys = [] \<longrightarrow> fst (em_strtok m str delim tok idx) = slen str) \<and>
    (ys \<noteq> [] \<longrightarrow> i < slen str \<and> drop (nat i) (str_bytes m str) = ys \<and>
      (\<exists>tok'. em_strtok m str delim tok idx = (i, tok') \<and> str_bytes m tok' = takeWhile (\<lambda>c. c \<notin> D) ys \<and>
              slen tok' = int (length (takeWhile (\<lambda>c. c \<notin> D) ys)))))"
proof -
  define D where "D = set (str_bytes m delim)"
  define xs where "xs = drop (nat idx) (str_bytes m str)"
  define ys where "ys = dropWhile (\<lambda>c. c \<in> D) xs"
  define k where "k = int (length (takeWhile (\<lambda>c. c \<in> D) xs))"
  have len: "int (length xs) = slen str - idx" using assms(3,4) by (simp add: xs_def nat_diff_distrib)
  have split: "length xs = nat k + length ys"
    unfolding k_def ys_def nat_int by (metis length_append takeWhile_dropWhile_id)
  define tok1 where "tok1 = tok\<lparr>s_ptr := s_ptr str + of_int idx, slen := slen str - idx\<rparr>"
  have t1: "str_bytes m tok1 = xs" "slen tok1 = int (length xs)"
    using str_bytes_drop [OF assms(3,4), of m tok] len by (simp_all add: tok1_def xs_def)
  have spn: "em_strspn m tok1 delim = k"
    using strspn_run [OF assms(2), of xs 0] by (simp add: em_strspn_def t1 k_def D_def)
  have k: "0 \<le> k" "k \<le> slen tok1" using split t1 by (simp_all add: k_def)
  define tok2 where "tok2 = tok1\<lparr>s_ptr := s_ptr tok1 + of_int k, slen := slen tok1 - k\<rparr>"
  have t2: "str_bytes m tok2 = ys"
    using str_bytes_drop [OF k, of m tok1] t1 by (simp add: tok2_def ys_def k_def dropWhile_eq_drop)
  have cspn: "em_strcspn m tok2 delim = int (length (takeWhile (\<lambda>c. c \<notin> D) ys))"
    using strcspn_run [of ys "str_bytes m delim" 0] by (simp add: em_strcspn_def t2 D_def)
  have eq: "em_strtok m str delim tok idx =
    (if slen str = 0 then (slen str, tok\<lparr>slen := 0\<rparr>)
     else if idx + k = slen str then (slen str, tok1) else (idx + k, tok2\<lparr>slen := em_strcspn m tok2 delim\<rparr>))"
    using assms(4) unfolding em_strtok_def Let_def tok1_def [symmetric] spn tok2_def [symmetric] by auto
  have at_end: "idx + k = slen str \<longleftrightarrow> ys = []" using split len k(1)
    by (simp flip: length_0_conv) linarith
  show ?thesis
    unfolding Let_def D_def [symmetric] xs_def [symmetric] ys_def [symmetric] k_def [symmetric]
  proof (intro conjI impI)
    show "fst (em_strtok m str delim tok idx) = slen str" if "ys = []"
      using that at_end by (auto simp: eq)
  next
    assume y: "ys \<noteq> []"
    show "idx + k < slen str" using y split len k(1) by (cases ys) auto
    show "drop (nat (idx + k)) (str_bytes m str) = ys"
      using assms(3) k(1) by (simp add: ys_def xs_def k_def dropWhile_eq_drop nat_add_distrib add.commute)
    have "0 < length ys" using y by simp
    then have "slen str \<noteq> 0" using split len assms(3) by linarith
    moreover have "str_bytes m (tok2\<lparr>slen := em_strcspn m tok2 delim\<rparr>) = takeWhile (\<lambda>c. c \<notin> D) ys"
    proof -
      define j where "j = length (takeWhile (\<lambda>c. c \<notin> D) ys)"
      have "j \<le> length ys" unfolding j_def by (rule length_takeWhile_le)
      then have "j \<le> nat (slen tok2)" using arg_cong [OF t2, of length] by simp
      then have "chars m (s_ptr tok2) j = take j ys" unfolding t2 [symmetric] str_bytes_def by (rule take_chars [symmetric])
      also have "\<dots> = takeWhile (\<lambda>c. c \<notin> D) ys" unfolding j_def by (rule takeWhile_eq_take [symmetric])
      finally show ?thesis by (simp add: str_bytes_def cspn flip: j_def)
    qed
    ultimately show "\<exists>tok'. em_strtok m str delim tok idx = (idx + k, tok') \<and>
        str_bytes m tok' = takeWhile (\<lambda>c. c \<notin> D) ys \<and> slen tok' = int (length (takeWhile (\<lambda>c. c \<notin> D) ys))"
      using at_end y cspn by (simp add: eq)
  qed
qed


lemma strtok_all_from:
  assumes "str_ok str" "distinct (str_bytes m delim)" "0 \<le> idx" "idx \<le> slen str" "slen str - idx < int fuel"
  shows "strtok_all fuel m str delim tok idx =
    Some (tokens (set (str_bytes m delim)) (drop (nat idx) (str_bytes m str)))"
  using assms(3-5)
proof (induction fuel arbitrary: idx tok)
  case (Suc fuel)
  define D where "D = set (str_bytes m delim)"
  define xs where "xs = drop (nat idx) (str_bytes m str)"
  define ys where "ys = dropWhile (\<lambda>c. c \<in> D) xs"
  define i where "i = idx + int (length (takeWhile (\<lambda>c. c \<in> D) xs))"
  note step = strtok_step [OF assms(1,2) Suc.prems(1,2), of tok,
      unfolded Let_def, folded D_def, folded xs_def, folded ys_def, folded i_def]
  show ?case
  proof (cases "ys = []")
    case True
    with step have "fst (em_strtok m str delim tok idx) = slen str" by simp
    moreover have "tokens D xs = []" using True by (simp add: tokens.simps [of D xs] ys_def)
    ultimately show ?thesis by (simp add: split_beta D_def xs_def)
  next
    case False
    with step obtain tok' where t: "i < slen str" "drop (nat i) (str_bytes m str) = ys"
      "em_strtok m str delim tok idx = (i, tok')" "str_bytes m tok' = takeWhile (\<lambda>c. c \<notin> D) ys"
      "slen tok' = int (length (takeWhile (\<lambda>c. c \<notin> D) ys))" by blast
    have i: "idx \<le> i" "0 \<le> i" using Suc.prems(1) by (simp_all add: i_def)
    have y: "int (length ys) = slen str - i" using t(1,2) i by (auto simp flip: t(2))
    have "ys \<noteq> [] \<longrightarrow> hd ys \<notin> D" unfolding ys_def using hd_dropWhile [of "\<lambda>c. c \<in> D" xs] by blast
    with False have "takeWhile (\<lambda>c. c \<notin> D) ys \<noteq> []" by (cases ys) auto
    then have pos: "0 < slen tok'" "slen tok' \<le> int (length ys)"
      using t(5) length_takeWhile_le [of "\<lambda>c. c \<notin> D" ys] by auto
    have "strtok_all fuel m str delim tok' (i + slen tok') =
      Some (tokens D (drop (nat (i + slen tok')) (str_bytes m str)))"
      unfolding D_def by (rule Suc.IH) (use pos y i Suc.prems in linarith)+
    also have "drop (nat (i + slen tok')) (str_bytes m str) = dropWhile (\<lambda>c. c \<notin> D) ys"
      using i pos(1) t(5) by (simp add: nat_add_distrib dropWhile_eq_drop add.commute flip: t(2))
    finally show ?thesis
      using t False tokens.simps [of D xs] by (simp add: D_def [symmetric] xs_def [symmetric] ys_def [symmetric] Let_def)
  qed
qed simp

text \<open>
  C20. Reading a string with \<open>em_strtok\<close> from the start, each time behind the token before, ends after at
  most one call per character and one more, and gives exactly the maximal runs of non-delimiters, in
  order, when the delimiters are distinct.
\<close>
theorem strtok_gives_tokens:
  assumes "str_ok str" "distinct (str_bytes m delim)"
  shows "strtok_all (nat (slen str) + 1) m str delim tok 0 =
    Some (tokens (set (str_bytes m delim)) (str_bytes m str))"
  using strtok_all_from [OF assms, of 0 "nat (slen str) + 1" tok] assms(1) by (simp add: str_ok_def)

lemma strtok_gives_tokens_witness:
  "strtok_all 3 ex_mem ex_src (ex_src\<lparr>s_ptr := 0x2001, slen := 1\<rparr>) ex_src 0 = Some [[0x61]]"
proof -
  let ?delim = "ex_src\<lparr>s_ptr := 0x2001, slen := 1\<rparr>"
  have b: "str_bytes ex_mem ?delim = [0x62]" "str_bytes ex_mem ex_src = [0x61, 0x62]"
    by (simp_all add: str_bytes_def chars_def ex_src_def ex_mem_def eval_nat_numeral)
  have "strtok_all (nat (slen ex_src) + 1) ex_mem ex_src ?delim ex_src 0 =
      Some (tokens (set (str_bytes ex_mem ?delim)) (str_bytes ex_mem ex_src))"
    by (rule strtok_gives_tokens) (simp add: ex_src_def str_ok_def, simp only: b, simp)
  moreover have n: "nat (slen ex_src) + 1 = 3" by (simp add: ex_src_def)
  moreover have "tokens {0x62} [0x61, 0x62] = [[0x61]]" by (simp add: tokens.simps)
  ultimately show ?thesis unfolding b n by (simp only: list.set)
qed

text \<open>
  A delimiter given twice breaks the scan: on a string of one delimiter the run of delimiters is
  counted as two characters, so that \<open>em_strtok\<close> answers with an index behind the end of the string and
  a token that starts there.
\<close>
lemma strtok_repeated_delimiter:
  assumes "str_bytes m str = [c]" "str_bytes m delim = [c, c]" "slen str = 1"
  shows "em_strtok m str delim tok 0 = (2, tok\<lparr>s_ptr := s_ptr str + 2, slen := 0\<rparr>)"
proof -
  have b: "str_bytes m (tok\<lparr>s_ptr := s_ptr str, slen := 1\<rparr>) = [c]"
    using assms(1,3) by (simp add: str_bytes_def)
  then show ?thesis
    using assms by (simp add: em_strtok_def em_strspn_def em_strcspn_def str_bytes_def)
qed

lemma strtok_repeated_delimiter_witness:
  "em_strtok (\<lambda>a. 0x20) (ex_src\<lparr>slen := 1\<rparr>) ex_src ex_src 0 = (2, \<lparr>s_ptr = 0x2002, slen = 0, blen = 0\<rparr>)"
  using strtok_repeated_delimiter [of "\<lambda>a. 0x20" "ex_src\<lparr>slen := 1\<rparr>" "0x20" ex_src ex_src]
  by (simp add: ex_src_def str_bytes_def chars_def eval_nat_numeral)


section \<open>Substrings\<close>

lemma find_map: "List.find P (map f xs) = map_option f (List.find (P \<circ> f) xs)"
  by (induction xs) auto

lemma strstr_loop_find:
  "strstr_loop f p n =
    (case List.find (\<lambda>k. f (p + of_nat k) = 0) [0..<n] of None \<Rightarrow> 0 | Some k \<Rightarrow> p + of_nat k)"
proof (induction n arbitrary: p)
  case (Suc n)
  have "[0..<Suc n] = 0 # map Suc [0..<n]" by (simp add: map_Suc_upt upt_conv_Cons del: upt_Suc)
  then show ?case
    using Suc.IH [of "p + 1"]
    by (simp add: find_map ac_simps o_def del: upt_Suc split: option.split)
qed simp

lemma strncmp_bytes_equal:
  "length xs = length ys \<Longrightarrow> 0 \<notin> set ys \<Longrightarrow> strncmp_bytes (\<lambda>c. c) xs ys = 0 \<longleftrightarrow> xs = ys"
proof (induction xs ys rule: list_induct2)
  case (Cons x xs y ys) then show ?case by (auto simp: word_uint_eq_iff)
qed simp

text \<open>
  \<open>em_strstr\<close> finds the first place where a pattern without NUL characters occurs, and answers null
  when it occurs nowhere; a pattern longer than the string is never compared.
\<close>
lemma strstr_finds_first:
  assumes "str_ok str" "str_ok substr" "slen substr \<noteq> 0" "0 \<notin> set (str_bytes m substr)"
  shows "em_strstr m str substr =
    (let xs = str_bytes m str; ys = str_bytes m substr in
     case List.find (\<lambda>k. take (length ys) (drop k xs) = ys) [0..<length xs + 1 - length ys] of
       None \<Rightarrow> 0 | Some k \<Rightarrow> s_ptr str + of_nat k)"
proof -
  have "0 \<le> slen str" "0 \<le> slen substr" "slen substr < 2 ^ 63" using assms by (simp_all add: str_ok_def)
  moreover define a b where "a = nat (slen str)" and "b = nat (slen substr)"
  ultimately have ab: "slen str = int a" "slen substr = int b" "int b < 2 ^ 63" "b \<noteq> 0"
    using assms(3) by simp_all
  have n: "unat (of_int (slen substr) :: em_size_t) = b" "nat (slen str - slen substr + 1) = a + 1 - b"
    unfolding ab using ab(3) by (simp add: unat_of_nat take_bit_nat_eq_self, linarith)
  have same: "em_ansi_strncmp m (s_ptr str + of_nat k) (s_ptr substr) (of_int (slen substr)) = 0 \<longleftrightarrow>
      take b (drop k (str_bytes m str)) = str_bytes m substr" if "k < a + 1 - b" for k
  proof -
    have "take b (drop k (str_bytes m str)) = chars m (s_ptr str + of_nat k) b"
      using that drop_chars [of k a m "s_ptr str"] take_chars [of b "a - k"] by (simp add: str_bytes_def ab)
    then show ?thesis
      using strncmp_bytes_equal [of "chars m (s_ptr str + of_nat k) b" "str_bytes m substr"] assms(4)
      by (simp add: em_ansi_strncmp_def n(1)) (simp add: str_bytes_def ab)
  qed
  have "List.find (\<lambda>k. em_ansi_strncmp m (s_ptr str + of_nat k) (s_ptr substr) (of_int (slen substr)) = 0)
      [0..<a + 1 - b] = List.find (\<lambda>k. take b (drop k (str_bytes m str)) = str_bytes m substr) [0..<a + 1 - b]"
    by (rule find_cong) (auto simp: same)
  moreover have "length (str_bytes m str) = a" "length (str_bytes m substr) = b" by (simp_all add: ab)
  ultimately show ?thesis
    using assms(3) unfolding em_strstr_def strstr_loop_find n(2) Let_def by (simp del: upt_Suc)
qed

lemma strstr_finds_first_witness:
  "em_strstr ex_mem ex_src (ex_src\<lparr>s_ptr := 0x2001, slen := 1\<rparr>) = 0x2001"
proof -
  let ?sub = "ex_src\<lparr>s_ptr := 0x2001, slen := 1\<rparr>"
  have b: "str_bytes ex_mem ?sub = [0x62]" "str_bytes ex_mem ex_src = [0x61, 0x62]"
    by (simp_all add: str_bytes_def chars_def ex_src_def ex_mem_def eval_nat_numeral)
  have "em_strstr ex_mem ex_src ?sub =
    (let xs = str_bytes ex_mem ex_src; ys = str_bytes ex_mem ?sub in
     case List.find (\<lambda>k. take (length ys) (drop k xs) = ys) [0..<length xs + 1 - length ys] of
       None \<Rightarrow> 0 | Some k \<Rightarrow> s_ptr ex_src + of_nat k)"
    by (rule strstr_finds_first) (simp_all add: b, simp_all add: ex_src_def str_ok_def)
  then show ?thesis unfolding b by (simp add: ex_src_def)
qed

section \<open>Trimming and hexadecimal digits\<close>

lemma space_run_length: "space_run cs = int (length (takeWhile em_isspace cs))"
  by (induction cs) auto

lemma strltrim_bytes: "0 \<le> slen s \<Longrightarrow> str_bytes m (em_strltrim m s) = dropWhile em_isspace (str_bytes m s)"
proof -
  assume s: "0 \<le> slen s"
  define n where "n = space_run (str_bytes m s)"
  have "n = int (length (takeWhile em_isspace (str_bytes m s)))" by (simp add: n_def space_run_length)
  moreover from this have "0 \<le> n" "n \<le> slen s"
    using length_takeWhile_le [of em_isspace "str_bytes m s"] s by auto
  moreover have "em_strltrim m s = s\<lparr>s_ptr := s_ptr s + of_int n, slen := slen s - n\<rparr>"
    by (simp add: em_strltrim_def n_def Let_def)
  ultimately show ?thesis
    using str_bytes_drop [of n s m s] by (simp add: dropWhile_eq_drop)
qed

lemma strltrim_ok: "0 \<le> slen s \<Longrightarrow> 0 \<le> slen (em_strltrim m s) \<and> slen (em_strltrim m s) \<le> slen s"
  using length_takeWhile_le [of em_isspace "str_bytes m s"]
  by (auto simp: em_strltrim_def space_run_length Let_def)

lemma strrtrim_bytes:
  assumes "0 \<le> slen s"
  shows "str_bytes m (em_strrtrim m s) = rev (dropWhile em_isspace (rev (str_bytes m s)))"
proof -
  let ?xs = "str_bytes m s"
  define j where "j = length (takeWhile em_isspace (rev ?xs))"
  have j: "j \<le> nat (slen s)" unfolding j_def using length_takeWhile_le [of em_isspace "rev ?xs"] by simp
  have "slen (em_strrtrim m s) = slen s - int j" "s_ptr (em_strrtrim m s) = s_ptr s"
    by (simp_all add: em_strrtrim_def space_run_length j_def)
  then have "str_bytes m (em_strrtrim m s) = take (nat (slen s) - j) ?xs"
    using assms j by (simp add: str_bytes_def take_chars nat_diff_distrib)
  also have "\<dots> = rev (drop j (rev ?xs))" by (simp add: rev_drop)
  also have "drop j (rev ?xs) = dropWhile em_isspace (rev ?xs)" unfolding j_def by (simp only: dropWhile_eq_drop)
  finally show ?thesis .
qed

text \<open>
  \<open>em_strtrim\<close> leaves the string without its leading and trailing white space, in place: the result
  is a part of the old string, and nothing between its first and its last other character is lost.
\<close>
lemma strtrim_spec:
  assumes "str_ok s"
  shows "str_bytes m (em_strtrim m s) =
      rev (dropWhile em_isspace (rev (dropWhile em_isspace (str_bytes m s)))) \<and>
    0 \<le> slen (em_strtrim m s) \<and> slen (em_strtrim m s) \<le> slen s"
proof -
  have l: "0 \<le> slen (em_strltrim m s)" "slen (em_strltrim m s) \<le> slen s" using strltrim_ok [of s m] assms by (auto simp: str_ok_def)
  then have "0 \<le> slen (em_strtrim m s)" "slen (em_strtrim m s) \<le> slen (em_strltrim m s)"
    using length_takeWhile_le [of em_isspace "rev (str_bytes m (em_strltrim m s))"]
    by (auto simp: em_strtrim_def em_strrtrim_def space_run_length)
  then show ?thesis
    using l strltrim_bytes [of s m] strrtrim_bytes [OF l(1), of m] assms
    by (simp add: em_strtrim_def str_ok_def)
qed

lemma strtrim_spec_witness:
  "str_bytes ex_mem (em_strtrim ex_mem ex_src) =
      rev (dropWhile em_isspace (rev (dropWhile em_isspace (str_bytes ex_mem ex_src)))) \<and>
    0 \<le> slen (em_strtrim ex_mem ex_src) \<and> slen (em_strtrim ex_mem ex_src) \<le> slen ex_src"
  by (rule strtrim_spec) (simp add: ex_src_def str_ok_def)

lemma hex_digit_roundtrip: "i < 16 \<Longrightarrow> em_hex_digit_to_val (em_hex_digits ! i) = of_nat i"
proof -
  assume "i < 16"
  have "\<forall>i \<in> set [0..<16]. em_hex_digit_to_val (em_hex_digits ! i) = of_nat i"
    by (simp add: upt_rec em_hex_digits_def em_hex_digit_to_val_def)
  with \<open>i < 16\<close> show ?thesis by simp
qed

lemma hex_digits_isxdigit: "c \<in> set em_hex_digits \<Longrightarrow> em_isxdigit c"
  by (auto simp: em_hex_digits_def ctype)


section \<open>Strings from a pool\<close>

text \<open>
  \<open>ptr = em_pool_alloc(pool, room); memcpy(ptr, src, n)\<close>, without a copy when \<open>n\<close> is 0.  The result of
  the allocation is not checked, so that copying into a null pointer is a \<^const>\<open>Fault\<close>.
\<close>

definition alloc_copy ::
  "'s em_pool_factory_policy \<Rightarrow> em_pool_t \<Rightarrow> memory \<Rightarrow> ptr \<Rightarrow> em_size_t \<Rightarrow> em_size_t \<Rightarrow> 's \<Rightarrow>
   ptr outcome \<times> em_pool_t \<times> memory \<times> 's" where
  "alloc_copy pol pool m src n room s =
     (case em_pool_alloc pol pool room s of
        (Ret p, pool', s') \<Rightarrow>
          (if n = 0 then (Ret p, pool', m, s')
           else (case em_memcpy m p src n of
                   None \<Rightarrow> (Fault, pool', m, s')
                 | Some m' \<Rightarrow> (Ret p, pool', m', s')))
      | (r, pool', s') \<Rightarrow> (r, pool', m, s'))"

text \<open>Setting the fields of the target, with the NUL that two of the functions add.\<close>

definition set_copy :: "em_str_t \<Rightarrow> int \<Rightarrow> ptr outcome \<times> em_pool_t \<times> memory \<times> 's \<Rightarrow>
   em_str_t outcome \<times> em_pool_t \<times> memory \<times> 's" where
  "set_copy dst n res =
     (case res of
        (Ret p, pool, m, s) \<Rightarrow> (Ret (dst\<lparr>s_ptr := p, slen := n\<rparr>), pool, m, s)
      | (Raised e, pool, m, s) \<Rightarrow> (Raised e, pool, m, s)
      | (Fault, pool, m, s) \<Rightarrow> (Fault, pool, m, s))"

definition terminate_copy :: "int \<Rightarrow> ptr outcome \<times> em_pool_t \<times> memory \<times> 's \<Rightarrow>
   ptr outcome \<times> em_pool_t \<times> memory \<times> 's" where
  "terminate_copy n res =
     (case res of
        (Ret p, pool, m, s) \<Rightarrow> (if p = 0 then (Fault, pool, m, s) else (Ret p, pool, m(p + of_int n := 0), s))
      | r \<Rightarrow> r)"

text \<open>The flag \<open>same\<close> says that \<open>dst\<close> and \<open>src\<close> are one structure.\<close>

definition em_strdup ::
  "'s em_pool_factory_policy \<Rightarrow> bool \<Rightarrow> em_pool_t \<Rightarrow> memory \<Rightarrow> em_str_t \<Rightarrow> em_str_t \<Rightarrow> 's \<Rightarrow>
   em_str_t outcome \<times> em_pool_t \<times> memory \<times> 's" where
  "em_strdup pol same pool m dst src s =
     (if same then (Ret dst, pool, m, s)
      else if slen src \<noteq> 0 then
        set_copy dst (slen src) (alloc_copy pol pool m (s_ptr src) (of_int (slen src)) (of_int (slen src)) s)
      else (Ret (dst\<lparr>slen := slen src\<rparr>), pool, m, s))"

definition em_strdup_with_null ::
  "'s em_pool_factory_policy \<Rightarrow> em_pool_t \<Rightarrow> memory \<Rightarrow> em_str_t \<Rightarrow> em_str_t \<Rightarrow> 's \<Rightarrow>
   em_str_t outcome \<times> em_pool_t \<times> memory \<times> 's" where
  "em_strdup_with_null pol pool m dst src s =
     set_copy dst (slen src) (terminate_copy (slen src)
       (alloc_copy pol pool m (s_ptr src) (of_int (slen src)) (of_int (slen src + 1)) s))"

definition em_strdup2 ::
  "'s em_pool_factory_policy \<Rightarrow> em_pool_t \<Rightarrow> memory \<Rightarrow> em_str_t \<Rightarrow> ptr \<Rightarrow> 's \<Rightarrow>
   em_str_t outcome \<times> em_pool_t \<times> memory \<times> 's" where
  "em_strdup2 pol pool m dst src s =
     (case strlen_or_0 m src of
        None \<Rightarrow> (Fault, pool, m, s)
      | Some n \<Rightarrow>
          if n \<noteq> 0 then set_copy dst n (alloc_copy pol pool m src (of_int n) (of_int n) s)
          else (Ret (dst\<lparr>s_ptr := 0, slen := n\<rparr>), pool, m, s))"

definition em_strdup2_with_null ::
  "'s em_pool_factory_policy \<Rightarrow> em_pool_t \<Rightarrow> memory \<Rightarrow> em_str_t \<Rightarrow> ptr \<Rightarrow> 's \<Rightarrow>
   em_str_t outcome \<times> em_pool_t \<times> memory \<times> 's" where
  "em_strdup2_with_null pol pool m dst src s =
     (case strlen_or_0 m src of
        None \<Rightarrow> (Fault, pool, m, s)
      | Some n \<Rightarrow>
          set_copy dst n (terminate_copy n (alloc_copy pol pool m src (of_int n) (of_int (n + 1)) s)))"

text \<open>The local variable of \<open>em_strdup3\<close> is not initialised; \<open>temp\<close> stands for what it holds.\<close>

definition em_strdup3 ::
  "'s em_pool_factory_policy \<Rightarrow> em_pool_t \<Rightarrow> memory \<Rightarrow> em_str_t \<Rightarrow> ptr \<Rightarrow> 's \<Rightarrow>
   em_str_t outcome \<times> em_pool_t \<times> memory \<times> 's" where
  "em_strdup3 pol pool m temp src s = em_strdup2 pol pool m temp src s"

definition sizeof_em_str_t :: em_size_t where "sizeof_em_str_t = 24"

text \<open>The structure is at the start of the region, its characters behind it.\<close>

definition em_str_new ::
  "'s em_pool_factory_policy \<Rightarrow> em_pool_t \<Rightarrow> em_size_t \<Rightarrow> 's \<Rightarrow>
   (ptr \<times> em_str_t) option outcome \<times> em_pool_t \<times> 's" where
  "em_str_new pol pool n s =
     (case em_pool_alloc pol pool (sizeof_em_str_t + n) s of
        (Ret p, pool', s') \<Rightarrow>
          (Ret (if p = 0 then None
                else Some (p, \<lparr>s_ptr = p + sizeof_em_str_t, slen = 0, blen = sint n\<rparr>)), pool', s')
      | (Raised e, pool', s') \<Rightarrow> (Raised e, pool', s')
      | (Fault, pool', s') \<Rightarrow> (Fault, pool', s'))"

text \<open>Two regions of the address space that are apart as regions are apart as addresses.\<close>

lemma apart_separate:
  assumes "apart (unat p, n) (unat q, k)" "unat p + n < 2 ^ 64" "unat q + k < 2 ^ 64"
  shows "separate p n q k"
proof -
  have "separate p n q k \<longleftrightarrow> separate q k p n" unfolding separate_def by metis
  then show ?thesis using assms separate_below [of p n q k] separate_below [of q k p n] by (auto simp: apart_def)
qed

lemma user_region_bounds:
  assumes "pool_ok pool" "user_ok live (block_list pool)" "r \<in> set live"
  shows "fst r + snd r < 2 ^ 64"
proof -
  obtain b where "b \<in> set (block_list pool)" "within r (used_region b)" using assms(2,3) by (auto simp: user_ok_def)
  moreover from this have "unat (b_buf b) + (unat (b_cur b) - unat (b_buf b)) < 2 ^ 64"
    using unsigned_less [of "b_cur b"] unsigned_less [of "b_buf b"] by (cases "unat (b_buf b) \<le> unat (b_cur b)") auto
  ultimately show ?thesis by (auto simp: within_def used_region_def)
qed


lemma alloc_room:
  assumes "pool_ok pool" "unat sz + 4 < 2 ^ 64" "find_space (block_list pool) sz \<noteq> None"
  shows "\<exists>p pool'. em_pool_alloc pol pool sz s = (Ret p, pool', s) \<and> p \<noteq> 0"
proof -
  obtain p bs' where f: "find_space (block_list pool) sz = Some (p, bs')" using assms(3) by auto
  have bs: "blocks_ok (block_list pool)" using assms(1) by (simp add: pool_ok_def)
  show ?thesis
    using f find_space_Some [OF f bs assms(2)]
    by (auto simp: alloc_eq_allocate_find [OF bs assms(2)] em_pool_allocate_find_def)
qed

text \<open>
  C19. Duplicating a string of the pool.  An empty source only clears the length of the target.  Otherwise
  what \<open>em_strdup\<close> does is decided by its one allocation, of as many bytes as the source has.  When the pool
  gives a region, and it does when one of its blocks has the room, the result is the target pointing to
  that region, with the characters and the length of the source; the region is fresh, apart from every
  region given before, and no byte outside of it is written.  When the pool gives null the copy goes
  through the null pointer, which is a fault; when the pool raises, the exception passes; both leave the
  memory and the regions given before as they were.  The source lies in a region of the pool, and its
  length, the increment of the pool and 44 together are below \<open>2 ^ 64\<close>, so that the size of a new block
  does not wrap.
\<close>
theorem strdup_fresh_copy:
  assumes "block_provider (block_alloc pol) ok" "pool_ok pool" "user_ok live (block_list pool)"
    and "ok s (mset (pool_regions pool) + R0)"
    and "str_ok src" "within (unat (s_ptr src), nat (slen src)) r" "r \<in> set live"
    and "nat (slen src) + unat (increment_size pool) + 44 < 2 ^ 64"
    and "em_pool_alloc pol pool (of_int (slen src)) s = (x, pool1, s1)"
  shows "if slen src = 0 then em_strdup pol False pool m dst src s = (Ret (dst\<lparr>slen := 0\<rparr>), pool, m, s) else
    pool_ok pool1 \<and> ok s1 (mset (pool_regions pool1) + R0) \<and>
    (find_space (block_list pool) (of_int (slen src)) \<noteq> None \<longrightarrow> (\<exists>p. x = Ret p \<and> p \<noteq> 0)) \<and>
    (case x of
       Ret p \<Rightarrow>
         if p = 0 then em_strdup pol False pool m dst src s = (Fault, pool1, m, s1) \<and> user_ok live (block_list pool1)
         else (\<exists>m'. em_strdup pol False pool m dst src s = (Ret (dst\<lparr>s_ptr := p, slen := slen src\<rparr>), pool1, m', s1) \<and>
           str_bytes m' (dst\<lparr>s_ptr := p, slen := slen src\<rparr>) = str_bytes m src \<and>
           user_ok ((unat p, unat (round_up (of_int (slen src)))) # live) (block_list pool1) \<and>
           (\<forall>a. \<not> a - p < of_int (slen src) \<longrightarrow> m' a = m a))
     | Raised e \<Rightarrow> em_strdup pol False pool m dst src s = (Raised e, pool1, m, s1) \<and> user_ok live (block_list pool1)
     | Fault \<Rightarrow> em_strdup pol False pool m dst src s = (Fault, pool1, m, s1) \<and> user_ok live (block_list pool1))"
proof (cases "slen src = 0")
  case True
  then show ?thesis by (simp add: em_strdup_def)
next
  case nonempty: False
  obtain n where n: "slen src = int n" "n \<noteq> 0" "n < 2 ^ 63" "s_ptr src \<noteq> 0"
    using assms(5) nonempty by (auto simp: str_ok_def intro: nonneg_int_cases)
  let ?n = "of_nat n :: em_size_t"
  have un: "unat ?n = n" using n by (simp add: unat_of_nat take_bit_nat_eq_self)
  have nz: "?n \<noteq> 0" using un n(2) by (simp add: word_unat_eq_iff)
  have al: "em_pool_alloc pol pool ?n s = (x, pool1, s1)" using assms(9) by (simp add: n(1))
  have post: "alloc_post ok ?n live R0 (x, pool1, s1)"
    using block_provider.alloc_safe [OF assms(1) refl assms(2-4), of ?n] assms(8) n un unfolding al by simp
  then have ok': "pool_ok pool1" "ok s1 (mset (pool_regions pool1) + R0)" by (simp_all add: alloc_post_def)
  have room: "find_space (block_list pool) ?n \<noteq> None \<longrightarrow> (\<exists>p. x = Ret p \<and> p \<noteq> 0)"
    using alloc_room [OF assms(2), of ?n pol s] al un n(3) by auto
  have dup: "em_strdup pol False pool m dst src s = set_copy dst (int n)
      (case (x, pool1, s1) of (Ret p, pool', s') \<Rightarrow>
          (case em_memcpy m p (s_ptr src) ?n of None \<Rightarrow> (Fault, pool', m, s') | Some m' \<Rightarrow> (Ret p, pool', m', s'))
        | (r, pool', s') \<Rightarrow> (r, pool', m, s'))"
    using n(2) nz unfolding em_strdup_def alloc_copy_def n(1) of_int_of_nat_eq al by (cases x) simp_all
  show ?thesis
  proof (cases "\<exists>p. x = Ret p \<and> p \<noteq> 0")
    case False
    then have "user_ok live (block_list pool1)" using post by (auto simp: alloc_post_def split: outcome.splits if_splits)
    moreover have "em_memcpy m 0 (s_ptr src) ?n = None"
      using un n by (auto simp: em_memcpy_def em_memmove_def word_unat_eq_iff)
    ultimately show ?thesis using False ok' room n by (cases x) (auto simp: dup set_copy_def)
  next
    case True
    then obtain p where p: "x = Ret p" "p \<noteq> 0" by blast
    have u: "user_ok ((unat p, unat (round_up ?n)) # live) (block_list pool1)"
      using post p by (simp add: alloc_post_def)
    have r: "n \<le> unat (round_up ?n)" using round_up_ge(1) [of ?n] n un by simp
    have b: "unat p + unat (round_up ?n) < 2 ^ 64" "fst r + snd r < 2 ^ 64"
      using user_region_bounds [OF ok'(1) u] assms(7) by (force, simp)
    have "apart (unat p, unat (round_up ?n)) r" using u assms(7) by (simp add: user_ok_def)
    then have "apart (unat p, n) (unat (s_ptr src), n)"
      by (rule apart_within) (use r assms(6) n in \<open>auto simp: within_def\<close>)
    then have "separate p n (s_ptr src) n"
      by (rule apart_separate) (use b r assms(6) n in \<open>auto simp: within_def\<close>)
    from memcpy_separate [OF this n(3), of m] p n obtain m' where
      "em_memcpy m p (s_ptr src) ?n = Some m'" "chars m' p n = chars m (s_ptr src) n"
      "\<forall>a. \<not> a - p < ?n \<longrightarrow> m' a = m a" by blast
    then show ?thesis using u ok' room n p by (auto simp: dup set_copy_def str_bytes_def)
  qed
qed

definition ex_user_pool :: em_pool_t where
  "ex_user_pool =
     ex_pool\<lparr>block_list := [\<lparr>b_addr = 4224, b_buf = 4264, b_cur = 4268, b_end = 4352\<rparr>]\<rparr>"

definition ex_str :: em_str_t where "ex_str = \<lparr>s_ptr = 4264, slen = 2, blen = 0\<rparr>"

lemma strdup_fresh_copy_witness:
  "\<exists>m'. em_strdup bump_policy False ex_user_pool ex_mem ex_dst ex_str 4352 =
      (Ret (ex_dst\<lparr>s_ptr := 4268, slen := 2\<rparr>), ex_user_pool\<lparr>block_list :=
        [\<lparr>b_addr = 4224, b_buf = 4264, b_cur = 4272, b_end = 4352\<rparr>]\<rparr>, m', 4352) \<and>
    str_bytes m' (ex_dst\<lparr>s_ptr := 4268, slen := 2\<rparr>) = str_bytes ex_mem ex_str"
proof -
  have "em_pool_alloc bump_policy ex_user_pool (of_int (slen ex_str)) 4352 = (Ret 4268, ex_user_pool\<lparr>block_list :=
      [\<lparr>b_addr = 4224, b_buf = 4264, b_cur = 4272, b_end = 4352\<rparr>]\<rparr>, 4352)"
    by (simp add: em_pool_alloc_def ex_user_pool_def ex_pool_def em_pool_alloc_from_block_def round_up_def
        EM_POOL_ALIGNMENT_def ex_str_def Let_def)
  note strdup_fresh_copy [OF _ _ _ _ _ _ _ _ this, of bump_ok "[(4264, 4)]" "{#}" "(4264, 4)" ex_mem ex_dst]
  moreover have "block_provider (block_alloc bump_policy) bump_ok" by (simp add: bump_policy_def bump_provider)
  moreover have "pool_ok ex_user_pool" "user_ok [(4264, 4)] (block_list ex_user_pool)" "str_ok ex_str"
    "bump_ok 4352 (mset (pool_regions ex_user_pool) + {#})" "within (unat (s_ptr ex_str), nat (slen ex_str)) (4264, 4)"
    "nat (slen ex_str) + unat (increment_size ex_user_pool) + 44 < 2 ^ 64"
    by (simp_all add: ex_user_pool_def ex_pool_def ex_str_def pool_ok_def blocks_ok_def block_ok_def
      blocks_capacity_def pool_regions_def user_ok_def bump_ok_def str_ok_def within_def used_region_def)
  moreover have "slen ex_str = 2" by (simp add: ex_str_def)
  ultimately show ?thesis by auto
qed

end
