(* ===== verification/Emlib_Number.thy ===== *)
theory Emlib_Number
  imports Emlib_String Emlib_Errno
begin

unbundle bit_operations_syntax

text \<open>
  Numbers in counted strings: the conversions of \<open>src/string.c\<close>.  Characters are signed where C compares
  them without a cast.  The limits come from \<open>include/em/limits.h\<close>, which redefines \<open>ULONG_MAX\<close> and
  \<open>LONG_MAX\<close> for 32 bits, while \<open>unsigned long\<close> has 64.
\<close>

section \<open>Reading numbers\<close>

definition EM_MAXLONG :: int where "EM_MAXLONG = 2147483647"
definition EM_MINLONG :: int where "EM_MINLONG = - EM_MAXLONG - 1"
definition EM_MAXULONG :: uint64 where "EM_MAXULONG = 4294967295"

lemmas limits = EM_MAXLONG_def EM_MINLONG_def EM_MAXULONG_def

text \<open>The characters that a loop \<open>i < (unsigned)str->slen\<close> sees.\<close>

definition loop_bytes :: "memory \<Rightarrow> em_str_t \<Rightarrow> int8 list" where
  "loop_bytes m s = chars m (s_ptr s) (nat (slen s mod 2 ^ 32))"

fun strtoul_loop :: "int8 list \<Rightarrow> uint64 \<Rightarrow> uint64" where
  "strtoul_loop [] v = v"
| "strtoul_loop (c # cs) v = (if \<not> em_isdigit c then v else strtoul_loop cs (v * 10 + (scast c - 0x30)))"

definition em_strtoul :: "memory \<Rightarrow> em_str_t \<Rightarrow> uint64" where
  "em_strtoul m str = strtoul_loop (loop_bytes m str) 0"

definition em_strtol :: "memory \<Rightarrow> em_str_t \<Rightarrow> int" where
  "em_strtol m str =
     (let c = m (s_ptr str) in
      if slen str > 0 \<and> (c = 0x2B \<or> c = 0x2D) then
        (let s = str\<lparr>s_ptr := s_ptr str + 1, slen := slen str - 1\<rparr>
         in sint (if c = 0x2D then - em_strtoul m s else em_strtoul m s))
      else sint (em_strtoul m str))"

text \<open>The loops of \<open>em_strtoul2\<close>: the value and the number of characters read.\<close>

fun strtoul2_loop :: "uint32 \<Rightarrow> int8 list \<Rightarrow> uint64 \<Rightarrow> nat \<Rightarrow> uint64 \<times> nat" where
  "strtoul2_loop base [] v i = (v, i)"
| "strtoul2_loop base (c # cs) v i =
     (let d = scast c - 0x30 in
      if d \<ge> base then (v, i) else strtoul2_loop base cs (v * ucast base + ucast d) (i + 1))"

fun strtoul2_hex :: "int8 list \<Rightarrow> uint64 \<Rightarrow> nat \<Rightarrow> uint64 \<times> nat" where
  "strtoul2_hex [] v i = (v, i)"
| "strtoul2_hex (c # cs) v i =
     (if \<not> em_isxdigit c then (v, i)
      else strtoul2_hex cs (v * 16 + ucast (em_hex_digit_to_val c)) (i + 1))"

definition em_strtoul2 :: "memory \<Rightarrow> em_str_t \<Rightarrow> em_str_t option \<Rightarrow> uint32 \<Rightarrow> uint64 \<times> em_str_t option" where
  "em_strtoul2 m str endptr base =
     (let (v, i) =
        (if base \<le> 10 then strtoul2_loop base (loop_bytes m str) 0 0
         else if base = 16 then strtoul2_hex (loop_bytes m str) 0 0
         else (0xFFFFFFFF, 0))
      in (v, map_option (\<lambda>e. e\<lparr>s_ptr := s_ptr str + of_nat i, slen := slen str - int i\<rparr>) endptr))"

fun strtoul3_loop :: "uint32 \<Rightarrow> int8 list \<Rightarrow> uint64 \<Rightarrow> emlib_ret_t \<times> uint64" where
  "strtoul3_loop base [] v = (EM_SUCC, v)"
| "strtoul3_loop base (c # cs) v =
     (let d = scast c - 0x30 in
      if sint c < 0x30 \<or> (scast c :: uint32) > 0x2F + base then (EM_SUCC, v)
      else if v > EM_MAXULONG div ucast base then (EM_ETOOBIG, EM_MAXULONG)
      else
        (let v' = v * ucast base in
         if EM_MAXULONG - v' < ucast (d :: uint32) then (EM_ETOOBIG, EM_MAXULONG)
         else strtoul3_loop base cs (v' + ucast d)))"

fun strtoul3_hex :: "uint32 \<Rightarrow> int8 list \<Rightarrow> uint64 \<Rightarrow> emlib_ret_t \<times> uint64" where
  "strtoul3_hex base [] v = (EM_SUCC, v)"
| "strtoul3_hex base (c # cs) v =
     (let d = em_hex_digit_to_val c in
      if \<not> em_isxdigit c then (EM_SUCC, v)
      else if v > EM_MAXULONG div ucast base then (EM_ETOOBIG, EM_MAXULONG)
      else
        (let v' = v * ucast base in
         if EM_MAXULONG - v' < ucast d then (EM_ETOOBIG, EM_MAXULONG)
         else strtoul3_hex base cs (v' + ucast d)))"

text \<open>Both pointers may be null; the second component is what \<open>value\<close> points to afterwards.\<close>

definition em_strtoul3 ::
  "memory \<Rightarrow> em_str_t option \<Rightarrow> uint64 option \<Rightarrow> uint32 \<Rightarrow> emlib_ret_t \<times> uint64 option" where
  "em_strtoul3 m str value base =
     (case (str, value) of
        (Some str, Some _) \<Rightarrow>
          (let s = em_strltrim m str; c = m (s_ptr s) in
           if slen s = 0 \<or> sint c < 0x30 \<or> (base \<le> 10 \<and> (scast c :: uint32) > 0x2F + base) \<or>
              (base = 16 \<and> \<not> em_isxdigit c)
           then (EM_EINVAL, value)
           else if base \<le> 10 then map_prod id Some (strtoul3_loop base (loop_bytes m s) 0)
           else if base = 16 then map_prod id Some (strtoul3_hex base (loop_bytes m s) 0)
           else (EM_EINVAL, Some 0))
      | _ \<Rightarrow> (EM_EINVAL, value))"

definition em_strtol2 :: "memory \<Rightarrow> em_str_t option \<Rightarrow> int option \<Rightarrow> emlib_ret_t \<times> int option" where
  "em_strtol2 m str value =
     (case (str, value) of
        (Some str, Some _) \<Rightarrow>
          (let s = em_strltrim m str; c = m (s_ptr s) in
           if slen s = 0 then (EM_EINVAL, value)
           else
             (let signed = (c = 0x2B \<or> c = 0x2D);
                  is_negative = (signed \<and> c = 0x2D);
                  s' = (if signed then s\<lparr>s_ptr := s_ptr s + 1, slen := slen s - 1\<rparr> else s);
                  (rc, retval) = em_strtoul3 m (Some s') (Some 0) 10
              in if rc = EM_EINVAL then (rc, value)
                 else if rc \<noteq> EM_SUCC then
                   (if is_negative then (EM_ETOOSMALL, Some EM_MINLONG) else (EM_ETOOBIG, Some EM_MAXLONG))
                 else if uint (the retval) > EM_MAXLONG \<and> \<not> is_negative then (EM_ETOOBIG, Some EM_MAXLONG)
                 else if uint (the retval) > EM_MAXLONG + 1 \<and> is_negative then (EM_ETOOSMALL, Some EM_MINLONG)
                 else (EM_SUCC, Some (if is_negative then - sint (the retval) else sint (the retval)))))
      | _ \<Rightarrow> (EM_EINVAL, value))"

section \<open>Writing numbers\<close>

text \<open>The pointers into the buffer are offsets from its start.\<close>

function utoa_digits :: "ptr \<Rightarrow> uint64 \<Rightarrow> nat \<Rightarrow> memory \<Rightarrow> nat \<times> memory" where
  "utoa_digits buf v i m =
     (let digval = v mod 10; v' = v div 10; m' = m(buf + of_nat i := ucast (digval + 0x30))
      in if v' > 0 then utoa_digits buf v' (i + 1) m' else (i + 1, m'))"
  by pat_completeness auto
termination
  by (relation "measure (\<lambda>(buf, v, i, m). unat v)")
    (auto simp: unat_div word_less_nat_alt)

function utoa_fill :: "ptr \<Rightarrow> int \<Rightarrow> int8 \<Rightarrow> nat \<Rightarrow> memory \<Rightarrow> nat \<times> memory" where
  "utoa_fill buf min_dig pad len m =
     (if int len < min_dig then utoa_fill buf min_dig pad (len + 1) (m(buf + of_nat len := pad)) else (len, m))"
  by pat_completeness auto
termination by (relation "measure (\<lambda>(buf, min_dig, pad, len, m). nat (min_dig - int len))") auto

function utoa_swap :: "ptr \<Rightarrow> int \<Rightarrow> int \<Rightarrow> memory \<Rightarrow> memory" where
  "utoa_swap buf b p m =
     (let m' = m(buf + of_int p := m (buf + of_int b), buf + of_int b := m (buf + of_int p))
      in if b + 1 < p - 1 then utoa_swap buf (b + 1) (p - 1) m' else m')"
  by pat_completeness auto
termination by (relation "measure (\<lambda>(buf, b, p, m). nat (p - b))") auto

declare utoa_digits.simps [simp del] utoa_fill.simps [simp del] utoa_swap.simps [simp del]

definition em_utoa_pad :: "uint64 \<Rightarrow> ptr \<Rightarrow> int \<Rightarrow> int8 \<Rightarrow> memory \<Rightarrow> int \<times> memory" where
  "em_utoa_pad v buf min_dig pad m =
     (let (n, m1) = utoa_digits buf v 0 m;
          (len, m2) = utoa_fill buf min_dig pad n m1;
          m3 = m2(buf + of_nat len := 0)
      in (int len, utoa_swap buf 0 (int len - 1) m3))"

definition em_utoa :: "uint64 \<Rightarrow> ptr \<Rightarrow> memory \<Rightarrow> int \<times> memory" where
  "em_utoa v buf m = em_utoa_pad v buf 0 0 m"


section \<open>Decimal notation\<close>

definition dval_from :: "nat \<Rightarrow> int8 list \<Rightarrow> nat" where
  "dval_from k ds = foldl (\<lambda>v c. v * 10 + (unat c - 0x30)) k ds"

definition dval :: "int8 list \<Rightarrow> nat" where "dval ds = dval_from 0 ds"

lemma dval_from_simps [simp]:
  "dval_from k [] = k" "dval_from k (c # cs) = dval_from (k * 10 + (unat c - 0x30)) cs"
  by (simp_all add: dval_from_def)

lemma dval_from_append: "dval_from k (xs @ ys) = dval_from (dval_from k xs) ys"
  by (simp add: dval_from_def)

lemma dval_from_mono: "k \<le> dval_from k ds"
proof (induction ds arbitrary: k)
  case (Cons c cs)
  show ?case using Cons.IH [of "k * 10 + (unat c - 0x30)"] by simp
qed simp

lemma digit_value:
  assumes "em_isdigit c"
  shows "unat c - 0x30 \<le> 9" "scast c - 0x30 = (of_nat (unat c - 0x30) :: uint64)"
    "scast c - 0x30 = (of_nat (unat c - 0x30) :: uint32)" "sint c = int (unat c)" "0x30 \<le> unat c"
proof -
  have r: "0x30 \<le> unat c" "unat c \<le> 0x39" using assms by (simp_all add: ctype word_le_nat_alt)
  have u: "0x30 \<le> uint c" "uint c \<le> 0x39" using assms by (simp_all add: ctype word_le_def)
  show "unat c - 0x30 \<le> 9" "0x30 \<le> unat c" using r by simp_all
  show s: "sint c = int (unat c)" using u by (simp add: sint_uint signed_take_bit_int_eq_self)
  have "(scast c :: uint64) = of_nat (unat c)" "(scast c :: uint32) = of_nat (unat c)"
    by (simp_all only: scast_eq s of_int_of_nat_eq)
  then show "scast c - 0x30 = (of_nat (unat c - 0x30) :: uint64)" "scast c - 0x30 = (of_nat (unat c - 0x30) :: uint32)"
    using r by (simp_all add: of_nat_diff)
qed

lemma strtoul_loop_value:
  "strtoul_loop cs v = of_nat (dval_from (unat v) (takeWhile em_isdigit cs))"
proof -
  have "strtoul_loop cs (of_nat k) = of_nat (dval_from k (takeWhile em_isdigit cs))" for k
  proof (induction cs arbitrary: k)
    case (Cons c cs)
    show ?case
    proof (cases "em_isdigit c")
      case True
      have "of_nat k * 10 + (scast c - 0x30) = (of_nat (k * 10 + (unat c - 0x30)) :: uint64)"
        using digit_value(2) [OF True] by simp
      with True Cons.IH [of "k * 10 + (unat c - 0x30)"] show ?thesis by simp
    qed simp
  qed simp
  from this [of "unat v"] show ?thesis by simp
qed

text \<open>The decimal digits of a number, the lowest first.\<close>

fun low_digits :: "nat \<Rightarrow> int8 list" where
  "low_digits n = of_nat (n mod 10 + 0x30) # (if n div 10 > 0 then low_digits (n div 10) else [])"

declare low_digits.simps [simp del]

lemma digit_char: "d < 10 \<Longrightarrow> unat (of_nat (d + 0x30) :: int8) = d + 0x30"
  unfolding unat_of_nat by (simp add: take_bit_nat_eq_self)

lemma low_digits_isdigit: "c \<in> set (low_digits n) \<Longrightarrow> em_isdigit c"
proof (induction n rule: low_digits.induct)
  case (1 n)
  have "em_isdigit (of_nat (n mod 10 + 0x30))"
    using digit_char [of "n mod 10"] by (simp add: ctype word_le_nat_alt)
  with 1 show ?case by (auto simp: low_digits.simps [of n] split: if_splits)
qed

lemma dval_low_digits: "dval (rev (low_digits n)) = n"
proof (induction n rule: low_digits.induct)
  case (1 n)
  have "unat (of_nat (n mod 10 + 0x30) :: int8) - 0x30 = n mod 10"
    using digit_char [of "n mod 10"] by simp
  with 1 show ?case
    by (cases "n div 10 > 0") (simp_all add: low_digits.simps [of n] dval_def dval_from_append)
qed

lemma low_digits_top: "length (low_digits n) > 1 \<Longrightarrow> last (low_digits n) \<noteq> 0x30"
proof (induction n rule: low_digits.induct)
  case (1 n)
  have q: "n div 10 > 0" using 1(2) by (auto simp: low_digits.simps [of n] split: if_splits)
  show ?case
  proof (cases "length (low_digits (n div 10)) > 1")
    case True
    then show ?thesis using 1(1) q by (auto simp: low_digits.simps [of n])
  next
    case False
    then have s: "low_digits (n div 10) = [of_nat (n div 10 mod 10 + 0x30)]" "n div 10 div 10 = 0"
      by (auto simp: low_digits.simps [of "n div 10"] low_digits.simps [of "n div 10 div 10"] split: if_splits)
    have "of_nat (n div 10 mod 10 + 0x30) \<noteq> (0x30 :: int8)"
    proof
      assume "of_nat (n div 10 mod 10 + 0x30) = (0x30 :: int8)"
      then have "n div 10 mod 10 + 0x30 = 0x30" using digit_char [of "n div 10 mod 10"] by simp
      with q s(2) show False by simp
    qed
    then show ?thesis using q s by (simp add: low_digits.simps [of n])
  qed
qed

lemma low_digits_length: "n < 10 ^ Suc k \<Longrightarrow> length (low_digits n) \<le> Suc k"
proof (induction k arbitrary: n)
  case 0 then show ?case by (simp add: low_digits.simps [of n])
next
  case (Suc k)
  then have "n div 10 < 10 ^ Suc k" by (simp add: div_less_iff_less_mult)
  then show ?case using Suc.IH [of "n div 10"] by (simp add: low_digits.simps [of n])
qed

section \<open>A run of bytes written into memory\<close>

definition stored :: "memory \<Rightarrow> ptr \<Rightarrow> int8 list \<Rightarrow> memory" where
  "stored m p xs = (\<lambda>a. if unat (a - p) < length xs then xs ! unat (a - p) else m a)"

lemma unat_offset: "i < 2 ^ 64 \<Longrightarrow> unat (p + of_nat i - p :: ptr) = i"
  by (simp add: unat_of_nat take_bit_nat_eq_self)

lemma offset_eq: "i < 2 ^ 64 \<Longrightarrow> a = p + of_nat i \<longleftrightarrow> unat (a - p :: ptr) = i"
  by (auto simp: unat_of_nat take_bit_nat_eq_self)

lemma stored_nth: "i < length xs \<Longrightarrow> length xs < 2 ^ 64 \<Longrightarrow> stored m p xs (p + of_nat i) = xs ! i"
  by (simp add: stored_def unat_of_nat take_bit_nat_eq_self)

lemma stored_nil: "stored m p [] = m" by (simp add: stored_def)

lemma stored_snoc: "length xs < 2 ^ 64 \<Longrightarrow> (stored m p xs)(p + of_nat (length xs) := c) = stored m p (xs @ [c])"
  by (rule ext) (auto simp: stored_def nth_append offset_eq)

lemma stored_update:
  "i < length xs \<Longrightarrow> length xs < 2 ^ 64 \<Longrightarrow> (stored m p xs)(p + of_nat i := c) = stored m p (xs[i := c])"
  by (rule ext) (auto simp: stored_def offset_eq nth_list_update)

lemma chars_stored: "length xs < 2 ^ 64 \<Longrightarrow> chars (stored m p xs) p (length xs) = xs"
  by (rule nth_equalityI) (simp_all add: nth_chars stored_nth)

lemma chars_stored_prefix:
  "length (xs @ ys) < 2 ^ 64 \<Longrightarrow> chars (stored m p (xs @ ys)) p (length xs) = xs"
  using take_chars [of "length xs" "length (xs @ ys)" "stored m p (xs @ ys)" p] chars_stored [of "xs @ ys" m p] by simp


section \<open>The checked conversions\<close>

lemma byte_sign: "(s :: int) = (k + 128) mod 256 - 128 \<Longrightarrow> 0 \<le> k \<Longrightarrow> k < 256 \<Longrightarrow> 0x30 \<le> s \<Longrightarrow> s = k"
proof (cases "k < 128")
  case False
  assume h: "s = (k + 128) mod 256 - 128" "0 \<le> k" "k < 256" "0x30 \<le> s"
  have "(k + 128) mod 256 = (k - 128 + 256) mod 256" by (simp add: add.commute)
  also have "\<dots> = k - 128" using False h(3) by (simp only: mod_add_self2) (simp add: mod_pos_pos_trivial)
  finally have "s = k - 256" using h(1) by linarith
  then show ?thesis using h(3,4) by linarith
qed (simp add: mod_pos_pos_trivial)

lemma not_digit: "sint c < 0x30 \<or> (scast c :: uint32) > 0x39 \<longleftrightarrow> \<not> em_isdigit (c :: int8)"
proof (cases "em_isdigit c")
  case True
  have "(scast c :: uint32) = of_nat (unat c)" using digit_value(4) [OF True] by (simp only: scast_eq of_int_of_nat_eq)
  moreover have "unat c \<le> 0x39" using True by (simp add: ctype word_le_nat_alt)
  ultimately have "unat (scast c :: uint32) \<le> 0x39"
    by (simp only: unat_of_nat) (simp add: take_bit_nat_eq_self)
  moreover have "\<not> sint c < 0x30" using digit_value(4,5) [OF True] by linarith
  ultimately show ?thesis using True by (simp add: word_less_nat_alt)
next
  case False
  have "(scast c :: uint32) > 0x39" if "0x30 \<le> sint c"
  proof -
    have "sint c = (uint c + 128) mod 256 - 128"
      by (simp add: sint_uint signed_take_bit_eq_take_bit_shift take_bit_eq_mod)
    moreover have "0 \<le> uint c" "uint c < 256" using uint_lt2p [of c] by simp_all
    ultimately have "sint c = uint c" using that byte_sign by blast
    moreover from this False that have "0x39 < uint c" by (simp add: ctype word_le_def)
    moreover have "uint c < 2 ^ 8" using uint_lt2p [of c] by simp
    ultimately have "uint (scast c :: uint32) = uint c" "0x39 < uint c"
      by (simp_all only: scast_eq uint_word_of_int) (simp_all add: mod_pos_pos_trivial)
    then show ?thesis by (simp add: word_less_def)
  qed
  then show ?thesis using False by force
qed

lemma strtoul3_loop_value:
  assumes "k < 2 ^ 32"
  shows "strtoul3_loop 10 cs (of_nat k) =
    (let n = dval_from k (takeWhile em_isdigit cs) in
     if n < 2 ^ 32 then (EM_SUCC, of_nat n) else (EM_ETOOBIG, EM_MAXULONG))"
  using assms
proof (induction cs arbitrary: k)
  case (Cons c cs)
  show ?case
  proof (cases "em_isdigit c")
    case False
    then show ?thesis using not_digit [of c] Cons.prems by (auto simp: Let_def)
  next
    case True
    let ?d = "unat c - 0x30" and ?n = "dval_from (k * 10 + (unat c - 0x30)) (takeWhile em_isdigit cs)"
    note d = digit_value [OF True]
    have guard: "\<not> (sint c < 0x30 \<or> (scast c :: uint32) > 0x2F + 10)" using not_digit [of c] True by simp
    have k: "unat (of_nat k :: uint64) = k" using Cons.prems by (simp add: unat_of_nat take_bit_nat_eq_self)
    have ge: "k * 10 + ?d \<le> ?n" by (rule dval_from_mono)
    have dd: "(ucast (scast c - 0x30 :: uint32) :: uint64) = of_nat ?d"
      unfolding d(3) using d(1) by (simp add: unsigned_of_nat take_bit_nat_eq_self)
    show ?thesis
    proof (cases "k > 429496729")
      case True
      then have "(of_nat k :: uint64) > EM_MAXULONG div ucast (10 :: uint32)"
        using k by (simp add: limits word_less_nat_alt)
      moreover have "\<not> ?n < 2 ^ 32" using ge True by simp
      ultimately show ?thesis
        using guard \<open>em_isdigit c\<close> by (simp add: Let_def)
    next
      case small: False
      then have g1: "\<not> (of_nat k :: uint64) > EM_MAXULONG div ucast (10 :: uint32)"
        using k by (simp add: limits word_less_nat_alt)
      have "unat (EM_MAXULONG - of_nat (k * 10)) = 4294967295 - k * 10"
        using small by (subst unat_sub) (simp_all add: limits word_le_nat_alt unat_of_nat take_bit_nat_eq_self
            del: of_nat_mult)
      then have g2: "EM_MAXULONG - of_nat (k * 10) < (of_nat ?d :: uint64) \<longleftrightarrow> 2 ^ 32 \<le> k * 10 + ?d"
        using small d(1) by (simp add: word_less_nat_alt unat_of_nat take_bit_nat_eq_self del: of_nat_mult) linarith
      then have g3: "EM_MAXULONG - of_nat k * 10 < (of_nat ?d :: uint64) \<longleftrightarrow> 2 ^ 32 \<le> k * 10 + ?d"
        by (simp only: of_nat_mult of_nat_numeral)
      show ?thesis
      proof (cases "2 ^ 32 \<le> k * 10 + ?d")
        case True
        then have "\<not> ?n < 2 ^ 32" using ge by linarith
        then show ?thesis using guard g1 g3 True \<open>em_isdigit c\<close> by (simp add: Let_def dd)
      next
        case False
        then have "strtoul3_loop 10 (c # cs) (of_nat k) = strtoul3_loop 10 cs (of_nat (k * 10 + ?d))"
          using guard g1 g3 by (simp add: Let_def dd)
        then show ?thesis using Cons.IH [of "k * 10 + ?d"] False \<open>em_isdigit c\<close> by simp
      qed
    qed
  qed
qed simp


lemma loop_bytes_all: "0 \<le> slen s \<Longrightarrow> slen s < 2 ^ 32 \<Longrightarrow> loop_bytes m s = str_bytes m s"
  by (simp add: loop_bytes_def str_bytes_def)

lemma str_bytes_Cons: "0 < slen s \<Longrightarrow> \<exists>cs. str_bytes m s = m (s_ptr s) # cs"
  using chars_Suc [of m "s_ptr s" "nat (slen s) - 1"] by (simp add: str_bytes_def)

lemma strtoul3_value:
  assumes "0 \<le> slen str" "slen str < 2 ^ 32"
  shows "em_strtoul3 m (Some str) (Some v) 10 =
    (let ds = takeWhile em_isdigit (dropWhile em_isspace (str_bytes m str)) in
     if ds = [] then (EM_EINVAL, Some v)
     else if dval ds < 2 ^ 32 then (EM_SUCC, Some (of_nat (dval ds))) else (EM_ETOOBIG, Some EM_MAXULONG))"
proof -
  let ?s = "em_strltrim m str" and ?xs = "dropWhile em_isspace (str_bytes m str)"
  have l: "0 \<le> slen ?s" "slen ?s \<le> slen str" using strltrim_ok [OF assms(1)] by auto
  have b: "str_bytes m ?s = ?xs" by (rule strltrim_bytes [OF assms(1)])
  have lb: "loop_bytes m ?s = ?xs" using loop_bytes_all [of ?s m] l assms(2) b by simp
  show ?thesis
  proof (cases "slen ?s = 0")
    case True
    then have "str_bytes m ?s = []" by (simp add: str_bytes_def)
    with b have xs: "?xs = []" by simp
    show ?thesis unfolding xs by (simp add: em_strtoul3_def Let_def True)
  next
    case False
    then obtain cs where cs: "?xs = m (s_ptr ?s) # cs" using str_bytes_Cons [of ?s m] l b by auto
    show ?thesis
      using not_digit [of "m (s_ptr ?s)"] strtoul3_loop_value [of 0 ?xs] False
      by (auto simp: em_strtoul3_def Let_def lb cs dval_def map_prod_def simp flip: dval_from_def)
  qed
qed

text \<open>
  \<open>em_strtoul3\<close> in base 10 is exact up to 32 bits: it skips white space, reads the longest run of
  digits, refuses an empty run without touching the target, gives the value of the run when that is below
  \<open>2^32\<close> and answers \<open>EM_ETOOBIG\<close> with \<open>2^32 - 1\<close> otherwise, although the target is 64 bits wide.
\<close>
lemma strtoul3_exact:
  assumes "0 \<le> slen str" "slen str < 2 ^ 32"
  shows "em_strtoul3 m (Some str) (Some v) 10 =
    (let ds = takeWhile em_isdigit (dropWhile em_isspace (str_bytes m str)) in
     if ds = [] then (EM_EINVAL, Some v)
     else if dval ds < 2 ^ 32 then (EM_SUCC, Some (of_nat (dval ds))) else (EM_ETOOBIG, Some 0xFFFFFFFF))"
  unfolding strtoul3_value [OF assms] limits by (rule refl)

definition num_mem :: memory where
  "num_mem = (\<lambda>a. if a = 0x3000 then 0x2D else if a = 0x3001 then 0x34 else if a = 0x3002 then 0x32 else 0)"

definition num_str :: em_str_t where "num_str = \<lparr>s_ptr = 0x3000, slen = 3, blen = 0\<rparr>"

lemma num_bytes: "str_bytes num_mem num_str = [0x2D, 0x34, 0x32]"
  "str_bytes num_mem (num_str\<lparr>s_ptr := 0x3001, slen := 2\<rparr>) = [0x34, 0x32]"
  by (simp_all add: str_bytes_def chars_def num_mem_def num_str_def upt_rec)

lemma strtoul3_exact_witness:
  "em_strtoul3 num_mem (Some (num_str\<lparr>s_ptr := 0x3001, slen := 2\<rparr>)) (Some 0) 10 = (EM_SUCC, Some 42)"
  using strtoul3_exact [of "num_str\<lparr>s_ptr := 0x3001, slen := 2\<rparr>" num_mem 0]
  by (simp add: num_bytes ctype dval_def Let_def)

text \<open>
  C24. \<open>em_strtol2\<close> in full: after white space an optional sign, after more white space the longest run of
  digits.  It answers \<open>EM_EINVAL\<close> without touching the target when there is nothing to read or no digit,
  saturates at the 32-bit limits with \<open>EM_ETOOBIG\<close> or \<open>EM_ETOOSMALL\<close>, and gives the signed value otherwise.
\<close>
theorem strtol2_exact:
  assumes "0 \<le> slen str" "slen str < 2 ^ 32"
  shows "em_strtol2 m (Some str) (Some v) =
    (let t = dropWhile em_isspace (str_bytes m str);
         neg = (t \<noteq> [] \<and> hd t = 0x2D);
         u = (if t \<noteq> [] \<and> (hd t = 0x2B \<or> hd t = 0x2D) then tl t else t);
         ds = takeWhile em_isdigit (dropWhile em_isspace u)
     in if ds = [] then (EM_EINVAL, Some v)
        else if neg then (if dval ds > 2 ^ 31 then (EM_ETOOSMALL, Some (- (2 ^ 31)))
                          else (EM_SUCC, Some (- int (dval ds))))
        else (if dval ds > 2 ^ 31 - 1 then (EM_ETOOBIG, Some (2 ^ 31 - 1))
              else (EM_SUCC, Some (int (dval ds)))))"
proof -
  let ?s = "em_strltrim m str"
  define t where "t = dropWhile em_isspace (str_bytes m str)"
  have l: "0 \<le> slen ?s" "slen ?s \<le> slen str" using strltrim_ok [OF assms(1)] by auto
  have b: "str_bytes m ?s = t" unfolding t_def by (rule strltrim_bytes [OF assms(1)])
  show ?thesis
  proof (cases "slen ?s = 0")
    case True
    then have "str_bytes m ?s = []" by (simp add: str_bytes_def)
    with b have t: "t = []" by simp
    show ?thesis unfolding t_def [symmetric] t by (simp add: em_strtol2_def Let_def True)
  next
    case False
    then obtain cs where cs: "t = m (s_ptr ?s) # cs" using str_bytes_Cons [of ?s m] l b by auto
    define signed where "signed = (m (s_ptr ?s) = 0x2B \<or> m (s_ptr ?s) = 0x2D)"
    define s' where "s' = (if signed then ?s\<lparr>s_ptr := s_ptr ?s + 1, slen := slen ?s - 1\<rparr> else ?s)"
    define u where "u = (if signed then tl t else t)"
    define ds where "ds = takeWhile em_isdigit (dropWhile em_isspace u)"
    have s': "0 \<le> slen s'" "slen s' < 2 ^ 32" using l False assms(2) by (auto simp: s'_def)
    have "str_bytes m s' = u"
      using str_bytes_drop [of 1 ?s m ?s] l False b by (auto simp: s'_def u_def drop_Suc)
    then have ul: "em_strtoul3 m (Some s') (Some 0) 10 =
      (if ds = [] then (EM_EINVAL, Some 0)
       else if dval ds < 2 ^ 32 then (EM_SUCC, Some (of_nat (dval ds))) else (EM_ETOOBIG, Some EM_MAXULONG))"
      using strtoul3_value [OF s', of m 0] by (simp add: ds_def)
    have w: "uint (of_nat (dval ds) :: uint64) = int (dval ds)" "sint (of_nat (dval ds) :: uint64) = int (dval ds)"
      if "dval ds < 2 ^ 32"
      using that by (simp_all add: unsigned_of_nat signed_of_nat take_bit_nat_eq_self signed_take_bit_int_eq_self)
    have "em_strtol2 m (Some str) (Some v) =
      (let (rc, retval) = em_strtoul3 m (Some s') (Some 0) 10; is_negative = (signed \<and> m (s_ptr ?s) = 0x2D)
       in if rc = EM_EINVAL then (rc, Some v)
          else if rc \<noteq> EM_SUCC then
            (if is_negative then (EM_ETOOSMALL, Some EM_MINLONG) else (EM_ETOOBIG, Some EM_MAXLONG))
          else if uint (the retval) > EM_MAXLONG \<and> \<not> is_negative then (EM_ETOOBIG, Some EM_MAXLONG)
          else if uint (the retval) > EM_MAXLONG + 1 \<and> is_negative then (EM_ETOOSMALL, Some EM_MINLONG)
          else (EM_SUCC, Some (if is_negative then - sint (the retval) else sint (the retval))))"
      using False by (simp add: em_strtol2_def Let_def signed_def s'_def split_beta)
    moreover define neg where "neg = (signed \<and> m (s_ptr ?s) = 0x2D)"
    moreover have c: "(t \<noteq> [] \<and> (hd t = 0x2B \<or> hd t = 0x2D)) = signed"
        "(t \<noteq> [] \<and> hd t = 0x2D) = (signed \<and> m (s_ptr ?s) = 0x2D)"
      by (auto simp: cs signed_def)
    ultimately show ?thesis
      unfolding t_def [symmetric] Let_def c u_def [symmetric] ds_def [symmetric] ul
        neg_def [symmetric]
      using w by (cases neg; cases "ds = []"; cases "dval ds < 2 ^ 32") (simp_all add: limits errno)
  qed
qed


lemma strtol2_exact_witness: "em_strtol2 num_mem (Some num_str) (Some 0) = (EM_SUCC, Some (- 42))"
  using strtol2_exact [of num_str num_mem 0]
  by (simp add: num_bytes ctype dval_def Let_def) (simp add: num_str_def)

section \<open>Printing\<close>

lemma utoa_digits_stored:
  assumes "length xs = i" "i + length (low_digits (unat v)) < 2 ^ 64"
  shows "utoa_digits buf v i (stored m buf xs) =
    (i + length (low_digits (unat v)), stored m buf (xs @ low_digits (unat v)))"
  using assms
proof (induction buf v i "stored m buf xs" arbitrary: xs rule: utoa_digits.induct)
  case (1 buf v i)
  have d: "ucast (v mod 10 + 0x30) = (of_nat (unat v mod 10 + 0x30) :: int8)"
  proof -
    have "v mod 10 + 0x30 = (of_nat (unat v mod 10 + 0x30) :: uint64)"
      by (simp add: unat_mod word_arith_nat_mod)
    moreover have "take_bit LENGTH(64) (unat v mod 10 + 0x30) = unat v mod 10 + 0x30"
    proof (rule take_bit_nat_eq_self)
      have "unat v mod 10 < 10" by simp
      then show "unat v mod 10 + 0x30 < 2 ^ LENGTH(64)" by simp
    qed
    ultimately show ?thesis by (simp only: unsigned_of_nat)
  qed
  have step: "(stored m buf xs)(buf + of_nat i := ucast (v mod 10 + 0x30)) =
      stored m buf (xs @ [of_nat (unat v mod 10 + 0x30)])"
    using stored_snoc [of xs m buf "of_nat (unat v mod 10 + 0x30)"] 1(2,3) d by simp
  have q: "v div 10 > 0 \<longleftrightarrow> unat v div 10 > 0" "unat (v div 10) = unat v div 10"
    by (simp_all add: word_less_nat_alt unat_div)
  show ?case
  proof (cases "v div 10 > 0")
    case True
    have "utoa_digits buf (v div 10) (i + 1) (stored m buf (xs @ [of_nat (unat v mod 10 + 0x30)])) =
      (i + 1 + length (low_digits (unat (v div 10))),
       stored m buf ((xs @ [of_nat (unat v mod 10 + 0x30)]) @ low_digits (unat (v div 10))))"
      by (rule 1(1) [OF refl refl _ True]) (use 1(2,3) True q step low_digits.simps [of "unat v"] in simp_all)
    with True step q show ?thesis
      by (simp add: utoa_digits.simps [of buf v] low_digits.simps [of "unat v"] Let_def)
  next
    case False
    then show ?thesis
      using step q by (simp add: utoa_digits.simps [of buf v] low_digits.simps [of "unat v"] Let_def)
  qed
qed

lemma utoa_fill_stored:
  assumes "length xs = len" "len < 2 ^ 63" "min_dig < 2 ^ 63"
  shows "utoa_fill buf min_dig pad len (stored m buf xs) =
    (max len (nat min_dig), stored m buf (xs @ replicate (nat min_dig - len) pad))"
  using assms
proof (induction buf min_dig pad len "stored m buf xs" arbitrary: xs rule: utoa_fill.induct)
  case (1 buf min_dig pad len)
  show ?case
  proof (cases "int len < min_dig")
    case True
    have s: "(stored m buf xs)(buf + of_nat len := pad) = stored m buf (xs @ [pad])"
      using stored_snoc [of xs m buf pad] 1(2,3) by simp
    have "nat min_dig - len = Suc (nat min_dig - (len + 1))" using True by simp
    moreover have "utoa_fill buf min_dig pad (len + 1) (stored m buf (xs @ [pad])) =
      (max (len + 1) (nat min_dig), stored m buf ((xs @ [pad]) @ replicate (nat min_dig - (len + 1)) pad))"
      by (rule 1(1) [OF True]) (use 1(2-4) True s in simp_all)
    ultimately show ?thesis using True s by (simp add: utoa_fill.simps [of buf min_dig pad len])
  next
    case False
    then show ?thesis by (simp add: utoa_fill.simps [of buf min_dig pad len])
  qed
qed

lemma utoa_swap_stored:
  assumes "xs \<noteq> []" "length (pre @ xs @ post) < 2 ^ 63"
  shows "utoa_swap buf (int (length pre)) (int (length pre + length xs - 1)) (stored m buf (pre @ xs @ post)) =
    stored m buf (pre @ rev xs @ post)"
  using assms
proof (induction "length xs" arbitrary: xs pre post rule: less_induct)
  case less
  let ?i = "length pre" and ?j = "length pre + length xs - 1"
  from less(2) consider (one) a where "xs = [a]" | (more) a ys c where "xs = a # ys @ [c]"
    by (metis append_butlast_last_id neq_Nil_conv)
  then show ?case
  proof cases
    case one
    then have "stored m buf (pre @ xs @ post) (buf + of_nat ?i) = a"
      using less(3) by (subst stored_nth) simp_all
    then show ?thesis
      using one utoa_swap.simps [of buf "int ?i" "int ?i" "stored m buf (pre @ xs @ post)"]
      by (simp add: Let_def fun_upd_idem)
  next
    case more
    let ?l = "pre @ (a # ys @ [c]) @ post" and ?l' = "(pre @ [c]) @ ys @ [a] @ post"
    have at: "stored m buf ?l (buf + of_nat ?i) = a" "stored m buf ?l (buf + of_nat ?j) = c"
      using less(3) more by (subst stored_nth, simp, simp, simp add: nth_append)+
    have j: "?j = Suc (length (pre @ ys))" using more by simp
    have "(stored m buf ?l)(buf + of_nat ?j := a, buf + of_nat ?i := c) = stored m buf (?l[?j := a, ?i := c])"
      using less(3) more by (subst stored_update, simp, simp, subst stored_update, simp, simp, simp)
    also have "?l[?j := a, ?i := c] = ?l'"
      unfolding j by (simp add: list_update_append)
    finally have step: "(stored m buf ?l)(buf + of_nat ?j := a, buf + of_nat ?i := c) = stored m buf ?l'" .
    show ?thesis
    proof (cases "length ys \<ge> 2")
      case True
      have eqs: "int ?i + 1 = int (length (pre @ [c]))" "int ?j - 1 = int (length (pre @ [c]) + length ys - 1)"
        and cond: "int ?i + 1 < int ?j - 1" using True more by simp_all
      have "utoa_swap buf (int ?i) (int ?j) (stored m buf ?l) = utoa_swap buf (int ?i + 1) (int ?j - 1) (stored m buf ?l')"
        by (subst utoa_swap.simps) (simp only: Let_def of_int_of_nat_eq at step cond if_True)
      also have "\<dots> = stored m buf ((pre @ [c]) @ rev ys @ [a] @ post)"
        unfolding eqs using less(3) more True by (intro less(1)) auto
      finally show ?thesis using more by simp
    next
      case False
      then have r: "rev ys = ys" by (cases ys; cases "tl ys") auto
      have cond: "\<not> int ?i + 1 < int ?j - 1" using False more by simp
      have "utoa_swap buf (int ?i) (int ?j) (stored m buf ?l) = stored m buf ?l'"
        by (subst utoa_swap.simps) (simp only: Let_def of_int_of_nat_eq at step cond if_False)
      with more r show ?thesis by simp
    qed
  qed
qed


lemma low_digits_64: "1 \<le> length (low_digits (unat v))" "length (low_digits (unat (v :: uint64))) \<le> 20"
proof -
  have "unat v < 10 ^ Suc 19" using unat_below [of v] by simp
  then show "length (low_digits (unat v)) \<le> 20" by (drule_tac low_digits_length) simp
qed (simp add: low_digits.simps [of "unat v"])

lemma utoa_pad_stored:
  assumes "min_dig < 2 ^ 62"
  shows "em_utoa_pad v buf min_dig pad m =
    (let ds = rev (low_digits (unat v)); xs = replicate (nat min_dig - length ds) pad @ ds
     in (int (length xs), stored m buf (xs @ [0])))"
proof -
  let ?l = "low_digits (unat v)"
  let ?n = "length ?l" and ?k = "nat min_dig - length ?l"
  note n = low_digits_64 [of v]
  have 1: "utoa_digits buf v 0 m = (?n, stored m buf ?l)"
    using utoa_digits_stored [of "[]" 0 v buf m] n by (simp add: stored_nil)
  have 2: "utoa_fill buf min_dig pad ?n (stored m buf ?l) = (max ?n (nat min_dig), stored m buf (?l @ replicate ?k pad))"
    using assms n by (intro utoa_fill_stored) auto
  define len where "len = max ?n (nat min_dig)"
  have len: "len = length (?l @ replicate ?k pad)" by (simp add: len_def)
  have bound: "len < 2 ^ 62" "1 \<le> len" using assms n by (auto simp: len_def)
  have 3: "(stored m buf (?l @ replicate ?k pad))(buf + of_nat len := 0) = stored m buf ((?l @ replicate ?k pad) @ [0])"
    unfolding len by (rule stored_snoc) (use bound len in simp)
  have "utoa_swap buf (int (length ([] :: int8 list))) (int (length ([] :: int8 list) + length (?l @ replicate ?k pad) - 1))
      (stored m buf ([] @ (?l @ replicate ?k pad) @ [0])) = stored m buf ([] @ rev (?l @ replicate ?k pad) @ [0])"
    by (rule utoa_swap_stored) (use bound len in auto)
  moreover have "int (length ([] :: int8 list)) = 0" "length ([] :: int8 list) + length (?l @ replicate ?k pad) - 1 = len - 1"
    "int (len - 1) = int len - 1" using bound by (simp_all add: len of_nat_diff)
  ultimately have 4: "utoa_swap buf 0 (int len - 1) (stored m buf ((?l @ replicate ?k pad) @ [0])) =
      stored m buf (rev (?l @ replicate ?k pad) @ [0])" by simp
  show ?thesis
    unfolding em_utoa_pad_def 1 prod.case Let_def 2 len_def [symmetric] 3 4
    by (simp add: len)
qed

text \<open>
  Printing a number: \<open>em_utoa_pad\<close> writes the decimal digits of any 64-bit value, behind as many
  padding characters as the minimum asks for, with a NUL at the end, returns the number of characters
  without the NUL, and leaves every other byte of memory alone.
\<close>
lemma utoa_pad_spec:
  assumes "min_dig < 2 ^ 62"
  shows "\<exists>m' ds. em_utoa_pad v buf min_dig pad m = (max (int (length ds)) min_dig, m') \<and>
    dval ds = unat v \<and> list_all em_isdigit ds \<and> (length ds > 1 \<longrightarrow> hd ds \<noteq> 0x30) \<and>
    (let len = max (length ds) (nat min_dig) in
     chars m' buf (len + 1) = replicate (len - length ds) pad @ ds @ [0] \<and>
     (\<forall>i. len < i \<and> i < 2 ^ 64 \<longrightarrow> m' (buf + of_nat i) = m (buf + of_nat i)))"
proof -
  define ds where "ds = rev (low_digits (unat v))"
  define xs where "xs = replicate (nat min_dig - length ds) pad @ ds @ [0]"
  have d: "1 \<le> length ds" "length ds \<le> 20" using low_digits_64 [of v] by (simp_all add: ds_def)
  have xs: "length xs = max (length ds) (nat min_dig) + 1" "length xs < 2 ^ 63"
    using assms d by (auto simp: xs_def)
  have "em_utoa_pad v buf min_dig pad m = (max (int (length ds)) min_dig, stored m buf xs)"
    using utoa_pad_stored [OF assms, of v buf pad m] d by (simp add: Let_def ds_def xs_def)
  moreover have "dval ds = unat v" unfolding ds_def by (rule dval_low_digits)
  moreover have "list_all em_isdigit ds" by (auto simp: list_all_iff ds_def low_digits_isdigit)
  moreover have "chars (stored m buf xs) buf (max (length ds) (nat min_dig) + 1) = xs"
    using chars_stored [of xs m buf] xs by simp
  moreover have "xs = replicate (max (length ds) (nat min_dig) - length ds) pad @ ds @ [0]"
    by (auto simp: xs_def max_def)
  moreover have "stored m buf xs (buf + of_nat i) = m (buf + of_nat i)"
    if "max (length ds) (nat min_dig) < i \<and> i < 2 ^ 64" for i
  proof -
    have "\<not> i < length xs" using that xs by linarith
    then show ?thesis using that by (simp add: stored_def unat_of_nat take_bit_nat_eq_self)
  qed
  moreover have "length ds > 1 \<longrightarrow> hd ds \<noteq> 0x30"
    using low_digits_top [of "unat v"] by (simp add: ds_def hd_rev)
  ultimately show ?thesis unfolding Let_def by metis
qed

lemma utoa_pad_spec_witness:
  "\<exists>m' ds. em_utoa_pad 42 0x3000 5 0x20 num_mem = (max (int (length ds)) 5, m') \<and>
    dval ds = unat (42 :: uint64) \<and> list_all em_isdigit ds \<and> (length ds > 1 \<longrightarrow> hd ds \<noteq> 0x30) \<and>
    (let len = max (length ds) (nat 5) in
     chars m' 0x3000 (len + 1) = replicate (len - length ds) 0x20 @ ds @ [0] \<and>
     (\<forall>i. len < i \<and> i < 2 ^ 64 \<longrightarrow> m' (0x3000 + of_nat i) = num_mem (0x3000 + of_nat i)))"
  by (rule utoa_pad_spec) simp

text \<open>
  C25. Round trip: what \<open>em_utoa\<close> prints \<open>em_strtoul\<close> reads back, for every 64-bit value; the checked
  \<open>em_strtoul3\<close> reads it back exactly below \<open>2^32\<close> and answers \<open>EM_ETOOBIG\<close> from there on.
\<close>
theorem utoa_strtoul_roundtrip:
  "case em_utoa v buf m of (len, m') \<Rightarrow>
     em_strtoul m' \<lparr>s_ptr = buf, slen = len, blen = 0\<rparr> = v \<and>
     em_strtoul3 m' (Some \<lparr>s_ptr = buf, slen = len, blen = 0\<rparr>) (Some x) 10 =
       (if v < 2 ^ 32 then (EM_SUCC, Some v) else (EM_ETOOBIG, Some 0xFFFFFFFF))"
proof -
  define ds where "ds = rev (low_digits (unat v))"
  let ?s = "\<lparr>s_ptr = buf, slen = int (length ds), blen = 0\<rparr>" and ?m = "stored m buf (ds @ [0])"
  have d: "1 \<le> length ds" "length ds \<le> 20" using low_digits_64 [of v] by (simp_all add: ds_def)
  have u: "em_utoa v buf m = (int (length ds), ?m)"
    using utoa_pad_stored [of 0 v buf 0 m] by (simp add: em_utoa_def Let_def ds_def)
  have b: "str_bytes ?m ?s = ds" using chars_stored_prefix [of ds "[0]" m buf] d by (simp add: str_bytes_def)
  then have lb: "loop_bytes ?m ?s = ds" using loop_bytes_all [of ?s ?m] d by simp
  have dig: "takeWhile em_isdigit ds = ds" by (auto simp: takeWhile_eq_all_conv ds_def low_digits_isdigit)
  have "\<not> em_isspace c" if "em_isdigit c" for c using that by (auto simp: ctype)
  then have sp: "dropWhile em_isspace ds = ds"
    using low_digits_isdigit [of "hd ds" "unat v"] d by (cases ds) (auto simp: ds_def)
  have val: "dval ds = unat v" unfolding ds_def by (rule dval_low_digits)
  have "em_strtoul ?m ?s = v"
    using strtoul_loop_value [of ds 0] by (simp add: em_strtoul_def lb dig val flip: dval_def)
  moreover have "em_strtoul3 ?m (Some ?s) (Some x) 10 = (if v < 2 ^ 32 then (EM_SUCC, Some v) else (EM_ETOOBIG, Some 0xFFFFFFFF))"
    using strtoul3_value [of ?s ?m x] d by (auto simp: b sp dig val Let_def limits word_less_nat_alt)
  ultimately show ?thesis by (simp add: u)
qed


section \<open>Random strings\<close>

text \<open>
  The generator \<open>em_rand\<close> is a parameter on a state of its own.  The loop counter has 32 bits and the
  length 64, so that the loops need not end for a length beyond 32 bits.
\<close>

partial_function (option) random_words ::
  "('r \<Rightarrow> uint32 \<times> 'r) \<Rightarrow> uint32 \<Rightarrow> em_size_t \<Rightarrow> ptr \<Rightarrow> memory \<Rightarrow> 'r \<Rightarrow> (uint32 \<times> ptr \<times> memory \<times> 'r) option" where
  "random_words rnd i len p m r =
     (if \<not> ucast i < len div 8 then Some (i, p, m, r)
      else
        (let (v, r') = rnd r;
             m1 = em_val_to_hex_digit (drop_bit 24 (v AND 0xFF000000)) p m;
             m2 = em_val_to_hex_digit (drop_bit 16 (v AND 0x00FF0000)) (p + 2) m1;
             m3 = em_val_to_hex_digit (drop_bit 8 (v AND 0x0000FF00)) (p + 4) m2;
             m4 = em_val_to_hex_digit (v AND 0x000000FF) (p + 6) m3
         in random_words rnd (i + 1) len (p + 8) m4 r'))"

partial_function (option) random_rest ::
  "('r \<Rightarrow> uint32 \<times> 'r) \<Rightarrow> uint32 \<Rightarrow> em_size_t \<Rightarrow> ptr \<Rightarrow> memory \<Rightarrow> 'r \<Rightarrow> (memory \<times> 'r) option" where
  "random_rest rnd i len p m r =
     (if \<not> ucast i < len then Some (m, r)
      else
        (let (v, r') = rnd r
         in random_rest rnd (i + 1) len (p + 1) (m(p := em_hex_digits ! unat (v AND 0x0F))) r'))"

definition em_create_random_string ::
  "('r \<Rightarrow> uint32 \<times> 'r) \<Rightarrow> ptr \<Rightarrow> em_size_t \<Rightarrow> memory \<Rightarrow> 'r \<Rightarrow> (memory \<times> 'r) option" where
  "em_create_random_string rnd str len m r =
     do {
       (i, p, m', r') \<leftarrow> random_words rnd 0 len str m r;
       random_rest rnd (i * 8) len p m' r'
     }"

lemma and_nibble: "unat ((v :: uint32) AND 0x0F) < 16" "unat (drop_bit 4 (v AND 0xF0)) < 16"
proof -
  have "v AND 0x0F \<le> 0x0F" "v AND 0xF0 \<le> 0xF0" by (rule word_and_le1)+
  then show "unat (v AND 0x0F) < 16" "unat (drop_bit 4 (v AND 0xF0)) < 16"
    by (simp_all add: word_le_nat_alt unat_drop_bit_eq drop_bit_eq_div unat_div)
qed

lemma hex_digit_in: "n < 16 \<Longrightarrow> em_hex_digits ! n \<in> set em_hex_digits"
  by (rule nth_mem) (simp add: em_hex_digits_def)

lemma val_to_hex_stored:
  assumes "length xs + 2 < 2 ^ 64" "set xs \<subseteq> set em_hex_digits"
  shows "\<exists>ys. em_val_to_hex_digit v (p + of_nat (length xs)) (stored m p xs) = stored m p ys \<and>
    length ys = length xs + 2 \<and> set ys \<subseteq> set em_hex_digits"
proof -
  let ?a = "em_hex_digits ! unat (drop_bit 4 (v AND 0xF0))" and ?b = "em_hex_digits ! unat (v AND 0x0F)"
  have "em_val_to_hex_digit v (p + of_nat (length xs)) (stored m p xs) = stored m p ((xs @ [?a]) @ [?b])"
    using stored_snoc [of xs m p ?a] stored_snoc [of "xs @ [?a]" m p ?b] assms(1)
    by (simp add: em_val_to_hex_digit_def ac_simps)
  moreover have "set ((xs @ [?a]) @ [?b]) \<subseteq> set em_hex_digits"
    using assms(2) hex_digit_in and_nibble [of v] by simp
  ultimately show ?thesis by fastforce
qed

lemma random_words_stored:
  assumes "unat len < 2 ^ 32" "length xs = 8 * k" "k \<le> unat len div 8" "set xs \<subseteq> set em_hex_digits"
  shows "\<exists>ys r'. random_words rnd (of_nat k) len (p + of_nat (length xs)) (stored m p xs) r =
      Some (of_nat (unat len div 8), p + of_nat (length ys), stored m p ys, r') \<and>
    length ys = 8 * (unat len div 8) \<and> set ys \<subseteq> set em_hex_digits"
  using assms(2-4)
proof (induction "unat len div 8 - k" arbitrary: k xs r)
  case 0
  then have k: "k = unat len div 8" by simp
  have "\<not> ucast (of_nat k :: uint32) < len div 8"
    using assms(1) k by (simp add: word_less_nat_alt unat_div unsigned_of_nat take_bit_nat_eq_self unsigned_ucast_eq)
  then have "random_words rnd (of_nat k) len (p + of_nat (length xs)) (stored m p xs) r =
      Some (of_nat (unat len div 8), p + of_nat (length xs), stored m p xs, r)"
    using k by (subst random_words.simps) simp
  then show ?case using 0 k by blast
next
  case (Suc d)
  then have k: "k < unat len div 8" by simp
  have lt: "ucast (of_nat k :: uint32) < len div 8"
    using assms(1) k by (simp add: word_less_nat_alt unat_div unsigned_of_nat take_bit_nat_eq_self unsigned_ucast_eq)
  obtain v r' where v: "rnd r = (v, r')" by fastforce
  have small: "length xs + 8 \<le> unat len" using Suc.prems(1) k by linarith
  have step: "\<exists>ys. em_val_to_hex_digit w (p + of_nat (length zs)) (stored m p zs) = stored m p ys \<and>
      length ys = length zs + 2 \<and> set ys \<subseteq> set em_hex_digits"
    if "length zs \<le> length xs + 6" "set zs \<subseteq> set em_hex_digits" for w zs
    by (rule val_to_hex_stored) (use that small assms(1) in simp_all)
  obtain a where a: "em_val_to_hex_digit (drop_bit 24 (v AND 0xFF000000)) (p + of_nat (length xs)) (stored m p xs) =
      stored m p a" "length a = length xs + 2" "set a \<subseteq> set em_hex_digits"
    using step [of xs "drop_bit 24 (v AND 0xFF000000)"] Suc.prems(3) by auto
  obtain b where b: "em_val_to_hex_digit (drop_bit 16 (v AND 0x00FF0000)) (p + of_nat (length a)) (stored m p a) =
      stored m p b" "length b = length xs + 4" "set b \<subseteq> set em_hex_digits"
    using step [of a "drop_bit 16 (v AND 0x00FF0000)"] a(2,3) by auto
  obtain c where c: "em_val_to_hex_digit (drop_bit 8 (v AND 0x0000FF00)) (p + of_nat (length b)) (stored m p b) =
      stored m p c" "length c = length xs + 6" "set c \<subseteq> set em_hex_digits"
    using step [of b "drop_bit 8 (v AND 0x0000FF00)"] b(2,3) by auto
  obtain e where e: "em_val_to_hex_digit (v AND 0x000000FF) (p + of_nat (length c)) (stored m p c) =
      stored m p e" "length e = length xs + 8" "set e \<subseteq> set em_hex_digits"
    using step [of c "v AND 0x000000FF"] c(2,3) by auto
  have "random_words rnd (of_nat k) len (p + of_nat (length xs)) (stored m p xs) r =
      random_words rnd (of_nat (Suc k)) len (p + of_nat (length e)) (stored m p e) r'"
    using lt v a b c e by (subst random_words.simps) (simp add: ac_simps)
  moreover have "\<exists>ys r''. random_words rnd (of_nat (Suc k)) len (p + of_nat (length e)) (stored m p e) r' =
      Some (of_nat (unat len div 8), p + of_nat (length ys), stored m p ys, r'') \<and>
    length ys = 8 * (unat len div 8) \<and> set ys \<subseteq> set em_hex_digits"
    by (rule Suc.hyps(1)) (use Suc k e in simp_all)
  ultimately show ?case by simp
qed

lemma random_rest_stored:
  assumes "unat len < 2 ^ 32" "length xs \<le> unat len" "set xs \<subseteq> set em_hex_digits"
  shows "\<exists>ys r'. random_rest rnd (of_nat (length xs)) len (p + of_nat (length xs)) (stored m p xs) r =
      Some (stored m p ys, r') \<and> length ys = unat len \<and> set ys \<subseteq> set em_hex_digits"
  using assms(2,3)
proof (induction "unat len - length xs" arbitrary: xs r)
  case 0
  then have "\<not> ucast (of_nat (length xs) :: uint32) < len"
    using assms(1) by (simp add: word_less_nat_alt unsigned_of_nat take_bit_nat_eq_self unsigned_ucast_eq)
  then show ?case using 0 by (subst random_rest.simps) auto
next
  case (Suc d)
  have lt: "ucast (of_nat (length xs) :: uint32) < len"
    using assms(1) Suc by (simp add: word_less_nat_alt unsigned_of_nat take_bit_nat_eq_self unsigned_ucast_eq)
  obtain v r' where v: "rnd r = (v, r')" by fastforce
  let ?c = "em_hex_digits ! unat (v AND 0x0F)"
  have "random_rest rnd (of_nat (length xs)) len (p + of_nat (length xs)) (stored m p xs) r =
      random_rest rnd (of_nat (length (xs @ [?c]))) len (p + of_nat (length (xs @ [?c]))) (stored m p (xs @ [?c])) r'"
    using lt v stored_snoc [of xs m p ?c] assms(1) Suc.prems(1)
    by (subst random_rest.simps) (simp add: ac_simps)
  moreover have "\<exists>ys r''. random_rest rnd (of_nat (length (xs @ [?c]))) len (p + of_nat (length (xs @ [?c])))
      (stored m p (xs @ [?c])) r' = Some (stored m p ys, r'') \<and> length ys = unat len \<and> set ys \<subseteq> set em_hex_digits"
    by (rule Suc.hyps(1)) (use Suc hex_digit_in and_nibble(1) [of v] in simp_all)
  ultimately show ?case by simp
qed

text \<open>
  For a length below \<open>2^32\<close> \<open>em_create_random_string\<close> returns, whatever the generator, and has filled
  exactly the buffer it was given, with hexadecimal digits.
\<close>
lemma random_string_fills:
  assumes "unat len < 2 ^ 32"
  shows "\<exists>m' r'. em_create_random_string rnd str len m r = Some (m', r') \<and>
    set (chars m' str (unat len)) \<subseteq> set em_hex_digits \<and>
    (\<forall>a. \<not> unat (a - str) < unat len \<longrightarrow> m' a = m a)"
proof -
  obtain ys r1 where w: "random_words rnd 0 len str m r =
      Some (of_nat (unat len div 8), str + of_nat (length ys), stored m str ys, r1)"
    "length ys = 8 * (unat len div 8)" "set ys \<subseteq> set em_hex_digits"
    using random_words_stored [OF assms, of "[]" 0 rnd str m r] by (auto simp: stored_nil)
  obtain zs r2 where "random_rest rnd (of_nat (length ys)) len (str + of_nat (length ys)) (stored m str ys) r1 =
      Some (stored m str zs, r2)" "length zs = unat len" "set zs \<subseteq> set em_hex_digits"
    using random_rest_stored [OF assms _ w(3), of rnd str m r1] w(2) by auto
  then show ?thesis
    using w assms chars_stored [of zs m str]
    by (auto simp: em_create_random_string_def mult.commute stored_def)
qed

lemma random_string_fills_witness:
  "\<exists>m' r'. em_create_random_string (\<lambda>r. (0xDEADBEEF, ())) 0x3000 11 num_mem () = Some (m', r') \<and>
    set (chars m' 0x3000 (unat (11 :: em_size_t))) \<subseteq> set em_hex_digits \<and>
    (\<forall>a. \<not> unat (a - 0x3000) < unat (11 :: em_size_t) \<longrightarrow> m' a = num_mem a)"
  by (rule random_string_fills) simp

end
