(* ===== verification/Emlib_Utils.thy ===== *)
theory Emlib_Utils
  imports Emlib_String
begin

unbundle bit_operations_syntax

text \<open>
  The helpers of \<open>src/utils.c\<close>: packed hexadecimal digits (called BCD there) and a 16-bit CRC.  The
  buffers are bounds-checked byte lists.  The counters of the loops have 8 bits and the pointers move on
  with every turn, so that a length the counter cannot reach runs the loop out of the buffers.  A digit
  letter is looked up in a table of six entries: a letter from G on is read behind the table.
\<close>

section \<open>Packed digits\<close>

definition bcd2ascii :: "uint8 list" where
  "bcd2ascii =
     [0x30, 0x31, 0x32, 0x33, 0x34, 0x35, 0x36, 0x37, 0x38, 0x39, 0x61, 0x62, 0x63, 0x64, 0x65, 0x66]"

definition ascii2bcd1 :: "uint8 list" where "ascii2bcd1 = [0, 1, 2, 3, 4, 5, 6, 7, 8, 9]"
definition ascii2bcd2 :: "uint8 list" where "ascii2bcd2 = [0x0A, 0x0B, 0x0C, 0x0D, 0x0E, 0x0F]"
definition ascii2bcd3 :: "uint8 list" where "ascii2bcd3 = [0x0A, 0x0B, 0x0C, 0x0D, 0x0E, 0x0F]"

text \<open>The two halves of one turn; a character that is no digit leaves \<open>c\<close> as it was.\<close>

definition first_bcd :: "int8 \<Rightarrow> uint8 \<Rightarrow> uint8 option" where
  "first_bcd a c =
     (if isupper a then map_option (push_bit 4) (mem_get ascii2bcd2 (unat (a - 0x41)))
      else if isdigit a then map_option (push_bit 4) (mem_get ascii2bcd1 (unat (a - 0x30)))
      else if islower a then map_option (push_bit 4) (mem_get ascii2bcd3 (unat (a - 0x61)))
      else Some c)"

definition second_bcd :: "int8 \<Rightarrow> uint8 \<Rightarrow> uint8 option" where
  "second_bcd a c =
     (if isupper a then map_option (\<lambda>d. c OR d) (mem_get ascii2bcd2 (unat (a - 0x41)))
      else if isdigit a then map_option (\<lambda>d. c OR d) (mem_get ascii2bcd1 (unat (a - 0x30)))
      else if islower a then map_option (\<lambda>d. c OR d) (mem_get ascii2bcd3 (unat (a - 0x61)))
      else Some c)"

partial_function (option) asc2bcd_loop ::
  "int8 list \<Rightarrow> int \<Rightarrow> nat \<Rightarrow> nat \<Rightarrow> uint8 \<Rightarrow> uint8 \<Rightarrow> uint8 list \<Rightarrow> uint8 list option" where
  "asc2bcd_loop asc len p q i c bcd =
     (if \<not> uint i < len then Some bcd
      else do {
        a \<leftarrow> mem_get asc p;
        c1 \<leftarrow> first_bcd a c;
        b \<leftarrow> mem_get asc (p + 1);
        c2 \<leftarrow> second_bcd b c1;
        bcd' \<leftarrow> mem_set bcd q c2;
        asc2bcd_loop asc len (p + 2) (q + 1) (i + 1) c2 bcd'
      })"

definition asc2bcd :: "uint8 list \<Rightarrow> int8 list \<Rightarrow> int \<Rightarrow> (uint32 \<times> uint8 list) option" where
  "asc2bcd bcd asc len = map_option (\<lambda>b. (0, b)) (asc2bcd_loop asc (len div 2) 0 0 0 0 bcd)"

partial_function (option) bcd2asc_loop ::
  "uint8 list \<Rightarrow> uint32 \<Rightarrow> nat \<Rightarrow> nat \<Rightarrow> uint8 \<Rightarrow> int8 list \<Rightarrow> int8 list option" where
  "bcd2asc_loop bcd len p q i asc =
     (if \<not> ucast i < len then Some asc
      else do {
        b \<leftarrow> mem_get bcd p;
        asc1 \<leftarrow> mem_set asc q (bcd2ascii ! unat (drop_bit 4 b));
        asc2 \<leftarrow> mem_set asc1 (q + 1) (bcd2ascii ! unat (b AND 0x0F));
        bcd2asc_loop bcd len (p + 1) (q + 2) (i + 1) asc2
      })"

definition bcd2asc :: "int8 list \<Rightarrow> uint8 list \<Rightarrow> uint32 \<Rightarrow> int8 list option" where
  "bcd2asc asc bcd len = bcd2asc_loop bcd len 0 0 0 asc"

section \<open>The CRC\<close>

definition PRESET_VALUE :: uint16 where "PRESET_VALUE = 0xFFFF"
definition POLYNOMIAL :: uint16 where "POLYNOMIAL = 0x8408"

definition crc_shift :: "uint16 \<Rightarrow> uint16" where
  "crc_shift v = (if v AND 0x0001 \<noteq> 0 then drop_bit 1 v XOR POLYNOMIAL else drop_bit 1 v)"

text \<open>A byte is a \<open>char\<close>, which is signed: it is extended with its sign before it is mixed in.\<close>

fun crc_bytes :: "int8 list \<Rightarrow> uint16 \<Rightarrow> uint16" where
  "crc_bytes [] v = v"
| "crc_bytes (b # bs) v = crc_bytes bs ((crc_shift ^^ 8) (v XOR scast b))"

definition crc16 :: "int8 list \<Rightarrow> uint8 \<Rightarrow> uint32 option" where
  "crc16 pucY ucX =
     map_option (\<lambda>bytes. ucast (crc_bytes bytes PRESET_VALUE)) (mem_slice pucY 0 (unat ucX))"

section \<open>Round trip of the packed digits\<close>

lemma bcd_digits:
  assumes "n < 16"
  shows "first_bcd (bcd2ascii ! n) c = Some (push_bit 4 (of_nat n))"
    "second_bcd (bcd2ascii ! n) c = Some (c OR of_nat n)"
proof -
  have "\<forall>n \<in> set [0..<16]. first_bcd (bcd2ascii ! n) c = Some (push_bit 4 (of_nat n)) \<and>
      second_bcd (bcd2ascii ! n) c = Some (c OR of_nat n)"
    by (simp add: upt_rec bcd2ascii_def first_bcd_def second_bcd_def ctype mem ascii2bcd1_def ascii2bcd2_def
        ascii2bcd3_def)
  with assms show "first_bcd (bcd2ascii ! n) c = Some (push_bit 4 (of_nat n))"
    "second_bcd (bcd2ascii ! n) c = Some (c OR of_nat n)" by simp_all
qed

lemma nibbles:
  fixes b :: uint8
  shows "unat (drop_bit 4 b) < 16" "unat (b AND 0x0F) < 16"
    "push_bit 4 (of_nat (unat (drop_bit 4 b))) OR of_nat (unat (b AND 0x0F)) = b"
proof -
  have "b AND 0x0F \<le> 0x0F" by (rule word_and_le1)
  then show "unat (b AND 0x0F) < 16" by (simp add: word_le_nat_alt)
  show "unat (drop_bit 4 b) < 16"
    using unat_below [of b] by (simp add: drop_bit_eq_div unat_div less_mult_imp_div_less)
  show "push_bit 4 (of_nat (unat (drop_bit 4 b))) OR of_nat (unat (b AND 0x0F)) = b"
  proof -
    have "push_bit 4 (drop_bit 4 b) OR (b AND mask 4) = b"
      by (rule bit_eqI) (auto simp: bit_simps)
    then show ?thesis by (simp add: mask_eq_exp_minus_1)
  qed
qed


definition bcd_text :: "uint8 list \<Rightarrow> int8 list" where
  "bcd_text bs = concat (map (\<lambda>b. [bcd2ascii ! unat (drop_bit 4 b), bcd2ascii ! unat (b AND 0x0F)]) bs)"

lemma bcd_text_simps [simp]:
  "bcd_text [] = []"
  "bcd_text (b # bs) = bcd2ascii ! unat (drop_bit 4 b) # bcd2ascii ! unat (b AND 0x0F) # bcd_text bs"
  "bcd_text (xs @ ys) = bcd_text xs @ bcd_text ys"
  by (simp_all add: bcd_text_def)

lemma length_bcd_text [simp]: "length (bcd_text bs) = 2 * length bs"
  by (induction bs) simp_all

lemma counter_in_range:
  "k < 256 \<Longrightarrow> n < 2 ^ 32 \<Longrightarrow> ucast (of_nat k :: uint8) < (of_nat n :: uint32) \<longleftrightarrow> k < n"
  by (simp add: word_less_nat_alt unsigned_of_nat unsigned_ucast_eq take_bit_nat_eq_self)

lemma counter_below:
  assumes "(len :: uint32) \<ge> 256"
  shows "ucast (i :: uint8) < len"
proof -
  have "unat i < 256" using unat_below [of i] by simp
  then have "unat (ucast i :: uint32) < 256" by (simp add: unsigned_ucast_eq take_bit_nat_eq_self)
  with assms show ?thesis by (simp add: word_less_nat_alt word_le_nat_alt)
qed

lemma bcd2asc_loop_text:
  assumes "length old = 2 * length bs" "length pre + length bs < 256"
  shows "bcd2asc_loop (pre @ bs) (of_nat (length pre + length bs)) (length pre) (2 * length pre)
      (of_nat (length pre)) (bcd_text pre @ old @ rest) = Some (bcd_text (pre @ bs) @ rest)"
  using assms
proof (induction bs arbitrary: pre old)
  case Nil
  then show ?case
    using counter_in_range [of "length pre" "length pre"] by (subst bcd2asc_loop.simps) simp
next
  case (Cons b bs)
  from Cons.prems(1) obtain x y old' where old: "old = x # y # old'" "length old' = 2 * length bs"
    by (cases old; cases "tl old") auto
  define n where "n = length pre + length (b # bs)"
  have lt: "ucast (of_nat (length pre) :: uint8) < (of_nat n :: uint32)"
    using counter_in_range [of "length pre" n] Cons.prems(2) by (simp add: n_def)
  have "bcd2asc_loop (pre @ b # bs) (of_nat n) (length pre) (2 * length pre) (of_nat (length pre))
      (bcd_text pre @ old @ rest) =
    bcd2asc_loop ((pre @ [b]) @ bs) (of_nat n) (length (pre @ [b])) (2 * length (pre @ [b]))
      (of_nat (length (pre @ [b]))) (bcd_text (pre @ [b]) @ old' @ rest)"
    using lt old by (subst bcd2asc_loop.simps) (simp add: mem nth_append list_update_append add.commute)
  moreover have "n = length (pre @ [b]) + length bs" by (simp add: n_def)
  ultimately show ?case
    using Cons.IH [of old' "pre @ [b]"] old(2) Cons.prems(2) by (simp add: n_def [symmetric] del: of_nat_add)
qed

lemma asc2bcd_loop_text:
  assumes "length old = length bs" "length pre + length bs < 256"
  shows "asc2bcd_loop (bcd_text (pre @ bs) @ behind) (int (length pre + length bs)) (2 * length pre) (length pre)
      (of_nat (length pre)) c (pre @ old @ rest) = Some (pre @ bs @ rest)"
  using assms
proof (induction bs arbitrary: pre old c)
  case Nil
  then show ?case by (subst asc2bcd_loop.simps) (simp add: unsigned_of_nat take_bit_nat_eq_self)
next
  case (Cons b bs)
  from Cons.prems(1) obtain x old' where old: "old = x # old'" "length old' = length bs" by (cases old) auto
  have lt: "uint (of_nat (length pre) :: uint8) < int (length pre + length (b # bs))"
    using Cons.prems(2) by (simp add: unsigned_of_nat take_bit_nat_eq_self)
  have "asc2bcd_loop (bcd_text (pre @ b # bs) @ behind) (int (length pre + length (b # bs))) (2 * length pre)
      (length pre) (of_nat (length pre)) c (pre @ old @ rest) =
    asc2bcd_loop (bcd_text ((pre @ [b]) @ bs) @ behind) (int (length pre + length (b # bs))) (2 * length (pre @ [b]))
      (length (pre @ [b])) (of_nat (length (pre @ [b]))) b ((pre @ [b]) @ old' @ rest)"
    using lt old bcd_digits [OF nibbles(1) [of b]] bcd_digits [OF nibbles(2) [of b]] nibbles(3) [of b]
    by (subst asc2bcd_loop.simps) (simp add: mem nth_append list_update_append add.commute)
  moreover have "length pre + length (b # bs) = length (pre @ [b]) + length bs" by simp
  ultimately show ?case
    using Cons.IH [of old' "pre @ [b]" b] old(2) Cons.prems(2) by simp
qed

text \<open>
  C27. Round trip: \<open>asc2bcd\<close> packs what \<open>bcd2asc\<close> wrote back into the same bytes, for any bytes up to the
  255 that the counter reaches and any buffers large enough, and writes nothing behind them.
\<close>
theorem bcd_roundtrip:
  assumes "length bs < 256" "2 * length bs \<le> length asc" "length bs \<le> length bcd"
  shows "\<exists>asc'. bcd2asc asc bs (of_nat (length bs)) = Some asc' \<and> drop (2 * length bs) asc' = drop (2 * length bs) asc \<and>
    asc2bcd bcd asc' (2 * int (length bs)) = Some (0, bs @ drop (length bs) bcd)"
proof -
  let ?n = "length bs"
  have "bcd2asc asc bs (of_nat ?n) = Some (bcd_text bs @ drop (2 * ?n) asc)"
    using bcd2asc_loop_text [of "take (2 * ?n) asc" bs "[]" "drop (2 * ?n) asc"] assms by (simp add: bcd2asc_def)
  moreover have "asc2bcd bcd (bcd_text bs @ drop (2 * ?n) asc) (2 * int ?n) = Some (0, bs @ drop ?n bcd)"
    using asc2bcd_loop_text [of "take ?n bcd" bs "[]" "drop (2 * ?n) asc" 0 "drop ?n bcd"] assms
    by (simp add: asc2bcd_def)
  ultimately show ?thesis by simp
qed

lemma bcd_roundtrip_witness:
  "\<exists>asc'. bcd2asc [1, 2, 3, 4, 5] [0x4F, 0xA0] 2 = Some asc' \<and> drop 4 asc' = [5] \<and>
    asc2bcd [0, 0, 7] asc' 4 = Some (0, [0x4F, 0xA0, 7])"
  using bcd_roundtrip [of "[0x4F, 0xA0]" "[1, 2, 3, 4, 5]" "[0, 0, 7]"] by simp

text \<open>
  From 256 bytes on \<open>bcd2asc\<close> never stops: the 8-bit counter stays below the length for ever, so that
  the loop leaves its buffers whatever their size.
\<close>
lemma bcd2asc_long_overruns:
  assumes "len \<ge> 256"
  shows "bcd2asc asc bcd len = None"
proof -
  have "bcd2asc_loop bcd len p q i asc = None" for p q i asc
  proof (induction "length bcd - p" arbitrary: p q i asc)
    case 0
    then show ?case using counter_below [OF assms, of i] by (subst bcd2asc_loop.simps) (simp add: mem)
  next
    case (Suc k)
    have "bcd2asc_loop bcd len (p + 1) q' (i + 1) asc' = None" for q' asc'
      by (rule Suc.hyps(1)) (use Suc.hyps(2) in simp)
    then show ?case
      by (subst bcd2asc_loop.simps)
        (use counter_below [OF assms, of i] in \<open>auto simp: bind_eq_None_conv\<close>)
  qed
  then show ?thesis by (simp add: bcd2asc_def)
qed

lemma bcd2asc_long_overruns_witness: "bcd2asc [0, 0] [1] 256 = None"
  by (rule bcd2asc_long_overruns) simp


section \<open>The CRC as a shift register\<close>

text \<open>
  The reference: the message is shifted bit by bit, the lowest bit of each byte first, through a register
  that feeds the polynomial back when the bit that leaves it differs from the bit that enters.
\<close>

definition lfsr :: "bool \<Rightarrow> uint16 \<Rightarrow> uint16" where
  "lfsr b v = (if bit v 0 \<noteq> b then drop_bit 1 v XOR POLYNOMIAL else drop_bit 1 v)"

definition byte_bits :: "uint8 \<Rightarrow> bool list" where "byte_bits b = map (bit b) [0..<8]"

definition crc_reference :: "uint8 list \<Rightarrow> uint16" where
  "crc_reference bs = fold lfsr (concat (map byte_bits bs)) PRESET_VALUE"

lemma crc_shift_lfsr: "crc_shift v = lfsr False v"
  by (simp add: crc_shift_def lfsr_def and_one_eq odd_iff_mod_2_eq_one bit_0)

lemma lfsr_xor: "lfsr b (v XOR w) = lfsr b v XOR drop_bit 1 w" if "\<not> bit w 0"
  using that by (auto simp: lfsr_def bit_simps drop_bit_xor ac_simps)

lemma lfsr_input: "lfsr False (v XOR of_bool b) = lfsr b v"
proof -
  have "bit (v XOR of_bool b) 0 = (bit v 0 \<noteq> b)" by (auto simp: bit_simps)
  moreover have "drop_bit 1 (v XOR of_bool b) = drop_bit 1 v" by (rule bit_eqI) (auto simp: bit_simps)
  ultimately show ?thesis by (simp add: lfsr_def)
qed

text \<open>Mixing \<open>n\<close> bits in at once and shifting \<open>n\<close> times is shifting them in one by one.\<close>

lemma shifts_are_bits:
  "(crc_shift ^^ n) (v XOR take_bit n w) = fold lfsr (map (bit w) [0..<n]) v"
proof (induction n arbitrary: v w)
  case (Suc n)
  define q where "q = take_bit (Suc n) w AND NOT 1"
  have q: "bit q k \<longleftrightarrow> 0 < k \<and> k < Suc n \<and> bit w k" for k
    by (auto simp: q_def bit_simps bit_1_iff dest: bit_imp_le_length)
  have split: "take_bit (Suc n) w = of_bool (bit w 0) XOR q" "drop_bit 1 q = take_bit n (drop_bit 1 w)"
    by (rule bit_eqI, auto simp: q bit_simps)+
  have shift: "crc_shift (v XOR take_bit (Suc n) w) = lfsr (bit w 0) v XOR take_bit n (drop_bit 1 w)"
  proof -
    have "crc_shift (v XOR take_bit (Suc n) w) = lfsr False (v XOR of_bool (bit w 0)) XOR drop_bit 1 q"
      unfolding crc_shift_lfsr split(1) xor.assoc [symmetric] by (rule lfsr_xor) (simp add: q)
    also have "lfsr False (v XOR of_bool (bit w 0)) = lfsr (bit w 0) v" by (rule lfsr_input)
    finally show ?thesis by (simp only: split(2))
  qed
  have "(crc_shift ^^ Suc n) (v XOR take_bit (Suc n) w) = (crc_shift ^^ n) (crc_shift (v XOR take_bit (Suc n) w))"
    by (simp add: funpow_swap1)
  also have "\<dots> = fold lfsr (map (bit (drop_bit 1 w)) [0..<n]) (lfsr (bit w 0) v)"
    unfolding shift by (rule Suc.IH)
  also have "map (bit (drop_bit 1 w)) [0..<n] = map (bit w) (map Suc [0..<n])" by (simp add: bit_drop_bit_eq)
  finally show ?case by (simp add: map_Suc_upt upt_conv_Cons del: upt_Suc)
qed simp


lemma byte_shift:
  "(crc_shift ^^ 8) (v XOR ucast b) = fold lfsr (byte_bits b) v" for b :: uint8
proof -
  have "take_bit 8 (ucast b :: uint16) = ucast b" by (rule bit_eqI) (auto simp: bit_simps dest: bit_imp_le_length)
  moreover have "map (bit (ucast b :: uint16)) [0..<8] = byte_bits b" by (simp add: byte_bits_def bit_simps)
  ultimately show ?thesis using shifts_are_bits [of 8 v "ucast b"] by simp
qed

text \<open>A word whose lower bits are clear only moves through the register.\<close>

lemma shifts_high:
  "take_bit n w = 0 \<Longrightarrow> (crc_shift ^^ n) (v XOR w) = (crc_shift ^^ n) v XOR drop_bit n w"
proof (induction n arbitrary: v w)
  case (Suc n)
  have b: "\<not> bit w k" if "k < Suc n" for k
    using Suc.prems that by (metis bit_0_eq bit_take_bit_iff bot_apply bot_bool_def)
  have "crc_shift (v XOR w) = crc_shift v XOR drop_bit 1 w"
    unfolding crc_shift_lfsr by (rule lfsr_xor) (simp add: b)
  moreover have "take_bit n (drop_bit 1 w) = 0" by (rule bit_eqI) (auto simp: bit_simps b)
  ultimately show ?case
    using Suc.IH [of "drop_bit 1 w" "crc_shift v"] by (simp add: funpow_swap1 drop_bit_drop_bit)
qed simp

lemma sign_extension:
  "(scast b :: uint16) = ucast b XOR (if b \<ge> 0x80 then 0xFF00 else 0)" for b :: int8
proof -
  have "bit (scast b :: uint16) n = (if n < 8 then bit b n else bit b 7)" if "n < 16" for n
  proof -
    have "min 7 n = (if n < 8 then n else 7)" by simp
    then show ?thesis using that by (simp add: bit_simps)
  qed
  moreover have "bit (0xFF00 :: uint16) n = (8 \<le> n)" if "n < 16" for n
  proof -
    have "\<forall>n \<in> set [0..<16]. bit (0xFF00 :: uint16) n = (8 \<le> n)" by (simp add: upt_rec bit_simps)
    with that show ?thesis by simp
  qed
  moreover have "b \<ge> 0x80 \<longleftrightarrow> bit b 7"
  proof -
    have "unat b div 128 < 2" using unat_below [of b] by (simp add: less_mult_imp_div_less)
    then have "odd (unat b div 128) \<longleftrightarrow> unat b div 128 = 1" by (auto simp: less_2_cases_iff)
    also have "\<dots> \<longleftrightarrow> 128 \<le> unat b" using \<open>unat b div 128 < 2\<close> by (auto simp: less_2_cases_iff div_eq_0_iff)
    finally have "bit (unat b) 7 \<longleftrightarrow> 128 \<le> unat b" by (simp add: bit_iff_odd)
    moreover have "bit (unat b) 7 = bit b 7" by (simp add: bit_simps)
    ultimately show ?thesis by (simp add: word_le_nat_alt)
  qed
  ultimately show ?thesis
    by (intro bit_eqI) (auto simp: bit_simps dest: bit_imp_le_length)
qed


lemma crc_byte_signed:
  "(crc_shift ^^ 8) (v XOR scast b) = fold lfsr (byte_bits b) v XOR (if b \<ge> 0x80 then 0x00FF else 0)"
  for b :: int8
proof -
  have "(crc_shift ^^ 8) ((v XOR ucast b) XOR (if b \<ge> 0x80 then 0xFF00 else 0)) =
      (crc_shift ^^ 8) (v XOR ucast b) XOR drop_bit 8 (if b \<ge> 0x80 then 0xFF00 else 0)"
    by (rule shifts_high) simp
  then show ?thesis by (simp add: sign_extension byte_shift xor.assoc)
qed

lemma crc_bytes_ascii:
  "list_all (\<lambda>b. b < 0x80) bs \<Longrightarrow> crc_bytes bs v = fold lfsr (concat (map byte_bits bs)) v"
  by (induction bs arbitrary: v) (auto simp: crc_byte_signed simp del: funpow.simps dest: leD)

lemma lfsr_drains: "fold lfsr (map (bit v) [0..<n]) v = drop_bit n v"
proof -
  have "(crc_shift ^^ n) (v XOR take_bit n v) = drop_bit n v"
  proof -
    have "(crc_shift ^^ n) (0 XOR (v XOR take_bit n v)) = (crc_shift ^^ n) 0 XOR drop_bit n (v XOR take_bit n v)"
      by (rule shifts_high) (simp add: take_bit_xor)
    moreover have "(crc_shift ^^ n) 0 = 0" by (induction n) (simp_all add: crc_shift_def)
    moreover have "drop_bit n (v XOR take_bit n v) = drop_bit n v" by (rule bit_eqI) (auto simp: bit_simps)
    ultimately show ?thesis by simp
  qed
  then show ?thesis using shifts_are_bits [of n v v] by simp
qed

lemma crc_bits_of_register: "byte_bits (ucast v) @ byte_bits (ucast (drop_bit 8 v)) = map (bit (v :: uint16)) [0..<16]"
proof -
  have "[0..<16] = [0..<8] @ map (\<lambda>n. n + 8) [0..<8]" by (simp add: upt_rec)
  moreover have "byte_bits (ucast (drop_bit 8 v)) = map (\<lambda>n. bit v (n + 8)) [0..<8]"
    unfolding byte_bits_def by (rule map_cong) (auto simp: bit_simps add.commute)
  moreover have "byte_bits (ucast v) = map (bit v) [0..<8]"
    unfolding byte_bits_def by (rule map_cong) (auto simp: bit_simps)
  ultimately show ?thesis by (simp add: o_def del: upt_rec_numeral)
qed

text \<open>
  C26. On bytes below 128 \<open>crc16\<close> is the bit-serial register with the reflected polynomial 0x8408 that
  starts with all bits set.  A message followed by its CRC, low byte first, has the CRC 0, as long as the
  two bytes of the CRC are below 128 as well.
\<close>
theorem crc16_bitwise:
  assumes "list_all (\<lambda>b. b < 0x80) bs" "length bs < 254"
  shows "crc16 (bs @ rest) (of_nat (length bs)) = Some (ucast (crc_reference bs)) \<and>
    (let lo = ucast (crc_reference bs); hi = ucast (drop_bit 8 (crc_reference bs)) in
     lo < 0x80 \<and> hi < 0x80 \<longrightarrow> crc16 (bs @ [lo, hi]) (of_nat (length bs + 2)) = Some 0)"
proof -
  have crc: "crc16 (xs @ ys) (of_nat (length xs)) = Some (ucast (crc_reference xs))"
    if "list_all (\<lambda>b. b < 0x80) xs" "length xs < 256" for xs ys
    using that crc_bytes_ascii [OF that(1), of PRESET_VALUE]
    by (simp add: crc16_def mem crc_reference_def unat_of_nat take_bit_nat_eq_self)
  define v where "v = crc_reference bs"
  have zero: "crc_reference (bs @ [ucast v, ucast (drop_bit 8 v)]) = 0"
  proof -
    have "crc_reference (bs @ [ucast v, ucast (drop_bit 8 v)]) = fold lfsr (map (bit v) [0..<16]) v"
      unfolding crc_bits_of_register [symmetric] by (simp add: crc_reference_def v_def)
    also have "\<dots> = drop_bit 16 v" by (rule lfsr_drains)
    also have "\<dots> = 0" by (rule bit_eqI) (auto simp: bit_simps)
    finally show ?thesis .
  qed
  have "crc16 (bs @ [ucast v, ucast (drop_bit 8 v)]) (of_nat (length bs + 2)) = Some 0"
    if "(ucast v :: int8) < 0x80" "(ucast (drop_bit 8 v) :: int8) < 0x80"
    using crc [of "bs @ [ucast v, ucast (drop_bit 8 v)]" "[]"] zero that assms by simp
  with crc [OF assms(1), of rest] assms(2) show ?thesis unfolding v_def [symmetric] Let_def by simp
qed

lemma crc16_bitwise_witness:
  "crc16 [0x31, 0x32, 0x33] 2 = Some (ucast (crc_reference [0x31, 0x32]))"
  using crc16_bitwise [of "[0x31, 0x32]" "[0x33]"] by simp

text \<open>
  A byte from 128 on is extended with its sign: it leaves the register with the lower eight bits
  inverted against the reference, so that such a message has another CRC.
\<close>
lemma crc16_high_byte:
  "crc16 [b] 1 = Some (ucast (crc_reference [b] XOR (if b \<ge> 0x80 then 0x00FF else 0)))"
  by (simp add: crc16_def mem crc_reference_def crc_byte_signed del: funpow.simps)

end
