(* ===== verification/Emlib_Thread.thy ===== *)
theory Emlib_Thread
  imports Emlib_Os Emlib_Except
begin

unbundle bit_operations_syntax

text \<open>
  Starting and stopping the library, thread-local storage and threads, from \<open>src/os_core_unix.c\<close>.  The
  state \<open>lib\<close> collects the file's static variables with the parts of other modules that shutting down
  touches, the live keys of \<open>pthread_key_create\<close> with the value each thread has under them, and the
  thread records, which are known by their address.  The field \<open>client\<close> is the world outside the
  library.  The answers of the calls to the system are parameters.  Stack checks are on (the Linux
  configuration sets \<open>EM_OS_HAS_CHECK_STACK\<close>): they dereference the record of the calling thread, so that
  a checked call from a thread without one is undefined.
\<close>

definition SIGNATURE1 :: uint32 where "SIGNATURE1 = 0xDEAFBEEF"
definition SIGNATURE2 :: uint32 where "SIGNATURE2 = 0xDEADC0DE"
definition ESRCH :: int where "ESRCH = 3"
definition ETIMEDOUT :: int where "ETIMEDOUT = 110"

record em_thread_t =
  th_name :: string
  th_thread :: tid
  th_proc :: "nat option"
  th_arg :: ptr
  signature1 :: uint32
  signature2 :: uint32
  suspended_mutex :: "(ptr \<times> em_mutex_t) option"
  stk_size :: uint32
  stk_max_usage :: uint32
  stk_start :: ptr
  caller_line :: int

definition zero_thread :: em_thread_t where
  "zero_thread = \<lparr>th_name = [], th_thread = 0, th_proc = None, th_arg = 0, signature1 = 0, signature2 = 0,
     suspended_mutex = None, stk_size = 0, stk_max_usage = 0, stk_start = 0, caller_line = 0\<rparr>"

definition sizeof_em_thread_t :: em_size_t where "sizeof_em_thread_t = 104"

record ('f, 'h, 'c) lib =
  initialized :: int
  thread_tls_id :: int
  tls_keys :: "int set"
  tls_value :: "int \<Rightarrow> tid \<Rightarrow> ptr"
  threads :: "ptr \<Rightarrow> em_thread_t"
  critical_section :: "em_mutex_t option"
  atexit_func :: "'f option list"
  atexit_count :: nat
  no_memory_exception :: int
  lib_except :: except_state
  err_handlers :: "'h err_msg_hnd list"
  client :: 'c

section \<open>Thread-local storage\<close>

text \<open>The answer of \<open>pthread_key_create\<close>: an error number or a new key, under which every thread has null.\<close>

definition em_thread_local_alloc ::
  "int + int \<Rightarrow> ('f, 'h, 'c) lib \<Rightarrow> emlib_ret_t \<times> int option \<times> ('f, 'h, 'c) lib" where
  "em_thread_local_alloc key_create st =
     (case key_create of
        Inl rc \<Rightarrow> (EM_RETURN_OS_ERROR (of_int rc), None, st)
      | Inr key \<Rightarrow> (EM_SUCC, Some key,
          st\<lparr>tls_keys := insert key (tls_keys st), tls_value := (tls_value st)(key := (\<lambda>_. 0))\<rparr>))"

definition em_thread_local_get :: "tid \<Rightarrow> int \<Rightarrow> ('f, 'h, 'c) lib \<Rightarrow> ptr" where
  "em_thread_local_get t index st = (if index \<in> tls_keys st then tls_value st index t else 0)"

definition em_thread_local_set ::
  "tid \<Rightarrow> int \<Rightarrow> ptr \<Rightarrow> ('f, 'h, 'c) lib \<Rightarrow> emlib_ret_t \<times> ('f, 'h, 'c) lib" where
  "em_thread_local_set t index v st =
     (if index \<in> tls_keys st
      then (EM_SUCC, st\<lparr>tls_value := (tls_value st)(index := (tls_value st index)(t := v))\<rparr>)
      else (EM_RETURN_OS_ERROR (of_int EINVAL), st))"

definition em_thread_this :: "tid \<Rightarrow> ('f, 'h, 'c) lib \<Rightarrow> ptr" where
  "em_thread_this t st = em_thread_local_get t (thread_tls_id st) st"

definition em_thread_is_registered :: "tid \<Rightarrow> ('f, 'h, 'c) lib \<Rightarrow> bool" where
  "em_thread_is_registered t st \<longleftrightarrow> em_thread_local_get t (thread_tls_id st) st \<noteq> 0"

text \<open>
  The stack check at the address \<open>stk_ptr\<close>: it keeps the highest use and the line it was seen at.  The
  assertion on the size only logs.
\<close>

definition em_thread_check_stack :: "tid \<Rightarrow> ptr \<Rightarrow> int \<Rightarrow> ('f, 'h, 'c) lib \<Rightarrow> ('f, 'h, 'c) lib sys" where
  "em_thread_check_stack t stk_ptr line st =
     (let p = em_thread_this t st in
      if p = 0 then Undef
      else
        (let thread = threads st p;
             usage = (if stk_ptr > stk_start thread then ucast (stk_ptr - stk_start thread)
                      else ucast (stk_start thread - stk_ptr))
         in Returns (if usage > stk_max_usage thread
              then st\<lparr>threads := (threads st)(p := thread\<lparr>stk_max_usage := usage, caller_line := line\<rparr>)\<rparr>
              else st)))"

definition em_thread_get_stack_max_usage :: "em_thread_t \<Rightarrow> uint32" where
  "em_thread_get_stack_max_usage thread = stk_max_usage thread"

definition em_thread_get_stack_info :: "em_thread_t \<Rightarrow> emlib_ret_t \<times> int" where
  "em_thread_get_stack_info thread = (0, caller_line thread)"

text \<open>
  In the operations below a check stands for itself through \<open>checked\<close>: only whether it can be made
  matters to them, the statistics do not.
\<close>

definition checked :: "tid \<Rightarrow> ('f, 'h, 'c) lib \<Rightarrow> 'a sys \<Rightarrow> 'a sys" where
  "checked t st r = (if em_thread_this t st = 0 then Undef else r)"

definition em_thread_local_free :: "tid \<Rightarrow> int \<Rightarrow> ('f, 'h, 'c) lib \<Rightarrow> ('f, 'h, 'c) lib sys" where
  "em_thread_local_free t index st = checked t st (Returns (st\<lparr>tls_keys := tls_keys st - {index}\<rparr>))"

section \<open>Registering threads\<close>

text \<open>
  \<open>fmt\<close> is \<open>snprintf\<close> with the format and the thread's handle; \<open>stack\<close> is the address of a local variable.
\<close>

definition thread_name_of :: "(string \<Rightarrow> tid \<Rightarrow> string) \<Rightarrow> string option \<Rightarrow> tid \<Rightarrow> string" where
  "thread_name_of fmt name t =
     take (EM_MAX_OBJ_NAME - 1)
       (case name of
          Some nm \<Rightarrow> if length nm < EM_MAX_OBJ_NAME - 1 then fmt nm t else fmt ''thr%p'' t
        | None \<Rightarrow> fmt ''thr%p'' t)"

definition em_thread_register ::
  "(string \<Rightarrow> tid \<Rightarrow> string) \<Rightarrow> tid \<Rightarrow> ptr \<Rightarrow> string option \<Rightarrow> ptr \<Rightarrow> ('f, 'h, 'c) lib \<Rightarrow>
   emlib_ret_t \<times> ptr option \<times> ('f, 'h, 'c) lib" where
  "em_thread_register fmt t stack name desc st =
     (let thread = zero_thread\<lparr>th_thread := t, signature1 := SIGNATURE1, signature2 := SIGNATURE2,
            th_name := thread_name_of fmt name t\<rparr>;
          (rc, st1) = em_thread_local_set t (thread_tls_id st) desc st
      in if rc \<noteq> EM_SUCC then (rc, None, st1\<lparr>threads := (threads st1)(desc := zero_thread)\<rparr>)
         else (EM_SUCC, Some desc,
           st1\<lparr>threads := (threads st1)(desc := thread\<lparr>stk_start := stack, stk_size := 0xFFFFFFFF, stk_max_usage := 0\<rparr>)\<rparr>))"

text \<open>\<open>main_thread\<close> is the address of the static record.\<close>

definition em_thread_init ::
  "(string \<Rightarrow> tid \<Rightarrow> string) \<Rightarrow> int + int \<Rightarrow> ptr \<Rightarrow> tid \<Rightarrow> ptr \<Rightarrow> ('f, 'h, 'c) lib \<Rightarrow>
   emlib_ret_t \<times> ('f, 'h, 'c) lib" where
  "em_thread_init fmt key_create main_thread t stack st =
     (case em_thread_local_alloc key_create st of
        (rc, None, st1) \<Rightarrow> (rc, st1)
      | (rc, Some key, st1) \<Rightarrow>
          (case em_thread_register fmt t stack (Some ''thr%p'') main_thread (st1\<lparr>thread_tls_id := key\<rparr>) of
             (rc', _, st2) \<Rightarrow> (rc', st2)))"

section \<open>Starting and stopping the library\<close>

definition em_init ::
  "(string \<Rightarrow> tid \<Rightarrow> string) \<Rightarrow> (string \<Rightarrow> ptr \<Rightarrow> string) \<Rightarrow> int + int \<Rightarrow> int \<times> int \<times> int \<times> int \<Rightarrow> ptr \<Rightarrow> tid \<Rightarrow> ptr \<Rightarrow>
   ('f, 'h, 'c) lib \<Rightarrow> emlib_ret_t \<times> ('f, 'h, 'c) lib" where
  "em_init tfmt fmt key_create rcs main_thread t stack st =
     (if initialized st \<noteq> 0 then (EM_SUCC, st\<lparr>initialized := initialized st + 1\<rparr>)
      else
        (case em_thread_init tfmt key_create main_thread t stack st of
           (rc, st1) \<Rightarrow>
             if rc \<noteq> EM_SUCC then (rc, st1)
             else
               (case init_mutex fmt rcs 0 (Some ''critsec'') EM_MUTEX_RECURSE of
                  (rc', m) \<Rightarrow>
                    if rc' \<noteq> EM_SUCC then (rc', st1)
                    else (EM_SUCC, st1\<lparr>critical_section := m, initialized := initialized st1 + 1\<rparr>))))"

definition EM_ARRAY_SIZE_atexit :: nat where "EM_ARRAY_SIZE_atexit = 32"

definition em_atexit :: "'f \<Rightarrow> ('f, 'h, 'c) lib \<Rightarrow> emlib_ret_t \<times> ('f, 'h, 'c) lib" where
  "em_atexit f st =
     (if atexit_count st \<ge> EM_ARRAY_SIZE_atexit then (EM_ETOOMANY, st)
      else (EM_SUCC, st\<lparr>atexit_func := (atexit_func st)[atexit_count st := Some f],
                        atexit_count := atexit_count st + 1\<rparr>))"

text \<open>
  \<open>for (i=atexit_count-1; i>=0; --i)\<close>, reading the table at each call; \<open>run\<close> is what a registered
  function does.
\<close>

fun run_atexit :: "('f \<Rightarrow> ('f, 'h, 'c) lib \<Rightarrow> ('f, 'h, 'c) lib) \<Rightarrow> nat \<Rightarrow> ('f, 'h, 'c) lib \<Rightarrow> ('f, 'h, 'c) lib sys" where
  "run_atexit run 0 st = Returns st"
| "run_atexit run (Suc i) st =
     (case atexit_func st ! i of None \<Rightarrow> Undef | Some f \<Rightarrow> run_atexit run i (run f st))"

definition em_shutdown ::
  "('f \<Rightarrow> ('f, 'h, 'c) lib \<Rightarrow> ('f, 'h, 'c) lib) \<Rightarrow> ptr \<Rightarrow> tid \<Rightarrow> ('f, 'h, 'c) lib \<Rightarrow> ('f, 'h, 'c) lib sys" where
  "em_shutdown run main_thread t st =
     (let st0 = st\<lparr>initialized := initialized st - 1\<rparr> in
      if initialized st0 \<noteq> 0 then Returns st0
      else
        sys_bind (run_atexit run (atexit_count st0) st0) (\<lambda>st1.
          let st2 = st1\<lparr>atexit_count := 0\<rparr>;
              st3 = (if no_memory_exception st2 \<noteq> - 1
                     then st2\<lparr>lib_except := snd (em_exception_id_free (no_memory_exception st2) (lib_except st2)),
                              no_memory_exception := - 1\<rparr>
                     else st2)
          in checked t st3 (sys_bind (em_mutex_destroy t (critical_section st3)) (\<lambda>(_, m).
               let st4 = st3\<lparr>critical_section := m\<rparr>
               in sys_bind
                    (if thread_tls_id st4 \<noteq> - 1
                     then sys_bind (em_thread_local_free t (thread_tls_id st4) st4)
                            (\<lambda>st5. Returns (st5\<lparr>thread_tls_id := - 1\<rparr>))
                     else Returns st4)
                    (\<lambda>st6. Returns (st6\<lparr>threads := (threads st6)(main_thread := zero_thread),
                                         err_handlers := em_errno_clear_handlers (err_handlers st6)\<rparr>))))))"

definition em_enter_critical_section :: "tid \<Rightarrow> ('f, 'h, 'c) lib \<Rightarrow> ('f, 'h, 'c) lib sys" where
  "em_enter_critical_section t st =
     checked t st (sys_bind (em_mutex_lock t (critical_section st)) (\<lambda>(_, m). Returns (st\<lparr>critical_section := m\<rparr>)))"

definition em_leave_critical_section :: "tid \<Rightarrow> ('f, 'h, 'c) lib \<Rightarrow> ('f, 'h, 'c) lib sys" where
  "em_leave_critical_section t st =
     checked t st (sys_bind (em_mutex_unlock t (critical_section st)) (\<lambda>(_, m). Returns (st\<lparr>critical_section := m\<rparr>)))"


section \<open>The life of the library\<close>

definition lib_down :: "('f, 'h, 'c) lib \<Rightarrow> bool" where
  "lib_down st \<longleftrightarrow> initialized st = 0 \<and> atexit_count st = 0 \<and> length (atexit_func st) = EM_ARRAY_SIZE_atexit"

fun shutdown_times ::
  "('f \<Rightarrow> ('f, 'h, 'c) lib \<Rightarrow> ('f, 'h, 'c) lib) \<Rightarrow> ptr \<Rightarrow> tid \<Rightarrow> nat \<Rightarrow> ('f, 'h, 'c) lib \<Rightarrow> ('f, 'h, 'c) lib sys" where
  "shutdown_times run mt t 0 st = Returns st"
| "shutdown_times run mt t (Suc n) st = sys_bind (em_shutdown run mt t st) (shutdown_times run mt t n)"

lemma run_atexit_client:
  assumes "\<And>f s. run f s = s\<lparr>client := act f (client s)\<rparr>"
    and "\<And>i. i < length fs \<Longrightarrow> atexit_func st ! i = Some (fs ! i)"
  shows "run_atexit run (length fs) st = Returns (st\<lparr>client := fold act (rev fs) (client st)\<rparr>)"
  using assms(2)
proof (induction fs arbitrary: st rule: rev_induct)
  case (snoc f fs)
  have f: "atexit_func st ! length fs = Some f" using snoc.prems [of "length fs"] by simp
  have "run_atexit run (length fs) (run f st) = Returns ((run f st)\<lparr>client := fold act (rev fs) (client (run f st))\<rparr>)"
    by (rule snoc.IH) (use snoc.prems in \<open>fastforce simp: assms(1) nth_append\<close>)
  then show ?case using f assms(1) [of f st] by simp
qed simp

lemma atexit_fold:
  assumes "atexit_count st + length fs \<le> EM_ARRAY_SIZE_atexit" "length (atexit_func st) = EM_ARRAY_SIZE_atexit"
  shows "\<exists>tab. fold (\<lambda>f s. snd (em_atexit f s)) fs st =
      st\<lparr>atexit_func := tab, atexit_count := atexit_count st + length fs\<rparr> \<and> length tab = EM_ARRAY_SIZE_atexit \<and>
    (\<forall>i < atexit_count st. tab ! i = atexit_func st ! i) \<and>
    (\<forall>i < length fs. tab ! (atexit_count st + i) = Some (fs ! i))"
  using assms
proof (induction fs arbitrary: st)
  case (Cons f fs)
  let ?st = "snd (em_atexit f st)"
  have st: "?st = st\<lparr>atexit_func := (atexit_func st)[atexit_count st := Some f], atexit_count := atexit_count st + 1\<rparr>"
    using Cons.prems by (simp add: em_atexit_def)
  have "atexit_count ?st + length fs \<le> EM_ARRAY_SIZE_atexit" "length (atexit_func ?st) = EM_ARRAY_SIZE_atexit"
    using Cons.prems by (simp_all add: st)
  from Cons.IH [OF this] obtain tab where tab: "fold (\<lambda>f s. snd (em_atexit f s)) fs ?st =
      ?st\<lparr>atexit_func := tab, atexit_count := atexit_count ?st + length fs\<rparr>" "length tab = EM_ARRAY_SIZE_atexit"
    "\<forall>i < atexit_count ?st. tab ! i = atexit_func ?st ! i"
    "\<forall>i < length fs. tab ! (atexit_count ?st + i) = Some (fs ! i)" by blast
  have "tab ! (atexit_count st + i) = Some ((f # fs) ! i)" if "i < length (f # fs)" for i
    using that tab(3,4) Cons.prems by (cases i) (auto simp: st)
  moreover have "tab ! i = atexit_func st ! i" if "i < atexit_count st" for i
    using that tab(3) by (simp add: st)
  ultimately show ?case using tab(1,2) by (auto simp: st)
next
  case Nil
  then show ?case by (intro exI [of _ "atexit_func st"]) simp
qed

lemma em_init_first:
  assumes "initialized st = 0" "main_thread \<noteq> 0"
  shows "\<exists>tv th crit. em_init tfmt fmt (Inr key) (0, 0, 0, 0) main_thread t stack st =
      (EM_SUCC, st\<lparr>tls_keys := insert key (tls_keys st), thread_tls_id := key, tls_value := tv, threads := th,
        critical_section := Some crit, initialized := 1\<rparr>) \<and>
    tv key t = main_thread \<and> pm_owner (m_mutex crit) = None"
  using assms
  by (simp add: em_init_def em_thread_init_def em_thread_local_alloc_def em_thread_register_def
      em_thread_local_set_def init_mutex_def Let_def) (intro exI conjI, rule refl, simp_all)

lemma em_init_again:
  "initialized st > 0 \<Longrightarrow>
   ((\<lambda>s. snd (em_init tfmt fmt kc rcs mt t stack s)) ^^ n) st = st\<lparr>initialized := initialized st + int n\<rparr>"
proof (induction n)
  case (Suc n)
  then show ?case by (simp add: em_init_def)
qed simp

lemma shutdown_again:
  assumes "initialized st = int n + 1"
  shows "shutdown_times run mt t (n + k) st = shutdown_times run mt t k (st\<lparr>initialized := 1\<rparr>)"
  using assms
proof (induction n arbitrary: st)
  case (Suc n)
  have "em_shutdown run mt t st = Returns (st\<lparr>initialized := int n + 1\<rparr>)"
    using Suc.prems by (simp add: em_shutdown_def)
  then show ?case using Suc.IH [of "st\<lparr>initialized := int n + 1\<rparr>"] by simp
next
  case 0
  then have "st\<lparr>initialized := 1\<rparr> = st" by (cases st) simp
  then show ?case by simp
qed

text \<open>A stop that is not the last one only counts down.\<close>

lemma shutdown_counts:
  "int k < initialized st \<Longrightarrow> shutdown_times run mt t k st = Returns (st\<lparr>initialized := initialized st - int k\<rparr>)"
proof (induction k arbitrary: st)
  case (Suc k)
  then have "em_shutdown run mt t st = Returns (st\<lparr>initialized := initialized st - 1\<rparr>)"
    by (simp add: em_shutdown_def)
  with Suc.IH [of "st\<lparr>initialized := initialized st - 1\<rparr>"] Suc.prems show ?case
    by (simp add: algebra_simps)
qed simp

lemma free_mutex_destroyed:
  "pm_owner (m_mutex m) = None \<Longrightarrow> em_mutex_destroy t (Some m) = Returns (EM_SUCC, None)"
  by (simp add: em_mutex_destroy_def MUTEX_RETRY_def eval_nat_numeral pthread_mutex_destroy_def os_status_def)

text \<open>
  C17. The life cycle of the library.  A library that is down is started \<open>n + 1\<close> times, up to 32 functions
  are registered, and the same thread stops it \<open>n + 1\<close> times.  Only the last stop has an effect: the \<open>n\<close> before
  it count down and change nothing else; the last calls the functions, each once and in the reverse order of registration, frees the key the start took, clears
  the handlers of error messages, and leaves the library down again, so that it can be started anew.
  The functions are taken to leave the variables of the library alone.
\<close>
theorem lib_lifecycle:
  assumes "lib_down st" "key \<notin> tls_keys st" "key \<noteq> - 1" "main_thread \<noteq> 0" "length fs \<le> 32"
    and "\<And>f s. run f s = s\<lparr>client := act f (client s)\<rparr>"
  shows "let up = fold (\<lambda>f s. snd (em_atexit f s)) fs
      (((\<lambda>s. snd (em_init tfmt fmt (Inr key) (0, 0, 0, 0) main_thread t stack s)) ^^ (n + 1)) st) in
    (\<forall>k\<le>n. shutdown_times run main_thread t k up = Returns (up\<lparr>initialized := int (n + 1 - k)\<rparr>)) \<and> client up = client st \<and>
    (\<exists>st'. shutdown_times run main_thread t (n + 1) up = Returns st' \<and>
    client st' = fold act (rev fs) (client st) \<and> lib_down st' \<and> tls_keys st' = tls_keys st \<and>
    thread_tls_id st' = - 1 \<and> critical_section st' = None \<and> err_handlers st' = [] \<and> no_memory_exception st' = - 1)"
proof -
  let ?init = "\<lambda>s. snd (em_init tfmt fmt (Inr key) (0, 0, 0, 0) main_thread t stack s)"
  note down = assms(1) [unfolded lib_down_def]
  obtain tv th crit where one: "?init st = st\<lparr>tls_keys := insert key (tls_keys st), thread_tls_id := key,
      tls_value := tv, threads := th, critical_section := Some crit, initialized := 1\<rparr>"
    and c: "tv key t = main_thread" "pm_owner (m_mutex crit) = None"
    using em_init_first [of st main_thread tfmt fmt key t stack] down assms(4) by auto
  define up where "up = st\<lparr>tls_keys := insert key (tls_keys st), thread_tls_id := key,
      tls_value := tv, threads := th, critical_section := Some crit, initialized := int n + 1\<rparr>"
  have "(?init ^^ (n + 1)) st = (?init ^^ n) (?init st)"
    by (simp only: funpow_Suc_right o_apply flip: Suc_eq_plus1)
  also have "\<dots> = up" unfolding one by (subst em_init_again) (simp_all add: up_def)
  finally have init: "(?init ^^ (n + 1)) st = up" .
  obtain tab where reg: "fold (\<lambda>f s. snd (em_atexit f s)) fs up = up\<lparr>atexit_func := tab, atexit_count := length fs\<rparr>"
    "length tab = EM_ARRAY_SIZE_atexit" "\<forall>i < length fs. tab ! i = Some (fs ! i)"
    using atexit_fold [of up fs] down assms(5) by (auto simp: up_def EM_ARRAY_SIZE_atexit_def)
  define last where "last = up\<lparr>atexit_func := tab, atexit_count := length fs, initialized := 1\<rparr>"
  have "shutdown_times run main_thread t (n + 1) (up\<lparr>atexit_func := tab, atexit_count := length fs\<rparr>) =
      shutdown_times run main_thread t 1 last"
    by (subst shutdown_again) (simp_all add: up_def last_def)
  also have "\<dots> = sys_bind (em_shutdown run main_thread t last) Returns"
  proof -
    have "shutdown_times run main_thread t 0 = Returns" by (rule ext) simp
    then show ?thesis by simp
  qed
  finally have stop: "shutdown_times run main_thread t (n + 1) (fold (\<lambda>f s. snd (em_atexit f s)) fs ((?init ^^ (n + 1)) st)) =
      sys_bind (em_shutdown run main_thread t last) Returns" unfolding init reg(1) .
  have run: "run_atexit run (length fs) (last\<lparr>initialized := 0\<rparr>) =
      Returns (last\<lparr>initialized := 0, client := fold act (rev fs) (client st)\<rparr>)"
    using run_atexit_client [OF assms(6), of fs "last\<lparr>initialized := 0\<rparr>"] reg(3) by (simp add: last_def up_def)
  have early: "\<forall>k\<le>n. shutdown_times run main_thread t k (up\<lparr>atexit_func := tab, atexit_count := length fs\<rparr>) =
      Returns (up\<lparr>atexit_func := tab, atexit_count := length fs, initialized := int (n + 1 - k)\<rparr>)"
    by (auto simp: shutdown_counts up_def of_nat_diff)
  have last: "\<exists>st'. sys_bind (em_shutdown run main_thread t last) Returns = Returns st' \<and>
    client st' = fold act (rev fs) (client st) \<and> lib_down st' \<and> tls_keys st' = tls_keys st \<and>
    thread_tls_id st' = - 1 \<and> critical_section st' = None \<and> err_handlers st' = [] \<and> no_memory_exception st' = - 1"
    unfolding em_shutdown_def Let_def
    using run c assms(2-4) reg(2) down
    by (auto simp: last_def up_def free_mutex_destroyed checked_def em_thread_this_def em_thread_local_get_def
        em_thread_local_free_def lib_down_def em_errno_clear_handlers_def)
  have "client up = client st" by (simp add: up_def)
  with early last stop show ?thesis unfolding Let_def stop init reg(1) by simp
qed

definition lib_start :: "'c \<Rightarrow> ('f, 'h, 'c) lib" where
  "lib_start c = \<lparr>initialized = 0, thread_tls_id = 0, tls_keys = {}, tls_value = (\<lambda>_ _. 0), threads = (\<lambda>_. zero_thread),
     critical_section = None, atexit_func = replicate EM_ARRAY_SIZE_atexit None, atexit_count = 0,
     no_memory_exception = 0, lib_except = except_start, err_handlers = [], client = c\<rparr>"

lemma lib_lifecycle_witness:
  "let up = fold (\<lambda>f s. snd (em_atexit f s)) [7, 8]
      (((\<lambda>s. snd (em_init (\<lambda>f t. f) (\<lambda>f p. f) (Inr 4) (0, 0, 0, 0) 0x6000 1 0x7000 s)) ^^ (1 + 1)) (lib_start [])) in
    shutdown_times (\<lambda>f s. s\<lparr>client := f # client s\<rparr>) 0x6000 1 1 up = Returns (up\<lparr>initialized := 1\<rparr>) \<and>
    (\<exists>st' :: (nat, nat, nat list) lib. shutdown_times (\<lambda>f s. s\<lparr>client := f # client s\<rparr>) 0x6000 1 (1 + 1) up = Returns st' \<and>
      client st' = fold (#) (rev [7, 8]) [] \<and> lib_down st')"
proof -
  have "lib_down (lib_start [] :: (nat, nat, nat list) lib)" "4 \<notin> tls_keys (lib_start [] :: (nat, nat, nat list) lib)"
    by (simp_all add: lib_start_def lib_down_def)
  note lib_lifecycle [OF this, where main_thread = "0x6000" and fs = "[7, 8]" and run = "\<lambda>f s. s\<lparr>client := f # client s\<rparr>"
    and act = "(#)" and tfmt = "\<lambda>f t. f" and fmt = "\<lambda>f p. f" and t = 1 and stack = "0x7000" and n = 1]
  moreover have "client (lib_start [] :: (nat, nat, nat list) lib) = []" by (simp add: lib_start_def)
  ultimately show ?thesis unfolding Let_def by (auto simp: all_conj_distrib dest: spec [of _ 1])
qed

section \<open>The id of the exception for missing memory\<close>

text \<open>
  The states of a process, with a mark whether the library has been stopped completely.  Besides the
  calls here a step of any other kind may follow, as long as it leaves the instance counter and
  \<open>EM_NO_MEMORY_EXCEPTION\<close> alone, which only \<open>em_init\<close> and \<open>em_shutdown\<close> touch.
\<close>

inductive lib_history :: "bool \<Rightarrow> ('f, 'h, 'c) lib \<Rightarrow> bool" where
  hist_start: "lib_history False (lib_start c)"
| hist_init: "lib_history b st \<Longrightarrow> lib_history b (snd (em_init tfmt fmt kc rcs mt t stack st))"
| hist_atexit: "lib_history b st \<Longrightarrow> lib_history b (snd (em_atexit f st))"
| hist_stop: "lib_history b st \<Longrightarrow> em_shutdown run mt t st = Returns st' \<Longrightarrow> lib_history (b \<or> initialized st = 1) st'"
| hist_other: "lib_history b st \<Longrightarrow> no_memory_exception st' = no_memory_exception st \<Longrightarrow>
    initialized st' = initialized st \<Longrightarrow> lib_history b st'"

lemma local_alloc_keeps_exception:
  "em_thread_local_alloc kc st = (rc, k, st') \<Longrightarrow> no_memory_exception st' = no_memory_exception st"
  by (auto simp: em_thread_local_alloc_def split: sum.splits if_splits)

lemma register_keeps_exception:
  "em_thread_register fmt t stack nm desc st = (rc, d, st') \<Longrightarrow> no_memory_exception st' = no_memory_exception st"
  by (auto simp: em_thread_register_def em_thread_local_set_def Let_def split: if_splits prod.splits)

lemma init_keeps_exception:
  "no_memory_exception (snd (em_init tfmt fmt kc rcs mt t stack st)) = no_memory_exception st"
  by (auto simp: em_init_def em_thread_init_def split: prod.splits option.splits
      dest!: local_alloc_keeps_exception register_keeps_exception)

lemma shutdown_clears_exception:
  "em_shutdown run mt t st = Returns st' \<Longrightarrow>
     no_memory_exception st' = (if initialized st = 1 then - 1 else no_memory_exception st)"
  by (auto simp: em_shutdown_def checked_def em_thread_local_free_def Let_def sys_bind_eq_Returns split: if_splits)

lemma exception_of_history:
  "lib_history b st \<Longrightarrow> no_memory_exception st = (if b then - 1 else 0)"
proof (induction rule: lib_history.induct)
  case (hist_stop b st run mt t st')
  then show ?case using shutdown_clears_exception [OF hist_stop.hyps(2)] by auto
qed (simp_all add: lib_start_def init_keeps_exception em_atexit_def)

lemma atexit_limit: "atexit_count st = 32 \<Longrightarrow> em_atexit f st = (EM_ETOOMANY, st)"
  by (simp add: em_atexit_def EM_ARRAY_SIZE_atexit_def)

text \<open>A function that is registered while the last stop is running is forgotten without being called.\<close>

lemma late_atexit_lost:
  assumes "atexit_count st = 1" "atexit_func st = [Some f] @ replicate 31 None"
    and "run f st = snd (em_atexit g st)"
  shows "run_atexit run (atexit_count st) st =
    Returns (st\<lparr>atexit_func := [Some f, Some g] @ replicate 30 None, atexit_count := 2\<rparr>)"
proof -
  have "replicate 31 (None :: 'a option) = None # replicate 30 None" by (simp add: replicate_Suc [symmetric] del: replicate_Suc)
  then show ?thesis using assms by (simp add: em_atexit_def EM_ARRAY_SIZE_atexit_def)
qed

text \<open>
  One stop too many undoes the next start.  Stopping a library that is down makes its counter negative;
  the next \<open>em_init\<close> takes that for a started library, answers \<open>EM_SUCC\<close> and sets nothing up: the calling
  thread is not registered and there is no critical section, so that the first checked call is undefined.
\<close>
lemma extra_shutdown_disables_init:
  assumes "lib_down st" "em_thread_this t st = 0"
  shows "\<exists>st1 st2. em_shutdown run mt t st = Returns st1 \<and>
    em_init tfmt fmt kc rcs mt t stack st1 = (EM_SUCC, st2) \<and> st2 = st \<and>
    \<not> em_thread_is_registered t st2 \<and> em_enter_critical_section t st2 = Undef"
proof -
  have "em_shutdown run mt t st = Returns (st\<lparr>initialized := - 1\<rparr>)"
    using assms(1) by (simp add: em_shutdown_def lib_down_def)
  moreover have "em_init tfmt fmt kc rcs mt t stack (st\<lparr>initialized := - 1\<rparr>) = (EM_SUCC, st\<lparr>initialized := 0\<rparr>)"
    by (simp add: em_init_def)
  moreover have "st\<lparr>initialized := 0\<rparr> = st" using assms(1) by (cases st) (simp add: lib_down_def)
  ultimately show ?thesis
    using assms(2) by (simp add: em_thread_is_registered_def em_thread_this_def em_enter_critical_section_def checked_def)
qed

lemma extra_shutdown_disables_init_witness:
  "\<exists>st1 st2 :: (nat, nat, nat) lib. em_shutdown (\<lambda>f s. s) 0x6000 1 (lib_start 0) = Returns st1 \<and>
    em_init (\<lambda>f t. f) (\<lambda>f p. f) (Inr 4) (0, 0, 0, 0) 0x6000 1 0x7000 st1 = (EM_SUCC, st2) \<and> st2 = lib_start 0 \<and>
    \<not> em_thread_is_registered 1 st2 \<and> em_enter_critical_section 1 st2 = Undef"
  by (rule extra_shutdown_disables_init)
    (simp_all add: lib_start_def lib_down_def EM_ARRAY_SIZE_atexit_def em_thread_this_def em_thread_local_get_def)

section \<open>Creating threads\<close>

definition EM_THREAD_SUSPENDED :: "32 word" where "EM_THREAD_SUSPENDED = 1"
definition EM_THREAD_DEFAULT_STACK_SIZE :: em_size_t where "EM_THREAD_DEFAULT_STACK_SIZE = 8192"

text \<open>
  The stack size goes to the record only (\<open>EM_THREAD_SET_STACK_SIZE\<close> is 0).  \<open>pthread_create\<close> answers with
  an error number or the handle of the new thread; \<open>t\<close> creates it, and a suspended thread waits for a
  mutex that \<open>t\<close> takes here.  The check at the start needs a thread that the library knows.
\<close>

definition em_thread_create ::
  "(string \<Rightarrow> ptr \<Rightarrow> string) \<Rightarrow> int \<times> int \<times> int \<times> int \<Rightarrow> int + tid \<Rightarrow> 's em_pool_factory_policy \<Rightarrow> em_pool_t option \<Rightarrow>
   string option \<Rightarrow> nat option \<Rightarrow> ptr \<Rightarrow> em_size_t \<Rightarrow> 32 word \<Rightarrow> tid \<Rightarrow> ('f, 'h, 'c) lib \<Rightarrow> 's \<Rightarrow>
   (emlib_ret_t \<times> (ptr \<times> em_thread_t) option) outcome sys \<times> em_pool_t option \<times> 's" where
  "em_thread_create fmt rcs pthread_create pol pool name thread_proc arg stack flags t st s =
     (if em_thread_this t st = 0 then (Undef, pool, s)
      else case (pool, thread_proc) of
        (Some pl, Some _) \<Rightarrow>
          (case em_pool_alloc pol pl sizeof_em_thread_t s of
             (Ret p, pl1, s1) \<Rightarrow>
               if p = 0 then (Returns (Ret (EM_ENOMEM, None)), Some pl1, s1)
               else
                 (let rec = zero_thread\<lparr>th_name := object_name fmt (case name of None \<Rightarrow> ''thr%p'' | Some nm \<Rightarrow> nm) p,
                        stk_size := ucast (if stack = 0 then EM_THREAD_DEFAULT_STACK_SIZE else stack)\<rparr>;
                      start = (\<lambda>r. case pthread_create of
                        Inl e \<Rightarrow> Ret (EM_RETURN_OS_ERROR (of_int e), None)
                      | Inr u \<Rightarrow> Ret (EM_SUCC, Some (p, r\<lparr>th_proc := thread_proc, th_arg := arg, th_thread := u\<rparr>)))
                  in if flags AND EM_THREAD_SUSPENDED \<noteq> 0 then
                       (case em_mutex_create_simple fmt rcs pol pl1 None s1 of
                          (Ret (EM_rc, None), pl2, s2) \<Rightarrow> (Returns (Ret (EM_rc, None)), Some pl2, s2)
                        | (Ret (EM_rc, Some (q, m)), pl2, s2) \<Rightarrow>
                            (sys_bind (em_mutex_lock t (Some m)) (\<lambda>(_, m').
                               Returns (start (rec\<lparr>suspended_mutex := map_option (Pair q) m'\<rparr>))), Some pl2, s2)
                        | (Raised e, pl2, s2) \<Rightarrow> (Returns (Raised e), Some pl2, s2)
                        | (Fault, pl2, s2) \<Rightarrow> (Returns Fault, Some pl2, s2))
                     else (Returns (start rec), Some pl1, s1))
           | (Raised e, pl1, s1) \<Rightarrow> (Returns (Raised e), Some pl1, s1)
           | (Fault, pl1, s1) \<Rightarrow> (Returns Fault, Some pl1, s1))
      | _ \<Rightarrow> (Returns (Ret (EM_EINVAL, None)), pool, s))"

text \<open>
  The entry of a new thread \<open>t\<close> up to the call of the user's function: the record at \<open>p\<close> becomes the
  thread's own, and a suspended thread goes through its mutex.
\<close>

definition thread_main :: "tid \<Rightarrow> ptr \<Rightarrow> ptr \<Rightarrow> ('f, 'h, 'c) lib \<Rightarrow> ((nat option \<times> ptr) \<times> ('f, 'h, 'c) lib) sys" where
  "thread_main t p stack st =
     (let rec = (threads st p)\<lparr>stk_start := stack\<rparr>;
          st1 = snd (em_thread_local_set t (thread_tls_id st) p (st\<lparr>threads := (threads st)(p := rec)\<rparr>))
      in case suspended_mutex rec of
           None \<Rightarrow> Returns ((th_proc rec, th_arg rec), st1)
         | Some (q, m) \<Rightarrow>
             sys_bind (em_mutex_lock t (Some m)) (\<lambda>(_, m1).
             sys_bind (em_mutex_unlock t m1) (\<lambda>(_, m2).
             Returns ((th_proc rec, th_arg rec),
               st1\<lparr>threads := (threads st1)(p := rec\<lparr>suspended_mutex := map_option (Pair q) m2\<rparr>)\<rparr>))))"

definition em_thread_get_name :: "tid \<Rightarrow> ('f, 'h, 'c) lib \<Rightarrow> em_thread_t option \<Rightarrow> string sys" where
  "em_thread_get_name t st p = checked t st (Returns (case p of None \<Rightarrow> [] | Some rec \<Rightarrow> th_name rec))"

definition em_thread_resume :: "tid \<Rightarrow> ptr \<Rightarrow> ('f, 'h, 'c) lib \<Rightarrow> (emlib_ret_t \<times> ('f, 'h, 'c) lib) sys" where
  "em_thread_resume t p st = checked t st
     (if p = 0 then Returns (EM_EINVAL, st)
      else
        sys_bind (em_mutex_unlock t (map_option snd (suspended_mutex (threads st p)))) (\<lambda>(rc, m).
          Returns (rc, st\<lparr>threads := (threads st)(p := (threads st p)
            \<lparr>suspended_mutex := (case (suspended_mutex (threads st p), m) of
               (Some (q, _), Some m') \<Rightarrow> Some (q, m') | _ \<Rightarrow> None)\<rparr>)\<rparr>)))"

text \<open>\<open>pthread_join\<close> answers with the parameter \<open>result\<close>.\<close>

definition em_thread_join :: "int \<Rightarrow> tid \<Rightarrow> ptr \<Rightarrow> ('f, 'h, 'c) lib \<Rightarrow> emlib_ret_t sys" where
  "em_thread_join result t p st = checked t st (Returns
     (if p = em_thread_this t st then EM_ECANCELLED
      else if result = 0 then EM_SUCC
      else if result = ESRCH then EM_SUCC else EM_RETURN_OS_ERROR (of_int result)))"

definition em_thread_destroy :: "tid \<Rightarrow> ptr \<Rightarrow> ('f, 'h, 'c) lib \<Rightarrow> (emlib_ret_t \<times> ('f, 'h, 'c) lib) sys" where
  "em_thread_destroy t p st = checked t st
     (case suspended_mutex (threads st p) of
        None \<Rightarrow> Returns (EM_SUCC, st)
      | Some (q, m) \<Rightarrow>
          sys_bind (em_mutex_destroy t (Some m)) (\<lambda>_.
            Returns (EM_SUCC, st\<lparr>threads := (threads st)(p := (threads st p)\<lparr>suspended_mutex := None\<rparr>)\<rparr>)))"

text \<open>\<open>usleep\<close> leaves its error number in \<open>errno\<close>, which was cleared before.\<close>

definition em_thread_sleep :: "tid \<Rightarrow> ('f, 'h, 'c) lib \<Rightarrow> (uint32 \<Rightarrow> int) \<Rightarrow> uint32 \<Rightarrow> emlib_ret_t sys" where
  "em_thread_sleep t st usleep_errno msec = checked t st (Returns
     (let e = usleep_errno (msec * 1000)
      in if e = ETIMEDOUT then EM_SUCC else em_get_os_error (of_int e)))"

text \<open>Priorities: the parameter is the answer of \<open>pthread_getschedparam\<close>, a policy and a priority.\<close>

definition em_thread_get_prio :: "int + int \<times> int \<Rightarrow> int" where
  "em_thread_get_prio sched = (case sched of Inl _ \<Rightarrow> - 1 | Inr (policy, prio) \<Rightarrow> prio)"

definition em_thread_set_prio :: "int + int \<times> int \<Rightarrow> (int \<Rightarrow> int \<Rightarrow> int) \<Rightarrow> int \<Rightarrow> emlib_ret_t" where
  "em_thread_set_prio sched setschedparam prio =
     (case sched of
        Inl rc \<Rightarrow> EM_RETURN_OS_ERROR (of_int rc)
      | Inr (policy, _) \<Rightarrow>
          (let rc = setschedparam policy prio
           in if rc \<noteq> 0 then EM_RETURN_OS_ERROR (of_int rc) else EM_SUCC))"

definition em_thread_get_prio_min :: "int + int \<times> int \<Rightarrow> (int \<Rightarrow> int) \<Rightarrow> int" where
  "em_thread_get_prio_min sched priority_min = (case sched of Inl _ \<Rightarrow> - 1 | Inr (policy, _) \<Rightarrow> priority_min policy)"

definition em_thread_get_prio_max :: "int + int \<times> int \<Rightarrow> (int \<Rightarrow> int) \<Rightarrow> int" where
  "em_thread_get_prio_max sched priority_max = (case sched of Inl _ \<Rightarrow> - 1 | Inr (policy, _) \<Rightarrow> priority_max policy)"

text \<open>
  C18. A suspended thread waits for its creator.  When \<open>em_thread_create\<close> with \<open>EM_THREAD_SUSPENDED\<close> succeeds,
  the new thread cannot get past its entry: it blocks until the creating thread has called
  \<open>em_thread_resume\<close>, which succeeds, and then it goes on to call the procedure with the argument that were
  given, registered under its own record.  A resume from any other thread is undefined, since that thread
  does not hold the mutex.  The creator stays registered as it was in the state \<open>st0\<close> of its call.
\<close>
theorem thread_suspended:
  assumes "em_thread_create fmt (0, 0, 0, 0) (Inr u) pol (Some pool) name (Some proc) arg stack EM_THREAD_SUSPENDED t st0 s =
      (Returns (Ret (EM_SUCC, Some (p, rec))), pool', s')"
    and "em_thread_this t st = em_thread_this t st0" "threads st p = rec" "thread_tls_id st \<in> tls_keys st" "u \<noteq> t" "v \<noteq> t"
  shows "thread_main u p stk st = Blocks \<and> em_thread_resume v p st = Undef \<and>
    (\<exists>st1 st2. em_thread_resume t p st = Returns (EM_SUCC, st1) \<and>
      thread_main u p stk st1 = Returns ((Some proc, arg), st2) \<and> em_thread_this u st2 = p)"
proof -
  have "em_thread_this t st \<noteq> 0" using assms(1,2) by (auto simp: em_thread_create_def split: if_splits)
  moreover have "\<exists>q m. suspended_mutex rec = Some (q, m) \<and> th_proc rec = Some proc \<and> th_arg rec = arg \<and>
      m_mutex m = \<lparr>pm_recursive = False, pm_owner = Some t, pm_level = 1\<rparr> \<and> p \<noteq> 0"
    using assms(1)
    by (auto simp: em_thread_create_def Let_def EM_THREAD_SUSPENDED_def em_mutex_create_simple_def em_mutex_create_def
        init_mutex_def em_mutex_lock_def on_mutex_def pthread_mutex_lock_def
        split: prod.splits outcome.splits if_splits option.splits)
  ultimately obtain q m where "em_thread_this t st \<noteq> 0" "suspended_mutex rec = Some (q, m)" "th_proc rec = Some proc" "th_arg rec = arg"
      "m_mutex m = \<lparr>pm_recursive = False, pm_owner = Some t, pm_level = 1\<rparr>" "p \<noteq> 0" by blast
  then show ?thesis
    using assms(3-6)
    by (simp add: thread_main_def em_thread_resume_def checked_def em_mutex_lock_def em_mutex_unlock_def on_mutex_def Let_def
        pthread_mutex_lock_def pthread_mutex_unlock_def em_thread_local_set_def em_thread_this_def em_thread_local_get_def
        os_status_def)
qed

definition wide_pool :: em_pool_t where
  "wide_pool = \<lparr>p_addr = 4096, obj_name = ''p'', factory_data = 0, capacity = 3904, increment_size = 512,
     block_list = [\<lparr>b_addr = 4224, b_buf = 4264, b_cur = 4264, b_end = 8000\<rparr>], p_callback = None\<rparr>"

lemma wide_pool_alloc:
  "em_pool_alloc pol wide_pool sizeof_em_thread_t s = (Ret 4264, wide_pool\<lparr>block_list :=
     [\<lparr>b_addr = 4224, b_buf = 4264, b_cur = 4368, b_end = 8000\<rparr>]\<rparr>, s)"
  "em_pool_alloc pol (wide_pool\<lparr>block_list := [\<lparr>b_addr = 4224, b_buf = 4264, b_cur = 4368, b_end = 8000\<rparr>]\<rparr>)
     sizeof_em_mutex_t s = (Ret 4368, wide_pool\<lparr>block_list :=
     [\<lparr>b_addr = 4224, b_buf = 4264, b_cur = 4440, b_end = 8000\<rparr>]\<rparr>, s)"
  by (simp_all add: em_pool_alloc_def wide_pool_def em_pool_alloc_from_block_def round_up_def EM_POOL_ALIGNMENT_def
      sizeof_em_thread_t_def sizeof_em_mutex_t_def Let_def)

definition known_lib :: "(nat, nat, nat) lib" where
  "known_lib = (lib_start 0)\<lparr>tls_keys := {4}, thread_tls_id := 4, tls_value := (\<lambda>_ _. 0)(4 := (\<lambda>_. 0)(1 := 0x6000))\<rparr>"

lemma thread_suspended_witness:
  "\<exists>pool' s' rec st st1 st2. em_thread_create (\<lambda>f p. f) (0, 0, 0, 0) (Inr 2) bump_policy (Some wide_pool) None (Some 7) 9 0
      EM_THREAD_SUSPENDED 1 known_lib 0 = (Returns (Ret (EM_SUCC, Some (4264, rec))), pool', s') \<and>
    threads st 4264 = rec \<and> thread_main 2 4264 5 st = Blocks \<and> em_thread_resume 3 4264 st = Undef \<and>
    em_thread_resume 1 4264 st = Returns (EM_SUCC, st1) \<and>
    thread_main 2 4264 5 (st1 :: (nat, nat, nat) lib) = Returns ((Some 7, 9), st2)"
proof -
  have known: "em_thread_this 1 known_lib = 0x6000"
    by (simp add: known_lib_def em_thread_this_def em_thread_local_get_def)
  then obtain rec pool' s' where made: "em_thread_create (\<lambda>f p. f) (0, 0, 0, 0) (Inr 2) bump_policy (Some wide_pool) None (Some 7) 9 0
      EM_THREAD_SUSPENDED 1 known_lib 0 = (Returns (Ret (EM_SUCC, Some (4264, rec))), pool', s')"
    by (simp add: em_thread_create_def Let_def EM_THREAD_SUSPENDED_def em_mutex_create_simple_def em_mutex_create_def
        init_mutex_def em_mutex_lock_def on_mutex_def pthread_mutex_lock_def wide_pool_alloc)
  define st where "st = known_lib\<lparr>threads := (\<lambda>_. zero_thread)(4264 := rec)\<rparr>"
  have "em_thread_this 1 st = em_thread_this 1 known_lib" "threads st 4264 = rec" "thread_tls_id st \<in> tls_keys st"
    by (simp_all add: st_def known_lib_def em_thread_this_def em_thread_local_get_def)
  with thread_suspended [OF made, of st 3 5] made show ?thesis by simp blast
qed

end
