(* ===== verification/Emlib_Ttask.thy ===== *)
theory Emlib_Ttask
  imports Emlib_Thread Emlib_Time
begin

text \<open>
  Timer tasks: the POSIX timers of \<open>src/os_core_unix.c\<close> and the framework of \<open>src/timer_task.c\<close> over
  them.  The state holds the timers of the process, by identifier, and the task objects, by address.  The
  timer calls follow the standard: \<open>timer_settime\<close> refuses a time that is not normalised, replaces both the
  time to the next expiry and the period, and gives back the old ones; a zero time disarms.  Times are
  counted in nanoseconds.  All calls are made by registered threads, so that the stack checks return.
\<close>

section \<open>POSIX timers\<close>

record timespec =
  ts_sec :: int
  ts_nsec :: int

record itimerspec =
  its_value :: timespec
  its_interval :: timespec

record posix_timer =
  pt_value :: int
  pt_interval :: int

definition timespec_ok :: "timespec \<Rightarrow> bool" where
  "timespec_ok ts \<longleftrightarrow> 0 \<le> ts_sec ts \<and> 0 \<le> ts_nsec ts \<and> ts_nsec ts < 1000000000"

definition ns_of :: "timespec \<Rightarrow> int" where
  "ns_of ts = ts_sec ts * 1000000000 + ts_nsec ts"

definition ts_of :: "int \<Rightarrow> timespec" where
  "ts_of n = \<lparr>ts_sec = n div 1000000000, ts_nsec = n mod 1000000000\<rparr>"

text \<open>
  \<open>elapse d\<close> lets \<open>d\<close> nanoseconds pass: the number of expiries and the timer after them.
\<close>

definition elapse :: "int \<Rightarrow> posix_timer \<Rightarrow> int \<times> posix_timer" where
  "elapse d t =
     (if pt_value t = 0 then (0, t)
      else if d < pt_value t then (0, t\<lparr>pt_value := pt_value t - d\<rparr>)
      else if pt_interval t = 0 then (1, t\<lparr>pt_value := 0\<rparr>)
      else (1 + (d - pt_value t) div pt_interval t,
            t\<lparr>pt_value := pt_interval t - (d - pt_value t) mod pt_interval t\<rparr>))"

definition timer_ok :: "posix_timer \<Rightarrow> bool" where
  "timer_ok t \<longleftrightarrow> 0 \<le> pt_value t \<and> 0 \<le> pt_interval t"

text \<open>Letting time pass in two portions is letting it pass at once.\<close>

lemma periodic_split:
  fixes i :: int
  assumes "0 < i" "0 \<le> b"
  shows "b < i - a mod i \<Longrightarrow> (a + b) div i = a div i \<and> (a + b) mod i = a mod i + b"
    and "\<not> b < i - a mod i \<Longrightarrow> (a + b) div i = a div i + 1 + (b - (i - a mod i)) div i \<and>
      (a + b) mod i = (b - (i - a mod i)) mod i"
proof -
  have a: "a = i * (a div i) + a mod i" by simp
  { assume "b < i - a mod i"
    moreover have "a + b = i * (a div i) + (a mod i + b)" using a by linarith
    moreover have "0 \<le> a mod i" using assms by simp
    ultimately show "(a + b) div i = a div i \<and> (a + b) mod i = a mod i + b"
      using assms by (metis Euclidean_Rings.pos_mod_bound add_increasing2 add.commute div_mult_self4 div_pos_pos_trivial
          add_0_right less_diff_eq mod_mult_self4 mod_pos_pos_trivial mult.commute order_less_imp_not_eq2) }
  { have "a + b = (b - (i - a mod i)) + i * (a div i + 1)" using a by (simp add: algebra_simps)
    then show "(a + b) div i = a div i + 1 + (b - (i - a mod i)) div i \<and>
      (a + b) mod i = (b - (i - a mod i)) mod i"
      using assms by (metis add.commute div_mult_self2 mod_mult_self2 order_less_irrefl) }
qed

lemma elapse_ok: "timer_ok t \<Longrightarrow> 0 \<le> d \<Longrightarrow> timer_ok (snd (elapse d t)) \<and> 0 \<le> fst (elapse d t)"
  by (auto simp: timer_ok_def elapse_def Let_def less_imp_le pos_imp_zdiv_nonneg_iff)

lemma elapse_add:
  assumes "timer_ok t" "0 \<le> a" "0 \<le> b"
  shows "elapse (a + b) t = (fst (elapse a t) + fst (elapse b (snd (elapse a t))), snd (elapse b (snd (elapse a t))))"
proof (cases "pt_value t = 0 \<or> a < pt_value t \<or> pt_interval t = 0")
  case True
  then show ?thesis
    using assms by (cases t) (auto simp: elapse_def timer_ok_def algebra_simps)
next
  case False
  define c where "c = a - pt_value t"
  have i: "0 < pt_interval t" "0 < pt_value t" "0 \<le> c" using False assms(1) by (auto simp: timer_ok_def c_def)
  have pos: "0 < pt_interval t - c mod pt_interval t" using i by simp
  have nz: "pt_value t \<noteq> 0" "\<not> a < pt_value t" "pt_interval t \<noteq> 0" "\<not> a + b < pt_value t" "a + b - pt_value t = c + b"
    using False i assms by (auto simp: c_def)
  have all: "elapse (a + b) t = (1 + (c + b) div pt_interval t,
      t\<lparr>pt_value := pt_interval t - (c + b) mod pt_interval t\<rparr>)"
    unfolding elapse_def nz(5) by (simp add: nz(1-4))
  have first: "elapse a t = (1 + c div pt_interval t, t\<lparr>pt_value := pt_interval t - c mod pt_interval t\<rparr>)"
    unfolding elapse_def c_def [symmetric] by (simp add: nz(1-3))
  show ?thesis
  proof (cases "b < pt_interval t - c mod pt_interval t")
    case True
    with periodic_split(1) [OF i(1) assms(3) True] pos show ?thesis
      unfolding all first by (simp add: elapse_def)
  next
    case far: False
    with periodic_split(2) [OF i(1) assms(3) far] pos nz(3) show ?thesis
      unfolding all first by (simp add: elapse_def)
  qed
qed

section \<open>Timer task objects\<close>

datatype em_tt_notify_type_e = TTN_SIGNAL_E | TTN_THREAD_E | TTN_POOL_E | TTN_NUM

datatype em_tt_state_e = TTS_CREATE_E | TTS_RUNNING_E | TTS_STOP_E | TTS_NUM

record em_os_tt_obj_t =
  tt_name :: string
  timer_id :: int
  expired_cb :: nat
  args :: ptr
  it_value :: em_time_val
  it_interval :: em_time_val
  tt_state :: em_tt_state_e

definition sizeof_em_os_tt_obj_t :: em_size_t where "sizeof_em_os_tt_obj_t = 96"

record sigevent =
  sigev_notify :: int
  sigev_notify_function :: ptr
  sigev_notify_attributes :: ptr
  sigev_value :: ptr

definition SIGEV_THREAD :: int where "SIGEV_THREAD = 2"

record tt_world =
  os_timers :: "int \<Rightarrow> posix_timer option"
  tt_objs :: "ptr \<Rightarrow> em_os_tt_obj_t option"

text \<open>
  \<open>timer_settime\<close> without \<open>TIMER_ABSTIME\<close>: the error number, or the old setting.
\<close>

definition timer_settime :: "int \<Rightarrow> itimerspec \<Rightarrow> tt_world \<Rightarrow> (int + itimerspec) \<times> tt_world" where
  "timer_settime tm new w =
     (case os_timers w tm of
        None \<Rightarrow> (Inl EINVAL, w)
      | Some t \<Rightarrow>
          if timespec_ok (its_value new) \<and> timespec_ok (its_interval new)
          then (Inr \<lparr>its_value = ts_of (pt_value t), its_interval = ts_of (pt_interval t)\<rparr>,
                w\<lparr>os_timers := (os_timers w)(tm \<mapsto>
                  \<lparr>pt_value = ns_of (its_value new), pt_interval = ns_of (its_interval new)\<rparr>)\<rparr>)
          else (Inl EINVAL, w))"

definition timer_delete :: "int \<Rightarrow> tt_world \<Rightarrow> (int + unit) \<times> tt_world" where
  "timer_delete tm w =
     (case os_timers w tm of
        None \<Rightarrow> (Inl EINVAL, w)
      | Some _ \<Rightarrow> (Inr (), w\<lparr>os_timers := (os_timers w)(tm := None)\<rparr>))"

text \<open>A pointer to a task object: null is refused, a dangling one is a fault.\<close>

definition on_obj ::
  "ptr \<Rightarrow> tt_world \<Rightarrow> (em_os_tt_obj_t \<Rightarrow> emlib_ret_t \<times> tt_world) \<Rightarrow> emlib_ret_t outcome \<times> tt_world" where
  "on_obj p w f =
     (if p = 0 then (Ret EM_EINVAL, w)
      else case tt_objs w p of
        None \<Rightarrow> (Fault, w)
      | Some obj \<Rightarrow> (case f obj of (r, w') \<Rightarrow> (Ret r, w')))"

definition put_obj :: "ptr \<Rightarrow> em_os_tt_obj_t \<Rightarrow> tt_world \<Rightarrow> tt_world" where
  "put_obj p obj w = w\<lparr>tt_objs := (tt_objs w)(p \<mapsto> obj)\<rparr>"

definition timespec_of :: "em_time_val \<Rightarrow> timespec" where
  "timespec_of t = \<lparr>ts_sec = tv_sec t, ts_nsec = s64 (tv_msec t * 1000000)\<rparr>"

definition em_os_ttask_start :: "ptr \<Rightarrow> tt_world \<Rightarrow> emlib_ret_t outcome \<times> tt_world" where
  "em_os_ttask_start p w =
     on_obj p w (\<lambda>obj.
       let new_value = \<lparr>its_value = timespec_of (it_value obj), its_interval = timespec_of (it_interval obj)\<rparr>
       in case timer_settime (timer_id obj) new_value w of
            (Inl e, w1) \<Rightarrow> (EM_RETURN_OS_ERROR (of_int e), w1)
          | (Inr _, w1) \<Rightarrow> (EM_SUCC, put_obj p (obj\<lparr>tt_state := TTS_RUNNING_E\<rparr>) w1))"

definition zero_spec :: itimerspec where
  "zero_spec = \<lparr>its_value = \<lparr>ts_sec = 0, ts_nsec = 0\<rparr>, its_interval = \<lparr>ts_sec = 0, ts_nsec = 0\<rparr>\<rparr>"

definition em_os_ttask_stop :: "ptr \<Rightarrow> tt_world \<Rightarrow> emlib_ret_t outcome \<times> tt_world" where
  "em_os_ttask_stop p w =
     on_obj p w (\<lambda>obj.
       case timer_settime (timer_id obj) zero_spec w of
         (Inl e, w1) \<Rightarrow> (EM_RETURN_OS_ERROR (of_int e), w1)
       | (Inr remain, w1) \<Rightarrow>
           (EM_SUCC, put_obj p (obj\<lparr>it_value := \<lparr>tv_sec = ts_sec (its_value remain),
                                              tv_msec = c_div (ts_nsec (its_value remain)) 1000000\<rparr>,
                                  tt_state := TTS_STOP_E\<rparr>) w1))"

definition em_os_ttask_resume :: "ptr \<Rightarrow> tt_world \<Rightarrow> emlib_ret_t outcome \<times> tt_world" where
  "em_os_ttask_resume p w =
     (case em_os_ttask_start p w of
        (Ret ret, w1) \<Rightarrow>
          if ret \<noteq> EM_SUCC then (Ret ret, w1)
          else on_obj p w1 (\<lambda>obj. (EM_SUCC, put_obj p (obj\<lparr>tt_state := TTS_RUNNING_E\<rparr>) w1))
      | r \<Rightarrow> r)"

definition em_os_ttask_destroy :: "ptr \<Rightarrow> tt_world \<Rightarrow> emlib_ret_t outcome \<times> tt_world" where
  "em_os_ttask_destroy p w =
     on_obj p w (\<lambda>obj.
       case timer_delete (timer_id obj) w of
         (Inl e, w1) \<Rightarrow> (EM_RETURN_OS_ERROR (of_int e), w1)
       | (Inr _, w1) \<Rightarrow> (EM_SUCC, w1))"

definition em_os_ttask_mod ::
  "ptr \<Rightarrow> em_time_val \<Rightarrow> em_time_val \<Rightarrow> tt_world \<Rightarrow> emlib_ret_t outcome \<times> tt_world" where
  "em_os_ttask_mod p value interval w =
     on_obj p w (\<lambda>obj.
       let new_value = \<lparr>its_value = timespec_of value, its_interval = timespec_of interval\<rparr>
       in case timer_settime (timer_id obj) new_value w of
            (Inl e, w1) \<Rightarrow> (EM_RETURN_OS_ERROR (of_int e), w1)
          | (Inr _, w1) \<Rightarrow> (EM_SUCC, put_obj p (obj\<lparr>tt_state := TTS_RUNNING_E\<rparr>) w1))"

section \<open>Creation\<close>

text \<open>
  \<open>create_timer_task\<close> of \<open>os_core_unix.c\<close>.  The event structure is a local variable: only the thread
  notification fills it, and for every other kind \<open>timer_create\<close> is given what the stack held before,
  \<open>garbage\<close>.  The answer of \<open>timer_create\<close> is an error number or the identifier of a new, disarmed timer.
\<close>

definition timer_event :: "sigevent \<Rightarrow> ptr \<Rightarrow> ptr \<Rightarrow> em_tt_notify_type_e \<Rightarrow> sigevent" where
  "timer_event garbage notify_function p notify_type =
     (if notify_type = TTN_THREAD_E
      then garbage\<lparr>sigev_notify := SIGEV_THREAD, sigev_notify_function := notify_function,
                   sigev_notify_attributes := 0, sigev_value := p\<rparr>
      else garbage)"

definition create_timer_task ::
  "(sigevent \<Rightarrow> int + int) \<Rightarrow> sigevent \<Rightarrow> ptr \<Rightarrow> ptr \<Rightarrow> em_tt_notify_type_e \<Rightarrow> tt_world \<Rightarrow>
   emlib_ret_t \<times> int option \<times> tt_world" where
  "create_timer_task timer_create garbage notify_function p notify_type w =
     (case timer_create (timer_event garbage notify_function p notify_type) of
        Inl e \<Rightarrow> (EM_RETURN_OS_ERROR (of_int e), None, w)
      | Inr tm \<Rightarrow> (EM_SUCC, Some tm, w\<lparr>os_timers := (os_timers w)(tm \<mapsto> \<lparr>pt_value = 0, pt_interval = 0\<rparr>)\<rparr>))"

text \<open>
  The check after the allocation tests the caller's pointer \<open>tt_obj\<close>, not the object: when the pool is
  exhausted the null object is written.  The name is copied without a terminator of its own (the object is
  zeroed); without a name it is made from the thread's handle by \<open>fmt\<close>.  The times are normalised.
\<close>

definition em_create_timer_task ::
  "(string \<Rightarrow> tid \<Rightarrow> string) \<Rightarrow> (sigevent \<Rightarrow> int + int) \<Rightarrow> sigevent \<Rightarrow> ptr \<Rightarrow> tid \<Rightarrow> 's em_pool_factory_policy \<Rightarrow>
   em_pool_t option \<Rightarrow> string option \<Rightarrow> em_time_val \<Rightarrow> em_time_val \<Rightarrow> em_tt_notify_type_e \<Rightarrow> nat option \<Rightarrow> ptr \<Rightarrow>
   bool \<Rightarrow> tt_world \<Rightarrow> 's \<Rightarrow> (emlib_ret_t \<times> ptr option) outcome \<times> em_pool_t option \<times> tt_world \<times> 's" where
  "em_create_timer_task fmt timer_create garbage notify_function t pol pool name value interval notify_type cb arg tt_obj w s =
     (case (pool, cb) of
        (Some pl, Some f) \<Rightarrow>
          (case em_pool_alloc pol pl sizeof_em_os_tt_obj_t s of
             (Ret p, pl1, s1) \<Rightarrow>
               if \<not> tt_obj then (Ret (EM_ENOMEM, None), Some pl1, w, s1)
               else if p = 0 then (Fault, Some pl1, w, s1)
               else
                 (case create_timer_task timer_create garbage notify_function p notify_type w of
                    (ret, tm, w1) \<Rightarrow>
                      (Ret (ret, Some p), Some pl1,
                       put_obj p
                         \<lparr>tt_name = (case name of Some nm \<Rightarrow> take EM_MAX_OBJ_NAME nm
                                     | None \<Rightarrow> take (EM_MAX_OBJ_NAME - 1) (fmt ''tt-%ld'' t)),
                          timer_id = (case tm of None \<Rightarrow> 0 | Some i \<Rightarrow> i), expired_cb = f, args = arg,
                          it_value = EM_TIME_VAL_SET value, it_interval = EM_TIME_VAL_SET interval,
                          tt_state = TTS_CREATE_E\<rparr> w1, s1))
           | (Raised e, pl1, s1) \<Rightarrow> (Raised e, Some pl1, w, s1)
           | (Fault, pl1, s1) \<Rightarrow> (Fault, Some pl1, w, s1))
      | _ \<Rightarrow> (Ret (EM_EINVAL, None), pool, w, s))"

section \<open>The framework of timer\_task.c\<close>

text \<open>
  A task holds the object and five function pointers, which are always those of \<open>template_tt\<close>; the model
  keeps the object.  Times are in seconds.
\<close>

record em_timer_task_t =
  tt_obj :: ptr

definition sizeof_em_timer_task_t :: em_size_t where "sizeof_em_timer_task_t = 48"

record em_tt_value_t =
  tv_value :: uint32
  tv_interval :: uint32

text \<open>\<open>create_timer_task\<close> of \<open>timer_task.c\<close>.\<close>

definition create_ttask ::
  "(string \<Rightarrow> tid \<Rightarrow> string) \<Rightarrow> (sigevent \<Rightarrow> int + int) \<Rightarrow> sigevent \<Rightarrow> ptr \<Rightarrow> tid \<Rightarrow> 's em_pool_factory_policy \<Rightarrow>
   em_pool_t option \<Rightarrow> string option \<Rightarrow> em_time_val \<Rightarrow> em_time_val \<Rightarrow> em_tt_notify_type_e \<Rightarrow> nat option \<Rightarrow> ptr \<Rightarrow>
   tt_world \<Rightarrow> 's \<Rightarrow> (emlib_ret_t \<times> em_timer_task_t option) outcome \<times> em_pool_t option \<times> tt_world \<times> 's" where
  "create_ttask fmt timer_create garbage notify_function t pol pool name value interval notify_type cb arg w s =
     (case (pool, name, cb) of
        (Some pl, Some _, Some _) \<Rightarrow>
          (case em_pool_alloc pol pl sizeof_em_timer_task_t s of
             (Ret q, pl1, s1) \<Rightarrow>
               if q = 0 then (Ret (EM_ENOMEM, None), Some pl1, w, s1)
               else
                 (case em_create_timer_task fmt timer_create garbage notify_function t pol (Some pl1) name value
                         interval notify_type cb arg True w s1 of
                    (Ret (ret, p), pl2, w1, s2) \<Rightarrow>
                      (Ret (ret, if ret \<noteq> EM_SUCC then None else map_option em_timer_task_t.make p), pl2, w1, s2)
                  | (Raised e, pl2, w1, s2) \<Rightarrow> (Raised e, pl2, w1, s2)
                  | (Fault, pl2, w1, s2) \<Rightarrow> (Fault, pl2, w1, s2))
           | (Raised e, pl1, s1) \<Rightarrow> (Raised e, Some pl1, w, s1)
           | (Fault, pl1, s1) \<Rightarrow> (Fault, Some pl1, w, s1))
      | _ \<Rightarrow> (Ret (EM_EINVAL, None), pool, w, s))"

definition seconds :: "uint32 \<Rightarrow> em_time_val" where
  "seconds n = \<lparr>tv_sec = uint n, tv_msec = 0\<rparr>"

definition em_ttask_create_thnotify ::
  "(string \<Rightarrow> tid \<Rightarrow> string) \<Rightarrow> (sigevent \<Rightarrow> int + int) \<Rightarrow> sigevent \<Rightarrow> ptr \<Rightarrow> tid \<Rightarrow> 's em_pool_factory_policy \<Rightarrow>
   em_pool_t option \<Rightarrow> string option \<Rightarrow> em_tt_value_t \<Rightarrow> nat option \<Rightarrow> ptr \<Rightarrow>
   tt_world \<Rightarrow> 's \<Rightarrow> (emlib_ret_t \<times> em_timer_task_t option) outcome \<times> em_pool_t option \<times> tt_world \<times> 's" where
  "em_ttask_create_thnotify fmt timer_create garbage notify_function t pol pool name time cb arg w s =
     create_ttask fmt timer_create garbage notify_function t pol pool name (seconds (tv_value time))
       (seconds (tv_interval time)) TTN_THREAD_E cb arg w s"

definition em_ttask_create_signotify ::
  "(string \<Rightarrow> tid \<Rightarrow> string) \<Rightarrow> (sigevent \<Rightarrow> int + int) \<Rightarrow> sigevent \<Rightarrow> ptr \<Rightarrow> tid \<Rightarrow> 's em_pool_factory_policy \<Rightarrow>
   em_pool_t option \<Rightarrow> string option \<Rightarrow> em_tt_value_t \<Rightarrow> nat option \<Rightarrow> ptr \<Rightarrow>
   tt_world \<Rightarrow> 's \<Rightarrow> (emlib_ret_t \<times> em_timer_task_t option) outcome \<times> em_pool_t option \<times> tt_world \<times> 's" where
  "em_ttask_create_signotify fmt timer_create garbage notify_function t pol pool name time cb arg w s =
     create_ttask fmt timer_create garbage notify_function t pol pool name (seconds (tv_value time))
       (seconds (tv_interval time)) TTN_SIGNAL_E cb arg w s"

definition em_ttask_start :: "em_timer_task_t option \<Rightarrow> tt_world \<Rightarrow> emlib_ret_t outcome \<times> tt_world" where
  "em_ttask_start tt w = (case tt of None \<Rightarrow> (Ret EM_EINVAL, w) | Some k \<Rightarrow> em_os_ttask_start (tt_obj k) w)"

definition em_ttask_stop :: "em_timer_task_t option \<Rightarrow> tt_world \<Rightarrow> emlib_ret_t outcome \<times> tt_world" where
  "em_ttask_stop tt w = (case tt of None \<Rightarrow> (Ret EM_EINVAL, w) | Some k \<Rightarrow> em_os_ttask_stop (tt_obj k) w)"

definition em_ttask_resume :: "em_timer_task_t option \<Rightarrow> tt_world \<Rightarrow> emlib_ret_t outcome \<times> tt_world" where
  "em_ttask_resume tt w = (case tt of None \<Rightarrow> (Ret EM_EINVAL, w) | Some k \<Rightarrow> em_os_ttask_resume (tt_obj k) w)"

definition em_ttask_destroy :: "em_timer_task_t option \<Rightarrow> tt_world \<Rightarrow> emlib_ret_t outcome \<times> tt_world" where
  "em_ttask_destroy tt w = (case tt of None \<Rightarrow> (Ret EM_EINVAL, w) | Some k \<Rightarrow> em_os_ttask_destroy (tt_obj k) w)"

text \<open>Alone among them, \<open>em_ttask_mod\<close> does not check its task for null.\<close>

definition em_ttask_mod ::
  "em_timer_task_t option \<Rightarrow> em_time_val \<Rightarrow> em_time_val \<Rightarrow> tt_world \<Rightarrow> emlib_ret_t outcome \<times> tt_world" where
  "em_ttask_mod tt value interval w =
     (case tt of None \<Rightarrow> (Fault, w) | Some k \<Rightarrow> em_os_ttask_mod (tt_obj k) value interval w)"

text \<open>
  \<open>TIMER_MOD_MS_ONCE\<close> and \<open>TIMER_MOD_MS\<close> for a non-negative number of milliseconds.
\<close>

definition msec_time :: "int \<Rightarrow> em_time_val" where
  "msec_time ms = \<lparr>tv_sec = c_div ms 1000, tv_msec = c_mod ms 1000\<rparr>"

definition TIMER_MOD_MS_ONCE :: "em_timer_task_t option \<Rightarrow> int \<Rightarrow> tt_world \<Rightarrow> emlib_ret_t outcome \<times> tt_world" where
  "TIMER_MOD_MS_ONCE tt ms w = em_ttask_mod tt (msec_time ms) \<lparr>tv_sec = 0, tv_msec = 0\<rparr> w"

definition TIMER_MOD_MS :: "em_timer_task_t option \<Rightarrow> int \<Rightarrow> tt_world \<Rightarrow> emlib_ret_t outcome \<times> tt_world" where
  "TIMER_MOD_MS tt ms w = em_ttask_mod tt (msec_time ms) (msec_time ms) w"

section \<open>Notification\<close>

text \<open>
  The thread \<open>t\<close> that the system starts for an expiry: it clears the static record \<open>desc\<close>, registers itself
  with it and calls back.  When it cannot be registered it does nothing.
\<close>

definition notify_function ::
  "(string \<Rightarrow> tid \<Rightarrow> string) \<Rightarrow> tid \<Rightarrow> ptr \<Rightarrow> ptr \<Rightarrow> em_os_tt_obj_t \<Rightarrow> ('f, 'h, 'c) lib \<Rightarrow>
   (nat \<times> ptr) option \<times> ('f, 'h, 'c) lib" where
  "notify_function fmt t stack desc obj st =
     (case em_thread_register fmt t stack (Some ''timer_task_thread'') desc
             (st\<lparr>threads := (threads st)(desc := zero_thread)\<rparr>) of
        (rc, _, st1) \<Rightarrow> (if rc \<noteq> EM_SUCC then None else Some (expired_cb obj, args obj), st1))"

section \<open>Well-formed states\<close>

definition tv_ok :: "em_time_val \<Rightarrow> bool" where
  "tv_ok t \<longleftrightarrow> 0 \<le> tv_sec t \<and> 0 \<le> tv_msec t \<and> tv_msec t < 1000"

definition ns_of_val :: "em_time_val \<Rightarrow> int" where
  "ns_of_val t = EM_TIME_VAL_MSEC t * 1000000"

definition tt_wf :: "tt_world \<Rightarrow> bool" where
  "tt_wf w \<longleftrightarrow>
     (\<forall>p obj. tt_objs w p = Some obj \<longrightarrow> p \<noteq> 0 \<and> tv_ok (it_value obj) \<and> tv_ok (it_interval obj)) \<and>
     (\<forall>tm t. os_timers w tm = Some t \<longrightarrow> timer_ok t)"

lemma timespec_of_ok: "tv_ok t \<Longrightarrow> timespec_ok (timespec_of t) \<and> ns_of (timespec_of t) = ns_of_val t"
  by (simp add: tv_ok_def timespec_ok_def timespec_of_def ns_of_def ns_of_val_def EM_TIME_VAL_MSEC_def s64_id algebra_simps)

lemma ns_of_ok: "timespec_ok ts \<Longrightarrow> 0 \<le> ns_of ts"
  by (simp add: timespec_ok_def ns_of_def)

lemma zero_spec_ok: "timespec_ok (its_value zero_spec)" "timespec_ok (its_interval zero_spec)"
  "ns_of (its_value zero_spec) = 0" "ns_of (its_interval zero_spec) = 0"
  by (simp_all add: zero_spec_def timespec_ok_def ns_of_def)

lemma stopped_value:
  assumes "0 \<le> r"
  shows "tv_ok \<lparr>tv_sec = ts_sec (ts_of r), tv_msec = c_div (ts_nsec (ts_of r)) 1000000\<rparr> \<and>
    ns_of_val \<lparr>tv_sec = ts_sec (ts_of r), tv_msec = c_div (ts_nsec (ts_of r)) 1000000\<rparr> = r div 1000000 * 1000000"
proof -
  have "r mod 1000000000 = (r div 1000000 mod 1000) * 1000000 + r mod 1000000"
    using zmod_zmult2_eq [of 1000 r 1000000] by simp
  moreover have "r div 1000000 = r div 1000000000 * 1000 + r div 1000000 mod 1000"
    using zdiv_zmult2_eq [of 1000 r 1000000] by simp
  ultimately have "r mod 1000000000 div 1000000 = r div 1000000 mod 1000" by simp
  then show ?thesis
    using assms \<open>r div 1000000 = r div 1000000000 * 1000 + r div 1000000 mod 1000\<close>
    by (simp add: tv_ok_def ts_of_def ns_of_val_def EM_TIME_VAL_MSEC_def c_div_nonneg)
qed

text \<open>The operations on a well-formed object whose timer exists.\<close>

lemma start_spec:
  assumes "tt_wf w" "tt_objs w p = Some obj" "os_timers w (timer_id obj) = Some t"
  shows "em_os_ttask_start p w = (Ret EM_SUCC, put_obj p (obj\<lparr>tt_state := TTS_RUNNING_E\<rparr>)
    (w\<lparr>os_timers := (os_timers w)(timer_id obj \<mapsto>
        \<lparr>pt_value = ns_of_val (it_value obj), pt_interval = ns_of_val (it_interval obj)\<rparr>)\<rparr>))"
  using assms
  by (auto simp: tt_wf_def em_os_ttask_start_def on_obj_def timer_settime_def timespec_of_ok)

lemma stop_spec:
  assumes "tt_wf w" "tt_objs w p = Some obj" "os_timers w (timer_id obj) = Some t"
  shows "em_os_ttask_stop p w = (Ret EM_SUCC, put_obj p (obj\<lparr>it_value :=
        \<lparr>tv_sec = ts_sec (ts_of (pt_value t)), tv_msec = c_div (ts_nsec (ts_of (pt_value t))) 1000000\<rparr>,
        tt_state := TTS_STOP_E\<rparr>)
    (w\<lparr>os_timers := (os_timers w)(timer_id obj \<mapsto> \<lparr>pt_value = 0, pt_interval = 0\<rparr>)\<rparr>))"
  using assms by (auto simp: tt_wf_def em_os_ttask_stop_def on_obj_def timer_settime_def zero_spec_ok)

lemma mod_spec:
  assumes "tt_wf w" "tt_objs w p = Some obj" "os_timers w (timer_id obj) = Some t" "tv_ok v" "tv_ok i"
  shows "em_os_ttask_mod p v i w = (Ret EM_SUCC, put_obj p (obj\<lparr>tt_state := TTS_RUNNING_E\<rparr>)
    (w\<lparr>os_timers := (os_timers w)(timer_id obj \<mapsto> \<lparr>pt_value = ns_of_val v, pt_interval = ns_of_val i\<rparr>)\<rparr>))"
  using assms by (auto simp: tt_wf_def em_os_ttask_mod_def on_obj_def timer_settime_def timespec_of_ok)

text \<open>\<open>em_os_ttask_mod\<close> passes on any time; what the system refuses changes nothing.\<close>

definition settable :: "em_time_val \<Rightarrow> bool" where
  "settable t \<longleftrightarrow> timespec_ok (timespec_of t)"

lemma settable_normal: "tv_ok t \<Longrightarrow> settable t"
  by (simp add: settable_def timespec_of_ok)

lemma settable_iff:
  assumes "\<bar>tv_msec t\<bar> < 2 ^ 43"
  shows "settable t \<longleftrightarrow> tv_ok t"
proof -
  have "s64 (tv_msec t * 1000000) = tv_msec t * 1000000" using assms by (intro s64_id) auto
  then show ?thesis by (auto simp: settable_def timespec_ok_def timespec_of_def tv_ok_def)
qed

lemma mod_any:
  assumes "tt_wf w" "tt_objs w p = Some obj" "os_timers w (timer_id obj) = Some t"
  shows "em_os_ttask_mod p v i w =
    (if settable v \<and> settable i then (Ret EM_SUCC, put_obj p (obj\<lparr>tt_state := TTS_RUNNING_E\<rparr>)
       (w\<lparr>os_timers := (os_timers w)(timer_id obj \<mapsto>
          \<lparr>pt_value = ns_of (timespec_of v), pt_interval = ns_of (timespec_of i)\<rparr>)\<rparr>))
     else (Ret (EM_RETURN_OS_ERROR (of_int EINVAL)), w))"
  using assms by (auto simp: tt_wf_def em_os_ttask_mod_def on_obj_def timer_settime_def settable_def)

lemma resume_spec:
  assumes "tt_wf w" "tt_objs w p = Some obj" "os_timers w (timer_id obj) = Some t"
  shows "em_os_ttask_resume p w = em_os_ttask_start p w"
proof -
  have "p \<noteq> 0" using assms(1,2) by (simp add: tt_wf_def)
  then show ?thesis unfolding em_os_ttask_resume_def start_spec [OF assms] by (simp add: on_obj_def put_obj_def)
qed

lemma tt_wf_put:
  "tt_wf w \<Longrightarrow> p \<noteq> 0 \<Longrightarrow> tv_ok (it_value obj) \<Longrightarrow> tv_ok (it_interval obj) \<Longrightarrow> tt_wf (put_obj p obj w)"
  by (simp add: tt_wf_def put_obj_def)

lemma tt_wf_timer: "tt_wf w \<Longrightarrow> timer_ok t \<Longrightarrow> tt_wf (w\<lparr>os_timers := (os_timers w)(tm \<mapsto> t)\<rparr>)"
  by (simp add: tt_wf_def)

lemma ns_of_val_nonneg: "tv_ok t \<Longrightarrow> 0 \<le> ns_of_val t"
  by (simp add: tv_ok_def ns_of_val_def EM_TIME_VAL_MSEC_def)

text \<open>What can happen to the tasks of a process, with the passing of time.\<close>

datatype tt_op =
    Op_start ptr
  | Op_stop ptr
  | Op_resume ptr
  | Op_mod ptr em_time_val em_time_val
  | Op_destroy ptr
  | Op_elapse int

fun tt_do :: "tt_op \<Rightarrow> tt_world \<Rightarrow> tt_world" where
  "tt_do (Op_start p) w = snd (em_os_ttask_start p w)"
| "tt_do (Op_stop p) w = snd (em_os_ttask_stop p w)"
| "tt_do (Op_resume p) w = snd (em_os_ttask_resume p w)"
| "tt_do (Op_mod p v i) w = snd (em_os_ttask_mod p v i w)"
| "tt_do (Op_destroy p) w = snd (em_os_ttask_destroy p w)"
| "tt_do (Op_elapse d) w = w\<lparr>os_timers := (\<lambda>tm. map_option (\<lambda>t. snd (elapse d t)) (os_timers w tm))\<rparr>"

fun tt_op_ok :: "tt_op \<Rightarrow> bool" where
  "tt_op_ok (Op_elapse d) \<longleftrightarrow> 0 \<le> d"
| "tt_op_ok _ \<longleftrightarrow> True"

lemma tt_cases:
  assumes "tt_wf w"
  obtains "p = 0" | "tt_objs w p = None" | obj where "tt_objs w p = Some obj" "os_timers w (timer_id obj) = None"
  | obj t where "p \<noteq> 0" "tt_objs w p = Some obj" "os_timers w (timer_id obj) = Some t"
      "tv_ok (it_value obj)" "tv_ok (it_interval obj)" "timer_ok t"
  using assms unfolding tt_wf_def by (metis not_None_eq)

lemmas tt_op_defs = em_os_ttask_start_def em_os_ttask_stop_def em_os_ttask_resume_def em_os_ttask_mod_def
  em_os_ttask_destroy_def timer_settime_def timer_delete_def

lemma no_timer:
  assumes "p = 0 \<or> tt_objs w p = None \<or> (\<exists>obj. tt_objs w p = Some obj \<and> os_timers w (timer_id obj) = None)"
  shows "snd (em_os_ttask_start p w) = w" "snd (em_os_ttask_stop p w) = w" "snd (em_os_ttask_resume p w) = w"
    "snd (em_os_ttask_mod p v i w) = w" "snd (em_os_ttask_destroy p w) = w"
  using assms return_os_error_nonzero [of "of_int EINVAL"]
  by (auto simp: tt_op_defs on_obj_def EINVAL_def errno)

lemma tt_do_wf: "tt_wf w \<Longrightarrow> tt_op_ok op \<Longrightarrow> tt_wf (tt_do op w)"
proof (cases op)
  case (Op_elapse d)
  assume "tt_wf w" "tt_op_ok op"
  with Op_elapse show ?thesis by (auto simp: tt_wf_def elapse_ok)
next
  case (Op_mod p v i)
  assume wf: "tt_wf w" and ok: "tt_op_ok op"
  from wf show ?thesis
  proof (cases rule: tt_cases [of w p])
    case (4 obj t)
    then show ?thesis
      using wf Op_mod mod_any [OF wf 4(2,3), of v i] ns_of_ok [of "timespec_of v"] ns_of_ok [of "timespec_of i"]
      by (auto intro!: tt_wf_put tt_wf_timer simp: timer_ok_def settable_def)
  qed (simp_all add: Op_mod no_timer wf)
next
  case (Op_destroy p)
  assume wf: "tt_wf w"
  from wf show ?thesis
  proof (cases rule: tt_cases [of w p])
    case (4 obj t)
    with wf show ?thesis by (auto simp: Op_destroy tt_op_defs on_obj_def tt_wf_def)
  qed (simp_all add: Op_destroy no_timer wf)
next
  case (Op_stop p)
  assume wf: "tt_wf w"
  from wf show ?thesis
  proof (cases rule: tt_cases [of w p])
    case (4 obj t)
    then show ?thesis
      using wf Op_stop stop_spec [OF wf 4(2,3)] stopped_value [of "pt_value t"]
      by (auto intro!: tt_wf_put tt_wf_timer simp: timer_ok_def)
  qed (simp_all add: Op_stop no_timer wf)
next
  case (Op_start p)
  assume wf: "tt_wf w"
  from wf show ?thesis
  proof (cases rule: tt_cases [of w p])
    case (4 obj t)
    then show ?thesis
      using wf Op_start start_spec [OF wf 4(2,3)] ns_of_val_nonneg
      by (auto intro!: tt_wf_put tt_wf_timer simp: timer_ok_def)
  qed (simp_all add: Op_start no_timer wf)
next
  case (Op_resume p)
  assume wf: "tt_wf w"
  from wf show ?thesis
  proof (cases rule: tt_cases [of w p])
    case (4 obj t)
    then show ?thesis
      using wf Op_resume start_spec [OF wf 4(2,3)] resume_spec [OF wf 4(2,3)] ns_of_val_nonneg
      by (auto intro!: tt_wf_put tt_wf_timer simp: timer_ok_def)
  qed (simp_all add: Op_resume no_timer wf)
qed

text \<open>
  C11. Timer tasks stay well formed.  From a well-formed state, in whatever order tasks are started, stopped,
  resumed, changed to any times and destroyed while time passes, the saved times stay normalised and the
  timers stay non-negative.  So in every state that is reached, starting, stopping and resuming a task
  whose timer exists succeeds: the times these pass on are the saved ones, which the system never
  refuses.  Changing a task passes on the caller's times as they are.  It succeeds exactly when the seconds
  are not negative and the milliseconds are from 0 to 999, and otherwise returns the code of \<open>EINVAL\<close> and
  changes nothing; the milliseconds are taken to be small enough for their product with 1000000.
\<close>
theorem ttask_stays_wf:
  assumes "tt_wf w" "\<forall>op \<in> set ops. tt_op_ok op"
  shows "tt_wf (fold tt_do ops w) \<and>
    (\<forall>p obj. tt_objs (fold tt_do ops w) p = Some obj \<and> os_timers (fold tt_do ops w) (timer_id obj) \<noteq> None \<longrightarrow>
      fst (em_os_ttask_start p (fold tt_do ops w)) = Ret EM_SUCC \<and>
      fst (em_os_ttask_stop p (fold tt_do ops w)) = Ret EM_SUCC \<and>
      fst (em_os_ttask_resume p (fold tt_do ops w)) = Ret EM_SUCC \<and>
      (\<forall>v i. \<bar>tv_msec v\<bar> < 2 ^ 43 \<and> \<bar>tv_msec i\<bar> < 2 ^ 43 \<longrightarrow>
        (if tv_ok v \<and> tv_ok i then fst (em_os_ttask_mod p v i (fold tt_do ops w)) = Ret EM_SUCC
         else em_os_ttask_mod p v i (fold tt_do ops w) = (Ret (EM_RETURN_OS_ERROR (of_int EINVAL)), fold tt_do ops w))))"
proof -
  have wf: "tt_wf (fold tt_do ops w)"
    using assms
  proof (induction ops arbitrary: w)
    case (Cons op ops)
    then show ?case using tt_do_wf [of w op] by simp
  qed simp
  then show ?thesis
    by (auto simp: start_spec [OF wf] stop_spec [OF wf] resume_spec [OF wf] mod_any [OF wf] settable_iff)
qed

definition ex_task :: em_os_tt_obj_t where
  "ex_task = \<lparr>tt_name = ''t'', timer_id = 3, expired_cb = 0, args = 0, it_value = seconds 2, it_interval = seconds 1,
     tt_state = TTS_CREATE_E\<rparr>"

definition ex_world :: tt_world where
  "ex_world = \<lparr>os_timers = (\<lambda>_. None)(3 \<mapsto> \<lparr>pt_value = 0, pt_interval = 0\<rparr>),
     tt_objs = (\<lambda>_. None)(0x5000 \<mapsto> ex_task)\<rparr>"

lemma ex_world_wf: "tt_wf ex_world"
  by (simp add: tt_wf_def ex_world_def ex_task_def tv_ok_def seconds_def timer_ok_def)

lemma ttask_stays_wf_witness:
  "fst (em_os_ttask_resume 0x5000 (fold tt_do [Op_start 0x5000, Op_elapse 2300000000,
      Op_mod 0x5000 \<lparr>tv_sec = 1, tv_msec = 1500\<rparr> (seconds 1), Op_stop 0x5000] ex_world)) = Ret EM_SUCC"
proof -
  let ?ops = "[Op_start 0x5000, Op_elapse 2300000000, Op_mod 0x5000 \<lparr>tv_sec = 1, tv_msec = 1500\<rparr> (seconds 1), Op_stop 0x5000]"
  have "\<exists>obj. tt_objs (fold tt_do ?ops ex_world) 0x5000 = Some obj \<and> os_timers (fold tt_do ?ops ex_world) (timer_id obj) \<noteq> None"
    by (simp add: tt_op_defs on_obj_def ex_world_def ex_task_def seconds_def timespec_of_def s64_id timespec_ok_def
        zero_spec_def put_obj_def ns_of_def elapse_def ts_of_def)
  moreover note ttask_stays_wf [OF ex_world_wf, of ?ops]
  ultimately show ?thesis by auto
qed

text \<open>
  C12. A started task expires on time.  After \<open>em_os_ttask_start\<close> on a task with normalised times the callback
  is due, within \<open>d\<close> nanoseconds, as often as its first time and its period say: never with a first time of
  zero, and otherwise once at the first time and then with the period, if that is not zero.  Other timers
  are left alone.
\<close>
theorem ttask_expires_on_time:
  assumes "tt_wf w" "tt_objs w p = Some obj" "os_timers w (timer_id obj) = Some t" "0 \<le> d"
  shows "\<exists>w' t'. em_os_ttask_start p w = (Ret EM_SUCC, w') \<and> os_timers w' (timer_id obj) = Some t' \<and>
    fst (elapse d t') =
      (let first = EM_TIME_VAL_MSEC (it_value obj) * 1000000; period = EM_TIME_VAL_MSEC (it_interval obj) * 1000000
       in if first = 0 \<or> d < first then 0 else if period = 0 then 1 else 1 + (d - first) div period) \<and>
    (\<forall>tm. tm \<noteq> timer_id obj \<longrightarrow> os_timers w' tm = os_timers w tm) \<and>
    tt_objs w' = (tt_objs w)(p \<mapsto> obj\<lparr>tt_state := TTS_RUNNING_E\<rparr>)"
  unfolding start_spec [OF assms(1-3)]
  by (simp add: put_obj_def elapse_def ns_of_val_def Let_def)

lemma ttask_expires_on_time_witness:
  "\<exists>w' t'. em_os_ttask_start 0x5000 ex_world = (Ret EM_SUCC, w') \<and> os_timers w' 3 = Some t' \<and>
    fst (elapse 5500000000 t') = 4"
proof -
  have t: "timer_id ex_task = 3" by (simp add: ex_task_def)
  have "tt_objs ex_world 0x5000 = Some ex_task" "os_timers ex_world (timer_id ex_task) = Some \<lparr>pt_value = 0, pt_interval = 0\<rparr>"
    by (simp_all add: ex_world_def ex_task_def)
  from ttask_expires_on_time [OF ex_world_wf this, of 5500000000] obtain w' t' where
    "em_os_ttask_start 0x5000 ex_world = (Ret EM_SUCC, w')" "os_timers w' 3 = Some t'" "fst (elapse 5500000000 t') = 4"
    by (auto simp: t) (simp add: ex_task_def seconds_def EM_TIME_VAL_MSEC_def)
  then show ?thesis by blast
qed

text \<open>
  Stopping and resuming keeps the time left, in whole milliseconds.  While the task is stopped it never
  expires; once it is resumed it has the time that was left, rounded down to a millisecond, and then the
  period of the object.
\<close>
lemma ttask_stop_resume:
  assumes "tt_wf w" "tt_objs w p = Some obj" "os_timers w (timer_id obj) = Some t" "0 \<le> d"
  shows "\<exists>w1 t1 w2. em_os_ttask_stop p w = (Ret EM_SUCC, w1) \<and>
    os_timers w1 (timer_id obj) = Some t1 \<and> fst (elapse d t1) = 0 \<and>
    em_os_ttask_resume p (tt_do (Op_elapse d) w1) = (Ret EM_SUCC, w2) \<and>
    os_timers w2 (timer_id obj) = Some \<lparr>pt_value = pt_value t div 1000000 * 1000000,
      pt_interval = EM_TIME_VAL_MSEC (it_interval obj) * 1000000\<rparr>"
proof -
  let ?v = "\<lparr>tv_sec = ts_sec (ts_of (pt_value t)), tv_msec = c_div (ts_nsec (ts_of (pt_value t))) 1000000\<rparr>"
  let ?obj = "obj\<lparr>it_value := ?v, tt_state := TTS_STOP_E\<rparr>"
  define w1 where "w1 = put_obj p ?obj
    (w\<lparr>os_timers := (os_timers w)(timer_id obj \<mapsto> \<lparr>pt_value = 0, pt_interval = 0\<rparr>)\<rparr>)"
  define w1d where "w1d = tt_do (Op_elapse d) w1"
  have v: "ns_of_val ?v = pt_value t div 1000000 * 1000000"
    using assms(1,3) by (intro stopped_value [THEN conjunct2]) (auto simp: tt_wf_def timer_ok_def)
  have stop: "em_os_ttask_stop p w = (Ret EM_SUCC, w1)"
    unfolding w1_def by (rule stop_spec [OF assms(1-3)])
  then have wf: "tt_wf w1" using tt_do_wf [of w "Op_stop p"] assms(1) by simp
  then have wfd: "tt_wf w1d" using tt_do_wf [of w1 "Op_elapse d"] assms(4) by (simp add: w1d_def)
  have at: "tt_objs w1d p = Some ?obj" "os_timers w1d (timer_id ?obj) = Some \<lparr>pt_value = 0, pt_interval = 0\<rparr>"
    by (simp_all add: w1d_def w1_def put_obj_def elapse_def)
  have "em_os_ttask_resume p w1d = (Ret EM_SUCC, put_obj p (?obj\<lparr>tt_state := TTS_RUNNING_E\<rparr>)
      (w1d\<lparr>os_timers := (os_timers w1d)(timer_id obj \<mapsto>
        \<lparr>pt_value = pt_value t div 1000000 * 1000000, pt_interval = ns_of_val (it_interval obj)\<rparr>)\<rparr>))"
    using start_spec [OF wfd at] v by (simp add: resume_spec [OF wfd at])
  then obtain w2 where "em_os_ttask_resume p w1d = (Ret EM_SUCC, w2)"
    "os_timers w2 (timer_id obj) = Some \<lparr>pt_value = pt_value t div 1000000 * 1000000,
      pt_interval = EM_TIME_VAL_MSEC (it_interval obj) * 1000000\<rparr>"
    by (simp add: put_obj_def ns_of_val_def)
  moreover have "os_timers w1 (timer_id obj) = Some \<lparr>pt_value = 0, pt_interval = 0\<rparr>" by (simp add: w1_def put_obj_def)
  moreover have "fst (elapse d \<lparr>pt_value = 0, pt_interval = 0\<rparr>) = 0" by (simp add: elapse_def)
  ultimately show ?thesis using stop unfolding w1d_def by blast
qed

definition running_world :: "int \<Rightarrow> tt_world" where
  "running_world r = \<lparr>os_timers = (\<lambda>_. None)(3 \<mapsto> \<lparr>pt_value = r, pt_interval = 1000000000\<rparr>),
     tt_objs = (\<lambda>_. None)(0x5000 \<mapsto> ex_task\<lparr>tt_state := TTS_RUNNING_E\<rparr>)\<rparr>"

lemma running_world_wf: "0 \<le> r \<Longrightarrow> tt_wf (running_world r)"
  by (simp add: tt_wf_def running_world_def ex_task_def tv_ok_def seconds_def timer_ok_def)

lemma running_world_at:
  "tt_objs (running_world r) 0x5000 = Some (ex_task\<lparr>tt_state := TTS_RUNNING_E\<rparr>)"
  "os_timers (running_world r) (timer_id (ex_task\<lparr>tt_state := TTS_RUNNING_E\<rparr>)) =
     Some \<lparr>pt_value = r, pt_interval = 1000000000\<rparr>"
  by (simp_all add: running_world_def ex_task_def)

lemma ttask_stop_resume_witness:
  "\<exists>w1 t1 w2. em_os_ttask_stop 0x5000 (running_world 1234567890) = (Ret EM_SUCC, w1) \<and>
    os_timers w1 3 = Some t1 \<and> fst (elapse 60 t1) = 0 \<and>
    em_os_ttask_resume 0x5000 (tt_do (Op_elapse 60) w1) = (Ret EM_SUCC, w2) \<and>
    os_timers w2 3 = Some \<lparr>pt_value = 1234000000, pt_interval = 1000000000\<rparr>"
  using ttask_stop_resume [OF running_world_wf running_world_at, of 1234567890 60]
  by (simp add: ex_task_def seconds_def EM_TIME_VAL_MSEC_def)

text \<open>
  C39. A task stopped in the last millisecond before its expiry, or stopped twice, is lost: resuming it reports
  success and the object says it runs, but the timer is disarmed and the callback never comes, its period
  notwithstanding.
\<close>
theorem ttask_stopped_late_lost:
  assumes "tt_wf w" "tt_objs w p = Some obj" "os_timers w (timer_id obj) = Some t" "pt_value t < 1000000"
  shows "\<exists>w1 w2 obj2 t2. em_os_ttask_stop p w = (Ret EM_SUCC, w1) \<and>
    em_os_ttask_resume p w1 = (Ret EM_SUCC, w2) \<and>
    tt_objs w2 p = Some obj2 \<and> tt_state obj2 = TTS_RUNNING_E \<and> os_timers w2 (timer_id obj) = Some t2 \<and>
    (\<forall>d. fst (elapse d t2) = 0)"
proof -
  let ?v = "\<lparr>tv_sec = ts_sec (ts_of (pt_value t)), tv_msec = c_div (ts_nsec (ts_of (pt_value t))) 1000000\<rparr>"
  let ?obj = "obj\<lparr>it_value := ?v, tt_state := TTS_STOP_E\<rparr>"
  define w1 where "w1 = put_obj p ?obj
    (w\<lparr>os_timers := (os_timers w)(timer_id obj \<mapsto> \<lparr>pt_value = 0, pt_interval = 0\<rparr>)\<rparr>)"
  have nonneg: "0 \<le> pt_value t" using assms(1,3) by (auto simp: tt_wf_def timer_ok_def)
  have v: "ns_of_val ?v = 0"
    using stopped_value [OF nonneg, THEN conjunct2] assms(4) nonneg by simp
  have stop: "em_os_ttask_stop p w = (Ret EM_SUCC, w1)"
    unfolding w1_def by (rule stop_spec [OF assms(1-3)])
  then have wf: "tt_wf w1" using tt_do_wf [of w "Op_stop p"] assms(1) by simp
  have at: "tt_objs w1 p = Some ?obj" "os_timers w1 (timer_id ?obj) = Some \<lparr>pt_value = 0, pt_interval = 0\<rparr>"
    by (simp_all add: w1_def put_obj_def)
  show ?thesis
    using stop start_spec [OF wf at] v by (simp add: resume_spec [OF wf at] put_obj_def elapse_def)
qed

lemma ttask_stopped_late_lost_witness:
  "\<exists>w1 w2 obj2 t2. em_os_ttask_stop 0x5000 (running_world 999999) = (Ret EM_SUCC, w1) \<and>
    em_os_ttask_resume 0x5000 w1 = (Ret EM_SUCC, w2) \<and>
    tt_objs w2 0x5000 = Some obj2 \<and> tt_state obj2 = TTS_RUNNING_E \<and> os_timers w2 3 = Some t2 \<and>
    (\<forall>d. fst (elapse d t2) = 0)"
  using ttask_stopped_late_lost [OF running_world_wf running_world_at, of 999999] by (simp add: ex_task_def)

text \<open>
  A change of period does not last: \<open>em_os_ttask_mod\<close> passes the new times on without storing them, so a
  stop and a resume bring back the period the task was created with.
\<close>

lemma mod_period_forgotten:
  assumes "tt_wf w" "tt_objs w p = Some obj" "os_timers w (timer_id obj) = Some t" "tv_ok v" "tv_ok i"
  shows "\<exists>w1 w2 w3 r. em_os_ttask_mod p v i w = (Ret EM_SUCC, w1) \<and> em_os_ttask_stop p w1 = (Ret EM_SUCC, w2) \<and>
    em_os_ttask_resume p w2 = (Ret EM_SUCC, w3) \<and>
    os_timers w1 (timer_id obj) = Some \<lparr>pt_value = ns_of_val v, pt_interval = ns_of_val i\<rparr> \<and>
    os_timers w3 (timer_id obj) = Some \<lparr>pt_value = r, pt_interval = ns_of_val (it_interval obj)\<rparr>"
proof -
  define w1 where "w1 = tt_do (Op_mod p v i) w"
  have m: "em_os_ttask_mod p v i w = (Ret EM_SUCC, w1)"
    using mod_spec [OF assms] by (simp add: w1_def)
  have wf1: "tt_wf w1" using assms by (simp add: w1_def tt_do_wf del: tt_do.simps)
  have at1: "tt_objs w1 p = Some (obj\<lparr>tt_state := TTS_RUNNING_E\<rparr>)"
    "os_timers w1 (timer_id (obj\<lparr>tt_state := TTS_RUNNING_E\<rparr>)) = Some \<lparr>pt_value = ns_of_val v, pt_interval = ns_of_val i\<rparr>"
    by (simp_all add: w1_def mod_spec [OF assms] put_obj_def)
  define w2 where "w2 = tt_do (Op_stop p) w1"
  have wf2: "tt_wf w2" using wf1 by (simp add: w2_def tt_do_wf del: tt_do.simps)
  have st: "em_os_ttask_stop p w1 = (Ret EM_SUCC, w2)" by (simp add: w2_def stop_spec [OF wf1 at1])
  obtain obj2 where at2: "tt_objs w2 p = Some obj2" "os_timers w2 (timer_id obj2) = Some \<lparr>pt_value = 0, pt_interval = 0\<rparr>"
    "timer_id obj2 = timer_id obj" "it_interval obj2 = it_interval obj"
    by (simp add: w2_def stop_spec [OF wf1 at1] put_obj_def)
  show ?thesis
    using m st start_spec [OF wf2 at2(1,2)] at1(2) at2(3,4)
    by (simp add: resume_spec [OF wf2 at2(1,2)] put_obj_def)
qed

lemma created_with_zero_never_expires:
  assumes "tt_wf w" "tt_objs w p = Some obj" "os_timers w (timer_id obj) = Some t" "it_value obj = seconds 0"
  shows "\<exists>w' t'. em_os_ttask_start p w = (Ret EM_SUCC, w') \<and> os_timers w' (timer_id obj) = Some t' \<and>
    (\<forall>d. fst (elapse d t') = 0)"
  unfolding start_spec [OF assms(1-3)]
  by (simp add: put_obj_def elapse_def ns_of_val_def assms(4) seconds_def EM_TIME_VAL_MSEC_def)

text \<open>A task created with times that are not negative is well formed and disarmed, ready to be started.\<close>

lemma time_val_set_ok:
  assumes "0 \<le> EM_TIME_VAL_MSEC v"
  shows "tv_ok (EM_TIME_VAL_SET v)" "EM_TIME_VAL_MSEC (EM_TIME_VAL_SET v) = EM_TIME_VAL_MSEC v"
proof -
  have t: "time_normal (EM_TIME_VAL_SET v)" and m: "EM_TIME_VAL_MSEC (EM_TIME_VAL_SET v) = EM_TIME_VAL_MSEC v"
    using normalize_spec [of "\<lparr>tv_sec = tv_sec v, tv_msec = tv_msec v\<rparr>"]
    by (simp_all add: EM_TIME_VAL_SET_def EM_TIME_VAL_MSEC_def)
  show "EM_TIME_VAL_MSEC (EM_TIME_VAL_SET v) = EM_TIME_VAL_MSEC v" by (rule m)
  show "tv_ok (EM_TIME_VAL_SET v)"
    using t assms unfolding m [symmetric] by (auto simp: time_normal_def tv_ok_def EM_TIME_VAL_MSEC_def)
qed

lemma create_ready:
  assumes "tt_wf w" "0 \<le> EM_TIME_VAL_MSEC v" "0 \<le> EM_TIME_VAL_MSEC i" "p \<noteq> 0"
    and "em_pool_alloc pol pl sizeof_em_os_tt_obj_t s = (Ret p, pl1, s1)"
    and "timer_create (timer_event garbage nf p ty) = Inr tm"
  shows "\<exists>w' obj. em_create_timer_task fmt timer_create garbage nf t pol (Some pl) name v i ty (Some f) arg True w s =
      (Ret (EM_SUCC, Some p), Some pl1, w', s1) \<and> tt_wf w' \<and> tt_objs w' p = Some obj \<and>
    it_value obj = EM_TIME_VAL_SET v \<and> it_interval obj = EM_TIME_VAL_SET i \<and> expired_cb obj = f \<and> args obj = arg \<and>
    os_timers w' (timer_id obj) = Some \<lparr>pt_value = 0, pt_interval = 0\<rparr>"
proof -
  define obj where "obj = \<lparr>tt_name = (case name of Some nm \<Rightarrow> take EM_MAX_OBJ_NAME nm
      | None \<Rightarrow> take (EM_MAX_OBJ_NAME - 1) (fmt ''tt-%ld'' t)),
    timer_id = tm, expired_cb = f, args = arg, it_value = EM_TIME_VAL_SET v, it_interval = EM_TIME_VAL_SET i, tt_state = TTS_CREATE_E\<rparr>"
  define w' where "w' = put_obj p obj (w\<lparr>os_timers := (os_timers w)(tm \<mapsto> \<lparr>pt_value = 0, pt_interval = 0\<rparr>)\<rparr>)"
  have "em_create_timer_task fmt timer_create garbage nf t pol (Some pl) name v i ty (Some f) arg True w s =
      (Ret (EM_SUCC, Some p), Some pl1, w', s1)"
    by (simp add: em_create_timer_task_def create_timer_task_def assms(4-6) w'_def obj_def)
  moreover have "tt_wf w'"
    unfolding w'_def by (intro tt_wf_put tt_wf_timer assms) (simp_all add: obj_def timer_ok_def time_val_set_ok assms)
  moreover have "tt_objs w' p = Some obj" "os_timers w' (timer_id obj) = Some \<lparr>pt_value = 0, pt_interval = 0\<rparr>"
    by (simp_all add: w'_def put_obj_def obj_def)
  moreover have "it_value obj = EM_TIME_VAL_SET v" "it_interval obj = EM_TIME_VAL_SET i" "expired_cb obj = f" "args obj = arg" by (simp_all add: obj_def)
  ultimately show ?thesis by blast
qed

lemma exhausted_pool_crashes:
  assumes "em_pool_alloc pol pl sizeof_em_os_tt_obj_t s = (Ret 0, pl1, s1)"
  shows "fst (em_create_timer_task fmt tc garbage nf t pol (Some pl) name v i ty (Some f) arg True w s) = Fault"
  using assms by (simp add: em_create_timer_task_def)

lemma null_task_mod_crashes:
  "em_ttask_mod None v i w = (Fault, w)" "em_ttask_start None w = (Ret EM_EINVAL, w)"
  by (simp_all add: em_ttask_mod_def em_ttask_start_def)

text \<open>
  The notifying threads share one record: after a second expiry the first thread's record bears the
  handle of the second.
\<close>

lemma notify_shares_record:
  assumes "thread_tls_id st \<in> tls_keys st" "t1 \<noteq> t2" "desc \<noteq> 0"
  shows "\<exists>st1 st2. notify_function fmt t1 stk1 desc obj1 st = (Some (expired_cb obj1, args obj1), st1) \<and>
    notify_function fmt t2 stk2 desc obj2 st1 = (Some (expired_cb obj2, args obj2), st2) \<and>
    em_thread_this t1 st2 = desc \<and> th_thread (threads st1 desc) = t1 \<and> th_thread (threads st2 desc) = t2"
  using assms
  by (simp add: notify_function_def em_thread_register_def em_thread_local_set_def em_thread_this_def
      em_thread_local_get_def Let_def)

end
