(* ===== verification/Emlib_Sockaddr.thy ===== *)
theory Emlib_Sockaddr
  imports Emlib_Number
begin

unbundle bit_operations_syntax

text \<open>
  Socket addresses: the parts of \<open>src/sock_common.c\<close>, \<open>src/sock_bsd.c\<close> and \<open>src/addr_resolv_sock.c\<close>
  that build, read, compare, parse and resolve them.  The union \<open>em_sockaddr\<close> is its bytes, in the layout of
  Linux: the family in bytes 0 and 1, the port in 2 and 3, an IPv4 address in 4 to 7 with padding behind it,
  an IPv6 address in 8 to 23.  The machine is little-endian.  A counted string that is only read is the list
  of its bytes.  IPv6 is off in the default configuration (\<open>EM_HAS_IPV6\<close> is 0 and the system's
  \<open>inet_pton\<close>, \<open>inet_ntop\<close> and \<open>getaddrinfo\<close> are not used); the system's \<open>inet_aton\<close>, which leaves
  its target alone when it fails, and \<open>gethostbyname\<close> are parameters.
\<close>

section \<open>Byte order\<close>

definition em_htons :: "uint16 \<Rightarrow> uint16" where
  "em_htons x = push_bit 8 x OR drop_bit 8 x"

definition em_ntohs :: "uint16 \<Rightarrow> uint16" where
  "em_ntohs x = push_bit 8 x OR drop_bit 8 x"

definition em_htonl :: "uint32 \<Rightarrow> uint32" where
  "em_htonl x = push_bit 24 x OR push_bit 16 (take_bit 8 (drop_bit 8 x)) OR push_bit 8 (take_bit 8 (drop_bit 16 x)) OR drop_bit 24 x"

definition em_ntohl :: "uint32 \<Rightarrow> uint32" where
  "em_ntohl x = push_bit 24 x OR push_bit 16 (take_bit 8 (drop_bit 8 x)) OR push_bit 8 (take_bit 8 (drop_bit 16 x)) OR drop_bit 24 x"

lemma ntohs_htons [simp]: "em_ntohs (em_htons x) = x"
  unfolding em_ntohs_def em_htons_def by (rule bit_word_eqI) (auto simp: bit_simps)

lemma ntohl_htonl [simp]: "em_ntohl (em_htonl x) = x"
proof (rule bit_word_eqI)
  fix n assume "n < LENGTH(32)"
  then show "bit (em_ntohl (em_htonl x)) n = bit x n"
    unfolding em_ntohl_def em_htonl_def
    by (cases "n < 8"; cases "n < 16"; cases "n < 24") (auto simp: bit_simps)
qed

section \<open>Addresses as bytes\<close>

type_synonym em_sockaddr = "uint8 list"

definition load16 :: "em_sockaddr \<Rightarrow> nat \<Rightarrow> uint16 option" where
  "load16 a i = do { l \<leftarrow> mem_get a i; h \<leftarrow> mem_get a (i + 1); Some (ucast l OR push_bit 8 (ucast h)) }"

definition le16 :: "uint16 \<Rightarrow> uint8 list" where
  "le16 w = [ucast w, ucast (drop_bit 8 w)]"

definition le32 :: "uint32 \<Rightarrow> uint8 list" where
  "le32 w = [ucast w, ucast (drop_bit 8 w), ucast (drop_bit 16 w), ucast (drop_bit 24 w)]"

definition load32 :: "em_sockaddr \<Rightarrow> nat \<Rightarrow> uint32 option" where
  "load32 a i =
     do {
       b0 \<leftarrow> mem_get a i; b1 \<leftarrow> mem_get a (i + 1); b2 \<leftarrow> mem_get a (i + 2); b3 \<leftarrow> mem_get a (i + 3);
       Some (ucast b0 OR push_bit 8 (ucast b1) OR push_bit 16 (ucast b2) OR push_bit 24 (ucast b3))
     }"

lemma le_lengths [simp]: "length (le16 w) = 2" "length (le32 v) = 4"
  by (simp_all add: le16_def le32_def)

lemma mem_get_blit:
  "mem_blit a off d = Some a' \<Longrightarrow>
   mem_get a' i = (if off \<le> i \<and> i < off + length d then Some (d ! (i - off)) else mem_get a i)"
  by (auto simp: mem nth_append min_def split: if_splits)

lemma load16_blit: "mem_blit a i (le16 w) = Some a' \<Longrightarrow> load16 a' i = Some w"
  by (simp add: load16_def mem_get_blit le16_def) (rule bit_word_eqI, auto simp: bit_simps)

lemma word32_of_bytes:
  "ucast (ucast w :: uint8) OR push_bit 8 (ucast (ucast (drop_bit 8 w) :: uint8)) OR
   push_bit 16 (ucast (ucast (drop_bit 16 w) :: uint8)) OR push_bit 24 (ucast (ucast (drop_bit 24 w) :: uint8)) = (w :: uint32)"
proof (rule bit_word_eqI)
  fix n assume "n < LENGTH(32)"
  then show "bit (ucast (ucast w :: uint8) OR push_bit 8 (ucast (ucast (drop_bit 8 w) :: uint8)) OR
      push_bit 16 (ucast (ucast (drop_bit 16 w) :: uint8)) OR
      push_bit 24 (ucast (ucast (drop_bit 24 w) :: uint8)) :: uint32) n = bit w n"
    by (cases "n < 8"; cases "n < 16"; cases "n < 24") (auto simp: bit_simps)
qed

lemma load32_blit: "mem_blit a i (le32 w) = Some a' \<Longrightarrow> load32 a' i = Some w"
  by (simp add: load32_def mem_get_blit le32_def nth_Cons' word32_of_bytes)

lemma load16_blit_other:
  "mem_blit a i d = Some a' \<Longrightarrow> j + 2 \<le> i \<or> i + length d \<le> j \<Longrightarrow> load16 a' j = load16 a j"
  by (auto simp: load16_def mem_get_blit)

lemma load32_blit_other:
  "mem_blit a i d = Some a' \<Longrightarrow> j + 4 \<le> i \<or> i + length d \<le> j \<Longrightarrow> load32 a' j = load32 a j"
  by (auto simp: load32_def mem_get_blit)

lemma mem_blit_Some: "off + length d \<le> length a \<Longrightarrow> \<exists>a'. mem_blit a off d = Some a' \<and> length a' = length a"
  by (simp add: mem)

definition EM_AF_UNSPEC :: int where "EM_AF_UNSPEC = 0"
definition EM_AF_INET :: int where "EM_AF_INET = 2"
definition EM_AF_INET6 :: int where "EM_AF_INET6 = 10"
definition EM_INADDR_ANY :: uint32 where "EM_INADDR_ANY = 0"
definition EM_INADDR_NONE :: uint32 where "EM_INADDR_NONE = 0xFFFFFFFF"
definition EM_INET_ADDRSTRLEN :: nat where "EM_INET_ADDRSTRLEN = 16"
definition EM_INET6_ADDRSTRLEN :: nat where "EM_INET6_ADDRSTRLEN = 46"
definition EM_MAX_HOSTNAME :: nat where "EM_MAX_HOSTNAME = 128"
definition sizeof_em_sockaddr :: nat where "sizeof_em_sockaddr = 28"

lemmas af = EM_AF_UNSPEC_def EM_AF_INET_def EM_AF_INET6_def

definition sa_family :: "em_sockaddr \<Rightarrow> int option" where
  "sa_family a = map_option uint (load16 a 0)"

text \<open>A result \<open>Some None\<close> of \<open>em_sockaddr_get_addr\<close> is the null pointer, otherwise it is an offset.\<close>

definition em_sockaddr_get_addr :: "em_sockaddr \<Rightarrow> nat option option" where
  "em_sockaddr_get_addr a =
     do { f \<leftarrow> sa_family a; Some (if f = EM_AF_INET6 then Some 8 else if f = EM_AF_INET then Some 4 else None) }"

definition em_sockaddr_get_addr_len :: "em_sockaddr \<Rightarrow> nat option" where
  "em_sockaddr_get_addr_len a =
     do { f \<leftarrow> sa_family a; Some (if f = EM_AF_INET6 then 16 else if f = EM_AF_INET then 4 else 0) }"

definition em_sockaddr_get_len :: "em_sockaddr \<Rightarrow> nat option" where
  "em_sockaddr_get_len a =
     do { f \<leftarrow> sa_family a; Some (if f = EM_AF_INET6 then 28 else if f = EM_AF_INET then 16 else 0) }"

definition em_sockaddr_get_port :: "em_sockaddr \<Rightarrow> uint16 option" where
  "em_sockaddr_get_port a =
     do {
       f \<leftarrow> sa_family a;
       if \<not> (f = EM_AF_INET \<or> f = EM_AF_INET6) then Some 0xFFFF
       else do { p \<leftarrow> load16 a 2; Some (em_ntohs p) }
     }"

definition em_sockaddr_in_get_port :: "em_sockaddr \<Rightarrow> uint16 option" where
  "em_sockaddr_in_get_port a = do { p \<leftarrow> load16 a 2; Some (em_ntohs p) }"

definition em_sockaddr_in_set_port :: "em_sockaddr \<Rightarrow> uint16 \<Rightarrow> em_sockaddr option" where
  "em_sockaddr_in_set_port a hostport = mem_blit a 2 (le16 (em_htons hostport))"

definition em_sockaddr_set_port :: "em_sockaddr \<Rightarrow> uint16 \<Rightarrow> (emlib_ret_t \<times> em_sockaddr) option" where
  "em_sockaddr_set_port a hostport =
     do {
       f \<leftarrow> sa_family a;
       if \<not> (f = EM_AF_INET \<or> f = EM_AF_INET6) then Some (EM_EINVAL, a)
       else do { a' \<leftarrow> mem_blit a 2 (le16 (em_htons hostport)); Some (EM_SUCC, a') }
     }"

definition em_sockaddr_in_get_addr :: "em_sockaddr \<Rightarrow> uint32 option" where
  "em_sockaddr_in_get_addr a = do { w \<leftarrow> load32 a 4; Some (em_ntohl w) }"

definition em_sockaddr_in_set_addr :: "em_sockaddr \<Rightarrow> uint32 \<Rightarrow> em_sockaddr option" where
  "em_sockaddr_in_set_addr a hostaddr = mem_blit a 4 (le32 (em_htonl hostaddr))"

definition em_sockaddr_has_addr :: "em_sockaddr \<Rightarrow> bool option" where
  "em_sockaddr_has_addr a =
     do {
       f \<leftarrow> sa_family a;
       if f \<noteq> EM_AF_INET \<and> f \<noteq> EM_AF_INET6 then Some False
       else if f = EM_AF_INET6 then do { b \<leftarrow> mem_slice a 8 16; Some (memcmp_bytes b (replicate 16 0) \<noteq> 0) }
       else do { w \<leftarrow> load32 a 4; Some (w \<noteq> EM_INADDR_ANY) }
     }"

text \<open>\<open>memcmp\<close> of \<open>n\<close> bytes at two offsets, which are null only when \<open>n\<close> is 0.\<close>

definition compare_at :: "em_sockaddr \<Rightarrow> nat option \<Rightarrow> em_sockaddr \<Rightarrow> nat option \<Rightarrow> nat \<Rightarrow> int option" where
  "compare_at a p b q n =
     (if n = 0 then Some 0
      else case (p, q) of
        (Some i, Some j) \<Rightarrow> do { x \<leftarrow> mem_slice a i n; y \<leftarrow> mem_slice b j n; Some (memcmp_bytes x y) }
      | _ \<Rightarrow> None)"

definition em_sockaddr_cmp :: "em_sockaddr \<Rightarrow> em_sockaddr \<Rightarrow> int option" where
  "em_sockaddr_cmp a1 a2 =
     do {
       f1 \<leftarrow> sa_family a1;
       f2 \<leftarrow> sa_family a2;
       if f1 < f2 then Some (- 1) else if f1 > f2 then Some 1
       else do {
         p1 \<leftarrow> em_sockaddr_get_addr a1;
         p2 \<leftarrow> em_sockaddr_get_addr a2;
         n \<leftarrow> em_sockaddr_get_addr_len a1;
         result \<leftarrow> compare_at a1 p1 a2 p2 n;
         if result \<noteq> 0 then Some result
         else do {
           port1 \<leftarrow> em_sockaddr_get_port a1;
           port2 \<leftarrow> em_sockaddr_get_port a2;
           Some (if port1 < port2 then - 1 else if port1 > port2 then 1 else 0)
         }
       }
     }"

definition em_sockaddr_copy_addr :: "em_sockaddr \<Rightarrow> em_sockaddr \<Rightarrow> em_sockaddr option" where
  "em_sockaddr_copy_addr dst src =
     do {
       srcbuf \<leftarrow> em_sockaddr_get_addr src;
       n \<leftarrow> em_sockaddr_get_addr_len src;
       case srcbuf of
         None \<Rightarrow> Some dst
       | Some off \<Rightarrow> do { d \<leftarrow> mem_slice src off n; mem_blit dst off d }
     }"

definition em_sockaddr_cp :: "em_sockaddr \<Rightarrow> em_sockaddr \<Rightarrow> em_sockaddr option" where
  "em_sockaddr_cp dst src = do { n \<leftarrow> em_sockaddr_get_len src; d \<leftarrow> mem_slice src 0 n; mem_blit dst 0 d }"

section \<open>Text and addresses\<close>

text \<open>The system's resolver; texts are bytes without a NUL.\<close>

record hostent =
  h_name :: "int8 list"
  h_length :: nat
  h_addr_list :: "uint8 list list"

record resolver =
  inet_aton :: "int8 list \<Rightarrow> uint32 option"
  gethostbyname :: "int8 list \<Rightarrow> hostent option"

definition c_string :: "int8 list \<Rightarrow> int8 list" where
  "c_string cs = takeWhile (\<lambda>c. c \<noteq> 0) cs"

text \<open>\<open>inet_ntoa\<close> of the system answers with its static buffer.\<close>

definition em_inet_ntoa :: "(uint32 \<Rightarrow> int8 list) \<Rightarrow> uint32 \<Rightarrow> int8 list" where
  "em_inet_ntoa inet_ntoa inaddr = inet_ntoa inaddr"

definition em_inet_aton :: "resolver \<Rightarrow> int8 list option \<Rightarrow> int \<times> uint32" where
  "em_inet_aton r cp =
     (case cp of
        None \<Rightarrow> (0, EM_INADDR_NONE)
      | Some cs \<Rightarrow>
          if cs = [] then (0, EM_INADDR_NONE)
          else if length cs \<ge> EM_INET_ADDRSTRLEN then (0, EM_INADDR_NONE)
          else (case inet_aton r (c_string cs) of None \<Rightarrow> (0, EM_INADDR_NONE) | Some w \<Rightarrow> (1, w)))"

definition em_inet_addr :: "resolver \<Rightarrow> int8 list option \<Rightarrow> uint32" where
  "em_inet_addr r cp = snd (em_inet_aton r cp)"

definition em_inet_addr2 :: "resolver \<Rightarrow> int8 list option \<Rightarrow> uint32" where
  "em_inet_addr2 r cp = em_inet_addr r (Some (case cp of None \<Rightarrow> [] | Some cs \<Rightarrow> c_string cs))"

text \<open>\<open>dst\<close> is the address that is written, at least four bytes.\<close>

definition em_inet_pton :: "int \<Rightarrow> int8 list option \<Rightarrow> uint8 list \<Rightarrow> (emlib_ret_t \<times> uint8 list) option" where
  "em_inet_pton af src dst =
     (if \<not> (af = EM_AF_INET \<or> af = EM_AF_INET6) then Some (EM_EAFNOTSUP, dst)
      else case src of
        None \<Rightarrow> Some (EM_EINVAL, dst)
      | Some cs \<Rightarrow>
          if cs = [] then Some (EM_EINVAL, dst)
          else do {
            dst' \<leftarrow> (if af = EM_AF_INET then mem_blit dst 0 (le32 EM_INADDR_NONE) else Some dst);
            Some (if length cs \<ge> EM_INET6_ADDRSTRLEN then EM_ENAMETOOLONG else EM_EIPV6NOTSUP, dst')
          })"

text \<open>\<open>src\<close> is null or not; \<open>dst\<close> holds the text.\<close>

definition em_inet_ntop :: "int \<Rightarrow> bool \<Rightarrow> int8 list option \<Rightarrow> int \<Rightarrow> (emlib_ret_t \<times> int8 list option) option" where
  "em_inet_ntop af src dst sz =
     (case dst of
        None \<Rightarrow> Some (EM_EINVAL, None)
      | Some d \<Rightarrow>
          if \<not> (src \<and> sz \<noteq> 0) then Some (EM_EINVAL, dst)
          else do {
            d' \<leftarrow> mem_set d 0 0;
            Some (if \<not> (af = EM_AF_INET \<or> af = EM_AF_INET6) then EM_EAFNOTSUP else EM_EIPV6NOTSUP, Some d')
          })"

definition em_inet_ntop2 :: "int \<Rightarrow> bool \<Rightarrow> int8 list option \<Rightarrow> int \<Rightarrow> int8 list option option" where
  "em_inet_ntop2 af src dst sz =
     do { (status, d) \<leftarrow> em_inet_ntop af src dst sz; Some (if status = EM_SUCC then d else None) }"

text \<open>
  \<open>em_sockaddr_print\<close> returns its buffer, or the constant empty text when the address cannot be printed.
  \<open>fmt_port\<close> is \<open>snprintf\<close> with \<open>":%d"\<close>.
\<close>

definition em_sockaddr_print ::
  "(uint16 \<Rightarrow> int8 list) \<Rightarrow> em_sockaddr \<Rightarrow> int8 list \<Rightarrow> nat \<Rightarrow> uint32 \<Rightarrow> (int8 list \<times> int8 list) option" where
  "em_sockaddr_print fmt_port addr buf sz flags =
     do {
       f \<leftarrow> sa_family addr;
       p \<leftarrow> em_sockaddr_get_addr addr;
       (status, txt) \<leftarrow> em_inet_ntop f (p \<noteq> None) (Some (replicate EM_INET6_ADDRSTRLEN 0)) (int EM_INET6_ADDRSTRLEN);
       if status \<noteq> EM_SUCC then Some ([], buf)
       else do {
         port \<leftarrow> em_sockaddr_get_port addr;
         let plain = f \<noteq> EM_AF_INET6 \<or> flags AND 2 = 0;
         let text = (if plain then [] else [0x5B]) @ c_string (the txt) @ (if plain then [] else [0x5D]) @
           (if flags AND 1 \<noteq> 0 then take 31 (fmt_port port) else []);
         buf' \<leftarrow> (if sz = 0 then Some buf else mem_blit buf 0 (take (sz - 1) text @ [0]));
         Some (c_string buf', buf')
       }
     }"

section \<open>Resolving\<close>

record em_addrinfo =
  ai_canonname :: "int8 list"
  ai_addr :: em_sockaddr

definition em_gethostbyname :: "resolver \<Rightarrow> int8 list \<Rightarrow> emlib_ret_t \<times> hostent option" where
  "em_gethostbyname r hostname =
     (if length hostname \<ge> EM_MAX_HOSTNAME then (EM_ENAMETOOLONG, None)
      else case gethostbyname r (c_string hostname) of
        None \<Rightarrow> (EM_ERESOLVE, None)
      | Some he \<Rightarrow> (EM_SUCC, Some he))"

text \<open>The loop over the addresses: the slots of \<open>ai\<close> are zero, and \<open>cnt\<close> of them are filled.\<close>

fun fill_addrinfo :: "hostent \<Rightarrow> uint8 list list \<Rightarrow> nat \<Rightarrow> nat \<Rightarrow> em_addrinfo list \<Rightarrow> (nat \<times> em_addrinfo list) option" where
  "fill_addrinfo he [] max_count cnt ai = Some (cnt, ai)"
| "fill_addrinfo he (d # ds) max_count cnt ai =
     (if \<not> cnt < max_count then Some (cnt, ai)
      else do {
        e \<leftarrow> mem_get ai cnt;
        a1 \<leftarrow> mem_blit (ai_addr e) 0 (le16 (of_int EM_AF_INET));
        b \<leftarrow> mem_slice d 0 (h_length he);
        a2 \<leftarrow> mem_blit a1 4 b;
        fill_addrinfo he ds max_count (cnt + 1)
          (ai[cnt := \<lparr>ai_canonname = take (EM_MAX_HOSTNAME - 1) (h_name he), ai_addr = a2\<rparr>])
      })"

definition zero_addrinfo :: em_addrinfo where
  "zero_addrinfo = \<lparr>ai_canonname = [], ai_addr = replicate sizeof_em_sockaddr 0\<rparr>"

text \<open>\<open>em_getaddrinfo\<close> with an array of \<open>count\<close> slots; the result has the slots that were filled.\<close>

definition em_getaddrinfo :: "resolver \<Rightarrow> int \<Rightarrow> int8 list \<Rightarrow> nat \<Rightarrow> (emlib_ret_t \<times> nat \<times> em_addrinfo list) option" where
  "em_getaddrinfo r af nodename n0 =
     (if n0 = 0 then Some (EM_EINVAL, n0, [])
      else if af = EM_AF_INET \<or> af = EM_AF_UNSPEC then
        (case em_gethostbyname r nodename of
           (_, Some he) \<Rightarrow> do {
             (n, ai) \<leftarrow> fill_addrinfo he (h_addr_list he) n0 0 (replicate n0 zero_addrinfo);
             Some (if n > 0 then EM_SUCC else EM_ERESOLVE, n, ai)
           }
         | (status, None) \<Rightarrow> Some (status, n0, []))
      else Some (EM_EIPV6NOTSUP, 0, []))"

section \<open>Initialising an address\<close>

definition em_sockaddr_in_set_str_addr ::
  "resolver \<Rightarrow> em_sockaddr \<Rightarrow> int8 list option \<Rightarrow> (emlib_ret_t \<times> em_sockaddr) option" where
  "em_sockaddr_in_set_str_addr r a str_addr =
     (case str_addr of
        Some cs \<Rightarrow>
          if \<not> length cs < EM_MAX_HOSTNAME
          then do { a1 \<leftarrow> mem_blit a 4 (le32 EM_INADDR_NONE); Some (EM_EINVAL, a1) }
          else do {
            a1 \<leftarrow> mem_blit a 0 (le16 (of_int EM_AF_INET));
            a2 \<leftarrow> mem_blit a1 8 (replicate 8 0);
            if cs \<noteq> [] then do {
              let w = em_inet_addr r (Some cs);
              a3 \<leftarrow> mem_blit a2 4 (le32 w);
              if w = EM_INADDR_NONE then do {
                (status, _, ai) \<leftarrow> em_getaddrinfo r EM_AF_INET cs 1;
                if status = EM_SUCC then do {
                  e \<leftarrow> mem_get ai 0;
                  b \<leftarrow> mem_slice (ai_addr e) 4 4;
                  a4 \<leftarrow> mem_blit a3 4 b;
                  Some (EM_SUCC, a4)
                }
                else Some (status, a3)
              }
              else Some (EM_SUCC, a3)
            }
            else do { a3 \<leftarrow> mem_blit a2 4 (le32 0); Some (EM_SUCC, a3) }
          }
      | None \<Rightarrow> do {
          a1 \<leftarrow> mem_blit a 0 (le16 (of_int EM_AF_INET));
          a2 \<leftarrow> mem_blit a1 8 (replicate 8 0);
          a3 \<leftarrow> mem_blit a2 4 (le32 0);
          Some (EM_SUCC, a3)
        })"

text \<open>An IPv6 text is tried with \<open>em_inet_pton\<close> on bytes 8 to 23, and then as a host name.\<close>

definition em_sockaddr_set_str_addr ::
  "resolver \<Rightarrow> int \<Rightarrow> em_sockaddr \<Rightarrow> int8 list option \<Rightarrow> (emlib_ret_t \<times> em_sockaddr) option" where
  "em_sockaddr_set_str_addr r af a str_addr =
     (if af = EM_AF_INET then em_sockaddr_in_set_str_addr r a str_addr
      else if af \<noteq> EM_AF_INET6 then Some (EM_EAFNOTSUP, a)
      else do {
        a1 \<leftarrow> mem_blit a 0 (le16 (of_int EM_AF_INET6));
        case str_addr of
          Some cs \<Rightarrow>
            if cs = [] then Some (EM_SUCC, a1)
            else do {
              old \<leftarrow> mem_slice a1 8 16;
              (status, b) \<leftarrow> em_inet_pton EM_AF_INET6 (Some cs) old;
              a2 \<leftarrow> mem_blit a1 8 b;
              if status \<noteq> EM_SUCC then do {
                (status', _, ai) \<leftarrow> em_getaddrinfo r EM_AF_INET6 cs 1;
                if status' = EM_SUCC then do {
                  e \<leftarrow> mem_get ai 0;
                  d \<leftarrow> mem_slice (ai_addr e) 8 20;
                  a3 \<leftarrow> mem_blit a2 8 d;
                  Some (EM_SUCC, a3)
                }
                else Some (status', a2)
              }
              else Some (EM_SUCC, a2)
            }
        | None \<Rightarrow> Some (EM_SUCC, a1)
      })"

text \<open>\<open>em_sockaddr_in_init\<close> on a null address writes through it and is undefined.\<close>

definition em_sockaddr_in_init ::
  "resolver \<Rightarrow> em_sockaddr option \<Rightarrow> int8 list option \<Rightarrow> uint16 \<Rightarrow> (emlib_ret_t \<times> em_sockaddr) option" where
  "em_sockaddr_in_init r addr str_addr port =
     do {
       a \<leftarrow> addr;
       a1 \<leftarrow> mem_blit a 0 (le16 (of_int EM_AF_INET));
       a2 \<leftarrow> mem_blit a1 8 (replicate 8 0);
       a3 \<leftarrow> em_sockaddr_in_set_port a2 port;
       em_sockaddr_in_set_str_addr r a3 str_addr
     }"

definition em_sockaddr_init ::
  "resolver \<Rightarrow> int \<Rightarrow> em_sockaddr \<Rightarrow> int8 list option \<Rightarrow> uint16 \<Rightarrow> (emlib_ret_t \<times> em_sockaddr) option" where
  "em_sockaddr_init r af a cp port =
     (if af = EM_AF_INET then em_sockaddr_in_init r (Some a) cp port
      else if af \<noteq> EM_AF_INET6 then Some (EM_EAFNOTSUP, a)
      else do {
        a1 \<leftarrow> mem_blit a 0 (replicate 28 0);
        a2 \<leftarrow> mem_blit a1 0 (le16 (of_int EM_AF_INET6));
        (status, a3) \<leftarrow> em_sockaddr_set_str_addr r af a2 cp;
        if status \<noteq> EM_SUCC then Some (status, a3)
        else do { a4 \<leftarrow> mem_blit a3 2 (le16 (em_htons port)); Some (EM_SUCC, a4) }
      })"

section \<open>Parsing\<close>

text \<open>The loop that counts the colons: their number and the place of the last one.\<close>

fun colons :: "int8 list \<Rightarrow> nat \<Rightarrow> nat \<Rightarrow> nat option \<Rightarrow> nat \<times> nat option" where
  "colons [] i cnt last_pos = (cnt, last_pos)"
| "colons (c # cs) i cnt last_pos =
     (if c = 0x3A then colons cs (i + 1) (cnt + 1) (Some i) else colons cs (i + 1) cnt last_pos)"

text \<open>What the call writes: the host part, the port and the family, each if it is written.\<close>

record parsed =
  p_host :: "int8 list option"
  p_port :: "uint16 option"
  p_raf :: "int option"

definition nothing_parsed :: parsed where
  "nothing_parsed = \<lparr>p_host = None, p_port = None, p_raf = None\<rparr>"

text \<open>The check of the digits and \<open>em_strtoul\<close>, whose loop has a 32-bit counter.\<close>

definition port_number :: "int8 list \<Rightarrow> uint16 option" where
  "port_number part =
     (if \<not> list_all em_isdigit part then None
      else
        (let port = strtoul_loop (take (length part mod 2 ^ 32) part) 0
         in if port > 65535 then None else Some (ucast port)))"

text \<open>
  The text is read, for its end, before the arguments are checked: a null text is undefined.
\<close>

definition parse_text :: "int \<Rightarrow> uint32 \<Rightarrow> int8 list \<Rightarrow> emlib_ret_t \<times> parsed" where
  "parse_text af options cs =
     (if \<not> ((af = EM_AF_INET \<or> af = EM_AF_INET6 \<or> af = EM_AF_UNSPEC) \<and> options = 0)
      then (EM_EINVAL, nothing_parsed)
      else if cs = [] then (EM_SUCC, \<lparr>p_host = Some [], p_port = Some 0, p_raf = Some EM_AF_INET\<rparr>)
      else
        (let (colon_cnt, last_colon) = colons cs 0 0 None;
             af' = (if af = EM_AF_UNSPEC then (if colon_cnt > 1 then EM_AF_INET6 else EM_AF_INET) else af)
         in if af = EM_AF_INET \<and> colon_cnt > 1 then (EM_EINVAL, nothing_parsed)
            else
              (let res = nothing_parsed\<lparr>p_raf := Some af'\<rparr> in
               if af' = EM_AF_INET then
                 (case last_colon of
                    None \<Rightarrow> (EM_SUCC, res\<lparr>p_host := Some cs, p_port := Some 0\<rparr>)
                  | Some k \<Rightarrow>
                      (case port_number (drop (k + 1) cs) of
                         None \<Rightarrow> (EM_EINVAL, res)
                       | Some port \<Rightarrow> (EM_SUCC, res\<lparr>p_host := Some (take k cs), p_port := Some port\<rparr>)))
               else if hd cs = 0x5B then
                 (case (last_colon, List.find (\<lambda>i. cs ! i = 0x5D) [0..<length cs]) of
                    (Some k, Some e) \<Rightarrow>
                      (case port_number (if k < e then [] else drop (k + 1) cs) of
                         None \<Rightarrow> (EM_EINVAL, res)
                       | Some port \<Rightarrow> (EM_SUCC, res\<lparr>p_host := Some (take (e - 1) (drop 1 cs)), p_port := Some port\<rparr>))
                  | _ \<Rightarrow> (EM_EINVAL, res))
               else (EM_SUCC, res\<lparr>p_host := Some cs, p_port := Some 0\<rparr>))))"

definition em_sockaddr_parse2 :: "int \<Rightarrow> uint32 \<Rightarrow> int8 list option \<Rightarrow> (emlib_ret_t \<times> parsed) option" where
  "em_sockaddr_parse2 af options str = map_option (parse_text af options) str"

definition em_sockaddr_parse ::
  "resolver \<Rightarrow> int \<Rightarrow> uint32 \<Rightarrow> int8 list option \<Rightarrow> em_sockaddr option \<Rightarrow>
   (emlib_ret_t \<times> em_sockaddr option) option" where
  "em_sockaddr_parse r af options str addr =
     (case addr of
        None \<Rightarrow> Some (EM_EINVAL, None)
      | Some a \<Rightarrow>
          if \<not> (af = EM_AF_UNSPEC \<or> af = EM_AF_INET \<or> af = EM_AF_INET6) then Some (EM_EINVAL, Some a)
          else if options \<noteq> 0 then Some (EM_EINVAL, Some a)
          else
            (case em_sockaddr_parse2 af options str of
               None \<Rightarrow> None
             | Some (status, res) \<Rightarrow>
                 if status \<noteq> EM_SUCC then Some (status, Some a)
                 else if the (p_raf res) = EM_AF_INET6 then Some (EM_EIPV6NOTSUP, Some a)
                 else do {
                   (status', a') \<leftarrow> em_sockaddr_init r (the (p_raf res)) a (p_host res) (the (p_port res));
                   Some (status', Some a')
                 }))"

section \<open>Building an address\<close>

lemma load16_get: "load16 a i = Some w \<Longrightarrow> i + 2 \<le> length a"
  by (auto simp: load16_def mem split: if_splits bind_splits)

lemma load16_same: "mem_get a i = mem_get b j \<Longrightarrow> mem_get a (i + 1) = mem_get b (j + 1) \<Longrightarrow> load16 a i = load16 b j"
  by (simp add: load16_def)

lemma load32_slice: "mem_slice d 0 4 = Some b \<Longrightarrow> load32 b 0 = load32 d 0"
  by (auto simp: load32_def mem split: if_splits)

lemma load32_blit_bytes:
  "mem_blit a i b = Some a' \<Longrightarrow> length b = 4 \<Longrightarrow> load32 a' i = load32 b 0"
  by (simp add: load32_def mem_get_blit) (simp add: mem numeral_2_eq_2)

lemma load32_slice_at: "mem_slice a i 4 = Some b \<Longrightarrow> load32 b 0 = load32 a i"
  by (auto simp: load32_def mem split: if_splits)

lemma family_blit: "mem_blit a 0 (le16 (of_int f)) = Some a' \<Longrightarrow> 0 \<le> f \<Longrightarrow> f < 65536 \<Longrightarrow> sa_family a' = Some f"
  by (simp add: sa_family_def load16_blit unsigned_of_int take_bit_int_eq_self)

lemma family_blit_other:
  "mem_blit a i d = Some a' \<Longrightarrow> 2 \<le> i \<Longrightarrow> sa_family a' = sa_family a"
  by (simp add: sa_family_def load16_blit_other)

text \<open>The resolver answers with addresses of four bytes.\<close>

definition resolver_ok :: "resolver \<Rightarrow> bool" where
  "resolver_ok r \<longleftrightarrow> (\<forall>cs he. gethostbyname r cs = Some he \<longrightarrow>
     h_length he = 4 \<and> (\<forall>d \<in> set (h_addr_list he). length d = 4))"

text \<open>
  What a text stands for: the number it spells, if it spells one other than the broadcast address, or the
  first address of the host of that name.
\<close>

definition by_name :: "resolver \<Rightarrow> int8 list \<Rightarrow> uint32 option" where
  "by_name r cs =
     (case gethostbyname r (c_string cs) of
        None \<Rightarrow> None
      | Some he \<Rightarrow> (case h_addr_list he of [] \<Rightarrow> None | d # _ \<Rightarrow> load32 d 0))"

definition host_address :: "resolver \<Rightarrow> int8 list \<Rightarrow> uint32 option" where
  "host_address r cs =
     (case (if length cs < 16 then inet_aton r (c_string cs) else None) of
        None \<Rightarrow> by_name r cs
      | Some w \<Rightarrow> if w = EM_INADDR_NONE then by_name r cs else Some w)"

lemma getaddrinfo_one:
  assumes "resolver_ok r" "length cs < 128"
  shows "\<exists>st n ai. em_getaddrinfo r EM_AF_INET cs 1 = Some (st, n, ai) \<and>
    (case by_name r cs of
       None \<Rightarrow> st = EM_ERESOLVE
     | Some w \<Rightarrow> st = EM_SUCC \<and> (\<exists>e. ai = [e] \<and> length (ai_addr e) = 28 \<and> load32 (ai_addr e) 4 = Some w \<and>
         sa_family (ai_addr e) = Some EM_AF_INET))"
proof (cases "gethostbyname r (c_string cs)")
  case None
  then show ?thesis using assms(2)
    by (simp add: em_getaddrinfo_def em_gethostbyname_def EM_MAX_HOSTNAME_def by_name_def)
next
  case (Some he)
  show ?thesis
  proof (cases "h_addr_list he")
    case Nil
    then show ?thesis using assms(2) Some
      by (simp add: em_getaddrinfo_def em_gethostbyname_def EM_MAX_HOSTNAME_def by_name_def)
  next
    case (Cons d ds)
    have d: "h_length he = 4" "length d = 4" using assms(1) Some Cons by (auto simp: resolver_ok_def)
    obtain a1 where a1: "mem_blit (replicate sizeof_em_sockaddr 0) 0 (le16 (of_int EM_AF_INET)) = Some a1" "length a1 = 28"
      using mem_blit_Some [of 0 "le16 (of_int EM_AF_INET)" "replicate sizeof_em_sockaddr 0"]
      by (auto simp: sizeof_em_sockaddr_def)
    obtain a2 where a2: "mem_blit a1 4 d = Some a2" "length a2 = 28"
      using mem_blit_Some [of 4 d a1] a1(2) d(2) by auto
    have slice: "mem_slice d 0 4 = Some d" using d(2) by (simp add: mem)
    obtain w where w: "load32 d 0 = Some w" using d(2) by (simp add: load32_def mem)
    let ?e = "\<lparr>ai_canonname = take (EM_MAX_HOSTNAME - 1) (h_name he), ai_addr = a2\<rparr>"
    have "fill_addrinfo he ds 1 1 ai = Some (1, ai)" for ai by (cases ds) simp_all
    then have "em_getaddrinfo r EM_AF_INET cs 1 = Some (EM_SUCC, 1, [?e])"
      using assms(2) Some Cons d a1 a2 slice
      by (simp add: em_getaddrinfo_def em_gethostbyname_def EM_MAX_HOSTNAME_def mem_get_def zero_addrinfo_def)
    moreover have "load32 a2 4 = Some w" using load32_blit_bytes [OF a2(1) d(2)] w by simp
    moreover have "sa_family a2 = Some EM_AF_INET"
      using family_blit [OF a1(1)] family_blit_other [OF a2(1)] by (simp add: af)
    ultimately show ?thesis using Some Cons w a2(2) by (simp add: by_name_def)
  qed
qed

lemma set_str_addr_spec:
  assumes "16 \<le> length a" "length cs < 128" "cs \<noteq> []" "resolver_ok r"
  shows "\<exists>st a'. em_sockaddr_in_set_str_addr r a (Some cs) = Some (st, a') \<and> length a' = length a \<and>
    sa_family a' = Some EM_AF_INET \<and> load16 a' 2 = load16 a 2 \<and>
    (case host_address r cs of None \<Rightarrow> st = EM_ERESOLVE | Some w \<Rightarrow> st = EM_SUCC \<and> load32 a' 4 = Some w)"
proof -
  obtain a1 where a1: "mem_blit a 0 (le16 (of_int EM_AF_INET)) = Some a1" "length a1 = length a"
    using mem_blit_Some [of 0 "le16 (of_int EM_AF_INET)" a] assms(1) by auto
  obtain a2 where a2: "mem_blit a1 8 (replicate 8 0) = Some a2" "length a2 = length a"
    using mem_blit_Some [of 8 "replicate 8 0" a1] a1(2) assms(1) by auto
  define w where "w = em_inet_addr r (Some cs)"
  obtain a3 where a3: "mem_blit a2 4 (le32 w) = Some a3" "length a3 = length a"
    using mem_blit_Some [of 4 "le32 w" a2] a2(2) assms(1) by auto
  have fam: "sa_family a3 = Some EM_AF_INET"
    using family_blit [OF a1(1)] family_blit_other [OF a2(1)] family_blit_other [OF a3(1)] by (simp add: af)
  have port: "load16 a3 2 = load16 a 2"
    using load16_blit_other [OF a1(1), of 2] load16_blit_other [OF a2(1), of 2] load16_blit_other [OF a3(1), of 2] by simp
  have step: "em_sockaddr_in_set_str_addr r a (Some cs) =
      (if w = EM_INADDR_NONE then do {
         (status, _, ai) \<leftarrow> em_getaddrinfo r EM_AF_INET cs 1;
         if status = EM_SUCC then do {
           e \<leftarrow> mem_get ai 0; b \<leftarrow> mem_slice (ai_addr e) 4 4; a4 \<leftarrow> mem_blit a3 4 b; Some (EM_SUCC, a4)
         } else Some (status, a3)
       } else Some (EM_SUCC, a3))"
    using assms(2,3) a1(1) a2(1) a3(1)
    by (simp add: em_sockaddr_in_set_str_addr_def EM_MAX_HOSTNAME_def w_def [symmetric] Let_def)
  have host: "host_address r cs = (if w = EM_INADDR_NONE then by_name r cs else Some w)"
    using assms(3) by (auto simp: w_def host_address_def em_inet_addr_def em_inet_aton_def EM_INET_ADDRSTRLEN_def split: option.splits)
  show ?thesis
  proof (cases "w = EM_INADDR_NONE")
    case False
    then show ?thesis using step host a3 fam port load32_blit [OF a3(1)] by simp
  next
    case True
    obtain st n ai where g: "em_getaddrinfo r EM_AF_INET cs 1 = Some (st, n, ai)"
      "case by_name r cs of None \<Rightarrow> st = EM_ERESOLVE
       | Some w \<Rightarrow> st = EM_SUCC \<and> (\<exists>e. ai = [e] \<and> length (ai_addr e) = 28 \<and> load32 (ai_addr e) 4 = Some w \<and>
           sa_family (ai_addr e) = Some EM_AF_INET)"
      using getaddrinfo_one [OF assms(4,2)] by blast
    show ?thesis
    proof (cases "by_name r cs")
      case None
      then show ?thesis using g True step host a3 fam port by (simp add: errno)
    next
      case (Some v)
      then obtain e where e: "ai = [e]" "length (ai_addr e) = 28" "load32 (ai_addr e) 4 = Some v" "st = EM_SUCC"
        using g(2) by auto
      obtain b where b: "mem_slice (ai_addr e) 4 4 = Some b" "length b = 4" using e(2) by (simp add: mem)
      obtain a4 where a4: "mem_blit a3 4 b = Some a4" "length a4 = length a"
        using mem_blit_Some [of 4 b a3] a3(2) b(2) assms(1) by auto
      have "load32 a4 4 = Some v" using load32_blit_bytes [OF a4(1) b(2)] load32_slice_at [OF b(1)] e(3) by simp
      then show ?thesis
        using Some True step host g(1) e b(1) a4 fam port family_blit_other [OF a4(1)] load16_blit_other [OF a4(1), of 2]
        by (simp add: mem_get_def)
    qed
  qed
qed

section \<open>The parser and its specification\<close>

lemma colons_none: "0x3A \<notin> set cs \<Longrightarrow> colons cs i k l = (k, l)"
  by (induction cs arbitrary: i) auto

lemma colons_one:
  "0x3A \<notin> set host \<Longrightarrow> 0x3A \<notin> set part \<Longrightarrow> colons (host @ 0x3A # part) i k l = (k + 1, Some (i + length host))"
  by (induction host arbitrary: i) (auto simp: colons_none)

lemma colons_count: "fst (colons cs i k l) = k + count_list cs 0x3A"
  by (induction cs i k l rule: colons.induct) auto

lemma port_number_value:
  assumes "length part < 2 ^ 32"
  shows "port_number part =
    (if list_all em_isdigit part \<and> dval_from 0 part mod 2 ^ 64 \<le> 65535
     then Some (of_nat (dval_from 0 part mod 2 ^ 64)) else None)"
proof (cases "list_all em_isdigit part")
  case True
  then have t: "takeWhile em_isdigit part = part" by (simp add: list_all_iff)
  have v: "strtoul_loop part 0 = of_nat (dval_from 0 part)" using strtoul_loop_value [of part 0] unfolding t by simp
  have u: "unat (of_nat (dval_from 0 part) :: uint64) = dval_from 0 part mod 2 ^ 64"
    by (simp add: unat_of_nat take_bit_eq_mod)
  have "(of_nat (dval_from 0 part) :: uint64) > 65535 \<longleftrightarrow> \<not> dval_from 0 part mod 2 ^ 64 \<le> 65535"
    unfolding word_less_nat_alt u by auto
  moreover have "(ucast (of_nat (dval_from 0 part) :: uint64) :: uint16) = of_nat (dval_from 0 part mod 2 ^ 64)"
    unfolding u [symmetric] by simp
  ultimately show ?thesis using True v assms by (simp add: port_number_def Let_def)
qed (simp add: port_number_def)

text \<open>A text with at most one colon, read as a host and a port: what the parser is to answer.\<close>

definition host_port_spec :: "int8 list \<Rightarrow> emlib_ret_t \<times> parsed" where
  "host_port_spec cs =
     (let host = takeWhile (\<lambda>c. c \<noteq> 0x3A) cs; rest = dropWhile (\<lambda>c. c \<noteq> 0x3A) cs; part = tl rest;
          n = dval_from 0 part mod 2 ^ 64
      in if rest = [] \<or> list_all em_isdigit part \<and> n \<le> 65535
         then (EM_SUCC, \<lparr>p_host = Some host, p_port = Some (if rest = [] then 0 else of_nat n), p_raf = Some EM_AF_INET\<rparr>)
         else (EM_EINVAL, \<lparr>p_host = None, p_port = None, p_raf = Some EM_AF_INET\<rparr>))"

lemma parse_no_colon:
  assumes "af = EM_AF_UNSPEC \<or> af = EM_AF_INET" "cs \<noteq> []" "0x3A \<notin> set cs"
  shows "parse_text af 0 cs = (EM_SUCC, \<lparr>p_host = Some cs, p_port = Some 0, p_raf = Some EM_AF_INET\<rparr>)"
  using assms by (auto simp: parse_text_def colons_none nothing_parsed_def af Let_def)

lemma parse_one_colon:
  assumes "af = EM_AF_UNSPEC \<or> af = EM_AF_INET" "0x3A \<notin> set host" "0x3A \<notin> set part" "length part < 2 ^ 32"
  shows "parse_text af 0 (host @ 0x3A # part) =
    (if list_all em_isdigit part \<and> dval_from 0 part mod 2 ^ 64 \<le> 65535
     then (EM_SUCC, \<lparr>p_host = Some host, p_port = Some (of_nat (dval_from 0 part mod 2 ^ 64)), p_raf = Some EM_AF_INET\<rparr>)
     else (EM_EINVAL, \<lparr>p_host = None, p_port = None, p_raf = Some EM_AF_INET\<rparr>))"
  using assms(1) port_number_value [OF assms(4)] colons_one [OF assms(2,3)]
  by (auto simp: parse_text_def nothing_parsed_def af Let_def)

text \<open>
  Parsing agrees with its specification.  For the family IPv4 or an unspecified one, a text with at most
  one colon is the host part up to the colon and the port behind it; the port is refused when it has anything
  but digits, or when its value, which is computed modulo \<open>2 ^ 64\<close>, is above 65535.
\<close>
lemma parse_host_port:
  assumes "af = EM_AF_UNSPEC \<or> af = EM_AF_INET" "cs \<noteq> []" "count_list cs 0x3A \<le> 1" "length cs < 2 ^ 32"
  shows "em_sockaddr_parse2 af 0 (Some cs) = Some (host_port_spec cs)"
proof (cases "0x3A \<in> set cs")
  case False
  then have t: "takeWhile (\<lambda>c. c \<noteq> 0x3A) cs = cs" "dropWhile (\<lambda>c. c \<noteq> 0x3A) cs = []"
    by (auto simp: takeWhile_eq_all_conv dropWhile_eq_Nil_conv)
  show ?thesis
    unfolding em_sockaddr_parse2_def host_port_spec_def t using parse_no_colon [OF assms(1,2) False] by simp
next
  case True
  then obtain host part where cs: "cs = host @ 0x3A # part" "0x3A \<notin> set host" by (meson split_list_first)
  then have "count_list part 0x3A = 0" using assms(3) by simp
  then have part: "0x3A \<notin> set part" by (simp add: count_list_0_iff)
  have t: "takeWhile (\<lambda>c. c \<noteq> 0x3A) cs = host" "dropWhile (\<lambda>c. c \<noteq> 0x3A) cs = 0x3A # part"
    using cs by (auto simp: takeWhile_append dropWhile_append3)
  have "length part < 2 ^ 32" using assms(4) cs(1) by simp
  from parse_one_colon [OF assms(1) cs(2) part this] show ?thesis
    unfolding em_sockaddr_parse2_def host_port_spec_def t cs(1) [symmetric] by (simp add: Let_def)
qed

text \<open>The bytes of ASCII text.\<close>

definition ascii :: "string \<Rightarrow> int8 list" where
  "ascii s = map (\<lambda>c. of_nat (of_char c)) s"

lemma parse_host_port_witness:
  "em_sockaddr_parse2 EM_AF_UNSPEC 0 (Some (ascii ''10.0.0.1:80'')) =
     Some (EM_SUCC, \<lparr>p_host = Some (ascii ''10.0.0.1''), p_port = Some 80, p_raf = Some EM_AF_INET\<rparr>)"
  by (subst parse_host_port) (simp_all add: ascii_def host_port_spec_def Let_def ctype)

lemma in_init_spec:
  assumes "16 \<le> length a" "length cs < 128" "cs \<noteq> []" "resolver_ok r"
  shows "\<exists>st a'. em_sockaddr_in_init r (Some a) (Some cs) port = Some (st, a') \<and> length a' = length a \<and>
    sa_family a' = Some EM_AF_INET \<and> em_sockaddr_get_port a' = Some port \<and>
    (case host_address r cs of None \<Rightarrow> st = EM_ERESOLVE
     | Some w \<Rightarrow> st = EM_SUCC \<and> em_sockaddr_in_get_addr a' = Some (em_ntohl w))"
proof -
  obtain a1 where a1: "mem_blit a 0 (le16 (of_int EM_AF_INET)) = Some a1" "length a1 = length a"
    using mem_blit_Some [of 0 "le16 (of_int EM_AF_INET)" a] assms(1) by auto
  obtain a2 where a2: "mem_blit a1 8 (replicate 8 0) = Some a2" "length a2 = length a"
    using mem_blit_Some [of 8 "replicate 8 0" a1] a1(2) assms(1) by auto
  obtain a3 where a3: "mem_blit a2 2 (le16 (em_htons port)) = Some a3" "length a3 = length a"
    using mem_blit_Some [of 2 "le16 (em_htons port)" a2] a2(2) assms(1) by auto
  have run: "em_sockaddr_in_init r (Some a) (Some cs) port = em_sockaddr_in_set_str_addr r a3 (Some cs)"
    using a1(1) a2(1) a3(1) by (simp add: em_sockaddr_in_init_def em_sockaddr_in_set_port_def)
  have "16 \<le> length a3" using a3(2) assms(1) by simp
  from set_str_addr_spec [OF this assms(2-4)] obtain st a' where
    "em_sockaddr_in_set_str_addr r a3 (Some cs) = Some (st, a')" "length a' = length a3"
    "sa_family a' = Some EM_AF_INET" "load16 a' 2 = load16 a3 2"
    "case host_address r cs of None \<Rightarrow> st = EM_ERESOLVE | Some w \<Rightarrow> st = EM_SUCC \<and> load32 a' 4 = Some w" by blast
  then show ?thesis
    using run a3(2) load16_blit [OF a3(1)]
    by (auto simp: em_sockaddr_get_port_def em_sockaddr_in_get_addr_def split: option.splits)
qed

lemma digits_no_colon: "list_all em_isdigit part \<Longrightarrow> 0x3A \<notin> set part"
  by (auto simp: list_all_iff ctype)

text \<open>
  C13. From text to address: parsing \<open>host:port\<close> fills the socket address.  With a host part that is a number
  or a name that can be resolved and a port of digits up to 65535, the call succeeds, and the address has
  the family IPv4, that port and the host's address; when the host cannot be resolved the call fails with
  \<open>EM_ERESOLVE\<close>.
\<close>
theorem sockaddr_parse_text:
  assumes "resolver_ok r" "length a = 28" "host \<noteq> []" "length host < 128" "0x3A \<notin> set host"
    and "list_all em_isdigit part" "dval part \<le> 65535" "length part < 2 ^ 32"
  shows "\<exists>st a'. em_sockaddr_parse r EM_AF_UNSPEC 0 (Some (host @ 0x3A # part)) (Some a) = Some (st, Some a') \<and>
    length a' = 28 \<and> sa_family a' = Some EM_AF_INET \<and> em_sockaddr_get_port a' = Some (of_nat (dval part)) \<and>
    (case host_address r host of None \<Rightarrow> st = EM_ERESOLVE
     | Some w \<Rightarrow> st = EM_SUCC \<and> em_sockaddr_in_get_addr a' = Some (em_ntohl w))"
proof -
  have "16 \<le> length a" using assms(2) by simp
  from in_init_spec [OF this assms(4,3,1), of "of_nat (dval part)"] obtain st a' where
    init: "em_sockaddr_in_init r (Some a) (Some host) (of_nat (dval part)) = Some (st, a')" and
    spec: "length a' = length a" "sa_family a' = Some EM_AF_INET" "em_sockaddr_get_port a' = Some (of_nat (dval part))"
      "case host_address r host of None \<Rightarrow> st = EM_ERESOLVE
       | Some w \<Rightarrow> st = EM_SUCC \<and> em_sockaddr_in_get_addr a' = Some (em_ntohl w)" by blast
  have "em_sockaddr_parse r EM_AF_UNSPEC 0 (Some (host @ 0x3A # part)) (Some a) = Some (st, Some a')"
    using parse_one_colon [OF disjI1 [OF refl] assms(5) digits_no_colon [OF assms(6)] assms(8)] assms(6,7) init
    by (simp add: em_sockaddr_parse_def em_sockaddr_parse2_def em_sockaddr_init_def dval_def) (simp add: af)
  with spec assms(2) show ?thesis by (intro exI conjI) simp_all
qed

definition ex_resolver :: resolver where
  "ex_resolver = \<lparr>inet_aton = (\<lambda>cs. if cs = ascii ''10.0.0.1'' then Some 0x0100000A else None),
     gethostbyname = (\<lambda>cs. None)\<rparr>"

lemma sockaddr_parse_text_witness:
  "\<exists>a'. em_sockaddr_parse ex_resolver EM_AF_UNSPEC 0 (Some (ascii ''10.0.0.1'' @ 0x3A # ascii ''80''))
      (Some (replicate 28 0)) = Some (EM_SUCC, Some a') \<and>
    em_sockaddr_get_port a' = Some 80 \<and> em_sockaddr_in_get_addr a' = Some 0x0A000001"
proof -
  have "host_address ex_resolver (ascii ''10.0.0.1'') = Some 0x0100000A"
    by (simp add: host_address_def ex_resolver_def ascii_def c_string_def EM_INADDR_NONE_def)
  moreover have "em_ntohl 0x0100000A = 0x0A000001" "dval (ascii ''80'') = 80"
    by (simp_all add: em_ntohl_def ascii_def dval_def)
  ultimately show ?thesis
    using sockaddr_parse_text [of ex_resolver "replicate 28 0" "ascii ''10.0.0.1''" "ascii ''80''"]
    by (auto simp: resolver_ok_def ex_resolver_def ascii_def ctype)
qed

text \<open>
  A port is computed modulo \<open>2 ^ 64\<close>, and only then compared with 65535: a text with a port far outside of
  the range can be accepted, with the low part of its value as the port.
\<close>
lemma parse_port_wraps:
  assumes "0x3A \<notin> set host" "list_all em_isdigit part" "dval part = 2 ^ 64 * k + p" "p \<le> 65535" "length part < 2 ^ 32"
  shows "em_sockaddr_parse2 EM_AF_UNSPEC 0 (Some (host @ 0x3A # part)) =
    Some (EM_SUCC, \<lparr>p_host = Some host, p_port = Some (of_nat p), p_raf = Some EM_AF_INET\<rparr>)"
proof -
  have "dval part mod 2 ^ 64 = p" using assms(3,4) by simp
  then show ?thesis
    using parse_one_colon [OF disjI1 [OF refl] assms(1) digits_no_colon [OF assms(2)] assms(5)] assms(2,4)
    by (simp add: em_sockaddr_parse2_def dval_def)
qed

lemma parse_port_wraps_witness:
  "em_sockaddr_parse2 EM_AF_UNSPEC 0 (Some (ascii ''h'' @ 0x3A # ascii ''18446744073709551696'')) =
    Some (EM_SUCC, \<lparr>p_host = Some (ascii ''h''), p_port = Some 80, p_raf = Some EM_AF_INET\<rparr>)"
  using parse_port_wraps [of "ascii ''h''" "ascii ''18446744073709551696''" 1 80]
  by (simp add: ascii_def ctype dval_def)

section \<open>Comparison\<close>

text \<open>The parts of an address that count: the family, the address bytes and the port.\<close>

definition addr_bytes :: "em_sockaddr \<Rightarrow> uint8 list" where
  "addr_bytes a = (if sa_family a = Some EM_AF_INET6 then take 16 (drop 8 a)
     else if sa_family a = Some EM_AF_INET then take 4 (drop 4 a) else [])"

definition sockaddr_ok :: "em_sockaddr \<Rightarrow> bool" where
  "sockaddr_ok a \<longleftrightarrow> length a = 28 \<and> (sa_family a = Some EM_AF_INET \<or> sa_family a = Some EM_AF_INET6)"

definition addr_key :: "em_sockaddr \<Rightarrow> int \<times> uint8 list \<times> uint16" where
  "addr_key a = (the (sa_family a), addr_bytes a, the (em_sockaddr_get_port a))"

definition key_less :: "int \<times> uint8 list \<times> uint16 \<Rightarrow> int \<times> uint8 list \<times> uint16 \<Rightarrow> bool" where
  "key_less k l = (case (k, l) of ((f, b, p), (g, c, q)) \<Rightarrow>
     f < g \<or> f = g \<and> ((b, c) \<in> lexord {(x, y). x < y} \<or> b = c \<and> p < q))"

lemma memcmp_zero: "length xs = length ys \<Longrightarrow> memcmp_bytes xs ys = 0 \<longleftrightarrow> xs = ys"
  by (induction xs ys rule: list_induct2) (auto simp: word_uint_eq_iff)

lemma memcmp_swap: "memcmp_bytes ys xs = - memcmp_bytes xs ys"
  by (induction xs ys rule: memcmp_bytes.induct) auto

lemma memcmp_neg: "length xs = length ys \<Longrightarrow> memcmp_bytes xs ys < 0 \<longleftrightarrow> (xs, ys) \<in> lexord {(x, y). x < y}"
  using memcmp_lexord [of xs ys] by auto

lemma memcmp_pos: "length xs = length ys \<Longrightarrow> memcmp_bytes xs ys > 0 \<longleftrightarrow> (ys, xs) \<in> lexord {(x, y). x < y}"
  using memcmp_neg [of ys xs] memcmp_swap [of ys xs] by simp

lemma get_port_ok: "sockaddr_ok a \<Longrightarrow> \<exists>p. em_sockaddr_get_port a = Some p"
  by (auto simp: sockaddr_ok_def em_sockaddr_get_port_def load16_def mem_get_def)

lemma cmp_same_family:
  assumes "sockaddr_ok a" "sockaddr_ok b" "sa_family a = sa_family b"
  shows "em_sockaddr_cmp a b = Some
    (let c = memcmp_bytes (addr_bytes a) (addr_bytes b); p = the (em_sockaddr_get_port a); q = the (em_sockaddr_get_port b)
     in if c \<noteq> 0 then c else if p < q then - 1 else if p > q then 1 else 0)"
proof -
  obtain p q where "em_sockaddr_get_port a = Some p" "em_sockaddr_get_port b = Some q"
    using get_port_ok assms(1,2) by blast
  then show ?thesis
    using assms
    by (auto simp: sockaddr_ok_def em_sockaddr_cmp_def em_sockaddr_get_addr_def em_sockaddr_get_addr_len_def
        compare_at_def addr_bytes_def mem_slice_def Let_def af)
qed

text \<open>
  C29. \<open>em_sockaddr_cmp\<close> is a total order on socket addresses.  Its sign is that of the lexicographic order of
  the family, the bytes of the address and the port, so that it is zero exactly for addresses that agree in
  these and swapping the arguments swaps the sign; padding, flow label and scope do not matter.
\<close>
theorem sockaddr_cmp_order:
  assumes "sockaddr_ok a" "sockaddr_ok b"
  shows "\<exists>c. em_sockaddr_cmp a b = Some c \<and> (c < 0 \<longleftrightarrow> key_less (addr_key a) (addr_key b)) \<and>
    (c = 0 \<longleftrightarrow> addr_key a = addr_key b) \<and> (c > 0 \<longleftrightarrow> key_less (addr_key b) (addr_key a))"
proof (cases "sa_family a = sa_family b")
  case False
  then obtain f g where f: "sa_family a = Some f" "sa_family b = Some g" "f \<noteq> g"
    using assms by (auto simp: sockaddr_ok_def)
  then have "em_sockaddr_cmp a b = Some (if f < g then - 1 else 1)" by (simp add: em_sockaddr_cmp_def)
  then show ?thesis using f by (auto simp: addr_key_def key_less_def)
next
  case True
  then have len: "length (addr_bytes a) = length (addr_bytes b)"
    using assms by (auto simp: sockaddr_ok_def addr_bytes_def)
  show ?thesis
    unfolding cmp_same_family [OF assms True]
    using True memcmp_zero [OF len] memcmp_neg [OF len] memcmp_pos [OF len] lexord_irreflexive [of "{(x, y). x < y}"]
    by (auto simp: addr_key_def key_less_def Let_def)
qed

definition ex_addr :: "uint32 \<Rightarrow> uint16 \<Rightarrow> em_sockaddr" where
  "ex_addr w p = le16 2 @ le16 (em_htons p) @ le32 w @ replicate 20 0"

lemma ex_addr_ok: "sockaddr_ok (ex_addr w p)"
  by (simp add: sockaddr_ok_def ex_addr_def le16_def le32_def sa_family_def load16_def mem_get_def af)

lemma sockaddr_cmp_order_witness:
  "\<exists>c. em_sockaddr_cmp (ex_addr 0x0100000A 80) (ex_addr 0x0100000A 81) = Some c \<and> c < 0"
proof -
  obtain c where c: "em_sockaddr_cmp (ex_addr 0x0100000A 80) (ex_addr 0x0100000A 81) = Some c"
    "c < 0 \<longleftrightarrow> key_less (addr_key (ex_addr 0x0100000A 80)) (addr_key (ex_addr 0x0100000A 81))"
    using sockaddr_cmp_order [OF ex_addr_ok ex_addr_ok] by blast
  have "key_less (addr_key (ex_addr 0x0100000A 80)) (addr_key (ex_addr 0x0100000A 81))" by code_simp
  with c show ?thesis by blast
qed

section \<open>Changing addresses\<close>

lemma set_port_blit:
  assumes "length a = 28"
  obtains a' where "mem_blit a 2 (le16 (em_htons p)) = Some a'" "length a' = 28" "sa_family a' = sa_family a"
    "load16 a' 2 = Some (em_htons p)" "drop 4 a' = drop 4 a"
proof -
  obtain a' where a': "mem_blit a 2 (le16 (em_htons p)) = Some a'" "length a' = 28"
    using mem_blit_Some [of 2 "le16 (em_htons p)" a] assms by auto
  moreover have "drop 4 a' = drop 4 a" using mem_blit_drop [OF a'(1)] by simp
  ultimately show thesis using that family_blit_other [OF a'(1)] load16_blit [OF a'(1)] by simp
qed

lemma get_port_cong:
  "sa_family a = sa_family b \<Longrightarrow> load16 a 2 = load16 b 2 \<Longrightarrow> em_sockaddr_get_port a = em_sockaddr_get_port b"
  by (simp add: em_sockaddr_get_port_def cong: if_cong)

lemma addr_bytes_cong: "sa_family a' = sa_family a \<Longrightarrow> drop 4 a' = drop 4 a \<Longrightarrow> addr_bytes a' = addr_bytes a"
proof -
  assume a: "sa_family a' = sa_family a" "drop 4 a' = drop 4 a"
  have "drop 8 a' = drop 8 a" using arg_cong [OF a(2), of "drop 4"] by simp
  then show ?thesis using a by (simp add: addr_bytes_def)
qed

lemma addr_bytes_offset:
  assumes "sockaddr_ok a"
  obtains off n where "em_sockaddr_get_addr a = Some (Some off)" "em_sockaddr_get_addr_len a = Some n" "4 \<le> off"
    "off + n \<le> 28" "addr_bytes a = take n (drop off a)" "length (addr_bytes a) = n"
proof (cases "sa_family a = Some EM_AF_INET6")
  case True
  then show thesis using assms by (intro that [of 8 16])
    (simp_all add: sockaddr_ok_def em_sockaddr_get_addr_def em_sockaddr_get_addr_len_def addr_bytes_def)
next
  case False
  then show thesis using assms by (intro that [of 4 4])
    (auto simp: sockaddr_ok_def em_sockaddr_get_addr_def em_sockaddr_get_addr_len_def addr_bytes_def af)
qed

lemma mem_blit_eq: "mem_blit a off d = Some a' \<Longrightarrow> a' = take off a @ d @ drop (off + length d) a"
  by (simp add: mem_blit_def split: if_splits)

lemma set_port_keeps:
  assumes "sockaddr_ok a"
  shows "\<exists>a'. em_sockaddr_set_port a p = Some (EM_SUCC, a') \<and> sockaddr_ok a' \<and> em_sockaddr_get_port a' = Some p \<and>
      a' = take 2 a @ le16 (em_htons p) @ drop 4 a \<and> addr_bytes a' = addr_bytes a \<and> sa_family a' = sa_family a"
proof -
  have len: "length a = 28" using assms by (simp_all add: sockaddr_ok_def)
  obtain a1 where a1: "mem_blit a 2 (le16 (em_htons p)) = Some a1" "length a1 = 28" "sa_family a1 = sa_family a"
    "load16 a1 2 = Some (em_htons p)" "drop 4 a1 = drop 4 a" using set_port_blit [OF len] .
  then show ?thesis
    using assms addr_bytes_cong [OF a1(3,5)] mem_blit_eq [OF a1(1)]
    by (auto simp: em_sockaddr_set_port_def sockaddr_ok_def em_sockaddr_get_port_def)
qed

lemma copy_addr_keeps:
  assumes "sockaddr_ok a" "sockaddr_ok b"
  shows "\<exists>a'. em_sockaddr_copy_addr a b = Some a' \<and> sockaddr_ok a' \<and> sa_family a' = sa_family a \<and>
      em_sockaddr_get_port a' = em_sockaddr_get_port a \<and>
      (\<forall>off. em_sockaddr_get_addr b = Some (Some off) \<longrightarrow>
         a' = take off a @ addr_bytes b @ drop (off + length (addr_bytes b)) a) \<and>
      (sa_family a = sa_family b \<longrightarrow> addr_bytes a' = addr_bytes b)"
proof -
  have len: "length a = 28" "length b = 28" using assms by (simp_all add: sockaddr_ok_def)
  obtain off n where off: "em_sockaddr_get_addr b = Some (Some off)" "em_sockaddr_get_addr_len b = Some n" "4 \<le> off"
    "off + n \<le> 28" "addr_bytes b = take n (drop off b)" "length (addr_bytes b) = n"
    using addr_bytes_offset [OF assms(2)] .
  have slice: "mem_slice b off n = Some (addr_bytes b)" using off len by (simp add: mem_slice_def)
  obtain a2 where a2: "mem_blit a off (addr_bytes b) = Some a2" "length a2 = 28"
    using mem_blit_Some [of off "addr_bytes b" a] off len by auto
  have fam: "sa_family a2 = sa_family a" using family_blit_other [OF a2(1)] off(3) by simp
  have port: "load16 a2 2 = load16 a 2" using load16_blit_other [OF a2(1), of 2] off(3) by simp
  have "sa_family a = sa_family b \<longrightarrow> addr_bytes a2 = addr_bytes b"
  proof
    assume "sa_family a = sa_family b"
    then have "sa_family a2 = sa_family b" using fam by simp
    then have "addr_bytes a2 = take n (drop off a2)"
      using off(1,2) assms(2)
      by (auto simp: addr_bytes_def em_sockaddr_get_addr_def em_sockaddr_get_addr_len_def sockaddr_ok_def af)
    also have "\<dots> = drop off (take (off + length (addr_bytes b)) a2)" using off(6) by (simp add: take_drop add.commute)
    also have "\<dots> = addr_bytes b" using mem_blit_take [OF a2(1)] off(4) len by simp
    finally show "addr_bytes a2 = addr_bytes b" .
  qed
  then show ?thesis
    using off(1,2) slice a2 fam port assms(1) mem_blit_eq [OF a2(1)]
    get_port_cong [OF fam port] by (simp add: em_sockaddr_copy_addr_def sockaddr_ok_def)
qed

lemma cp_fresh:
  assumes "length a = 28" "sockaddr_ok b"
  shows "\<exists>a'. em_sockaddr_cp a b = Some a' \<and> sockaddr_ok a' \<and> sa_family a' = sa_family b \<and>
    addr_bytes a' = addr_bytes b \<and> em_sockaddr_get_port a' = em_sockaddr_get_port b \<and>
    (\<forall>n. em_sockaddr_get_len b = Some n \<longrightarrow> a' = take n b @ drop n a) \<and> em_sockaddr_cmp a' b = Some 0"
proof -
  have len: "length a = 28" "length b = 28" using assms by (simp_all add: sockaddr_ok_def)
  obtain n where n: "em_sockaddr_get_len b = Some n" "n = 16 \<or> n = 28 \<and> sa_family b = Some EM_AF_INET6"
    using assms(2) by (auto simp: sockaddr_ok_def em_sockaddr_get_len_def)
  have bytes: "mem_slice b 0 n = Some (take n b)" "length (take n b) = n" using n(2) len by (auto simp: mem_slice_def)
  obtain a3 where a3: "mem_blit a 0 (take n b) = Some a3" "length a3 = 28"
    using mem_blit_Some [of 0 "take n b" a] len bytes(2) n(2) by auto
  have same: "take n a3 = take n b" using mem_blit_take [OF a3(1)] bytes(2) by simp
  have get: "mem_get a3 i = mem_get b i" if "i < n" for i
    using arg_cong [OF same, of "\<lambda>xs. xs ! i"] that a3(2) len n(2) by (auto simp: mem_get_def)
  have fam: "sa_family a3 = sa_family b" using get n(2) by (auto simp: sa_family_def load16_def)
  have port: "load16 a3 2 = load16 b 2" using get n(2) by (auto simp: load16_def)
  have key: "addr_bytes a3 = addr_bytes b"
  proof (cases "n = 28")
    case True
    then show ?thesis using same a3(2) len fam by (simp add: addr_bytes_def)
  next
    case False
    then have "n = 16" "sa_family b = Some EM_AF_INET" using n assms(2) by (auto simp: sockaddr_ok_def em_sockaddr_get_len_def af)
    moreover have "take 4 (drop 4 a3) = take 4 (drop 4 b)"
      using arg_cong [OF same, of "\<lambda>xs. drop 4 (take 8 xs)"] \<open>n = 16\<close> by (simp add: take_drop)
    ultimately show ?thesis using fam by (simp add: addr_bytes_def af)
  qed
  have ok: "sockaddr_ok a3" using a3(2) fam assms(2) by (simp add: sockaddr_ok_def)
  have ports: "em_sockaddr_get_port a3 = em_sockaddr_get_port b" using fam port by (rule get_port_cong)
  have "em_sockaddr_cmp a3 b = Some 0"
    using cmp_same_family [OF ok assms(2) fam] key ports memcmp_zero [of "addr_bytes b" "addr_bytes b"] by simp
  moreover have "a3 = take n b @ drop n a" using mem_blit_eq [OF a3(1)] bytes(2) by simp
  ultimately show ?thesis
    using ok n(1) bytes(1) a3(1) fam key ports by (auto simp: em_sockaddr_cp_def)
qed

lemma cp_keeps:
  "sockaddr_ok a \<Longrightarrow> sockaddr_ok b \<Longrightarrow>
   \<exists>a'. em_sockaddr_cp a b = Some a' \<and> sockaddr_ok a' \<and>
     (\<forall>n. em_sockaddr_get_len b = Some n \<longrightarrow> a' = take n b @ drop n a) \<and> em_sockaddr_cmp a' b = Some 0"
  using cp_fresh [of a b] by (auto simp: sockaddr_ok_def)

text \<open>
  C30. Socket addresses keep their type.  On well-formed addresses the operations always return.  Setting
  the port writes the port, in network order, to the third and fourth byte and leaves every other byte of
  the structure as it was: family, address, flow label, scope and padding.  Copying the address part
  replaces the bytes where the source has its address by those of the source and no others, so that family
  and port of the target stay, and when the families agree the target has the address of the source.  A
  copy has the bytes of the source as far as the length of its family goes, keeps those behind, and
  compares equal to the source.  The results are well formed.
\<close>
theorem sockaddr_keeps_type:
  assumes "sockaddr_ok a" "sockaddr_ok b"
  shows "(\<exists>a'. em_sockaddr_set_port a p = Some (EM_SUCC, a') \<and> sockaddr_ok a' \<and> em_sockaddr_get_port a' = Some p \<and>
      a' = take 2 a @ le16 (em_htons p) @ drop 4 a \<and> addr_bytes a' = addr_bytes a \<and> sa_family a' = sa_family a) \<and>
    (\<exists>a'. em_sockaddr_copy_addr a b = Some a' \<and> sockaddr_ok a' \<and> sa_family a' = sa_family a \<and>
      em_sockaddr_get_port a' = em_sockaddr_get_port a \<and>
      (\<forall>off. em_sockaddr_get_addr b = Some (Some off) \<longrightarrow>
         a' = take off a @ addr_bytes b @ drop (off + length (addr_bytes b)) a) \<and>
      (sa_family a = sa_family b \<longrightarrow> addr_bytes a' = addr_bytes b)) \<and>
    (\<exists>a'. em_sockaddr_cp a b = Some a' \<and> sockaddr_ok a' \<and>
      (\<forall>n. em_sockaddr_get_len b = Some n \<longrightarrow> a' = take n b @ drop n a) \<and> em_sockaddr_cmp a' b = Some 0)"
  using set_port_keeps [OF assms(1)] copy_addr_keeps [OF assms] cp_keeps [OF assms] by blast

lemma sockaddr_keeps_type_witness:
  "\<exists>a'. em_sockaddr_set_port (ex_addr 1 80) 8080 = Some (EM_SUCC, a') \<and>
     a' = take 2 (ex_addr 1 80) @ le16 (em_htons 8080) @ drop 4 (ex_addr 1 80) \<and> em_sockaddr_get_port a' = Some 8080"
  using sockaddr_keeps_type [OF ex_addr_ok [of 1 80] ex_addr_ok [of 2 81]] by blast

section \<open>What the default configuration leaves out\<close>

text \<open>
  Without IPv6 no text is ever converted by \<open>em_inet_pton\<close> and no address by \<open>em_inet_ntop\<close>, IPv4 included;
  so \<open>em_sockaddr_print\<close> always returns the empty text.
\<close>

lemma inet_pton_never: "em_inet_pton f src dst = Some (st, d) \<Longrightarrow> st \<noteq> EM_SUCC"
  by (auto simp: em_inet_pton_def errno split: option.splits if_splits bind_splits)

lemma print_always_empty: "sockaddr_ok a \<Longrightarrow> em_sockaddr_print fmt a buf sz flags = Some ([], buf)"
  by (auto simp: sockaddr_ok_def em_sockaddr_print_def em_sockaddr_get_addr_def em_inet_ntop_def mem_set_def
      EM_INET6_ADDRSTRLEN_def errno af)

lemma parse_ipv6_not_supported:
  "em_sockaddr_parse2 f 0 (Some cs) = Some (EM_SUCC, res) \<Longrightarrow> p_raf res = Some EM_AF_INET6 \<Longrightarrow>
   f \<in> {EM_AF_UNSPEC, EM_AF_INET, EM_AF_INET6} \<Longrightarrow>
   em_sockaddr_parse r f 0 (Some cs) (Some a) = Some (EM_EIPV6NOTSUP, Some a)"
  by (auto simp: em_sockaddr_parse_def)

text \<open>The broadcast address is taken for a failed conversion and looked up as a host name.\<close>

lemma broadcast_is_a_name:
  assumes "resolver_ok r" "16 \<le> length a" "cs \<noteq> []" "length cs < 16"
    and "inet_aton r (c_string cs) = Some 0xFFFFFFFF" "gethostbyname r (c_string cs) = None"
  shows "\<exists>a'. em_sockaddr_in_set_str_addr r a (Some cs) = Some (EM_ERESOLVE, a')"
proof -
  have "length cs < 128" using assms(4) by simp
  from set_str_addr_spec [OF assms(2) this assms(3,1)] show ?thesis
    using assms(4-6) by (auto simp: host_address_def EM_INADDR_NONE_def by_name_def)
qed

text \<open>Behind a closing bracket anything goes up to the last colon.\<close>

lemma bracket_tail_ignored:
  "em_sockaddr_parse2 EM_AF_UNSPEC 0 (Some (ascii ''[::1]x:80'')) =
     Some (EM_SUCC, \<lparr>p_host = Some (ascii ''::1''), p_port = Some 80, p_raf = Some EM_AF_INET6\<rparr>)"
  by (simp add: em_sockaddr_parse2_def parse_text_def ascii_def af Let_def port_number_def ctype nothing_parsed_def upt_rec)

lemma null_text_undefined: "em_sockaddr_parse2 f options None = None"
  by (simp add: em_sockaddr_parse2_def)

end
