(* ===== verification/Emlib_Sock.thy ===== *)
theory Emlib_Sock
  imports Emlib_Sockaddr Emlib_Os
begin

unbundle bit_operations_syntax

text \<open>
  Sockets: the calls of \<open>src/sock_bsd.c\<close>, the helpers of \<open>src/sock_common.c\<close> that bind, size and look for
  interfaces, and the interface enumeration of \<open>src/ip_helper_generic.c\<close> in the variant of the default
  configuration, which asks for the default route only.  The system's socket calls are the fields of
  \<open>sock_os\<close>, over a state \<open>'s\<close> of the system; an error is its number, and 0 is success.  An option value
  and the data that are sent are bytes.  All calls are made by registered threads.
\<close>

section \<open>The calls of the system\<close>

record 's sock_os =
  os_socket :: "'s \<Rightarrow> int \<Rightarrow> int \<Rightarrow> int \<Rightarrow> (int + int) \<times> 's"
  os_bind :: "'s \<Rightarrow> int \<Rightarrow> em_sockaddr \<Rightarrow> int \<Rightarrow> int \<times> 's"
  os_connect :: "'s \<Rightarrow> int \<Rightarrow> em_sockaddr \<Rightarrow> int \<Rightarrow> int \<times> 's"
  os_close :: "'s \<Rightarrow> int \<Rightarrow> int \<times> 's"
  os_getsockname :: "'s \<Rightarrow> int \<Rightarrow> int \<Rightarrow> (int + em_sockaddr) \<times> 's"
  os_getpeername :: "'s \<Rightarrow> int \<Rightarrow> int \<Rightarrow> (int + em_sockaddr) \<times> 's"
  os_send :: "'s \<Rightarrow> int \<Rightarrow> int8 list \<Rightarrow> uint32 \<Rightarrow> (int + nat) \<times> 's"
  os_sendto :: "'s \<Rightarrow> int \<Rightarrow> int8 list \<Rightarrow> uint32 \<Rightarrow> em_sockaddr option \<Rightarrow> int \<Rightarrow> (int + nat) \<times> 's"
  os_recvfrom :: "'s \<Rightarrow> int \<Rightarrow> nat \<Rightarrow> uint32 \<Rightarrow> int \<Rightarrow> (int + int8 list \<times> em_sockaddr) \<times> 's"
  os_getsockopt :: "'s \<Rightarrow> int \<Rightarrow> uint16 \<Rightarrow> uint16 \<Rightarrow> int \<Rightarrow> (int + int8 list) \<times> 's"
  os_setsockopt :: "'s \<Rightarrow> int \<Rightarrow> uint16 \<Rightarrow> uint16 \<Rightarrow> int8 list \<Rightarrow> int \<times> 's"
  os_shutdown :: "'s \<Rightarrow> int \<Rightarrow> int \<Rightarrow> int \<times> 's"
  os_listen :: "'s \<Rightarrow> int \<Rightarrow> int \<Rightarrow> int \<times> 's"
  os_accept :: "'s \<Rightarrow> int \<Rightarrow> int \<Rightarrow> (int + int \<times> em_sockaddr) \<times> 's"
  os_rand :: "'s \<Rightarrow> nat \<times> 's"

definition EM_SOCK_STREAM :: int where "EM_SOCK_STREAM = 1"
definition EM_SOCK_DGRAM :: int where "EM_SOCK_DGRAM = 2"
definition EM_SOL_SOCKET :: uint16 where "EM_SOL_SOCKET = 1"
definition EM_SO_RCVBUF :: uint16 where "EM_SO_RCVBUF = 8"
definition EM_SO_SNDBUF :: uint16 where "EM_SO_SNDBUF = 7"
definition EM_SO_NOSIGPIPE :: uint16 where "EM_SO_NOSIGPIPE = 0xFFFF"

text \<open>The other constants, as the Linux headers have them; the library only hands them to its callers.\<close>

definition EM_AF_UNIX :: int where "EM_AF_UNIX = 1"
definition EM_AF_PACKET :: int where "EM_AF_PACKET = 17"
definition EM_AF_IRDA :: int where "EM_AF_IRDA = 23"
definition EM_SOCK_RAW :: int where "EM_SOCK_RAW = 3"
definition EM_SOCK_RDM :: int where "EM_SOCK_RDM = 4"
definition EM_SOL_IP :: uint16 where "EM_SOL_IP = 0"
definition EM_SOL_TCP :: uint16 where "EM_SOL_TCP = 6"
definition EM_SOL_UDP :: uint16 where "EM_SOL_UDP = 17"
definition EM_SOL_IPV6 :: uint16 where "EM_SOL_IPV6 = 41"
definition EM_IP_TOS :: uint16 where "EM_IP_TOS = 1"
definition EM_IPTOS_LOWDELAY :: uint16 where "EM_IPTOS_LOWDELAY = 0x10"
definition EM_IPTOS_THROUGHPUT :: uint16 where "EM_IPTOS_THROUGHPUT = 0x08"
definition EM_IPTOS_RELIABILITY :: uint16 where "EM_IPTOS_RELIABILITY = 0x04"
definition EM_IPTOS_MINCOST :: uint16 where "EM_IPTOS_MINCOST = 0x02"
definition EM_IPV6_TCLASS :: uint16 where "EM_IPV6_TCLASS = 67"
definition EM_SO_TYPE :: uint16 where "EM_SO_TYPE = 3"
definition EM_TCP_NODELAY :: uint16 where "EM_TCP_NODELAY = 1"
definition EM_SO_REUSEADDR :: uint16 where "EM_SO_REUSEADDR = 2"
definition EM_SO_PRIORITY :: uint16 where "EM_SO_PRIORITY = 12"
definition EM_IP_MULTICAST_IF :: uint16 where "EM_IP_MULTICAST_IF = 32"
definition EM_IP_MULTICAST_TTL :: uint16 where "EM_IP_MULTICAST_TTL = 33"
definition EM_IP_MULTICAST_LOOP :: uint16 where "EM_IP_MULTICAST_LOOP = 34"
definition EM_IP_ADD_MEMBERSHIP :: uint16 where "EM_IP_ADD_MEMBERSHIP = 35"
definition EM_IP_DROP_MEMBERSHIP :: uint16 where "EM_IP_DROP_MEMBERSHIP = 36"
definition EM_MSG_OOB :: int where "EM_MSG_OOB = 1"
definition EM_MSG_PEEK :: int where "EM_MSG_PEEK = 2"
definition EM_MSG_DONTROUTE :: int where "EM_MSG_DONTROUTE = 4"
definition MSG_NOSIGNAL :: uint32 where "MSG_NOSIGNAL = 0x4000"
definition EM_INVALID_SOCKET :: int where "EM_INVALID_SOCKET = - 1"
definition EM_MAX_SOCKOPT_PARAMS :: nat where "EM_MAX_SOCKOPT_PARAMS = 4"

section \<open>The wrappers\<close>

text \<open>
  Null pointers are \<^const>\<open>None\<close>.  A value that the system writes goes to the front of the caller's object,
  which has to be large enough.
\<close>

definition em_sock_getsockopt ::
  "'s sock_os \<Rightarrow> int \<Rightarrow> uint16 \<Rightarrow> uint16 \<Rightarrow> int8 list option \<Rightarrow> int option \<Rightarrow> 's \<Rightarrow>
   (emlib_ret_t \<times> int8 list option \<times> 's) option" where
  "em_sock_getsockopt os fd level optname optval optlen s =
     (case (optval, optlen) of
        (Some v, Some n) \<Rightarrow>
          (case os_getsockopt os s fd level optname n of
             (Inl e, s1) \<Rightarrow> Some (os_status e, optval, s1)
           | (Inr b, s1) \<Rightarrow> do { v' \<leftarrow> mem_blit v 0 b; Some (EM_SUCC, Some v', s1) })
      | _ \<Rightarrow> Some (EM_EINVAL, optval, s))"

definition em_sock_setsockopt ::
  "'s sock_os \<Rightarrow> int \<Rightarrow> uint16 \<Rightarrow> uint16 \<Rightarrow> int8 list \<Rightarrow> 's \<Rightarrow> emlib_ret_t \<times> 's" where
  "em_sock_setsockopt os fd level optname optval s =
     (case os_setsockopt os s fd level optname optval of (e, s1) \<Rightarrow> (os_status e, s1))"

record sockopt =
  so_level :: int
  so_optname :: int
  so_optval :: "int8 list"

text \<open>The loop over the options: at most four of them, going on after an error.\<close>

fun apply_sockopts :: "'s sock_os \<Rightarrow> int \<Rightarrow> sockopt list \<Rightarrow> emlib_ret_t \<Rightarrow> 's \<Rightarrow> emlib_ret_t \<times> 's" where
  "apply_sockopts os fd [] retval s = (retval, s)"
| "apply_sockopts os fd (q # qs) retval s =
     (case em_sock_setsockopt os fd (of_int (so_level q)) (of_int (so_optname q)) (so_optval q) s of
        (status, s1) \<Rightarrow> apply_sockopts os fd qs (if status \<noteq> EM_SUCC then status else retval) s1)"

definition em_sock_setsockopt_params ::
  "'s sock_os \<Rightarrow> int \<Rightarrow> sockopt list option \<Rightarrow> 's \<Rightarrow> emlib_ret_t \<times> 's" where
  "em_sock_setsockopt_params os fd params s =
     (case params of
        None \<Rightarrow> (EM_EINVAL, s)
      | Some qs \<Rightarrow> apply_sockopts os fd (take EM_MAX_SOCKOPT_PARAMS qs) EM_SUCC s)"

definition em_sock_socket :: "'s sock_os \<Rightarrow> int \<Rightarrow> int \<Rightarrow> int \<Rightarrow> bool \<Rightarrow> 's \<Rightarrow> emlib_ret_t \<times> int option \<times> 's" where
  "em_sock_socket os af type proto sock s =
     (if \<not> sock then (EM_EINVAL, None, s)
      else case os_socket os s af type proto of
        (Inl e, s1) \<Rightarrow> (EM_RETURN_OS_ERROR (of_int e), Some EM_INVALID_SOCKET, s1)
      | (Inr fd, s1) \<Rightarrow>
          (EM_SUCC, Some fd,
           if type = EM_SOCK_STREAM then snd (em_sock_setsockopt os fd EM_SOL_SOCKET EM_SO_NOSIGPIPE (le32 1) s1) else s1))"

definition em_sock_bind :: "'s sock_os \<Rightarrow> int \<Rightarrow> em_sockaddr option \<Rightarrow> int \<Rightarrow> 's \<Rightarrow> emlib_ret_t \<times> 's" where
  "em_sock_bind os fd addr len s =
     (case addr of
        None \<Rightarrow> (EM_EINVAL, s)
      | Some a \<Rightarrow>
          if \<not> len \<ge> 16 then (EM_EINVAL, s)
          else (case os_bind os s fd a len of (e, s1) \<Rightarrow> (os_status e, s1)))"

definition em_sock_bind_in :: "'s sock_os \<Rightarrow> int \<Rightarrow> uint32 \<Rightarrow> uint16 \<Rightarrow> 's \<Rightarrow> emlib_ret_t \<times> 's" where
  "em_sock_bind_in os fd addr32 port s =
     em_sock_bind os fd
       (Some (le16 (of_int EM_AF_INET) @ le16 (em_htons port) @ le32 (em_htonl addr32) @ replicate 8 0)) 16 s"

definition em_sock_close :: "'s sock_os \<Rightarrow> int \<Rightarrow> 's \<Rightarrow> emlib_ret_t \<times> 's" where
  "em_sock_close os fd s = (case os_close os s fd of (rc, s1) \<Rightarrow> (os_status rc, s1))"

definition em_sock_getpeername ::
  "'s sock_os \<Rightarrow> int \<Rightarrow> em_sockaddr \<Rightarrow> int \<Rightarrow> 's \<Rightarrow> (emlib_ret_t \<times> em_sockaddr \<times> int \<times> 's) option" where
  "em_sock_getpeername os fd addr namelen s =
     (case os_getpeername os s fd namelen of
        (Inl e, s1) \<Rightarrow> Some (EM_RETURN_OS_ERROR (of_int e), addr, namelen, s1)
      | (Inr b, s1) \<Rightarrow> do { a \<leftarrow> mem_blit addr 0 b; Some (EM_SUCC, a, int (length b), s1) })"

definition em_sock_getsockname ::
  "'s sock_os \<Rightarrow> int \<Rightarrow> em_sockaddr \<Rightarrow> int \<Rightarrow> 's \<Rightarrow> (emlib_ret_t \<times> em_sockaddr \<times> int \<times> 's) option" where
  "em_sock_getsockname os fd addr namelen s =
     (case os_getsockname os s fd namelen of
        (Inl e, s1) \<Rightarrow> Some (EM_RETURN_OS_ERROR (of_int e), addr, namelen, s1)
      | (Inr b, s1) \<Rightarrow> do { a \<leftarrow> mem_blit addr 0 b; Some (EM_SUCC, a, int (length b), s1) })"

text \<open>
  The length goes through an \<open>int\<close>.  The result is the status and the new length, which is -1 on errors.
\<close>

definition io_length :: "int \<Rightarrow> int" where
  "io_length len = sint (of_int len :: 32 word)"

definition em_sock_send ::
  "'s sock_os \<Rightarrow> int \<Rightarrow> int8 list \<Rightarrow> int option \<Rightarrow> uint32 \<Rightarrow> 's \<Rightarrow> (emlib_ret_t \<times> int option \<times> 's) option" where
  "em_sock_send os fd buf len flags s =
     (case len of
        None \<Rightarrow> Some (EM_EINVAL, None, s)
      | Some n \<Rightarrow>
          if io_length n < 0 \<or> nat (io_length n) > length buf then None
          else (case os_send os s fd (take (nat (io_length n)) buf) (flags OR MSG_NOSIGNAL) of
                  (Inl e, s1) \<Rightarrow> Some (EM_RETURN_OS_ERROR (of_int e), Some (- 1), s1)
                | (Inr k, s1) \<Rightarrow> Some (EM_SUCC, Some (int k), s1)))"

definition em_sock_sendto ::
  "'s sock_os \<Rightarrow> int \<Rightarrow> int8 list \<Rightarrow> int option \<Rightarrow> uint32 \<Rightarrow> em_sockaddr option \<Rightarrow> int \<Rightarrow> 's \<Rightarrow>
   (emlib_ret_t \<times> int option \<times> 's) option" where
  "em_sock_sendto os fd buf len flags to tolen s =
     (case len of
        None \<Rightarrow> Some (EM_EINVAL, None, s)
      | Some n \<Rightarrow>
          if io_length n < 0 \<or> nat (io_length n) > length buf then None
          else (case os_sendto os s fd (take (nat (io_length n)) buf) flags to tolen of
                  (Inl e, s1) \<Rightarrow> Some (EM_RETURN_OS_ERROR (of_int e), Some (- 1), s1)
                | (Inr k, s1) \<Rightarrow> Some (EM_SUCC, Some (int k), s1)))"

text \<open>The result of a receive has the buffer as well, and the address it came from.\<close>

definition em_sock_recvfrom ::
  "'s sock_os \<Rightarrow> int \<Rightarrow> int8 list option \<Rightarrow> int option \<Rightarrow> uint32 \<Rightarrow> em_sockaddr option \<Rightarrow> int \<Rightarrow> 's \<Rightarrow>
   (emlib_ret_t \<times> int option \<times> int8 list option \<times> em_sockaddr option \<times> 's) option" where
  "em_sock_recvfrom os fd buf len flags sender fromlen s =
     (case (buf, len) of
        (Some b, Some n) \<Rightarrow>
          if io_length n < 0 \<or> nat (io_length n) > length b then None
          else (case os_recvfrom os s fd (nat (io_length n)) flags fromlen of
                  (Inl e, s1) \<Rightarrow> Some (EM_RETURN_OS_ERROR (of_int e), Some (- 1), buf, sender, s1)
                | (Inr (d, a), s1) \<Rightarrow> do {
                    b' \<leftarrow> mem_blit b 0 d;
                    sender' \<leftarrow> (case sender of None \<Rightarrow> Some None | Some f \<Rightarrow> map_option Some (mem_blit f 0 a));
                    Some (EM_SUCC, Some (int (length d)), Some b', sender', s1)
                  })
      | _ \<Rightarrow> Some (EM_EINVAL, len, buf, sender, s))"

text \<open>\<open>recv\<close> is \<open>recvfrom\<close> with a null address.\<close>

definition em_sock_recv ::
  "'s sock_os \<Rightarrow> int \<Rightarrow> int8 list option \<Rightarrow> int option \<Rightarrow> uint32 \<Rightarrow> 's \<Rightarrow>
   (emlib_ret_t \<times> int option \<times> int8 list option \<times> 's) option" where
  "em_sock_recv os fd buf len flags s =
     do { (status, n, b, _, s1) \<leftarrow> em_sock_recvfrom os fd buf len flags None 0 s; Some (status, n, b, s1) }"

definition em_sock_connect :: "'s sock_os \<Rightarrow> int \<Rightarrow> em_sockaddr \<Rightarrow> int \<Rightarrow> 's \<Rightarrow> emlib_ret_t \<times> 's" where
  "em_sock_connect os fd addr namelen s = (case os_connect os s fd addr namelen of (e, s1) \<Rightarrow> (os_status e, s1))"

definition em_sock_shutdown :: "'s sock_os \<Rightarrow> int \<Rightarrow> int \<Rightarrow> 's \<Rightarrow> emlib_ret_t \<times> 's" where
  "em_sock_shutdown os fd how s = (case os_shutdown os s fd how of (e, s1) \<Rightarrow> (os_status e, s1))"

definition em_sock_listen :: "'s sock_os \<Rightarrow> int \<Rightarrow> int \<Rightarrow> 's \<Rightarrow> emlib_ret_t \<times> 's" where
  "em_sock_listen os fd backlog s = (case os_listen os s fd backlog of (e, s1) \<Rightarrow> (os_status e, s1))"

definition em_sock_accept ::
  "'s sock_os \<Rightarrow> int \<Rightarrow> bool \<Rightarrow> em_sockaddr option \<Rightarrow> int \<Rightarrow> 's \<Rightarrow>
   (emlib_ret_t \<times> int option \<times> em_sockaddr option \<times> 's) option" where
  "em_sock_accept os serverfd newsock addr addrlen s =
     (if \<not> newsock then Some (EM_EINVAL, None, addr, s)
      else case os_accept os s serverfd addrlen of
        (Inl e, s1) \<Rightarrow> Some (EM_RETURN_OS_ERROR (of_int e), Some EM_INVALID_SOCKET, addr, s1)
      | (Inr (fd, b), s1) \<Rightarrow> do {
          addr' \<leftarrow> (case addr of None \<Rightarrow> Some None | Some a \<Rightarrow> map_option Some (mem_blit a 0 b));
          Some (EM_SUCC, Some fd, addr', s1)
        })"

section \<open>Binding and sizing\<close>

text \<open>The loop of \<open>em_sock_bind_random\<close>: \<open>max_try\<close> rounds at most.  \<open>rand\<close> is not negative.\<close>

fun bind_tries ::
  "'s sock_os \<Rightarrow> int \<Rightarrow> em_sockaddr \<Rightarrow> int \<Rightarrow> uint16 \<Rightarrow> uint16 \<Rightarrow> nat \<Rightarrow> emlib_ret_t \<Rightarrow> 's \<Rightarrow> (emlib_ret_t \<times> 's) option" where
  "bind_tries os fd bind_addr addr_len base_port port_range 0 status s = Some (status, s)"
| "bind_tries os fd bind_addr addr_len base_port port_range (Suc max_try) status s =
     (let (n, s1) = os_rand os s;
          port = of_nat (unat base_port + n mod (unat port_range + 1)) :: uint16
      in do {
        (_, a) \<leftarrow> em_sockaddr_set_port bind_addr port;
        let (status', s2) = em_sock_bind os fd (Some a) addr_len s1;
        if status' = EM_SUCC then Some (status', s2)
        else bind_tries os fd a addr_len base_port port_range max_try status' s2
      })"

definition em_sock_bind_random ::
  "'s sock_os \<Rightarrow> int \<Rightarrow> uint8 list \<Rightarrow> em_sockaddr option \<Rightarrow> uint16 \<Rightarrow> uint16 \<Rightarrow> 's \<Rightarrow> (emlib_ret_t \<times> 's) option" where
  "em_sock_bind_random os fd stack addr port_range max_try s =
     (case addr of
        None \<Rightarrow> Some (EM_EINVAL, s)
      | Some a \<Rightarrow> do {
          bind_addr \<leftarrow> em_sockaddr_cp stack a;
          addr_len \<leftarrow> em_sockaddr_get_len a;
          base_port \<leftarrow> em_sockaddr_get_port a;
          if base_port = 0 \<or> port_range = 0 then Some (em_sock_bind os fd (Some bind_addr) (int addr_len) s)
          else bind_tries os fd bind_addr (int addr_len) base_port port_range (unat max_try) EM_SUCC s
        })"

text \<open>
  An option that is an \<open>int\<close>: four bytes.  The loop of \<open>em_sock_setsockopt_sobuf\<close> makes at most 19 rounds;
  \<open>buf_size\<close> is what the caller finds in its variable.
\<close>

definition int_of_bytes :: "int8 list \<Rightarrow> int option" where
  "int_of_bytes v = map_option sint (load32 v 0)"

fun sobuf_rounds ::
  "'s sock_os \<Rightarrow> int \<Rightarrow> uint16 \<Rightarrow> bool \<Rightarrow> int \<Rightarrow> nat \<Rightarrow> int \<Rightarrow> int8 list \<Rightarrow> uint32 \<Rightarrow> emlib_ret_t \<Rightarrow> 's \<Rightarrow>
   (emlib_ret_t \<times> uint32 \<times> 's) option" where
  "sobuf_rounds os fd optname auto_retry step 0 try_size cur buf_size status s = Some (status, buf_size, s)"
| "sobuf_rounds os fd optname auto_retry step (Suc k) try_size cur buf_size status s =
     do {
       cur_size \<leftarrow> int_of_bytes cur;
       if try_size \<le> cur_size then Some (status, of_int cur_size, s)
       else
         (let (status1, s1) = em_sock_setsockopt os fd EM_SOL_SOCKET optname (le32 (of_int try_size)) s in
          if status1 = EM_SUCC then do {
            (status2, cur', s2) \<leftarrow> em_sock_getsockopt os fd EM_SOL_SOCKET optname (Some cur) (Some 4) s1;
            if status2 \<noteq> EM_SUCC then Some (status2, of_int try_size, s2)
            else if \<not> auto_retry then Some (status2, buf_size, s2)
            else sobuf_rounds os fd optname auto_retry step k (try_size - step) (the cur') buf_size status2 s2
          }
          else if \<not> auto_retry then Some (status1, buf_size, s1)
          else sobuf_rounds os fd optname auto_retry step k (try_size - step) cur buf_size status1 s1)
     }"

definition em_sock_setsockopt_sobuf ::
  "'s sock_os \<Rightarrow> int \<Rightarrow> int8 list \<Rightarrow> uint16 \<Rightarrow> bool \<Rightarrow> uint32 option \<Rightarrow> 's \<Rightarrow>
   (emlib_ret_t \<times> uint32 option \<times> 's) option" where
  "em_sock_setsockopt_sobuf os fd stack optname auto_retry buf_size s =
     (case buf_size of
        None \<Rightarrow> Some (EM_EINVAL, None, s)
      | Some n \<Rightarrow>
          if \<not> (fd \<noteq> EM_INVALID_SOCKET \<and> n > 0 \<and> (optname = EM_SO_RCVBUF \<or> optname = EM_SO_SNDBUF))
          then Some (EM_EINVAL, buf_size, s)
          else do {
            (status, cur, s1) \<leftarrow> em_sock_getsockopt os fd EM_SOL_SOCKET optname (Some stack) (Some 4) s;
            if status \<noteq> EM_SUCC then Some (status, buf_size, s1)
            else do {
              cur_size \<leftarrow> int_of_bytes (the cur);
              let try_size = sint n;
              let step = c_div (try_size - cur_size) 20;
              (status', n', s2) \<leftarrow> sobuf_rounds os fd optname auto_retry (if step < 4096 then 4096 else step) 19 try_size
                (the cur) n status s1;
              Some (status', Some n', s2)
            }
          })"

section \<open>The host and its interfaces\<close>

text \<open>The host's name is asked for once; \<open>gethostname\<close> may fail.\<close>

definition em_gethostname :: "int8 list option \<Rightarrow> int8 list option \<Rightarrow> int8 list \<times> int8 list option" where
  "em_gethostname gethostname hostname =
     (case hostname of
        Some h \<Rightarrow> (h, Some h)
      | None \<Rightarrow> let h = (case gethostname of None \<Rightarrow> [] | Some n \<Rightarrow> c_string n) in (h, Some h))"

definition em_gethostaddr :: "resolver \<Rightarrow> uint8 list \<Rightarrow> int8 list \<Rightarrow> uint32 option" where
  "em_gethostaddr r stack hostname =
     do { (_, a) \<leftarrow> em_sockaddr_in_set_str_addr r stack (Some hostname); load32 a 4 }"

text \<open>
  \<open>stack\<close> is what the local addresses of the functions below hold before they are set.
\<close>

definition connect_for_name ::
  "'s sock_os \<Rightarrow> int \<Rightarrow> em_sockaddr \<Rightarrow> em_sockaddr \<Rightarrow> 's \<Rightarrow> (emlib_ret_t \<times> em_sockaddr \<times> em_sockaddr option \<times> 's) option" where
  "connect_for_name os af dst_addr itf_addr s =
     (case em_sock_socket os af EM_SOCK_DGRAM 0 True s of
        (status, fd, s1) \<Rightarrow>
          if status \<noteq> EM_SUCC then Some (status, itf_addr, None, s1)
          else do {
            n \<leftarrow> em_sockaddr_get_len dst_addr;
            let (status2, s2) = em_sock_connect os (the fd) dst_addr (int n) s1;
            if status2 \<noteq> EM_SUCC then Some (status2, itf_addr, None, snd (em_sock_close os (the fd) s2))
            else do {
              (status3, itf, _, s3) \<leftarrow> em_sock_getsockname os (the fd) itf_addr 28 s2;
              let s4 = snd (em_sock_close os (the fd) s3);
              if status3 \<noteq> EM_SUCC then Some (status3, itf, None, s4)
              else do {
                p \<leftarrow> em_sockaddr_get_addr itf;
                k \<leftarrow> em_sockaddr_get_addr_len itf;
                c \<leftarrow> compare_at itf p (replicate 64 0) (Some 0) k;
                Some (if c = 0 then (EM_ENOTFOUND, itf, None, s4) else (EM_SUCC, itf, Some dst_addr, s4))
              }
            }
          })"

definition em_getipinterface ::
  "'s sock_os \<Rightarrow> resolver \<Rightarrow> uint8 list \<Rightarrow> int \<Rightarrow> int8 list option \<Rightarrow> em_sockaddr \<Rightarrow> bool \<Rightarrow> 's \<Rightarrow>
   (emlib_ret_t \<times> em_sockaddr \<times> em_sockaddr option \<times> 's) option" where
  "em_getipinterface os r stack af dst itf_addr allow_resolve s =
     do {
       (_, d0) \<leftarrow> em_sockaddr_init r af stack None 53;
       p \<leftarrow> em_sockaddr_get_addr d0;
       (status, d1) \<leftarrow> (case p of
          None \<Rightarrow> Some (EM_EAFNOTSUP, d0)
        | Some off \<Rightarrow> do {
            old \<leftarrow> mem_slice d0 off 16;
            (st, b) \<leftarrow> em_inet_pton af dst old;
            d \<leftarrow> mem_blit d0 off b;
            Some (st, d)
          });
       if status \<noteq> EM_SUCC then do {
         (status', d2) \<leftarrow> em_sockaddr_init r af d1
           (if allow_resolve then dst else Some (if af = EM_AF_INET then ascii ''1.1.1.1'' else ascii ''1::1'')) 53;
         if status' \<noteq> EM_SUCC then Some (status', itf_addr, None, s)
         else connect_for_name os af d2 itf_addr s
       }
       else connect_for_name os af d1 itf_addr s
     }"

definition em_getdefaultipinterface ::
  "'s sock_os \<Rightarrow> resolver \<Rightarrow> uint8 list \<Rightarrow> int \<Rightarrow> em_sockaddr \<Rightarrow> 's \<Rightarrow> (emlib_ret_t \<times> em_sockaddr \<times> 's) option" where
  "em_getdefaultipinterface os r stack af addr s =
     do {
       (status, a, _, s1) \<leftarrow> em_getipinterface os r stack af
         (Some (if af = EM_AF_INET then ascii ''1.1.1.1'' else ascii ''1::1'')) addr False s;
       Some (status, a, s1)
     }"

definition if_enum_by_af ::
  "'s sock_os \<Rightarrow> resolver \<Rightarrow> uint8 list \<Rightarrow> int \<Rightarrow> nat \<Rightarrow> em_sockaddr list \<Rightarrow> 's \<Rightarrow>
   (emlib_ret_t \<times> nat \<times> em_sockaddr list \<times> 's) option" where
  "if_enum_by_af os r stack af cnt ifs s =
     (if \<not> cnt > 0 then Some (EM_EINVAL, cnt, ifs, s)
      else do {
        ifs1 \<leftarrow> mem_blit ifs 0 (replicate cnt (replicate 28 0));
        e \<leftarrow> mem_get ifs1 0;
        (status, a, s1) \<leftarrow> em_getdefaultipinterface os r stack af e s;
        Some (status, if status \<noteq> EM_SUCC then cnt else 1, ifs1[0 := a], s1)
      })"

text \<open>One family of \<open>em_enum_ip_interface\<close>, at the entry \<open>start\<close>.\<close>

definition enum_family ::
  "'s sock_os \<Rightarrow> resolver \<Rightarrow> uint8 list \<Rightarrow> int \<Rightarrow> nat \<times> nat \<times> em_sockaddr list \<times> 's \<Rightarrow>
   (nat \<times> nat \<times> em_sockaddr list \<times> 's) option" where
  "enum_family os r stack af st =
     (case st of (start, cnt, ifs, s) \<Rightarrow> do {
        (status, found, tail, s1) \<leftarrow> if_enum_by_af os r stack af cnt (drop start ifs) s;
        Some (if status = EM_SUCC then (start + found, cnt - found, take start ifs @ tail, s1)
              else (start, cnt, take start ifs @ tail, s1))
      })"

definition em_enum_ip_interface ::
  "'s sock_os \<Rightarrow> resolver \<Rightarrow> uint8 list \<Rightarrow> int \<Rightarrow> nat \<Rightarrow> em_sockaddr list \<Rightarrow> 's \<Rightarrow>
   (emlib_ret_t \<times> nat \<times> em_sockaddr list \<times> 's) option" where
  "em_enum_ip_interface os r stack af cnt ifs s =
     do {
       st1 \<leftarrow> (if af = EM_AF_INET6 \<or> af = EM_AF_UNSPEC then enum_family os r stack EM_AF_INET6 (0, cnt, ifs, s)
               else Some (0, cnt, ifs, s));
       st2 \<leftarrow> (if af = EM_AF_INET \<or> af = EM_AF_UNSPEC then enum_family os r stack EM_AF_INET st1 else Some st1);
       let (start, _, ifs2, s2) = st2;
       Some (if start \<noteq> 0 then EM_SUCC else EM_ENOTFOUND, start, ifs2, s2)
     }"

record em_ip_route_entry =
  if_addr :: uint32
  dst_addr :: uint32
  mask_addr :: uint32

definition em_enum_ip_route ::
  "'s sock_os \<Rightarrow> resolver \<Rightarrow> uint8 list \<Rightarrow> nat \<Rightarrow> em_ip_route_entry list \<Rightarrow> 's \<Rightarrow>
   (emlib_ret_t \<times> nat \<times> em_ip_route_entry list \<times> 's) option" where
  "em_enum_ip_route os r stack cnt routes s =
     (if \<not> cnt > 0 then Some (EM_EINVAL, cnt, routes, s)
      else do {
        routes1 \<leftarrow> mem_blit routes 0 (replicate cnt \<lparr>if_addr = 0, dst_addr = 0, mask_addr = 0\<rparr>);
        (status, itf, s1) \<leftarrow> em_getdefaultipinterface os r stack EM_AF_INET stack s;
        if status \<noteq> EM_SUCC then Some (status, cnt, routes1, s1)
        else do {
          w \<leftarrow> load32 itf 4;
          routes2 \<leftarrow> mem_set routes1 0 \<lparr>if_addr = w, dst_addr = 0, mask_addr = 0\<rparr>;
          Some (EM_SUCC, 1, routes2, s1)
        }
      })"

section \<open>The address of the host\<close>

text \<open>
  \<open>em_gethostip\<close> collects up to eight candidates with a weight each: the address of the host's name, that of
  the interface of the default route, and those of the interfaces; then it adds the weights of special
  addresses and picks the heaviest candidate.
\<close>

definition WEIGHT_HOSTNAME :: int where "WEIGHT_HOSTNAME = 1"
definition WEIGHT_DEF_ROUTE :: int where "WEIGHT_DEF_ROUTE = 2"
definition WEIGHT_INTERFACE :: int where "WEIGHT_INTERFACE = 1"
definition WEIGHT_LOOPBACK :: int where "WEIGHT_LOOPBACK = - 5"
definition WEIGHT_LINK_LOCAL :: int where "WEIGHT_LINK_LOCAL = - 4"
definition WEIGHT_DISABLED :: int where "WEIGHT_DISABLED = - 50"
definition MIN_WEIGHT :: int where "MIN_WEIGHT = WEIGHT_DISABLED + 1"
definition CAND_CNT :: nat where "CAND_CNT = 8"

lemmas weights = WEIGHT_HOSTNAME_def WEIGHT_DEF_ROUTE_def WEIGHT_INTERFACE_def WEIGHT_LOOPBACK_def
  WEIGHT_LINK_LOCAL_def WEIGHT_DISABLED_def MIN_WEIGHT_def

definition spec_ipv4 :: "(uint32 \<times> uint32 \<times> int) list" where
  "spec_ipv4 =
     [(0x7F000000, 0xFF000000, WEIGHT_LOOPBACK), (0x00000000, 0xFF000000, WEIGHT_DISABLED),
      (0xA9FE0000, 0xFFFF0000, WEIGHT_LINK_LOCAL)]"

definition spec_ipv6 :: "(uint8 list \<times> uint8 list \<times> int) list" where
  "spec_ipv6 =
     [(replicate 15 0 @ [1], replicate 16 0xFF, WEIGHT_LOOPBACK),
      ([0xFE, 0x80] @ replicate 14 0, [0xFF, 0xC0] @ replicate 14 0, WEIGHT_LINK_LOCAL),
      (replicate 16 0, replicate 16 0xFF, WEIGHT_DISABLED)]"

record cands =
  c_addr :: "em_sockaddr list"
  c_weight :: "int list"
  c_cnt :: nat

text \<open>
  The index of the first of the addresses that compares equal, or the one behind them; the comparison has the
  address of the list first in the one and last in the other.
\<close>

fun find_cand :: "em_sockaddr list \<Rightarrow> em_sockaddr \<Rightarrow> nat \<Rightarrow> nat option" where
  "find_cand [] a i = Some i"
| "find_cand (c # cs) a i = do { k \<leftarrow> em_sockaddr_cmp c a; if k = 0 then Some i else find_cand cs a (i + 1) }"

fun find_same :: "em_sockaddr \<Rightarrow> em_sockaddr list \<Rightarrow> nat \<Rightarrow> nat option" where
  "find_same a [] i = Some i"
| "find_same a (c # cs) i = do { k \<leftarrow> em_sockaddr_cmp a c; if k = 0 then Some i else find_same a cs (i + 1) }"

definition add_weight :: "nat \<Rightarrow> int \<Rightarrow> int list \<Rightarrow> int list option" where
  "add_weight i d ws = do { w \<leftarrow> mem_get ws i; mem_set ws i (w + d) }"

definition new_cand :: "em_sockaddr \<Rightarrow> int \<Rightarrow> cands \<Rightarrow> cands option" where
  "new_cand a weight c =
     do {
       old \<leftarrow> mem_get (c_addr c) (c_cnt c);
       a' \<leftarrow> em_sockaddr_copy_addr old a;
       as \<leftarrow> mem_set (c_addr c) (c_cnt c) a';
       ws \<leftarrow> add_weight (c_cnt c) weight (c_weight c);
       Some \<lparr>c_addr = as, c_weight = ws, c_cnt = c_cnt c + 1\<rparr>
     }"

definition by_hostname :: "resolver \<Rightarrow> int \<Rightarrow> int8 list \<Rightarrow> cands \<Rightarrow> cands option" where
  "by_hostname r af hostname c =
     do {
       (status, _, ai) \<leftarrow> (if hostname \<noteq> [] then em_getaddrinfo r af hostname 1 else Some (EM_ERESOLVE, 1, []));
       if status = EM_SUCC then do {
         e \<leftarrow> mem_get ai 0;
         c1 \<leftarrow> new_cand (ai_addr e) WEIGHT_HOSTNAME c;
         a \<leftarrow> mem_get (c_addr c1) (c_cnt c);
         (_, a') \<leftarrow> em_sockaddr_set_port a 0;
         Some (c1\<lparr>c_addr := (c_addr c1)[c_cnt c := a']\<rparr>)
       }
       else Some c
     }"

definition by_default_route ::
  "'s sock_os \<Rightarrow> resolver \<Rightarrow> uint8 list \<Rightarrow> int \<Rightarrow> em_sockaddr \<Rightarrow> cands \<Rightarrow> 's \<Rightarrow> (em_sockaddr \<times> cands \<times> 's) option" where
  "by_default_route os r stack af addr c s =
     (if \<not> c_cnt c < CAND_CNT then Some (addr, c, s)
      else do {
        (status, addr1, s1) \<leftarrow> em_getdefaultipinterface os r stack af addr s;
        if status = EM_SUCC then do {
          (_, addr2) \<leftarrow> em_sockaddr_set_port addr1 0;
          i \<leftarrow> find_cand (take (c_cnt c) (c_addr c)) addr2 0;
          if i \<ge> c_cnt c then do { c' \<leftarrow> new_cand addr2 WEIGHT_DEF_ROUTE c; Some (addr2, c', s1) }
          else do { ws \<leftarrow> add_weight i WEIGHT_DEF_ROUTE (c_weight c); Some (addr2, c\<lparr>c_weight := ws\<rparr>, s1) }
        }
        else Some (addr1, c, s1)
      })"

fun clear_ports :: "em_sockaddr list \<Rightarrow> em_sockaddr list option" where
  "clear_ports [] = Some []"
| "clear_ports (a # as) = do { (_, a') \<leftarrow> em_sockaddr_set_port a 0; as' \<leftarrow> clear_ports as; Some (a' # as') }"

text \<open>The candidates so far gain or lose weight by being among the interfaces.\<close>

fun weigh_by_interfaces :: "em_sockaddr list \<Rightarrow> em_sockaddr list \<Rightarrow> nat \<Rightarrow> int list \<Rightarrow> int list option" where
  "weigh_by_interfaces ifs [] i ws = Some ws"
| "weigh_by_interfaces ifs (a # as) i ws =
     do {
       j \<leftarrow> find_same a ifs 0;
       ws' \<leftarrow> add_weight i (if j = length ifs then - WEIGHT_INTERFACE else WEIGHT_INTERFACE) ws;
       weigh_by_interfaces ifs as (i + 1) ws'
     }"

text \<open>The interfaces at \<open>start\<close> and behind it that are not candidates yet become candidates.\<close>

fun add_interfaces :: "nat \<Rightarrow> nat \<Rightarrow> cands \<Rightarrow> cands option" where
  "add_interfaces start 0 c = Some c"
| "add_interfaces start (Suc n) c =
     do {
       a \<leftarrow> mem_get (c_addr c) start;
       j \<leftarrow> find_same a (take (c_cnt c) (c_addr c)) 0;
       c' \<leftarrow> (if j = c_cnt c then new_cand a WEIGHT_INTERFACE c else Some c);
       add_interfaces (start + 1) n c'
     }"

definition by_interfaces ::
  "'s sock_os \<Rightarrow> resolver \<Rightarrow> uint8 list \<Rightarrow> int \<Rightarrow> cands \<Rightarrow> 's \<Rightarrow> (cands \<times> 's) option" where
  "by_interfaces os r stack af c s =
     (if \<not> c_cnt c < CAND_CNT then Some (c, s)
      else do {
        let start = c_cnt c;
        (status, n, ifs, s1) \<leftarrow> em_enum_ip_interface os r stack af (CAND_CNT - start) (drop start (c_addr c)) s;
        let as1 = take start (c_addr c) @ ifs;
        if status = EM_SUCC \<and> n \<noteq> 0 then do {
          cleared \<leftarrow> clear_ports (take n (drop start as1));
          as2 \<leftarrow> mem_blit as1 start cleared;
          ws \<leftarrow> weigh_by_interfaces cleared (take start as2) 0 (c_weight c);
          c' \<leftarrow> add_interfaces start n (c\<lparr>c_addr := as2, c_weight := ws\<rparr>);
          Some (c', s1)
        }
        else Some (c\<lparr>c_addr := as1\<rparr>, s1)
      })"

fun spec_weight :: "(uint32 \<times> uint32 \<times> int) list \<Rightarrow> uint32 \<Rightarrow> int" where
  "spec_weight [] a = 0"
| "spec_weight ((pa, pm, w) # t) a = (if a AND pm = pa then w else spec_weight t a)"

fun adjust_ipv4 :: "em_sockaddr list \<Rightarrow> int list \<Rightarrow> int list option" where
  "adjust_ipv4 (c # cs) (w # ws) =
     do { a \<leftarrow> load32 c 4; ws' \<leftarrow> adjust_ipv4 cs ws; Some ((w + spec_weight spec_ipv4 (em_ntohl a)) # ws') }"
| "adjust_ipv4 [] ws = Some ws"
| "adjust_ipv4 (c # cs) [] = None"

fun adjust_ipv6 :: "em_sockaddr list \<Rightarrow> int list \<Rightarrow> int list option" where
  "adjust_ipv6 (c # cs) (w # ws) =
     do {
       a \<leftarrow> mem_slice c 8 16;
       ws' \<leftarrow> adjust_ipv6 cs ws;
       Some ((w + (\<Sum>(pa, pm, v) \<leftarrow> spec_ipv6. if map2 (AND) a pm = pa then v else 0)) # ws')
     }"
| "adjust_ipv6 [] ws = Some ws"
| "adjust_ipv6 (c # cs) [] = None"

text \<open>The loop that picks a candidate: the first of those with the highest weight, unless it is too low.\<close>

fun select_cand :: "int list \<Rightarrow> nat \<Rightarrow> (nat \<times> int) option \<Rightarrow> nat option" where
  "select_cand [] i sel = map_option fst sel"
| "select_cand (w # ws) i sel =
     (if w < MIN_WEIGHT then select_cand ws (i + 1) sel
      else case sel of
        None \<Rightarrow> select_cand ws (i + 1) (Some (i, w))
      | Some (j, v) \<Rightarrow> select_cand ws (i + 1) (if w > v then Some (i, w) else Some (j, v)))"

text \<open>The last part: special addresses, selection and the loopback address as a last resort.\<close>

definition choose_cand :: "int \<Rightarrow> em_sockaddr \<Rightarrow> cands \<Rightarrow> (emlib_ret_t \<times> em_sockaddr) option" where
  "choose_cand af addr c =
     (if af \<noteq> EM_AF_INET \<and> af \<noteq> EM_AF_INET6 then Some (EM_EAFNOTSUP, addr)
      else do {
        ws \<leftarrow> (if af = EM_AF_INET then adjust_ipv4 (take (c_cnt c) (c_addr c)) (take (c_cnt c) (c_weight c))
               else adjust_ipv6 (take (c_cnt c) (c_addr c)) (take (c_cnt c) (c_weight c)));
        case select_cand ws 0 None of
          Some i \<Rightarrow> do { a \<leftarrow> mem_get (c_addr c) i; addr' \<leftarrow> em_sockaddr_copy_addr addr a; Some (EM_SUCC, addr') }
        | None \<Rightarrow>
            if af = EM_AF_INET then do { addr' \<leftarrow> mem_blit addr 4 (le32 (em_htonl 0x7F000001)); Some (EM_SUCC, addr') }
            else do { addr' \<leftarrow> mem_blit addr 8 (replicate 15 0 @ [1]); Some (EM_SUCC, addr') }
      })"

definition em_gethostip ::
  "'s sock_os \<Rightarrow> resolver \<Rightarrow> uint8 list \<Rightarrow> int8 list \<Rightarrow> int \<Rightarrow> em_sockaddr \<Rightarrow> 's \<Rightarrow> (emlib_ret_t \<times> em_sockaddr \<times> 's) option" where
  "em_gethostip os r stack hostname af addr s =
     do {
       addr0 \<leftarrow> mem_blit addr 0 (le16 (of_int af));
       let c0 = \<lparr>c_addr = replicate CAND_CNT (le16 (of_int af) @ replicate 26 0), c_weight = replicate CAND_CNT 0, c_cnt = 0\<rparr>;
       c1 \<leftarrow> by_hostname r af hostname c0;
       (addr1, c2, s1) \<leftarrow> by_default_route os r stack af addr0 c1 s;
       (c3, s2) \<leftarrow> by_interfaces os r stack af c2 s1;
       (status, addr2) \<leftarrow> choose_cand af addr1 c3;
       Some (status, addr2, s2)
     }"

section \<open>Other helpers\<close>

text \<open>
  \<open>em_sockaddr_synthesize\<close> makes a text from the buffer it let \<open>em_sockaddr_print\<close> fill, whatever that
  answered; \<open>ip_addr_buf\<close> is what the buffer held before, and has to have a NUL.
\<close>

definition em_sockaddr_synthesize ::
  "(uint16 \<Rightarrow> int8 list) \<Rightarrow> resolver \<Rightarrow> int8 list \<Rightarrow> int \<Rightarrow> em_sockaddr option \<Rightarrow> em_sockaddr option \<Rightarrow>
   (emlib_ret_t \<times> em_sockaddr option) option" where
  "em_sockaddr_synthesize fmt_port r ip_addr_buf dst_af dst src =
     (case (src, dst) of
        (Some sa, Some d) \<Rightarrow> do {
          f \<leftarrow> sa_family sa;
          if dst_af = f then do { d' \<leftarrow> em_sockaddr_cp d sa; Some (EM_SUCC, Some d') }
          else do {
            (_, buf) \<leftarrow> em_sockaddr_print fmt_port sa ip_addr_buf 46 0;
            ip_addr \<leftarrow> (if 0 \<in> set buf then Some (c_string buf) else None);
            (status, n, ai) \<leftarrow> em_getaddrinfo r dst_af ip_addr 1;
            if status = EM_SUCC \<and> n > 0 then do {
              e \<leftarrow> mem_get ai 0;
              d1 \<leftarrow> em_sockaddr_cp d (ai_addr e);
              port \<leftarrow> em_sockaddr_get_port sa;
              (_, d2) \<leftarrow> em_sockaddr_set_port d1 port;
              Some (status, Some d2)
            }
            else Some (status, dst)
          }
        }
      | _ \<Rightarrow> Some (EM_EINVAL, dst))"

text \<open>\<open>snprintf\<close> of the host, in brackets if it is an IPv6 address, and the port.\<close>

definition em_addr_str_print ::
  "(int \<Rightarrow> int8 list) \<Rightarrow> int8 list \<Rightarrow> int \<Rightarrow> int8 list \<Rightarrow> nat \<Rightarrow> uint32 \<Rightarrow> int8 list option" where
  "em_addr_str_print fmt_port host_str port buf sz flag =
     do {
       (status, _) \<leftarrow> em_inet_pton EM_AF_INET6 (Some host_str) (replicate 16 0);
       let v6 = status = EM_SUCC;
       let text = (if v6 then [0x5B] else []) @ c_string host_str @ (if v6 then [0x5D] else []) @
         (if flag AND 1 \<noteq> 0 then 0x3A # fmt_port port else []);
       if sz = 0 then Some buf else mem_blit buf 0 (take (sz - 1) text @ [0])
     }"

section \<open>Binding to a random port\<close>

text \<open>
  An attempt of \<open>em_sock_bind_random\<close>: the address with another port, which is at most the range above the
  base port, in 16 bits.
\<close>

definition bind_attempt ::
  "'s sock_os \<Rightarrow> int \<Rightarrow> em_sockaddr \<Rightarrow> int \<Rightarrow> uint16 \<Rightarrow> uint16 \<Rightarrow> emlib_ret_t \<Rightarrow> 's \<Rightarrow> bool" where
  "bind_attempt os fd addr len base span status s' \<longleftrightarrow>
     (\<exists>a k s1. sockaddr_ok a \<and> sa_family a = sa_family addr \<and> addr_bytes a = addr_bytes addr \<and> k \<le> unat span \<and>
        em_sockaddr_get_port a = Some (base + of_nat k) \<and> em_sock_bind os fd (Some a) len s1 = (status, s'))"

lemma bind_tries_spec:
  assumes "sockaddr_ok a" "sa_family a = sa_family addr" "addr_bytes a = addr_bytes addr"
  shows "\<exists>st' s'. bind_tries os fd a len base span n st s = Some (st', s') \<and>
    (n = 0 \<and> st' = st \<and> s' = s \<or> bind_attempt os fd addr len base span st' s')"
  using assms
proof (induction n arbitrary: a st s)
  case (Suc n)
  obtain v s1 where rand: "os_rand os s = (v, s1)" by (cases "os_rand os s")
  define k where "k = v mod Suc (unat span)"
  have k: "k \<le> unat span" unfolding k_def using mod_less_divisor [of "Suc (unat span)" v] by simp
  have port: "of_nat (unat base + k) = base + (of_nat k :: uint16)" by simp
  obtain a' where a': "em_sockaddr_set_port a (base + of_nat k) = Some (EM_SUCC, a')" "sockaddr_ok a'"
    "em_sockaddr_get_port a' = Some (base + of_nat k)" "addr_bytes a' = addr_bytes a" "sa_family a' = sa_family a"
    using set_port_keeps [OF Suc.prems(1)] by blast
  obtain st2 s2 where bind: "em_sock_bind os fd (Some a') len s1 = (st2, s2)" by (cases "em_sock_bind os fd (Some a') len s1")
  have attempt: "bind_attempt os fd addr len base span st2 s2"
    unfolding bind_attempt_def using a' k bind Suc.prems by (intro exI [of _ a'] exI [of _ k] exI [of _ s1]) simp
  have step: "bind_tries os fd a len base span (Suc n) st s =
      (if st2 = EM_SUCC then Some (st2, s2) else bind_tries os fd a' len base span n st2 s2)"
    using rand a'(1) bind by (simp add: Let_def k_def [symmetric] port del: of_nat_add)
  show ?case
  proof (cases "st2 = EM_SUCC")
    case True
    then show ?thesis using step attempt by simp
  next
    case False
    from Suc.IH [of a' st2 s2] a'(2,4,5) Suc.prems(2,3) obtain st' s' where
      "bind_tries os fd a' len base span n st2 s2 = Some (st', s')"
      "n = 0 \<and> st' = st2 \<and> s' = s2 \<or> bind_attempt os fd addr len base span st' s'" by auto
    with step False attempt show ?thesis by auto
  qed
qed simp

text \<open>
  Binding to a random port.  On a well-formed address with a base port and a range, the call returns after
  at most \<open>max_try\<close> attempts, and the answer is that of its last attempt: a bind to the given address with a
  port from the base up to the range above it, in 16 bits.  With no attempt allowed it answers success and
  has not bound at all.
\<close>
lemma bind_random_attempts:
  assumes "sockaddr_ok addr" "length stack = 28" "em_sockaddr_get_port addr = Some base" "base \<noteq> 0" "span \<noteq> 0"
  shows "\<exists>st s' len. em_sockaddr_get_len addr = Some len \<and>
    em_sock_bind_random os fd stack (Some addr) span max_try s = Some (st, s') \<and>
    (if max_try = 0 then st = EM_SUCC \<and> s' = s else bind_attempt os fd addr (int len) base span st s')"
proof -
  obtain len where len: "em_sockaddr_get_len addr = Some len"
    using assms(1) by (auto simp: sockaddr_ok_def em_sockaddr_get_len_def)
  obtain a where a: "em_sockaddr_cp stack addr = Some a" "sockaddr_ok a" "sa_family a = sa_family addr"
    "addr_bytes a = addr_bytes addr"
    using cp_fresh [OF assms(2,1)] by blast
  from bind_tries_spec [OF a(2-4), of os fd "int len" base span "unat max_try" EM_SUCC s] obtain st s' where
    "bind_tries os fd a (int len) base span (unat max_try) EM_SUCC s = Some (st, s')"
    "unat max_try = 0 \<and> st = EM_SUCC \<and> s' = s \<or> bind_attempt os fd addr (int len) base span st s'" by blast
  then show ?thesis
    using len a(1) assms(3-5)
    by (auto simp: em_sock_bind_random_def unat_eq_0)
qed

definition free_os :: "(em_sockaddr list) sock_os" where
  "free_os = \<lparr>os_socket = (\<lambda>s _ _ _. (Inr 3, s)), os_bind = (\<lambda>s _ a _. (0, a # s)), os_connect = (\<lambda>s _ _ _. (0, s)),
     os_close = (\<lambda>s _. (0, s)), os_getsockname = (\<lambda>s _ _. (Inr (take 16 (ex_addr 0x0500000A 9)), s)),
     os_getpeername = (\<lambda>s _ _. (Inl 107, s)), os_send = (\<lambda>s _ b _. (Inr (length b), s)),
     os_sendto = (\<lambda>s _ b _ _ _. (Inr (length b), s)), os_recvfrom = (\<lambda>s _ _ _ _. (Inl 11, s)),
     os_getsockopt = (\<lambda>s _ _ _ _. (Inl 92, s)), os_setsockopt = (\<lambda>s _ _ _ _. (92, s)), os_shutdown = (\<lambda>s _ _. (0, s)),
     os_listen = (\<lambda>s _ _. (0, s)), os_accept = (\<lambda>s _ _. (Inl 11, s)), os_rand = (\<lambda>s. (7, s))\<rparr>"

lemma bind_random_attempts_witness:
  "\<exists>st s'. em_sock_bind_random free_os 3 (replicate 28 0) (Some (ex_addr 0 6000)) 10 5 [] = Some (st, s') \<and>
    bind_attempt free_os 3 (ex_addr 0 6000) 16 6000 10 st s'"
proof -
  have port: "em_sockaddr_get_port (ex_addr 0 6000) = Some 6000" and len: "em_sockaddr_get_len (ex_addr 0 6000) = Some 16"
    by code_simp+
  from bind_random_attempts [OF ex_addr_ok _ port, of "replicate 28 0" 10 free_os 3 5 "[]"] len show ?thesis by auto
qed

text \<open>
  The sum of the base port and the offset is cut to 16 bits: above port 65535 the attempts go on at port 0,
  which the system takes for any port, and the lowest ports.
\<close>

lemma bind_random_wraps:
  assumes "os_rand os s = (1, s1)" "em_sockaddr_cp stack addr = Some a" "em_sockaddr_get_len addr = Some len"
    and "em_sockaddr_get_port addr = Some 65535" "em_sockaddr_set_port a 0 = Some (EM_SUCC, a0)"
    and "em_sock_bind os fd (Some a0) (int len) s1 = (EM_SUCC, s2)"
  shows "em_sock_bind_random os fd stack (Some addr) 1 1 s = Some (EM_SUCC, s2)"
proof -
  have "bind_tries os fd a (int len) 65535 1 (Suc 0) EM_SUCC s = Some (EM_SUCC, s2)"
  proof -
    have "(65536 :: uint16) = 0" by simp
    with assms(5) have "em_sockaddr_set_port a 65536 = Some (EM_SUCC, a0)" by metis
    with assms show ?thesis by simp
  qed
  with assms show ?thesis by (simp add: em_sock_bind_random_def)
qed

section \<open>Choosing the address of the host\<close>

text \<open>The selection is the first of the highest of the weights that are not too low.\<close>

definition best_index :: "int list \<Rightarrow> nat \<Rightarrow> bool" where
  "best_index ws i \<longleftrightarrow> i < length ws \<and> MIN_WEIGHT \<le> ws ! i \<and> (\<forall>j < length ws. ws ! j \<le> ws ! i) \<and>
     (\<forall>j < i. ws ! j < ws ! i)"

lemma select_cand_Some:
  assumes "v = ws ! j" "j < k" "\<forall>l < k. k \<le> length ws \<and> ws ! l \<le> v" "\<forall>l < j. ws ! l < v" "MIN_WEIGHT \<le> v" "k \<le> length ws"
  shows "\<exists>i. select_cand (drop k ws) k (Some (j, v)) = Some i \<and> best_index ws i"
  using assms
proof (induction "length ws - k" arbitrary: k j v)
  case 0
  then show ?case by (auto simp: best_index_def intro!: exI [of _ j])
next
  case (Suc n)
  then have k: "k < length ws" by simp
  then have drop: "drop k ws = ws ! k # drop (Suc k) ws" by (rule Cons_nth_drop_Suc [symmetric])
  show ?case
  proof (cases "ws ! k > v")
    case True
    then have "\<exists>i. select_cand (drop (Suc k) ws) (Suc k) (Some (k, ws ! k)) = Some i \<and> best_index ws i"
      using Suc.prems Suc.hyps(2) k
      by (intro Suc.hyps(1)) (auto simp: less_Suc_eq intro: le_less_trans less_imp_le)
    with True Suc.prems(5) show ?thesis by (simp add: drop)
  next
    case False
    then have "\<exists>i. select_cand (drop (Suc k) ws) (Suc k) (Some (j, v)) = Some i \<and> best_index ws i"
      using Suc.prems Suc.hyps(2) k by (intro Suc.hyps(1)) (auto simp: less_Suc_eq)
    with False show ?thesis by (simp add: drop)
  qed
qed

lemma select_cand_spec:
  "(\<exists>i. select_cand ws 0 None = Some i \<and> best_index ws i) \<or> select_cand ws 0 None = None \<and> (\<forall>w \<in> set ws. w < MIN_WEIGHT)"
proof -
  have "k \<le> length ws \<Longrightarrow> \<forall>l < k. ws ! l < MIN_WEIGHT \<Longrightarrow>
      (\<exists>i. select_cand (drop k ws) k None = Some i \<and> best_index ws i) \<or>
      select_cand (drop k ws) k None = None \<and> (\<forall>w \<in> set ws. w < MIN_WEIGHT)" for k
  proof (induction "length ws - k" arbitrary: k)
    case 0
    then show ?case by (auto simp: in_set_conv_nth)
  next
    case (Suc n)
    then have k: "k < length ws" by simp
    then have drop: "drop k ws = ws ! k # drop (Suc k) ws" by (rule Cons_nth_drop_Suc [symmetric])
    show ?case
    proof (cases "ws ! k < MIN_WEIGHT")
      case True
      then show ?thesis using Suc k by (simp add: drop less_Suc_eq)
    next
      case False
      then have "\<exists>i. select_cand (drop (Suc k) ws) (Suc k) (Some (k, ws ! k)) = Some i \<and> best_index ws i"
        using Suc.prems k by (intro select_cand_Some) (auto simp: less_Suc_eq intro: le_less_trans less_imp_le)
      then show ?thesis using False by (simp add: drop)
    qed
  qed
  from this [of 0] show ?thesis by simp
qed

definition inet_ok :: "em_sockaddr \<Rightarrow> bool" where
  "inet_ok a \<longleftrightarrow> length a = 28 \<and> sa_family a = Some EM_AF_INET"

lemma inet_sockaddr: "inet_ok a \<Longrightarrow> sockaddr_ok a"
  by (simp add: inet_ok_def sockaddr_ok_def)

text \<open>The candidates in use are IPv4 addresses, and the arrays have their lengths.\<close>

definition cands_ok :: "cands \<Rightarrow> bool" where
  "cands_ok c \<longleftrightarrow> length (c_addr c) = CAND_CNT \<and> length (c_weight c) = CAND_CNT \<and> c_cnt c \<le> CAND_CNT \<and>
     (\<forall>a \<in> set (take (c_cnt c) (c_addr c)). inet_ok a)"

text \<open>The numeric IPv4 address, and a candidate's weight when those of the special addresses are added.\<close>

definition ip_of :: "em_sockaddr \<Rightarrow> uint32" where
  "ip_of a = em_ntohl (the (load32 a 4))"

definition final_weight :: "cands \<Rightarrow> nat \<Rightarrow> int" where
  "final_weight c i = c_weight c ! i + spec_weight spec_ipv4 (ip_of (c_addr c ! i))"

lemma load32_ok: "8 \<le> length a \<Longrightarrow> \<exists>w. load32 a 4 = Some w"
  by (simp add: load32_def mem)

lemma adjust_spec:
  assumes "\<forall>a \<in> set cs. inet_ok a" "length ws = length cs"
  shows "adjust_ipv4 cs ws = Some (map2 (\<lambda>c w. w + spec_weight spec_ipv4 (ip_of c)) cs ws)"
  using assms(2,1)
proof (induction ws cs rule: list_induct2)
  case (Cons w ws c cs)
  then obtain a where "load32 c 4 = Some a" using load32_ok [of c] by (auto simp: inet_ok_def)
  with Cons show ?case by (simp add: ip_of_def)
qed simp

lemma copy_inet:
  assumes "inet_ok a" "inet_ok b"
  shows "\<exists>a'. em_sockaddr_copy_addr a b = Some a' \<and> inet_ok a' \<and> ip_of a' = ip_of b"
proof -
  have len: "length a = 28" "length b = 28" and fam: "sa_family a = Some EM_AF_INET" "sa_family b = Some EM_AF_INET"
    using assms by (simp_all add: inet_ok_def)
  obtain d where d: "mem_slice b 4 4 = Some d" "length d = 4" using len by (simp add: mem)
  obtain a' where a': "mem_blit a 4 d = Some a'" "length a' = 28" using mem_blit_Some [of 4 d a] d(2) len by auto
  have "load32 a' 4 = load32 b 4" using load32_blit_bytes [OF a'(1) d(2)] load32_slice_at [OF d(1)] by simp
  then show ?thesis
    using d a' fam family_blit_other [OF a'(1)]
    by (simp add: em_sockaddr_copy_addr_def em_sockaddr_get_addr_def em_sockaddr_get_addr_len_def af inet_ok_def ip_of_def)
qed

text \<open>
  The choice: the first of the candidates of the highest weight, or 127.0.0.1 when all the weights are below
  the minimum.
\<close>

lemma choose_cand_spec:
  assumes "cands_ok c" "inet_ok addr"
  shows "\<exists>a. choose_cand EM_AF_INET addr c = Some (EM_SUCC, a) \<and> inet_ok a \<and>
    ((\<exists>i. best_index (map (final_weight c) [0..<c_cnt c]) i \<and> ip_of a = ip_of (c_addr c ! i)) \<or>
     (\<forall>i < c_cnt c. final_weight c i < MIN_WEIGHT) \<and> ip_of a = 0x7F000001)"
proof -
  let ?n = "c_cnt c" and ?ws = "map (final_weight c) [0..<c_cnt c]"
  have c: "length (c_addr c) = CAND_CNT" "length (c_weight c) = CAND_CNT" "?n \<le> CAND_CNT"
    "\<forall>a \<in> set (take ?n (c_addr c)). inet_ok a" using assms(1) by (simp_all add: cands_ok_def)
  have "adjust_ipv4 (take ?n (c_addr c)) (take ?n (c_weight c)) = Some ?ws"
    unfolding adjust_spec [OF c(4), of "take ?n (c_weight c)", unfolded length_take c(1,2), OF refl]
    using c(1-3) by (auto intro!: nth_equalityI simp: final_weight_def)
  then have run: "choose_cand EM_AF_INET addr c =
      (case select_cand ?ws 0 None of
         Some i \<Rightarrow> do { a \<leftarrow> mem_get (c_addr c) i; addr' \<leftarrow> em_sockaddr_copy_addr addr a; Some (EM_SUCC, addr') }
       | None \<Rightarrow> do { addr' \<leftarrow> mem_blit addr 4 (le32 (em_htonl 0x7F000001)); Some (EM_SUCC, addr') })"
    by (simp add: choose_cand_def)
  show ?thesis
  proof (cases "select_cand ?ws 0 None")
    case None
    obtain a where a: "mem_blit addr 4 (le32 (em_htonl 0x7F000001)) = Some a" "length a = 28"
      using mem_blit_Some [of 4 "le32 (em_htonl 0x7F000001)" addr] assms(2) by (auto simp: inet_ok_def)
    have "ip_of a = 0x7F000001" using load32_blit [OF a(1)] by (simp add: ip_of_def)
    moreover have "\<forall>i < ?n. final_weight c i < MIN_WEIGHT" using select_cand_spec [of ?ws] None by auto
    moreover have "inet_ok a" using a(2) assms(2) family_blit_other [OF a(1)] by (simp add: inet_ok_def)
    ultimately show ?thesis using run None a(1) by simp
  next
    case (Some i)
    then have best: "best_index ?ws i" using select_cand_spec [of ?ws] by auto
    then have i: "i < ?n" by (simp add: best_index_def)
    then have "inet_ok (c_addr c ! i)" using c nth_mem [of i "take ?n (c_addr c)"] by simp
    from copy_inet [OF assms(2) this] show ?thesis
      using run Some best i c by (auto simp: mem_get_def)
  qed
qed

text \<open>A system that names the sockets by IPv4 addresses, as POSIX has it for sockets of that family, and whose
  errors are numbers of \<open>errno\<close>.\<close>

definition os_inet :: "'s sock_os \<Rightarrow> bool" where
  "os_inet os \<longleftrightarrow> (\<forall>s fd n b s'. os_getsockname os s fd n = (Inr b, s') \<longrightarrow>
     length b = 16 \<and> sa_family b = Some EM_AF_INET) \<and>
   (\<forall>s fd n e s'. os_getsockname os s fd n = (Inl e, s') \<longrightarrow> 0 < e \<and> e < 4096)"

lemma errno_not_success:
  assumes "0 < e" "e < 4096"
  shows "EM_RETURN_OS_ERROR (of_int e) \<noteq> EM_SUCC"
proof -
  have "uint (of_int e :: 32 word) = e" using assms by (simp add: unsigned_of_int take_bit_int_eq_self)
  then have "of_int e \<noteq> - EM_ERRNO_START_SYS" using assms(2) by (auto simp: errno)
  then show ?thesis by (rule return_os_error_nonzero)
qed

lemma blit_name:
  assumes "length a = 28" "length b = 16" "sa_family b = Some EM_AF_INET"
  shows "\<exists>a'. mem_blit a 0 b = Some a' \<and> inet_ok a' \<and> load32 a' 4 = load32 b 4"
proof -
  obtain a' where a': "mem_blit a 0 b = Some a'" "length a' = 28"
    using mem_blit_Some [of 0 b a] assms by auto
  have get: "i < 16 \<Longrightarrow> mem_get a' i = mem_get b i" for i
    using mem_get_blit [OF a'(1), of i] assms(2) by (simp add: mem_get_def)
  show ?thesis using a' assms(3) get by (simp add: inet_ok_def sa_family_def load16_def load32_def)
qed

text \<open>What is known about a call that is to write an interface's address over \<open>a\<close>: \<open>d\<close> is that address.\<close>

definition name_result :: "em_sockaddr \<Rightarrow> uint32 option \<Rightarrow> emlib_ret_t \<Rightarrow> em_sockaddr \<Rightarrow> bool" where
  "name_result a d st a' \<longleftrightarrow> (a' = a \<or> inet_ok a') \<and>
     (case d of None \<Rightarrow> st \<noteq> EM_SUCC | Some w \<Rightarrow> st = EM_SUCC \<and> inet_ok a' \<and> ip_of a' = w)"

lemma connect_for_name_ok:
  assumes "os_inet os" "sa_family d = Some EM_AF_INET"
  shows "\<exists>x s'. \<forall>a. length a = 28 \<longrightarrow>
    (\<exists>st a' t. connect_for_name os f d a s = Some (st, a', t, s') \<and> name_result a x st a')"
proof -
  obtain st fd s1 where sock: "em_sock_socket os f EM_SOCK_DGRAM 0 True s = (st, fd, s1)" by (rule prod_cases3)
  obtain st2 s2 where conn: "em_sock_connect os (the fd) d 16 s1 = (st2, s2)" by (cases "em_sock_connect os (the fd) d 16 s1")
  have len: "em_sockaddr_get_len d = Some 16" using assms(2) by (simp add: em_sockaddr_get_len_def af)
  obtain n s3 where name: "os_getsockname os s2 (the fd) 28 = (n, s3)" by (cases "os_getsockname os s2 (the fd) 28")
  let ?s = "snd (em_sock_close os (the fd) s3)"
  show ?thesis
  proof (cases "st = EM_SUCC \<and> st2 = EM_SUCC")
    case False
    then show ?thesis using sock conn len
      by (intro exI [of _ None] exI [of _ "if st = EM_SUCC then snd (em_sock_close os (the fd) s2) else s1"])
        (auto simp: connect_for_name_def name_result_def)
  next
    case True
    show ?thesis
    proof (cases n)
      case (Inl e)
      moreover have "EM_RETURN_OS_ERROR (of_int e) \<noteq> EM_SUCC"
        using assms(1) name unfolding os_inet_def Inl by (intro errno_not_success) blast+
      ultimately show ?thesis using sock conn len name True
        by (intro exI [of _ None] exI [of _ ?s])
          (auto simp: connect_for_name_def em_sock_getsockname_def name_result_def Let_def)
    next
      case (Inr b)
      then have b: "length b = 16" "sa_family b = Some EM_AF_INET" using assms(1) name unfolding os_inet_def by blast+
      let ?zero = "memcmp_bytes (take 4 (drop 4 b)) (replicate 4 0) = 0"
      have "\<exists>st a' t. connect_for_name os f d a s = Some (st, a', t, ?s) \<and>
          name_result a (if ?zero then None else Some (ip_of b)) st a'" if a: "length a = 28" for a
      proof -
        obtain a' where a': "mem_blit a 0 b = Some a'" "inet_ok a'" "load32 a' 4 = load32 b 4"
          using blit_name [OF a b] by blast
        have same: "take 16 a' = b" using mem_blit_take [OF a'(1)] b(1) by simp
        have "take 4 (drop 4 a') = take 4 (drop 4 b)"
          using arg_cong [OF same, of "\<lambda>xs. drop 4 (take 8 xs)"] by (simp add: take_drop)
        then have "connect_for_name os f d a s =
            Some (if ?zero then (EM_ENOTFOUND, a', None, ?s) else (EM_SUCC, a', Some d, ?s))"
          using sock conn len name True Inr a'
          by (simp add: connect_for_name_def em_sock_getsockname_def em_sockaddr_get_addr_def em_sockaddr_get_addr_len_def
              inet_ok_def compare_at_def mem_slice_def af Let_def)
        then show ?thesis using a'(2,3) by (cases ?zero) (simp_all add: name_result_def ip_of_def errno)
      qed
      then show ?thesis by blast
    qed
  qed
qed

text \<open>
  The address the socket is connected to: \<open>em_inet_pton\<close> fails, so it is that of \<open>1.1.1.1\<close> whatever the
  destination is.
\<close>

lemma null_init:
  assumes "length a = 28"
  shows "\<exists>st d. em_sockaddr_init r EM_AF_INET a None 53 = Some (st, d) \<and> inet_ok d"
proof -
  obtain a1 where a1: "mem_blit a 0 (le16 (of_int EM_AF_INET)) = Some a1" "length a1 = 28"
    using mem_blit_Some [of 0 "le16 (of_int EM_AF_INET)" a] assms by auto
  obtain a2 where a2: "mem_blit a1 8 (replicate 8 0) = Some a2" "length a2 = 28"
    using mem_blit_Some [of 8 "replicate 8 0" a1] a1(2) by auto
  obtain a3 where a3: "mem_blit a2 2 (le16 (em_htons 53)) = Some a3" "length a3 = 28"
    using mem_blit_Some [of 2 "le16 (em_htons 53)" a2] a2(2) by auto
  obtain a4 where a4: "mem_blit a3 0 (le16 (of_int EM_AF_INET)) = Some a4" "length a4 = 28"
    using mem_blit_Some [of 0 "le16 (of_int EM_AF_INET)" a3] a3(2) by auto
  obtain a5 where a5: "mem_blit a4 8 (replicate 8 0) = Some a5" "length a5 = 28"
    using mem_blit_Some [of 8 "replicate 8 0" a4] a4(2) by auto
  obtain a6 where a6: "mem_blit a5 4 (le32 0) = Some a6" "length a6 = 28"
    using mem_blit_Some [of 4 "le32 0" a5] a5(2) by auto
  have "sa_family a6 = Some EM_AF_INET"
    using family_blit [OF a4(1)] family_blit_other [OF a5(1)] family_blit_other [OF a6(1)] by (simp add: af)
  then show ?thesis
    using a1 a2 a3 a4 a5 a6
    by (simp add: em_sockaddr_init_def em_sockaddr_in_init_def em_sockaddr_in_set_port_def em_sockaddr_in_set_str_addr_def
        inet_ok_def EM_MAX_HOSTNAME_def)
qed

lemma pton_inet:
  assumes "length old = 16" "cs \<noteq> []"
  shows "\<exists>st b. em_inet_pton EM_AF_INET (Some cs) old = Some (st, b) \<and> st \<noteq> EM_SUCC \<and> length b = 16"
  using assms mem_blit_Some [of 0 "le32 EM_INADDR_NONE" old]
  by (auto simp: em_inet_pton_def errno af)

lemma getipinterface_run:
  assumes "resolver_ok r" "length stack = 28" "cs \<noteq> []"
  shows "\<exists>st d. inet_ok d \<and> (st = EM_SUCC \<or> host_address r (ascii ''1.1.1.1'') = None) \<and>
    (\<forall>a. em_getipinterface os r stack EM_AF_INET (Some cs) a False s =
      (if st \<noteq> EM_SUCC then Some (st, a, None, s) else connect_for_name os EM_AF_INET d a s))"
proof -
  obtain st0 d0 where d0: "em_sockaddr_init r EM_AF_INET stack None 53 = Some (st0, d0)" "inet_ok d0"
    using null_init [OF assms(2)] by blast
  then have p: "em_sockaddr_get_addr d0 = Some (Some 4)" "length d0 = 28"
    by (simp_all add: inet_ok_def em_sockaddr_get_addr_def af)
  obtain old where old: "mem_slice d0 4 16 = Some old" "length old = 16" using p(2) by (simp add: mem)
  obtain st1 b where b: "em_inet_pton EM_AF_INET (Some cs) old = Some (st1, b)" "st1 \<noteq> EM_SUCC" "length b = 16"
    using pton_inet [OF old(2) assms(3)] by blast
  obtain d1 where d1: "mem_blit d0 4 b = Some d1" "length d1 = 28" using mem_blit_Some [of 4 b d0] p(2) b(3) by auto
  have "16 \<le> length d1" "length (ascii ''1.1.1.1'') < 128" "ascii ''1.1.1.1'' \<noteq> []" using d1(2) by (simp_all add: ascii_def)
  from in_init_spec [OF this assms(1), of 53] obtain st d where
    d: "em_sockaddr_in_init r (Some d1) (Some (ascii ''1.1.1.1'')) 53 = Some (st, d)" "length d = 28"
    "sa_family d = Some EM_AF_INET"
    "case host_address r (ascii ''1.1.1.1'') of None \<Rightarrow> st = EM_ERESOLVE
     | Some w \<Rightarrow> st = EM_SUCC \<and> em_sockaddr_in_get_addr d = Some (em_ntohl w)"
    using d1(2) by metis
  have "em_getipinterface os r stack EM_AF_INET (Some cs) a False s =
      (if st \<noteq> EM_SUCC then Some (st, a, None, s) else connect_for_name os EM_AF_INET d a s)" for a
    using d0(1) p(1) old(1) b(1,2) d1(1) d(1) by (simp add: em_getipinterface_def em_sockaddr_init_def)
  moreover have "st = EM_SUCC \<or> host_address r (ascii ''1.1.1.1'') = None"
    using d(4) by (cases "host_address r (ascii ''1.1.1.1'')") simp_all
  ultimately show ?thesis using d(2,3) unfolding inet_ok_def by blast
qed

text \<open>The interface of the default route: what the call answers depends on the system only.\<close>

definition route_of :: "'s sock_os \<Rightarrow> resolver \<Rightarrow> uint8 list \<Rightarrow> 's \<Rightarrow> uint32 option \<Rightarrow> 's \<Rightarrow> bool" where
  "route_of os r stack s x s' \<longleftrightarrow> (\<forall>a. length a = 28 \<longrightarrow>
     (\<exists>st a'. em_getdefaultipinterface os r stack EM_AF_INET a s = Some (st, a', s') \<and> name_result a x st a'))"

lemma default_interface_ok:
  assumes "os_inet os" "resolver_ok r" "length stack = 28"
  shows "\<exists>x s'. route_of os r stack s x s'"
proof -
  have "ascii ''1.1.1.1'' \<noteq> []" by (simp add: ascii_def)
  from getipinterface_run [OF assms(2,3) this, of os s] obtain st d where d: "inet_ok d"
    "\<forall>a. em_getipinterface os r stack EM_AF_INET (Some (ascii ''1.1.1.1'')) a False s =
      (if st \<noteq> EM_SUCC then Some (st, a, None, s) else connect_for_name os EM_AF_INET d a s)" by blast
  then have "sa_family d = Some EM_AF_INET" unfolding inet_ok_def by blast
  from connect_for_name_ok [OF assms(1) this, of EM_AF_INET s] obtain x s2 where c:
    "\<forall>a. length a = 28 \<longrightarrow> (\<exists>st a' t. connect_for_name os EM_AF_INET d a s = Some (st, a', t, s2) \<and> name_result a x st a')"
    by blast
  have run: "em_getdefaultipinterface os r stack EM_AF_INET a s =
      (if st \<noteq> EM_SUCC then Some (st, a, s)
       else do { (st2, a2, _, s2) \<leftarrow> connect_for_name os EM_AF_INET d a s; Some (st2, a2, s2) })" for a
    by (simp only: em_getdefaultipinterface_def refl if_True d(2) [rule_format]) simp
  show ?thesis
  proof (cases "st = EM_SUCC")
    case True
    have "\<exists>st a'. em_getdefaultipinterface os r stack EM_AF_INET a s = Some (st, a', s2) \<and> name_result a x st a'"
      if "length a = 28" for a
    proof -
      obtain st' a' t where "connect_for_name os EM_AF_INET d a s = Some (st', a', t, s2)" "name_result a x st' a'"
        using c \<open>length a = 28\<close> by blast
      then show ?thesis using True by (simp add: run)
    qed
    then show ?thesis unfolding route_of_def by blast
  next
    case False
    then show ?thesis unfolding route_of_def by (intro exI [of _ None] exI [of _ s]) (simp add: run name_result_def)
  qed
qed

section \<open>The host's address, abstractly\<close>

text \<open>Addresses with the port 0 compare equal when they have the same number.\<close>

definition cell_ok :: "em_sockaddr \<Rightarrow> bool" where
  "cell_ok a \<longleftrightarrow> inet_ok a \<and> em_sockaddr_get_port a = Some 0"

lemma htonl_ntohl [simp]: "em_htonl (em_ntohl x) = x"
  using ntohl_htonl [of x] by (simp add: em_htonl_def em_ntohl_def)

lemma le32_of_bytes:
  "le32 (ucast (b0 :: uint8) OR push_bit 8 (ucast (b1 :: uint8)) OR push_bit 16 (ucast (b2 :: uint8)) OR
     push_bit 24 (ucast (b3 :: uint8))) = [b0, b1, b2, b3]"
  unfolding le32_def by (simp; intro conjI; rule bit_word_eqI; auto simp: bit_simps dest: bit_imp_le_length)

lemma le32_inj:
  assumes "le32 v = le32 w"
  shows "v = w"
proof -
  have "v = ucast (ucast v :: uint8) OR push_bit 8 (ucast (ucast (drop_bit 8 v) :: uint8)) OR
      push_bit 16 (ucast (ucast (drop_bit 16 v) :: uint8)) OR push_bit 24 (ucast (ucast (drop_bit 24 v) :: uint8))"
    by (rule word32_of_bytes [symmetric])
  also have "\<dots> = ucast (ucast w :: uint8) OR push_bit 8 (ucast (ucast (drop_bit 8 w) :: uint8)) OR
      push_bit 16 (ucast (ucast (drop_bit 16 w) :: uint8)) OR push_bit 24 (ucast (ucast (drop_bit 24 w) :: uint8))"
    using assms by (simp only: le32_def list.inject)
  also have "\<dots> = w" by (rule word32_of_bytes)
  finally show ?thesis .
qed

lemma bytes_of_ip:
  assumes "inet_ok a"
  shows "addr_bytes a = le32 (em_htonl (ip_of a))"
proof -
  have len: "length a = 28" and fam: "sa_family a = Some EM_AF_INET" using assms by (simp_all add: inet_ok_def)
  have "load32 a 4 = Some (ucast (a ! 4) OR push_bit 8 (ucast (a ! 5)) OR push_bit 16 (ucast (a ! 6)) OR push_bit 24 (ucast (a ! 7)))"
    using len by (simp add: load32_def mem_get_def)
  moreover have "take 4 (drop 4 a) = [a ! 4, a ! 5, a ! 6, a ! 7]"
    using len by (intro nth_equalityI) (auto simp: less_Suc_eq numeral_eq_Suc)
  ultimately show ?thesis using fam by (simp add: addr_bytes_def ip_of_def le32_of_bytes af)
qed

lemma cmp_cells:
  assumes "cell_ok a" "cell_ok b"
  shows "\<exists>k. em_sockaddr_cmp a b = Some k \<and> (k = 0 \<longleftrightarrow> ip_of a = ip_of b)"
proof -
  have ok: "inet_ok a" "inet_ok b" "em_sockaddr_get_port a = Some 0" "em_sockaddr_get_port b = Some 0"
    using assms by (simp_all add: cell_ok_def)
  let ?c = "memcmp_bytes (addr_bytes a) (addr_bytes b)"
  have "em_sockaddr_cmp a b = Some (if ?c \<noteq> 0 then ?c else 0)"
    using cmp_same_family [OF inet_sockaddr [OF ok(1)] inet_sockaddr [OF ok(2)]] ok by (simp add: inet_ok_def Let_def)
  moreover have "?c = 0 \<longleftrightarrow> addr_bytes a = addr_bytes b" by (rule memcmp_zero) (simp add: bytes_of_ip ok)
  moreover have "addr_bytes a = addr_bytes b \<longleftrightarrow> ip_of a = ip_of b"
  proof
    assume "addr_bytes a = addr_bytes b"
    then have "le32 (em_htonl (ip_of a)) = le32 (em_htonl (ip_of b))" by (simp add: bytes_of_ip ok)
    then have "em_htonl (ip_of a) = em_htonl (ip_of b)" by (rule le32_inj)
    from arg_cong [OF this, of em_ntohl] show "ip_of a = ip_of b" by simp
  qed (simp add: bytes_of_ip ok)
  ultimately show ?thesis by simp
qed

lemma find_cand_spec:
  assumes "\<forall>c \<in> set cs. cell_ok c" "cell_ok a"
  shows "find_cand cs a i = Some (i + length (takeWhile (\<lambda>c. ip_of c \<noteq> ip_of a) cs))"
  using assms
proof (induction cs arbitrary: i)
  case (Cons c cs)
  then obtain k where "em_sockaddr_cmp c a = Some k" "k = 0 \<longleftrightarrow> ip_of c = ip_of a" using cmp_cells [of c a] by auto
  with Cons show ?case by simp
qed simp

lemma find_same_spec:
  assumes "\<forall>c \<in> set cs. cell_ok c" "cell_ok a"
  shows "find_same a cs i = Some (i + length (takeWhile (\<lambda>c. ip_of c \<noteq> ip_of a) cs))"
  using assms
proof (induction cs arbitrary: i)
  case (Cons c cs)
  then obtain k where "em_sockaddr_cmp a c = Some k" "k = 0 \<longleftrightarrow> ip_of a = ip_of c" using cmp_cells [of a c] by auto
  with Cons show ?case by auto
qed simp

text \<open>
  The candidates as a list of numbers with weights.  \<open>bump\<close> gives weight to an address or adds it; \<open>weigh\<close>
  and \<open>include\<close> are the two loops over an interface's address.
\<close>

fun bump :: "uint32 \<Rightarrow> int \<Rightarrow> (uint32 \<times> int) list \<Rightarrow> (uint32 \<times> int) list" where
  "bump x d [] = [(x, d)]"
| "bump x d ((y, w) # l) = (if y = x then (y, w + d) # l else (y, w) # bump x d l)"

definition weigh :: "uint32 \<Rightarrow> (uint32 \<times> int) list \<Rightarrow> (uint32 \<times> int) list" where
  "weigh x l = map (\<lambda>(y, w). (y, if y = x then w + WEIGHT_INTERFACE else w - WEIGHT_INTERFACE)) l"

definition include_ip :: "uint32 \<Rightarrow> (uint32 \<times> int) list \<Rightarrow> (uint32 \<times> int) list" where
  "include_ip x l = (if x \<in> fst ` set l then l else l @ [(x, WEIGHT_INTERFACE)])"

text \<open>The candidates from the address of the host's name, that of the default route and that of the interface.\<close>

definition host_candidates :: "uint32 option \<Rightarrow> uint32 option \<Rightarrow> uint32 option \<Rightarrow> (uint32 \<times> int) list" where
  "host_candidates h d i =
     (let l1 = (case h of None \<Rightarrow> [] | Some x \<Rightarrow> [(x, WEIGHT_HOSTNAME)]);
          l2 = (case d of None \<Rightarrow> l1 | Some x \<Rightarrow> bump x WEIGHT_DEF_ROUTE l1)
      in (case i of None \<Rightarrow> l2 | Some x \<Rightarrow> include_ip x (weigh x l2)))"

definition special_weight :: "uint32 \<times> int \<Rightarrow> int" where
  "special_weight p = snd p + spec_weight spec_ipv4 (fst p)"

definition chosen :: "(uint32 \<times> int) list \<Rightarrow> uint32 \<Rightarrow> bool" where
  "chosen l x \<longleftrightarrow> (\<exists>i. best_index (map special_weight l) i \<and> x = fst (l ! i)) \<or>
     (\<forall>p \<in> set l. special_weight p < MIN_WEIGHT) \<and> x = 0x7F000001"

text \<open>The arrays hold such a list; behind it the weights are 0.\<close>

definition holds :: "cands \<Rightarrow> (uint32 \<times> int) list \<Rightarrow> bool" where
  "holds c l \<longleftrightarrow> length (c_addr c) = 8 \<and> c_cnt c = length l \<and> length l \<le> 8 \<and>
     (\<forall>a \<in> set (take (length l) (c_addr c)). cell_ok a) \<and> map ip_of (take (length l) (c_addr c)) = map fst l \<and>
     c_weight c = map snd l @ replicate (8 - length l) 0"

lemma copy_cell:
  assumes "cell_ok a" "inet_ok b"
  shows "\<exists>a'. em_sockaddr_copy_addr a b = Some a' \<and> cell_ok a' \<and> ip_of a' = ip_of b"
proof -
  have a: "inet_ok a" "em_sockaddr_get_port a = Some 0" using assms(1) by (simp_all add: cell_ok_def)
  from copy_inet [OF a(1) assms(2)] copy_addr_keeps [OF inet_sockaddr [OF a(1)] inet_sockaddr [OF assms(2)]] a(2)
  show ?thesis by (auto simp: cell_ok_def)
qed

lemma holds_weights: "holds c l \<Longrightarrow> i < 8 \<Longrightarrow> c_weight c ! i = (if i < length l then snd (l ! i) else 0)"
  by (simp add: holds_def nth_append)

lemma new_cand_holds:
  assumes "holds c l" "length l < 8" "cell_ok (c_addr c ! length l)" "inet_ok a"
  shows "\<exists>c' a'. new_cand a w c = Some c' \<and> holds c' (l @ [(ip_of a, w)]) \<and> cell_ok a' \<and>
    c_addr c' = (c_addr c)[length l := a']"
proof -
  obtain a' where a': "em_sockaddr_copy_addr (c_addr c ! length l) a = Some a'" "cell_ok a'" "ip_of a' = ip_of a"
    using copy_cell [OF assms(3,4)] by blast
  obtain k where k: "8 - length l = Suc k" "8 - Suc (length l) = k" using assms(2) by (cases "8 - length l") auto
  have c: "length (c_addr c) = 8" "c_cnt c = length l" "c_weight c = map snd l @ replicate (8 - length l) 0"
    "\<forall>a \<in> set (take (length l) (c_addr c)). cell_ok a" "map ip_of (take (length l) (c_addr c)) = map fst l"
    using assms(1) by (simp_all add: holds_def)
  let ?c = "\<lparr>c_addr = (c_addr c)[length l := a'], c_weight = map snd l @ w # replicate k 0, c_cnt = length l + 1\<rparr>"
  have "new_cand a w c = Some ?c"
    using c(1-3) k assms(2) a'(1)
    by (simp add: new_cand_def mem_get_def mem_set_def add_weight_def nth_append list_update_append)
  moreover have "take (Suc (length l)) ((c_addr c)[length l := a']) = take (length l) (c_addr c) @ [a']"
    using assms(2) c(1) by (simp add: take_Suc_conv_app_nth)
  then have "holds ?c (l @ [(ip_of a, w)])" using c k a' assms(2) by (simp add: holds_def)
  ultimately show ?thesis using a'(2) by auto
qed

lemma takeWhile_candidates:
  assumes "holds c l"
  shows "length (takeWhile (\<lambda>a. ip_of a \<noteq> x) (take (length l) (c_addr c))) = length (takeWhile (\<lambda>p. fst p \<noteq> x) l)"
proof -
  have "map ip_of (take (length l) (c_addr c)) = map fst l" using assms by (simp add: holds_def)
  from arg_cong [OF this, of "\<lambda>ys. length (takeWhile (\<lambda>y. y \<noteq> x) ys)"] show ?thesis by (simp add: takeWhile_map comp_def)
qed

lemma takeWhile_all: "x \<notin> fst ` set l \<Longrightarrow> length (takeWhile (\<lambda>p. fst p \<noteq> x) l) = length l"
  by (induction l) auto

lemma takeWhile_found: "x \<in> fst ` set l \<Longrightarrow> length (takeWhile (\<lambda>p. fst p \<noteq> x) l) < length l"
  by (induction l) auto

lemma bump_append: "x \<notin> fst ` set l \<Longrightarrow> bump x d l = l @ [(x, d)]"
  by (induction x d l rule: bump.induct) auto

lemma bump_update:
  "x \<in> fst ` set l \<Longrightarrow> j = length (takeWhile (\<lambda>p. fst p \<noteq> x) l) \<Longrightarrow> bump x d l = l[j := (fst (l ! j), snd (l ! j) + d)]"
  by (induction x d l arbitrary: j rule: bump.induct) auto

lemma holds_update:
  assumes "holds c l" "j < length l"
  shows "\<exists>ws. add_weight j d (c_weight c) = Some ws \<and> holds (c\<lparr>c_weight := ws\<rparr>) (l[j := (fst (l ! j), snd (l ! j) + d)])"
proof -
  have "c_weight c = map snd l @ replicate (8 - length l) 0" using assms(1) by (simp add: holds_def)
  then have "add_weight j d (c_weight c) = Some (map snd (l[j := (fst (l ! j), snd (l ! j) + d)]) @ replicate (8 - length l) 0)"
    using assms(2) by (simp add: add_weight_def mem_get_def mem_set_def nth_append list_update_append map_update)
  moreover have "map fst (l[j := (fst (l ! j), v)]) = map fst l" for v
    using assms(2) by (simp add: map_update list_update_same_conv)
  ultimately show ?thesis using assms by (simp add: holds_def)
qed

lemma set_port_cell:
  assumes "inet_ok a"
  shows "\<exists>a'. em_sockaddr_set_port a 0 = Some (EM_SUCC, a') \<and> cell_ok a' \<and> ip_of a' = ip_of a"
proof -
  obtain a' where a': "em_sockaddr_set_port a 0 = Some (EM_SUCC, a')" "sockaddr_ok a'" "em_sockaddr_get_port a' = Some 0"
    "addr_bytes a' = addr_bytes a" "sa_family a' = sa_family a"
    using set_port_keeps [OF inet_sockaddr [OF assms]] by blast
  then have ok: "inet_ok a'" using assms by (simp add: inet_ok_def sockaddr_ok_def)
  have "le32 (em_htonl (ip_of a')) = le32 (em_htonl (ip_of a))" using a'(4) bytes_of_ip ok assms by simp
  from arg_cong [OF le32_inj [OF this], of em_ntohl] have "ip_of a' = ip_of a" by simp
  with a' ok show ?thesis by (simp add: cell_ok_def)
qed

text \<open>The three sources, one after the other.\<close>

lemma by_default_route_holds:
  assumes "route_of os r stack s x s'" "inet_ok addr"
    and "holds c l" "length l < 8" "\<forall>a \<in> set (c_addr c). cell_ok a"
  shows "\<exists>addr' c'. by_default_route os r stack EM_AF_INET addr c s = Some (addr', c', s') \<and> inet_ok addr' \<and>
    holds c' (case x of None \<Rightarrow> l | Some v \<Rightarrow> bump v WEIGHT_DEF_ROUTE l)"
proof -
  obtain st a1 where a1: "em_getdefaultipinterface os r stack EM_AF_INET addr s = Some (st, a1, s')"
    "name_result addr x st a1" using assms(1,2) unfolding inet_ok_def route_of_def by blast
  have cnt: "c_cnt c = length l" "length (c_addr c) = 8" "\<forall>a \<in> set (take (length l) (c_addr c)). cell_ok a"
    using assms(3) by (simp_all add: holds_def)
  show ?thesis
  proof (cases x)
    case None
    then have "by_default_route os r stack EM_AF_INET addr c s = Some (a1, c, s')" "inet_ok a1"
      using a1 assms(2,4) cnt by (auto simp: by_default_route_def CAND_CNT_def name_result_def)
    then show ?thesis using None assms(3) by simp
  next
    case (Some v)
    then have v: "st = EM_SUCC" "inet_ok a1" "ip_of a1 = v" using a1(2) by (simp_all add: name_result_def)
    obtain a2 where a2: "em_sockaddr_set_port a1 0 = Some (EM_SUCC, a2)" "cell_ok a2" "ip_of a2 = v"
      using set_port_cell [OF v(2)] v(3) by blast
    let ?j = "length (takeWhile (\<lambda>p. fst p \<noteq> v) l)"
    have find: "find_cand (take (c_cnt c) (c_addr c)) a2 0 = Some ?j"
      using find_cand_spec [OF cnt(3) a2(2), of 0] takeWhile_candidates [OF assms(3), of v] a2(3) cnt(1) by simp
    have ok2: "inet_ok a2" using a2(2) by (simp add: cell_ok_def)
    show ?thesis
    proof (cases "v \<in> fst ` set l")
      case True
      from holds_update [OF assms(3) takeWhile_found [OF True], of WEIGHT_DEF_ROUTE] obtain ws where
        "add_weight ?j WEIGHT_DEF_ROUTE (c_weight c) = Some ws" "holds (c\<lparr>c_weight := ws\<rparr>) (bump v WEIGHT_DEF_ROUTE l)"
        using bump_update [OF True refl, of WEIGHT_DEF_ROUTE] by auto
      moreover from this(1) have "by_default_route os r stack EM_AF_INET addr c s = Some (a2, c\<lparr>c_weight := ws\<rparr>, s')"
        using a1(1) v(1) a2(1) find takeWhile_found [OF True] assms(4) cnt(1) by (simp add: by_default_route_def CAND_CNT_def)
      ultimately show ?thesis using Some ok2 by auto
    next
      case False
      have "cell_ok (c_addr c ! length l)" using assms(4,5) cnt(2) by simp
      from new_cand_holds [OF assms(3,4) this ok2, of WEIGHT_DEF_ROUTE] obtain c' where
        c': "new_cand a2 WEIGHT_DEF_ROUTE c = Some c'" "holds c' (bump v WEIGHT_DEF_ROUTE l)"
        using bump_append [OF False] a2(3) by auto
      then have "by_default_route os r stack EM_AF_INET addr c s = Some (a2, c', s')"
        using a1(1) v(1) a2(1) find takeWhile_all [OF False] assms(4) cnt(1) by (simp add: by_default_route_def CAND_CNT_def)
      then show ?thesis using Some ok2 c'(2) by auto
    qed
  qed
qed

definition host_name_ip :: "resolver \<Rightarrow> int8 list \<Rightarrow> uint32 option" where
  "host_name_ip r hostname = (if hostname = [] then None else map_option em_ntohl (by_name r hostname))"

definition no_cands :: cands where
  "no_cands = \<lparr>c_addr = replicate 8 (le16 2 @ replicate 26 0), c_weight = replicate 8 0, c_cnt = 0\<rparr>"

lemma blank_cell: "cell_ok (le16 2 @ replicate 26 0)"
  by code_simp

lemma no_cands_holds: "holds no_cands []" "\<forall>a \<in> set (c_addr no_cands). cell_ok a"
  using blank_cell by (simp_all add: holds_def no_cands_def)

lemma by_hostname_holds:
  assumes "resolver_ok r" "length hostname < 128"
  shows "\<exists>c l. by_hostname r EM_AF_INET hostname no_cands = Some c \<and> holds c l \<and> length l < 8 \<and>
    (\<forall>a \<in> set (c_addr c). cell_ok a) \<and>
    l = (case host_name_ip r hostname of None \<Rightarrow> [] | Some x \<Rightarrow> [(x, WEIGHT_HOSTNAME)])"
proof (cases "host_name_ip r hostname")
  case None
  have "by_hostname r EM_AF_INET hostname no_cands = Some no_cands"
  proof (cases "hostname = []")
    case False
    then have "by_name r hostname = None" using None by (simp add: host_name_ip_def)
    then obtain n ai where "em_getaddrinfo r EM_AF_INET hostname 1 = Some (EM_ERESOLVE, n, ai)"
      using getaddrinfo_one [OF assms] by auto
    then show ?thesis using False by (simp add: by_hostname_def errno)
  qed (simp add: by_hostname_def errno)
  then show ?thesis using None no_cands_holds by simp
next
  case (Some x)
  then obtain w where w: "hostname \<noteq> []" "by_name r hostname = Some w" "x = em_ntohl w"
    by (auto simp: host_name_ip_def split: if_splits)
  obtain n e where e: "em_getaddrinfo r EM_AF_INET hostname 1 = Some (EM_SUCC, n, [e])" "length (ai_addr e) = 28"
    "load32 (ai_addr e) 4 = Some w" "sa_family (ai_addr e) = Some EM_AF_INET"
    using getaddrinfo_one [OF assms] w(2) by auto
  then have ok: "inet_ok (ai_addr e)" "ip_of (ai_addr e) = x" using w(3) by (simp_all add: inet_ok_def ip_of_def)
  have "cell_ok (c_addr no_cands ! length ([] :: (uint32 \<times> int) list))" by (simp add: no_cands_def blank_cell)
  from new_cand_holds [OF no_cands_holds(1) _ this ok(1), of WEIGHT_HOSTNAME] ok(2) obtain c1 a1 where
    c1: "new_cand (ai_addr e) WEIGHT_HOSTNAME no_cands = Some c1" "holds c1 [(x, WEIGHT_HOSTNAME)]" "cell_ok a1"
    "c_addr c1 = (c_addr no_cands)[0 := a1]" by auto
  obtain a2 where a2: "em_sockaddr_set_port a1 0 = Some (EM_SUCC, a2)" "cell_ok a2" "ip_of a2 = ip_of a1"
    using set_port_cell c1(3) unfolding cell_ok_def by blast
  let ?c = "c1\<lparr>c_addr := (c_addr c1)[0 := a2]\<rparr>"
  have addrs: "c_addr c1 = a1 # replicate 7 (le16 2 @ replicate 26 0)" using c1(4) by (simp add: no_cands_def numeral_eq_Suc)
  then have "by_hostname r EM_AF_INET hostname no_cands = Some ?c"
    using w(1) e(1) c1(1) a2(1) by (simp add: by_hostname_def mem_get_def no_cands_def)
  moreover have "holds ?c [(x, WEIGHT_HOSTNAME)]" using c1(2) a2(2,3) addrs by (simp add: holds_def)
  moreover have "\<forall>a \<in> set (c_addr ?c). cell_ok a" using addrs a2(2) blank_cell by simp
  ultimately show ?thesis using Some by auto
qed

lemma enum_interfaces:
  assumes "route_of os r stack s x s'" "length ifs = Suc n"
  shows "\<exists>a rest. length rest = n \<and> em_enum_ip_interface os r stack EM_AF_INET (Suc n) ifs s =
    Some (if x \<noteq> None then EM_SUCC else EM_ENOTFOUND, if x \<noteq> None then 1 else 0, a # rest, s') \<and>
    (x \<noteq> None \<longrightarrow> inet_ok a \<and> x = Some (ip_of a))"
proof -
  obtain st a where a: "em_getdefaultipinterface os r stack EM_AF_INET (replicate 28 0) s = Some (st, a, s')"
    "name_result (replicate 28 0) x st a"
    using assms(1) unfolding route_of_def by (meson length_replicate)
  have zero: "mem_blit ifs 0 (replicate (Suc n) (replicate 28 0)) = Some (replicate (Suc n) (replicate 28 0))"
    using assms(2) by (simp add: mem_blit_def)
  have "if_enum_by_af os r stack EM_AF_INET (Suc n) ifs s =
      Some (st, if st \<noteq> EM_SUCC then Suc n else 1, a # replicate n (replicate 28 0), s')"
    unfolding if_enum_by_af_def zero using a(1) by (simp add: mem_get_def)
  then have "em_enum_ip_interface os r stack EM_AF_INET (Suc n) ifs s =
      Some (if st = EM_SUCC then EM_SUCC else EM_ENOTFOUND, if st = EM_SUCC then 1 else 0, a # replicate n (replicate 28 0), s')"
    by (auto simp: em_enum_ip_interface_def enum_family_def af)
  moreover have "st = EM_SUCC \<longleftrightarrow> x \<noteq> None" "x \<noteq> None \<longrightarrow> inet_ok a \<and> x = Some (ip_of a)"
    using a(2) by (auto simp: name_result_def split: option.splits)
  ultimately show ?thesis by (intro exI [of _ a] exI [of _ "replicate n (replicate 28 0)"]) simp
qed

text \<open>The weighing of the candidates by the one interface.\<close>

lemma weigh_by_spec:
  assumes "\<forall>c \<in> set cs. cell_ok c" "cell_ok a" "i + length cs \<le> length ws"
  shows "weigh_by_interfaces [a] cs i ws = Some (take i ws @
    map2 (\<lambda>c w. if ip_of c = ip_of a then w + WEIGHT_INTERFACE else w - WEIGHT_INTERFACE) cs (drop i ws) @ drop (i + length cs) ws)"
  using assms
proof (induction cs arbitrary: i ws)
  case (Cons c cs)
  then have c: "cell_ok c" "i < length ws" by simp_all
  obtain k where k: "em_sockaddr_cmp c a = Some k" "k = 0 \<longleftrightarrow> ip_of c = ip_of a" using cmp_cells [OF c(1) Cons.prems(2)] by blast
  let ?d = "if ip_of c = ip_of a then WEIGHT_INTERFACE else - WEIGHT_INTERFACE"
  have "weigh_by_interfaces [a] (c # cs) i ws = weigh_by_interfaces [a] cs (i + 1) (ws[i := ws ! i + ?d])"
    using k c(2) by (simp add: add_weight_def mem_get_def mem_set_def)
  also have "\<dots> = Some (take (i + 1) (ws[i := ws ! i + ?d]) @
      map2 (\<lambda>c w. if ip_of c = ip_of a then w + WEIGHT_INTERFACE else w - WEIGHT_INTERFACE) cs (drop (i + 1) ws) @
      drop (i + 1 + length cs) ws)"
    using Cons.prems Cons.IH [of "i + 1" "ws[i := ws ! i + ?d]"] by simp
  also have "take (i + 1) (ws[i := ws ! i + ?d]) = take i ws @ [ws ! i + ?d]"
    using c(2) by (simp add: take_Suc_conv_app_nth)
  finally show ?case using Cons_nth_drop_Suc [OF c(2), symmetric] by simp
qed simp

lemma weigh_holds:
  assumes "holds c l" "cell_ok a"
  shows "\<exists>ws. weigh_by_interfaces [a] (take (length l) (c_addr c)) 0 (c_weight c) = Some ws \<and>
    ws = map snd (weigh (ip_of a) l) @ replicate (8 - length l) 0"
proof -
  have c: "\<forall>a \<in> set (take (length l) (c_addr c)). cell_ok a" "map ip_of (take (length l) (c_addr c)) = map fst l"
    "c_weight c = map snd l @ replicate (8 - length l) 0" "length l \<le> 8" "length (c_addr c) = 8"
    using assms(1) by (simp_all add: holds_def)
  let ?f = "\<lambda>y w. if y = ip_of a then w + WEIGHT_INTERFACE else w - WEIGHT_INTERFACE"
  have "map2 (\<lambda>c w. ?f (ip_of c) w) cs (map snd l @ zs) = map snd (weigh (ip_of a) l)"
    if "map ip_of cs = map fst l" for cs zs using that
  proof (induction cs arbitrary: l)
    case (Cons c cs)
    then show ?case by (cases l) (auto simp: weigh_def)
  qed (simp add: weigh_def)
  from this [OF c(2)] show ?thesis
    using weigh_by_spec [OF c(1) assms(2), of 0 "c_weight c"] c(3-5) by simp
qed

lemma by_interfaces_holds:
  assumes "route_of os r stack s x s'" "holds c l" "length l < 8"
  shows "\<exists>c'. by_interfaces os r stack EM_AF_INET c s = Some (c', s') \<and>
    holds c' (case x of None \<Rightarrow> l | Some v \<Rightarrow> include_ip v (weigh v l))"
proof -
  let ?n = "length l"
  have c: "length (c_addr c) = 8" "c_cnt c = ?n" "\<forall>a \<in> set (take ?n (c_addr c)). cell_ok a"
    "map ip_of (take ?n (c_addr c)) = map fst l" "c_weight c = map snd l @ replicate (8 - ?n) 0"
    using assms(2) by (simp_all add: holds_def)
  obtain n where n: "8 - ?n = Suc n" using assms(3) by (cases "8 - ?n") auto
  have "length (drop ?n (c_addr c)) = Suc n" using c(1) n by simp
  from enum_interfaces [OF assms(1) this] obtain a rest where a: "length rest = n"
    "em_enum_ip_interface os r stack EM_AF_INET (Suc n) (drop ?n (c_addr c)) s =
      Some (if x \<noteq> None then EM_SUCC else EM_ENOTFOUND, if x \<noteq> None then 1 else 0, a # rest, s')"
    "x \<noteq> None \<longrightarrow> inet_ok a \<and> x = Some (ip_of a)" by blast
  let ?as = "take ?n (c_addr c) @ a # rest"
  show ?thesis
  proof (cases x)
    case None
    have "by_interfaces os r stack EM_AF_INET c s = Some (c\<lparr>c_addr := ?as\<rparr>, s')"
      using a(2) None c(2) n assms(3) by (simp add: by_interfaces_def CAND_CNT_def errno)
    moreover have "holds (c\<lparr>c_addr := ?as\<rparr>) l" using c n a(1) assms(3) by (simp add: holds_def)
    ultimately show ?thesis using None by simp
  next
    case (Some v)
    then have ok: "inet_ok a" "ip_of a = v" using a(3) by simp_all
    obtain b where b: "em_sockaddr_set_port a 0 = Some (EM_SUCC, b)" "cell_ok b" "ip_of b = v"
      using set_port_cell [OF ok(1)] ok(2) by blast
    obtain ws where ws: "weigh_by_interfaces [b] (take ?n (c_addr c)) 0 (c_weight c) = Some ws"
      "ws = map snd (weigh v l) @ replicate (8 - ?n) 0" using weigh_holds [OF assms(2) b(2)] b(3) by auto
    let ?c = "c\<lparr>c_addr := take ?n (c_addr c) @ b # rest, c_weight := ws\<rparr>" and ?l = "weigh v l"
    have l: "length ?l = ?n" "map fst ?l = map fst l" by (simp_all add: weigh_def comp_def case_prod_beta)
    have h: "holds ?c ?l" using c n a(1) assms(3) ws(2) l by (simp add: holds_def)
    have blit: "mem_blit ?as ?n [b] = Some (take ?n (c_addr c) @ b # rest)"
      using c(1) assms(3) by (simp add: mem_blit_def)
    let ?j = "length (takeWhile (\<lambda>p. fst p \<noteq> v) ?l)"
    have find: "find_same b (take ?n (c_addr c)) 0 = Some ?j"
      using find_same_spec [OF c(3) b(2), of 0] takeWhile_candidates [OF h, of v] b(3) l c(1) assms(3) by simp
    have run: "by_interfaces os r stack EM_AF_INET c s =
        map_option (\<lambda>c'. (c', s')) (if ?j = ?n then new_cand b WEIGHT_INTERFACE ?c else Some ?c)"
      using a(2) Some c(1,2) n assms(3) b(1) blit ws(1) find
      by (simp add: by_interfaces_def CAND_CNT_def mem_get_def nth_append map_conv_bind_option comp_def)
    show ?thesis
    proof (cases "v \<in> fst ` set ?l")
      case True
      then have "?j < ?n" using takeWhile_found [OF True] l by simp
      then have "by_interfaces os r stack EM_AF_INET c s = Some (?c, s')" using run by simp
      then show ?thesis using h True Some by (simp add: include_ip_def)
    next
      case False
      then have "?j = ?n" using takeWhile_all [OF False] l by simp
      moreover have "cell_ok (c_addr ?c ! length ?l)" "length ?l < 8" "inet_ok b"
        using b(2) l c(1) assms(3) by (simp_all add: nth_append cell_ok_def)
      from new_cand_holds [OF h this(2,1,3), of WEIGHT_INTERFACE] obtain c' where
        "new_cand b WEIGHT_INTERFACE ?c = Some c'" "holds c' (?l @ [(v, WEIGHT_INTERFACE)])" using b(3) by auto
      ultimately show ?thesis using run False Some by (simp add: include_ip_def)
    qed
  qed
qed

lemma candidates_length: "length (bump x d l) \<le> Suc (length l)"
  by (induction x d l rule: bump.induct) auto

lemma holds_cands:
  assumes "holds c l"
  shows "cands_ok c" "map (final_weight c) [0..<c_cnt c] = map special_weight l"
    "i < c_cnt c \<Longrightarrow> ip_of (c_addr c ! i) = fst (l ! i)"
proof -
  have c: "length (c_addr c) = 8" "c_cnt c = length l" "length l \<le> 8" "\<forall>a \<in> set (take (length l) (c_addr c)). cell_ok a"
    "map ip_of (take (length l) (c_addr c)) = map fst l" "c_weight c = map snd l @ replicate (8 - length l) 0"
    using assms by (simp_all add: holds_def)
  have ip: "ip_of (c_addr c ! i) = fst (l ! i)" if "i < length l" for i
    using arg_cong [OF c(5), of "\<lambda>xs. xs ! i"] that c(1,3) by simp
  show "cands_ok c" using c by (simp add: cands_ok_def CAND_CNT_def cell_ok_def)
  show "map (final_weight c) [0..<c_cnt c] = map special_weight l"
    using c ip by (auto intro!: nth_equalityI simp: final_weight_def special_weight_def nth_append)
  show "i < c_cnt c \<Longrightarrow> ip_of (c_addr c ! i) = fst (l ! i)" using ip c(2) by simp
qed

lemma gethostip_spec:
  assumes "os_inet os" "resolver_ok r" "length stack = 28" "length addr = 28" "length hostname < 128"
  shows "\<exists>a d i s1 s2. em_gethostip os r stack hostname EM_AF_INET addr s = Some (EM_SUCC, a, s2) \<and> inet_ok a \<and>
    route_of os r stack s d s1 \<and> route_of os r stack s1 i s2 \<and>
    chosen (host_candidates (host_name_ip r hostname) d i) (ip_of a)"
proof -
  obtain addr0 where a0: "mem_blit addr 0 (le16 (of_int EM_AF_INET)) = Some addr0" "length addr0 = 28"
    using mem_blit_Some [of 0 "le16 (of_int EM_AF_INET)" addr] assms(4) by auto
  then have ok0: "inet_ok addr0" using family_blit [OF a0(1)] by (simp add: inet_ok_def af)
  obtain c1 l1 where c1: "by_hostname r EM_AF_INET hostname no_cands = Some c1" "holds c1 l1" "length l1 < 8"
    "\<forall>a \<in> set (c_addr c1). cell_ok a" "l1 = (case host_name_ip r hostname of None \<Rightarrow> [] | Some x \<Rightarrow> [(x, WEIGHT_HOSTNAME)])"
    using by_hostname_holds [OF assms(2,5)] by blast
  obtain d s1 where d: "route_of os r stack s d s1" using default_interface_ok [OF assms(1-3), of s] by blast
  define l2 where "l2 = (case d of None \<Rightarrow> l1 | Some v \<Rightarrow> bump v WEIGHT_DEF_ROUTE l1)"
  from by_default_route_holds [OF d ok0 c1(2-4)] obtain addr1 c2 where
    c2: "by_default_route os r stack EM_AF_INET addr0 c1 s = Some (addr1, c2, s1)" "inet_ok addr1" "holds c2 l2"
    unfolding l2_def by blast
  have "length l1 \<le> 1" using c1(5) by (simp split: option.splits)
  then have "length (bump v WEIGHT_DEF_ROUTE l1) \<le> 2" for v
    using candidates_length [of v WEIGHT_DEF_ROUTE l1] by simp
  with \<open>length l1 \<le> 1\<close> have "length l2 \<le> 2" by (simp add: l2_def split: option.splits)
  then have l2: "length l2 < 8" by simp
  obtain i s2 where i: "route_of os r stack s1 i s2" using default_interface_ok [OF assms(1-3), of s1] by blast
  from by_interfaces_holds [OF i c2(3) l2] obtain c3 where
    c3: "by_interfaces os r stack EM_AF_INET c2 s1 = Some (c3, s2)" "holds c3 (host_candidates (host_name_ip r hostname) d i)"
    unfolding host_candidates_def l2_def c1(5) Let_def by blast
  let ?l = "host_candidates (host_name_ip r hostname) d i"
  from choose_cand_spec [OF holds_cands(1) [OF c3(2)] c2(2)] obtain a where
    a: "choose_cand EM_AF_INET addr1 c3 = Some (EM_SUCC, a)" "inet_ok a"
    "(\<exists>i. best_index (map (final_weight c3) [0..<c_cnt c3]) i \<and> ip_of a = ip_of (c_addr c3 ! i)) \<or>
     (\<forall>i < c_cnt c3. final_weight c3 i < MIN_WEIGHT) \<and> ip_of a = 0x7F000001" by blast
  have n: "c_cnt c3 = length ?l" using c3(2) by (simp add: holds_def)
  have weight: "final_weight c3 i = special_weight (?l ! i)" if "i < length ?l" for i
    using arg_cong [OF holds_cands(2) [OF c3(2)], of "\<lambda>ws. ws ! i"] that n by simp
  have "chosen ?l (ip_of a)"
    using a(3)
  proof
    assume "\<exists>i. best_index (map (final_weight c3) [0..<c_cnt c3]) i \<and> ip_of a = ip_of (c_addr c3 ! i)"
    then obtain i where "best_index (map special_weight ?l) i" "ip_of a = ip_of (c_addr c3 ! i)"
      using holds_cands(2) [OF c3(2)] by auto
    moreover from this(1) have "i < c_cnt c3" using n by (simp add: best_index_def)
    ultimately show ?thesis using holds_cands(3) [OF c3(2)] unfolding chosen_def by metis
  next
    assume "(\<forall>i < c_cnt c3. final_weight c3 i < MIN_WEIGHT) \<and> ip_of a = 0x7F000001"
    then show ?thesis using n weight unfolding chosen_def by (metis in_set_conv_nth)
  qed
  moreover have "em_gethostip os r stack hostname EM_AF_INET addr s = Some (EM_SUCC, a, s2)"
    using a0(1) c1(1) c2(1) c3(1) a(1) by (simp add: em_gethostip_def no_cands_def CAND_CNT_def af)
  ultimately show ?thesis using d i a(2) by blast
qed

text \<open>
  C9. \<open>em_gethostip\<close> implements a choice between three addresses: that of the host's name, that the system
  uses for the default route, and the one interface that the default configuration enumerates, which is the
  default route's address asked for again.  The call always succeeds, stays within its eight candidates, and
  answers with the address of the highest total weight, the first one of equals, or with 127.0.0.1.
\<close>
theorem gethostip_refines:
  assumes "os_inet os" "resolver_ok r" "length stack = 28" "length addr = 28" "length hostname < 128"
  shows "\<exists>a d i s1 s2. em_gethostip os r stack hostname EM_AF_INET addr s = Some (EM_SUCC, a, s2) \<and> inet_ok a \<and>
    route_of os r stack s d s1 \<and> route_of os r stack s1 i s2 \<and>
    chosen (host_candidates (host_name_ip r hostname) d i) (ip_of a)"
  by (rule gethostip_spec [OF assms])

lemma free_os_inet: "os_inet free_os"
proof -
  have "sa_family (take 16 (ex_addr 0x0500000A 9)) = Some EM_AF_INET" "length (take 16 (ex_addr 0x0500000A 9)) = 16"
    by code_simp+
  then show ?thesis by (auto simp: os_inet_def free_os_def)
qed

lemma ex_resolver_ok: "resolver_ok ex_resolver"
  by (simp add: resolver_ok_def ex_resolver_def)

lemma gethostip_refines_witness:
  "\<exists>a s'. em_gethostip free_os ex_resolver (replicate 28 0) (ascii ''host'') EM_AF_INET (replicate 28 0) [] =
     Some (EM_SUCC, a, s') \<and> inet_ok a"
proof -
  have "length (replicate 28 0 :: uint8 list) = 28" "length (ascii ''host'') < 128" by (simp_all add: ascii_def)
  from gethostip_refines [OF free_os_inet ex_resolver_ok this(1,1,2)] show ?thesis by blast
qed

text \<open>
  An address of the default route that is not special is the answer; an address of the range whose weight is
  to disable it is the answer when the host's name has it and there is no other.
\<close>

lemma route_of_unique:
  assumes "route_of os r stack s x s1" "route_of os r stack s y s2"
  shows "x = y" "s1 = s2"
proof -
  obtain st a where a: "em_getdefaultipinterface os r stack EM_AF_INET (replicate 28 0) s = Some (st, a, s1)"
    "name_result (replicate 28 0) x st a" using assms(1) unfolding route_of_def by (meson length_replicate)
  obtain st' b where b: "em_getdefaultipinterface os r stack EM_AF_INET (replicate 28 0) s = Some (st', b, s2)"
    "name_result (replicate 28 0) y st' b" using assms(2) unfolding route_of_def by (meson length_replicate)
  show "s1 = s2" using a(1) b(1) by simp
  show "x = y" using a b by (auto simp: name_result_def split: option.splits)
qed

lemma spec_weight_not_positive: "spec_weight spec_ipv4 x \<le> 0"
  by (simp add: spec_ipv4_def weights)

lemma chosen_route:
  assumes "chosen (host_candidates h (Some w) (Some w)) x" "spec_weight spec_ipv4 w = 0"
  shows "x = w"
proof (cases "h = None \<or> h = Some w")
  case True
  then obtain v where "host_candidates h (Some w) (Some w) = [(w, v)]" "v > 0"
    by (auto simp: host_candidates_def weights weigh_def include_ip_def)
  then show ?thesis using assms by (auto simp: chosen_def best_index_def special_weight_def weights)
next
  case False
  then obtain y where y: "h = Some y" "y \<noteq> w" by auto
  then have "host_candidates h (Some w) (Some w) = [(y, 0), (w, 3)]"
    by (simp add: host_candidates_def weights weigh_def include_ip_def)
  then show ?thesis using assms spec_weight_not_positive [of y]
    by (auto simp: chosen_def best_index_def special_weight_def weights less_Suc_eq)
qed

lemma gethostip_prefers_route:
  assumes "os_inet os" "resolver_ok r" "length stack = 28" "length addr = 28" "length hostname < 128"
    and "route_of os r stack s (Some w) s1" "route_of os r stack s1 (Some w) s2" "spec_weight spec_ipv4 w = 0"
  shows "\<exists>a. em_gethostip os r stack hostname EM_AF_INET addr s = Some (EM_SUCC, a, s2) \<and> ip_of a = w"
proof -
  obtain a d i t1 t2 where g: "em_gethostip os r stack hostname EM_AF_INET addr s = Some (EM_SUCC, a, t2)"
    "route_of os r stack s d t1" "route_of os r stack t1 i t2" "chosen (host_candidates (host_name_ip r hostname) d i) (ip_of a)"
    using gethostip_spec [OF assms(1-5)] by blast
  have d: "d = Some w" "t1 = s1" using route_of_unique [OF g(2) assms(6)] by simp_all
  have "i = Some w" "t2 = s2" using route_of_unique [of os r stack s1] g(3) assms(7) d(2) by blast+
  then show ?thesis using g(1,4) d chosen_route [OF _ assms(8)] by blast
qed

text \<open>
  A disabled address is not disabled.  \<open>WEIGHT_DISABLED\<close> is to keep the addresses 0.x.x.x from being
  selected, but the weight of the host's name lifts such an address to the minimum: when the host's name
  resolves to it and the system has no default route, \<open>em_gethostip\<close> answers with it, and not with 127.0.0.1.
\<close>
lemma disabled_address_chosen:
  assumes "os_inet os" "resolver_ok r" "length stack = 28" "length addr = 28" "length hostname < 128"
    and "host_name_ip r hostname = Some x" "x AND 0xFF000000 = 0"
    and "route_of os r stack s None s1" "route_of os r stack s1 None s2"
  shows "\<exists>a. em_gethostip os r stack hostname EM_AF_INET addr s = Some (EM_SUCC, a, s2) \<and> ip_of a = x"
proof -
  obtain a d i t1 t2 where g: "em_gethostip os r stack hostname EM_AF_INET addr s = Some (EM_SUCC, a, t2)"
    "route_of os r stack s d t1" "route_of os r stack t1 i t2" "chosen (host_candidates (host_name_ip r hostname) d i) (ip_of a)"
    using gethostip_spec [OF assms(1-5)] by blast
  have d: "d = None" "t1 = s1" using route_of_unique [OF g(2) assms(8)] by simp_all
  have i: "i = None" "t2 = s2" using route_of_unique [of os r stack s1] g(3) assms(9) d(2) by blast+
  have "chosen [(x, 1)] (ip_of a)" using g(4) d i assms(6) by (simp add: host_candidates_def weights)
  moreover have "special_weight (x, 1) = - 49" using assms(7) by (simp add: special_weight_def spec_ipv4_def weights)
  ultimately have "ip_of a = x" by (auto simp: chosen_def best_index_def weights)
  then show ?thesis using g(1) i by blast
qed

definition zero_resolver :: resolver where
  "zero_resolver = \<lparr>inet_aton = (\<lambda>cs. if cs = ascii ''1.1.1.1'' then Some 0x01010101 else None),
     gethostbyname = (\<lambda>cs. if cs = ascii ''host'' then Some \<lparr>h_name = cs, h_length = 4, h_addr_list = [[0, 0, 0, 5]]\<rparr> else None)\<rparr>"

definition unrouted_os :: "unit sock_os" where
  "unrouted_os = \<lparr>os_socket = (\<lambda>s _ _ _. (Inr 3, s)), os_bind = (\<lambda>s _ a _. (0, s)), os_connect = (\<lambda>s _ _ _. (101, s)),
     os_close = (\<lambda>s _. (0, s)), os_getsockname = (\<lambda>s _ _. (Inl 9, s)),
     os_getpeername = (\<lambda>s _ _. (Inl 107, s)), os_send = (\<lambda>s _ b _. (Inl 101, s)),
     os_sendto = (\<lambda>s _ b _ _ _. (Inl 101, s)), os_recvfrom = (\<lambda>s _ _ _ _. (Inl 11, s)),
     os_getsockopt = (\<lambda>s _ _ _ _. (Inl 92, s)), os_setsockopt = (\<lambda>s _ _ _ _. (92, s)), os_shutdown = (\<lambda>s _ _. (0, s)),
     os_listen = (\<lambda>s _ _. (0, s)), os_accept = (\<lambda>s _ _. (Inl 11, s)), os_rand = (\<lambda>s. (7, s))\<rparr>"

lemma unrouted: "route_of unrouted_os zero_resolver (replicate 28 0) s None s"
proof -
  have ok: "os_inet unrouted_os" "resolver_ok zero_resolver"
    by (simp_all add: os_inet_def unrouted_os_def resolver_ok_def zero_resolver_def)
  obtain x s' where r: "route_of unrouted_os zero_resolver (replicate 28 0) s x s'"
    using default_interface_ok [OF ok, of "replicate 28 0" s] by auto
  have "map_option fst (em_getdefaultipinterface unrouted_os zero_resolver (replicate 28 0) EM_AF_INET (replicate 28 0) ()) =
      Some 120101" by code_simp
  moreover obtain st a where "em_getdefaultipinterface unrouted_os zero_resolver (replicate 28 0) EM_AF_INET (replicate 28 0) s =
      Some (st, a, s')" "name_result (replicate 28 0) x st a"
    using r unfolding route_of_def by (meson length_replicate)
  ultimately have "x = None" by (auto simp: name_result_def errno split: option.splits)
  then show ?thesis using r by simp
qed

lemma disabled_address_chosen_witness:
  "\<exists>a. em_gethostip unrouted_os zero_resolver (replicate 28 0) (ascii ''host'') EM_AF_INET (replicate 28 0) () =
     Some (EM_SUCC, a, ()) \<and> ip_of a = 5"
proof -
  have "os_inet unrouted_os" "resolver_ok zero_resolver"
    by (simp_all add: os_inet_def unrouted_os_def resolver_ok_def zero_resolver_def)
  moreover have "length (replicate 28 0 :: uint8 list) = 28" "length (ascii ''host'') < 128" by (simp_all add: ascii_def)
  moreover have "host_name_ip zero_resolver (ascii ''host'') = Some 5" "(5 :: uint32) AND 0xFF000000 = 0" by code_simp+
  ultimately show ?thesis using unrouted disabled_address_chosen
    [of unrouted_os zero_resolver "replicate 28 0" "replicate 28 0" "ascii ''host''" 5 "()" "()" "()"] by blast
qed

section \<open>Buffer sizes\<close>

text \<open>
  How Linux sizes the buffers of a socket, as \<open>socket(7)\<close> documents it for \<open>SO_SNDBUF\<close> and \<open>SO_RCVBUF\<close>: a
  request is cut down to a maximum \<open>lim\<close> without an error, then doubled for the bookkeeping of the kernel,
  and raised to a minimum \<open>mn\<close> of the doubled value; \<open>getsockopt\<close> returns the doubled size.
\<close>

definition granted :: "int \<Rightarrow> int \<Rightarrow> int \<Rightarrow> int" where
  "granted lim mn v = max (2 * min v lim) mn"

definition sized_socket :: "'s sock_os \<Rightarrow> int \<Rightarrow> uint16 \<Rightarrow> ('s \<Rightarrow> int) \<Rightarrow> int \<Rightarrow> int \<Rightarrow> bool" where
  "sized_socket os fd opt sz lim mn \<longleftrightarrow>
     (\<forall>s. os_getsockopt os s fd EM_SOL_SOCKET opt 4 = (Inr (le32 (of_int (sz s))), s)) \<and>
     (\<forall>s v. 0 < v \<longrightarrow> v < 2 ^ 31 \<longrightarrow>
        (\<exists>s'. os_setsockopt os s fd EM_SOL_SOCKET opt (le32 (of_int v)) = (0, s') \<and> sz s' = granted lim mn v))"

lemma load32_le32: "load32 (le32 w) 0 = Some w"
  using load32_blit [of "le32 w" 0 w "le32 w"] by (simp add: mem_blit_def)

lemma int_of_le32: "0 \<le> v \<Longrightarrow> v < 2 ^ 31 \<Longrightarrow> int_of_bytes (le32 (of_int v)) = Some v"
  by (simp add: int_of_bytes_def load32_le32 signed_of_int signed_take_bit_int_eq_self)

lemma sized_get:
  assumes "sized_socket os fd opt sz lim mn" "length b = 4"
  shows "em_sock_getsockopt os fd EM_SOL_SOCKET opt (Some b) (Some 4) s = Some (EM_SUCC, Some (le32 (of_int (sz s))), s)"
  using assms by (simp add: em_sock_getsockopt_def sized_socket_def mem_blit_def)

lemma sized_set:
  assumes "sized_socket os fd opt sz lim mn" "0 < v" "v < 2 ^ 31"
  shows "\<exists>s'. em_sock_setsockopt os fd EM_SOL_SOCKET opt (le32 (of_int v)) s = (EM_SUCC, s') \<and> sz s' = granted lim mn v"
proof -
  obtain s' where "os_setsockopt os s fd EM_SOL_SOCKET opt (le32 (of_int v)) = (0, s')" "sz s' = granted lim mn v"
    using assms unfolding sized_socket_def by blast
  then show ?thesis by (simp add: em_sock_setsockopt_def os_status_def)
qed

lemma sobuf_round:
  assumes "sized_socket os fd opt sz lim mn" "0 \<le> sz s" "sz s < t" "t < 2 ^ 31"
  shows "\<exists>s'. sz s' = granted lim mn t \<and> sobuf_rounds os fd opt True step (Suc k) t (le32 (of_int (sz s))) n st s =
    sobuf_rounds os fd opt True step k (t - step) (le32 (of_int (granted lim mn t))) n EM_SUCC s'"
proof -
  have "0 < t" using assms(2,3) by simp
  from sized_set [OF assms(1) this assms(4), of s] obtain s' where
    "em_sock_setsockopt os fd EM_SOL_SOCKET opt (le32 (of_int t)) s = (EM_SUCC, s')" "sz s' = granted lim mn t" by blast
  then show ?thesis
    using assms int_of_le32 [OF assms(2)] sized_get [OF assms(1), of "le32 (of_int (sz s))" s'] by auto
qed

lemma sobuf_done:
  "0 \<le> c \<Longrightarrow> c < 2 ^ 31 \<Longrightarrow> t \<le> c \<Longrightarrow>
   sobuf_rounds os fd opt True step (Suc k) t (le32 (of_int c)) n st s = Some (st, of_int c, s)"
  by (simp add: int_of_le32)

text \<open>
  The rounds when the system has cut the size to \<open>c\<close>, which is at least the maximum: they go on until the size
  that is tried is \<open>c\<close> or less.
\<close>

lemma sobuf_cut:
  assumes "sized_socket os fd opt sz lim mn" "0 \<le> c" "c < 2 ^ 31" "0 < step" "lim \<le> c" "c = max (2 * lim) mn"
    and "t < 2 ^ 31" "sz s = c"
  shows "\<exists>s'. sz s' = c \<and> sobuf_rounds os fd opt True step k t (le32 (of_int c)) n EM_SUCC s =
    Some (EM_SUCC, if 0 < k \<and> t - int (k - 1) * step \<le> c then of_int c else n, s')"
  using assms(7,8)
proof (induction k arbitrary: t s)
  case (Suc k)
  show ?case
  proof (cases "t \<le> c")
    case True
    moreover have "0 \<le> int k * step" using assms(4) by simp
    ultimately have "t - int k * step \<le> c" by linarith
    then show ?thesis using sobuf_done [OF assms(2,3) True] Suc.prems(2)
      by (intro exI [of _ s]) (simp del: sobuf_rounds.simps(2))
  next
    case False
    then have g: "granted lim mn t = c" using assms(5,6) by (simp add: granted_def min_def)
    from sobuf_round [OF assms(1), of s t step k n EM_SUCC] Suc.prems False assms(2) obtain s1 where s1: "sz s1 = c"
      "sobuf_rounds os fd opt True step (Suc k) t (le32 (of_int c)) n EM_SUCC s =
       sobuf_rounds os fd opt True step k (t - step) (le32 (of_int c)) n EM_SUCC s1" by (auto simp: g)
    have "t - step < 2 ^ 31" using Suc.prems(1) assms(4) by simp
    from Suc.IH [OF this s1(1)] obtain s' where s': "sz s' = c"
      "sobuf_rounds os fd opt True step k (t - step) (le32 (of_int c)) n EM_SUCC s1 =
       Some (EM_SUCC, if 0 < k \<and> t - step - int (k - 1) * step \<le> c then of_int c else n, s')" by blast
    have "0 < k \<Longrightarrow> t - step - int (k - 1) * step = t - int k * step"
      by (cases k) (simp_all add: algebra_simps)
    then show ?thesis using s' s1(2) False by (cases k) auto
  qed
qed (simp del: sobuf_rounds.simps(2))

lemma sobuf_run:
  assumes "sized_socket os fd opt sz lim mn" "fd \<noteq> EM_INVALID_SOCKET" "opt = EM_SO_RCVBUF \<or> opt = EM_SO_SNDBUF"
    and "0 < n" "n < 2 ^ 31" "0 \<le> sz s" "sz s < 2 ^ 31" "length stack = 4"
  shows "em_sock_setsockopt_sobuf os fd stack opt retry (Some (of_int n)) s =
    do { (st, m, s') \<leftarrow> sobuf_rounds os fd opt retry (max 4096 (c_div (n - sz s) 20)) (Suc 18) n (le32 (of_int (sz s)))
           (of_int n) EM_SUCC s;
         Some (st, Some m, s') }"
proof -
  have n: "sint (of_int n :: 32 word) = n" using assms(4,5) by (simp add: signed_of_int signed_take_bit_int_eq_self)
  have "uint (of_int n :: 32 word) = n" using assms(4,5) by (simp add: unsigned_of_int take_bit_int_eq_self)
  then have nz: "0 < (of_int n :: uint32)" using assms(4) by (simp add: word_less_def)
  have "int_of_bytes (le32 (of_int (sz s))) = Some (sz s)" using assms(6,7) by (rule int_of_le32)
  then show ?thesis
    using assms(2,3) nz n sized_get [OF assms(1,8)]
    by (simp add: em_sock_setsockopt_sobuf_def max_def del: sobuf_rounds.simps(2))
qed

text \<open>
  C28. Sizing a socket's buffer under Linux.  \<open>em_sock_setsockopt_sobuf\<close> with retries always succeeds.  A
  buffer that already has the size asked for is left alone; otherwise the buffer ends up with what the
  system grants for the request: twice the request or twice the maximum, and not less than the minimum.
  \<open>*buf_size\<close> becomes the size of the buffer, which is the doubled value and not the setting, as long as the
  18th step down from the request is not above it; beyond that the caller keeps the size it asked for,
  which the buffer does not have.  All sizes, the doubled ones too, fit an \<open>int\<close>.
\<close>
theorem sobuf_sizes:
  assumes "sized_socket os fd opt sz lim mn" "fd \<noteq> EM_INVALID_SOCKET" "opt = EM_SO_RCVBUF \<or> opt = EM_SO_SNDBUF"
    and "0 < n" "n < 2 ^ 31" "0 \<le> sz s" "sz s < 2 ^ 31" "0 < lim" "lim < 2 ^ 30" "mn < 2 ^ 31" "length stack = 4"
  shows "\<exists>s'. em_sock_setsockopt_sobuf os fd stack opt True (Some (of_int n)) s =
      Some (EM_SUCC, Some (if n - 18 * max 4096 ((n - sz s) div 20) \<le> sz s' then of_int (sz s') else of_int n), s') \<and>
    sz s' = (if n \<le> sz s then sz s else max (2 * min n lim) mn)"
proof -
  define step where "step = max 4096 (c_div (n - sz s) 20)"
  have step: "0 < step" by (simp add: step_def)
  note run = sobuf_run [OF assms(1-7,11), where retry = True, folded step_def]
  show ?thesis
  proof (cases "n \<le> sz s")
    case True
    moreover have "n - 18 * max 4096 ((n - sz s) div 20) \<le> sz s" using True by linarith
    ultimately show ?thesis using run sobuf_done [OF assms(6,7) True, of os fd opt step 18 "of_int n" EM_SUCC s]
      by (intro exI [of _ s]) (simp del: sobuf_rounds.simps(2))
  next
    case False
    then have div: "c_div (n - sz s) 20 = (n - sz s) div 20" by (simp add: c_div_nonneg)
    define c where "c = granted lim mn n"
    have c: "0 \<le> c" "c < 2 ^ 31" using assms(4,8-10) by (auto simp: c_def granted_def)
    from sobuf_round [OF assms(1,6) _ assms(5)] False obtain s1 where s1: "sz s1 = c"
      "sobuf_rounds os fd opt True step (Suc 18) n (le32 (of_int (sz s))) (of_int n) EM_SUCC s =
       sobuf_rounds os fd opt True step 18 (n - step) (le32 (of_int c)) (of_int n) EM_SUCC s1"
      unfolding c_def by (meson not_le)
    show ?thesis
    proof (cases "n \<le> c")
      case True
      then have "n - step \<le> c" "n - 18 * step \<le> c" using step by simp_all
      moreover from this have "sobuf_rounds os fd opt True step (Suc 17) (n - step) (le32 (of_int c)) (of_int n) EM_SUCC s1 =
          Some (EM_SUCC, of_int c, s1)" by (intro sobuf_done c)
      ultimately show ?thesis using run s1 False
        by (simp add: c_def granted_def step_def div numeral_eq_Suc del: sobuf_rounds.simps(2))
    next
      case nle: False
      then have "lim \<le> c" "c = max (2 * lim) mn" "n - step < 2 ^ 31"
        using assms(4,5,8) step by (auto simp: c_def granted_def min_def max_def split: if_splits)
      from sobuf_cut [OF assms(1) c step this s1(1), of 18 "of_int n"] obtain s2 where s2: "sz s2 = c"
        "sobuf_rounds os fd opt True step 18 (n - step) (le32 (of_int c)) (of_int n) EM_SUCC s1 =
         Some (EM_SUCC, if n - 18 * step \<le> c then of_int c else of_int n, s2)" by auto
      have "em_sock_setsockopt_sobuf os fd stack opt True (Some (of_int n)) s =
          Some (EM_SUCC, Some (if n - 18 * step \<le> c then of_int c else of_int n), s2)"
        using run s1(2) s2(2) by (simp del: sobuf_rounds.simps(2))
      then show ?thesis using s2(1) False by (intro exI [of _ s2]) (simp add: step_def div c_def granted_def)
    qed
  qed
qed

definition buffer_os :: "int \<Rightarrow> int \<Rightarrow> int sock_os" where
  "buffer_os lim mn = \<lparr>os_socket = (\<lambda>s _ _ _. (Inr 3, s)), os_bind = (\<lambda>s _ a _. (0, s)), os_connect = (\<lambda>s _ _ _. (0, s)),
     os_close = (\<lambda>s _. (0, s)), os_getsockname = (\<lambda>s _ _. (Inl 9, s)),
     os_getpeername = (\<lambda>s _ _. (Inl 107, s)), os_send = (\<lambda>s _ b _. (Inr (length b), s)),
     os_sendto = (\<lambda>s _ b _ _ _. (Inr (length b), s)), os_recvfrom = (\<lambda>s _ _ _ _. (Inl 11, s)),
     os_getsockopt = (\<lambda>s _ _ _ _. (Inr (le32 (of_int s)), s)),
     os_setsockopt = (\<lambda>s _ _ _ b. (0, granted lim mn (the (int_of_bytes b)))), os_shutdown = (\<lambda>s _ _. (0, s)),
     os_listen = (\<lambda>s _ _. (0, s)), os_accept = (\<lambda>s _ _. (Inl 11, s)), os_rand = (\<lambda>s. (7, s))\<rparr>"

lemma buffer_os_sized: "sized_socket (buffer_os lim mn) fd opt (\<lambda>s. s) lim mn"
  by (simp add: sized_socket_def buffer_os_def int_of_le32)

text \<open>With the defaults of Linux, a maximum of 212992 and a minimum of 4608, for two requests.\<close>

lemma sobuf_sizes_witness:
  "em_sock_setsockopt_sobuf (buffer_os 212992 4608) 3 [0, 0, 0, 0] EM_SO_SNDBUF True (Some 8000000) 212992 =
     Some (EM_SUCC, Some 8000000, 425984) \<and>
   em_sock_setsockopt_sobuf (buffer_os 212992 4608) 3 [0, 0, 0, 0] EM_SO_SNDBUF True (Some 216000) 212992 =
     Some (EM_SUCC, Some 425984, 425984)"
  using sobuf_sizes [OF buffer_os_sized [of 212992 4608], of 3 EM_SO_SNDBUF 8000000 212992 "[0, 0, 0, 0]"]
    sobuf_sizes [OF buffer_os_sized [of 212992 4608], of 3 EM_SO_SNDBUF 216000 212992 "[0, 0, 0, 0]"]
  by (simp add: EM_INVALID_SOCKET_def)

text \<open>Without retries the caller is never told the size when it asks for more than the buffer has.\<close>

lemma sobuf_single_silent:
  assumes "sized_socket os fd opt sz lim mn" "fd \<noteq> EM_INVALID_SOCKET" "opt = EM_SO_RCVBUF \<or> opt = EM_SO_SNDBUF"
    and "sz s < n" "n < 2 ^ 31" "0 \<le> sz s" "length stack = 4"
  shows "\<exists>s'. em_sock_setsockopt_sobuf os fd stack opt False (Some (of_int n)) s = Some (EM_SUCC, Some (of_int n), s') \<and>
    sz s' = granted lim mn n"
proof -
  have n: "0 < n" "sz s < 2 ^ 31" using assms(4-6) by simp_all
  have cur: "int_of_bytes (le32 (of_int (sz s))) = Some (sz s)" using assms(6) n(2) by (rule int_of_le32)
  from sized_set [OF assms(1) n(1) assms(5), of s] obtain s' where s':
    "em_sock_setsockopt os fd EM_SOL_SOCKET opt (le32 (of_int n)) s = (EM_SUCC, s')" "sz s' = granted lim mn n" by blast
  have single: "sobuf_rounds os fd opt False step (Suc k) n (le32 (of_int (sz s))) (of_int n) EM_SUCC s = Some (EM_SUCC, of_int n, s')" for step k
    using s'(1) cur assms(4) sized_get [OF assms(1), of "le32 (of_int (sz s))" s'] by simp
  then show ?thesis
    using sobuf_run [OF assms(1-3) n(1) assms(5,6) n(2) assms(7), where retry = False] s'(2) single [of _ 18]
    by (intro exI [of _ s']) (simp del: sobuf_rounds.simps(2))
qed

text \<open>
  The interface for a destination is the interface for 1.1.1.1.  Without \<open>allow_resolve\<close>
  \<open>em_getipinterface\<close> answers the same whatever destination it is given, numeric IPv4 addresses included,
  because no text is ever taken for an address.
\<close>
lemma getipinterface_ignores_destination:
  assumes "cs \<noteq> []" "cs' \<noteq> []" "length stack = 28"
  shows "em_getipinterface os r stack EM_AF_INET (Some cs) a False s = em_getipinterface os r stack EM_AF_INET (Some cs') a False s"
proof -
  obtain st0 d0 where d0: "em_sockaddr_init r EM_AF_INET stack None 53 = Some (st0, d0)" "inet_ok d0"
    using null_init [OF assms(3)] by blast
  then have p: "em_sockaddr_get_addr d0 = Some (Some 4)" "length d0 = 28"
    by (simp_all add: inet_ok_def em_sockaddr_get_addr_def af)
  obtain old where old: "mem_slice d0 4 16 = Some old" "length old = 16" using p(2) by (simp add: mem)
  obtain b where b: "mem_blit old 0 (le32 EM_INADDR_NONE) = Some b"
    using mem_blit_Some [of 0 "le32 EM_INADDR_NONE" old] old(2) by auto
  have pton: "\<exists>st. em_inet_pton EM_AF_INET (Some xs) old = Some (st, b) \<and> st \<noteq> EM_SUCC" if "xs \<noteq> []" for xs
    using that b by (simp add: em_inet_pton_def errno)
  then obtain st st' where
    "em_inet_pton EM_AF_INET (Some cs) old = Some (st, b)" "st \<noteq> EM_SUCC"
    "em_inet_pton EM_AF_INET (Some cs') old = Some (st', b)" "st' \<noteq> EM_SUCC" using assms(1,2) by metis
  then show ?thesis using d0(1) p(1) old(1) by (cases "mem_blit d0 4 b") (simp_all add: em_getipinterface_def)
qed

lemma getipinterface_ignores_destination_witness:
  "em_getipinterface free_os ex_resolver (replicate 28 0) EM_AF_INET (Some (ascii ''10.0.0.1'')) (replicate 28 0) False [] =
   em_getipinterface free_os ex_resolver (replicate 28 0) EM_AF_INET (Some (ascii ''192.168.0.1'')) (replicate 28 0) False []"
  by (rule getipinterface_ignores_destination) (simp_all add: ascii_def)

end
