(* ===== verification/Emlib_Log.thy ===== *)
theory Emlib_Log
  imports Emlib_Time
begin

text \<open>
  The log of \<open>src/log.c\<close>: a line is put together in a static buffer of 1024 bytes, piece by piece, and
  printed.  \<open>snprintf\<close> follows the standard: it writes as much of the text as the room allows, and a NUL,
  and returns the length of the whole text.  Texts are lists of characters without a NUL; the message is what
  the format and its arguments give.
\<close>

section \<open>Formats\<close>

fun dec_digits :: "nat \<Rightarrow> string" where
  "dec_digits n = (if n < 10 then [char_of (48 + n)] else dec_digits (n div 10) @ [char_of (48 + n mod 10)])"

declare dec_digits.simps [simp del]

text \<open>\<open>%d\<close>, and \<open>%0wd\<close> with a width.\<close>

definition fmt_d :: "int \<Rightarrow> string" where
  "fmt_d i = (if i < 0 then CHR ''-'' # dec_digits (nat (- i)) else dec_digits (nat i))"

definition fmt_0d :: "nat \<Rightarrow> int \<Rightarrow> string" where
  "fmt_0d w i =
     (let d = dec_digits (nat \<bar>i\<bar>); sign = (if i < 0 then ''-'' else '''')
      in sign @ replicate (w - length d - length sign) (CHR ''0'') @ d)"

text \<open>
  \<open>snprintf(buf + off, room, text)\<close>, where \<open>room\<close> is the rest of the buffer: the buffer and the returned
  length.  An \<open>off\<close> beyond the buffer is outside of the object.
\<close>

definition snprintf_at :: "string \<Rightarrow> nat \<Rightarrow> string \<Rightarrow> (string \<times> nat) option" where
  "snprintf_at buf off text =
     (if off > length buf then None
      else if off = length buf then Some (buf, length text)
      else do { buf' \<leftarrow> mem_blit buf off (take (length buf - off - 1) text @ [CHR 0x00]); Some (buf', length text) })"

section \<open>The log\<close>

datatype EM_LOG_LEVEL = EM_LOG_FATAL | EM_LOG_ERROR | EM_LOG_WARN | EM_LOG_INFO | EM_LOG_DEBUG | EM_LOG_TRACE

definition level_number :: "EM_LOG_LEVEL \<Rightarrow> int" where
  "level_number l = (case l of EM_LOG_FATAL \<Rightarrow> 0 | EM_LOG_ERROR \<Rightarrow> 1 | EM_LOG_WARN \<Rightarrow> 2 | EM_LOG_INFO \<Rightarrow> 3
     | EM_LOG_DEBUG \<Rightarrow> 4 | EM_LOG_TRACE \<Rightarrow> 5)"

text \<open>Levels are ordered by severity, as C orders them by their numbers.\<close>

instantiation EM_LOG_LEVEL :: linorder
begin

definition less_eq_EM_LOG_LEVEL :: "EM_LOG_LEVEL \<Rightarrow> EM_LOG_LEVEL \<Rightarrow> bool" where
  "less_eq_EM_LOG_LEVEL l k \<longleftrightarrow> level_number l \<le> level_number k"

definition less_EM_LOG_LEVEL :: "EM_LOG_LEVEL \<Rightarrow> EM_LOG_LEVEL \<Rightarrow> bool" where
  "less_EM_LOG_LEVEL l k \<longleftrightarrow> level_number l < level_number k"

instance
  by standard (auto simp: less_eq_EM_LOG_LEVEL_def less_EM_LOG_LEVEL_def level_number_def split: EM_LOG_LEVEL.splits)

end

definition ltexts :: "string list" where
  "ltexts = [''FATAL'', ''ERROR'', '' WARN'', '' INFO'', ''DEBUG'', ''TRACE'']"

text \<open>
  The static variables, and what has been printed.  The level in force is of an enumeration type, which is
  unsigned, so that a level is compared with it as a 32-bit number.
\<close>

record log_state =
  log_buf :: string
  timestamp :: string
  log_level :: uint32
  printed :: "string list"

definition em_log_set_log_level :: "uint32 \<Rightarrow> log_state \<Rightarrow> log_state" where
  "em_log_set_log_level l s = s\<lparr>log_level := l\<rparr>"

definition time_text :: "em_parsed_time \<Rightarrow> string" where
  "time_text pt =
     fmt_0d 4 (pt_year pt) @ ''-'' @ fmt_0d 2 (pt_mon pt + 1) @ ''-'' @ fmt_0d 2 (pt_day pt) @ '' '' @
     fmt_0d 2 (pt_hour pt) @ '':'' @ fmt_0d 2 (pt_min pt) @ '':'' @ fmt_0d 2 (pt_sec pt) @ ''.'' @ fmt_0d 3 (pt_msec pt)"

text \<open>A text in a buffer, up to its NUL.\<close>

definition buf_text :: "string \<Rightarrow> string" where
  "buf_text b = takeWhile (\<lambda>c. c \<noteq> CHR 0x00) b"

definition header_text :: "string \<Rightarrow> string \<Rightarrow> string \<Rightarrow> string \<Rightarrow> int \<Rightarrow> string" where
  "header_text lt ts modl func line = ''['' @ lt @ ''] '' @ ts @ '':'' @ modl @ '':'' @ func @ '':'' @ fmt_d line @ '' ''"

text \<open>The four pieces of a line, the terminator and the output.\<close>

definition log_pieces :: "int \<Rightarrow> string \<Rightarrow> string \<Rightarrow> string list" where
  "log_pieces level header msg =
     [CHR 0x1B # (if level \<le> level_number EM_LOG_WARN then ''[1;31m '' else ''[1;32m ''), header, msg,
      CHR 0x1B # ''[0m '' @ [CHR 0x0A]]"

fun put_pieces :: "string list \<Rightarrow> nat \<Rightarrow> string \<Rightarrow> (string \<times> nat) option" where
  "put_pieces [] log_len buf = Some (buf, log_len)"
| "put_pieces (p # ps) log_len buf =
     do { (buf', n) \<leftarrow> snprintf_at buf log_len p; put_pieces ps (log_len + n) buf' }"

text \<open>
  \<open>_em_log\<close>: \<open>func\<close> and the message are null or a text.  \<open>localtime\<close> is the system's, \<open>tod\<close> what
  \<open>gettimeofday\<close> answers.
\<close>

definition em_log ::
  "(int \<Rightarrow> tm) \<Rightarrow> uint32 + int \<times> int \<Rightarrow> string option \<Rightarrow> int \<Rightarrow> int \<Rightarrow> string \<Rightarrow> string option \<Rightarrow> log_state \<Rightarrow> log_state option" where
  "em_log localtime tod func line level modl msg s =
     (case (func, msg) of
        (Some f, Some m) \<Rightarrow>
          (case em_gettimeofday tod of
             Inl rc \<Rightarrow> Some s
           | Inr tv \<Rightarrow> do {
               let (_, pt) = em_time_decode localtime tv;
               (ts, len) \<leftarrow> snprintf_at (timestamp s) 0 (time_text pt);
               ts' \<leftarrow> mem_set ts len (CHR 0x00);
               let s1 = s\<lparr>timestamp := ts'\<rparr>;
               if \<not> of_int level \<le> log_level s then Some s1
               else if level < 0 \<or> nat level \<ge> length ltexts then None
               else do {
                 (buf, n) \<leftarrow> put_pieces (log_pieces level (header_text (ltexts ! nat level) (buf_text ts') modl f line) m) 0 (log_buf s);
                 buf' \<leftarrow> mem_set buf n (CHR 0x00);
                 Some (s1\<lparr>log_buf := buf', printed := printed s @ [buf_text buf']\<rparr>)
               }
             })
      | _ \<Rightarrow> Some s)"

text \<open>\<open>v_em_log\<close> is the same for a list of arguments.\<close>

definition v_em_log ::
  "(int \<Rightarrow> tm) \<Rightarrow> uint32 + int \<times> int \<Rightarrow> string option \<Rightarrow> int \<Rightarrow> int \<Rightarrow> string \<Rightarrow> string option \<Rightarrow> log_state \<Rightarrow> log_state option" where
  "v_em_log localtime tod func line level modl msg s = em_log localtime tod func line level modl msg s"

text \<open>\<open>printx\<close>: a dump of bytes, sixteen to a line.\<close>

definition hex_digit :: "nat \<Rightarrow> char" where
  "hex_digit d = ''0123456789abcdef'' ! d"

fun printx :: "uint8 list \<Rightarrow> nat \<Rightarrow> string" where
  "printx [] cnt = [CHR 0x0A]"
| "printx (b # bs) cnt =
     (if cnt mod 16 = 0 then [CHR 0x0A] else []) @ ''0x'' @ [hex_digit (unat b div 16), hex_digit (unat b mod 16)] @ '', '' @
     printx bs (cnt + 1)"

section \<open>A line fits or runs over\<close>

lemma snprintf_fits:
  assumes "off + length text < length buf"
  shows "\<exists>buf'. snprintf_at buf off text = Some (buf', length text) \<and> length buf' = length buf \<and>
    take (off + length text) buf' = take off buf @ text"
proof -
  obtain buf' where buf': "mem_blit buf off (text @ [CHR 0x00]) = Some buf'"
    using assms by (simp add: mem_blit_def)
  have "take (off + length text) (take (off + length (text @ [CHR 0x00])) buf') = take (off + length text) (take off buf @ text @ [CHR 0x00])"
    using mem_blit_take [OF buf'] by simp
  then have "take (off + length text) buf' = take off buf @ text" using assms by (simp add: min_def)
  then show ?thesis using buf' mem_blit_length [OF buf'] assms by (simp add: snprintf_at_def)
qed

lemma snprintf_length: "snprintf_at buf off text = Some (buf', n) \<Longrightarrow> length buf' = length buf \<and> n = length text"
  by (auto simp: snprintf_at_def dest: mem_blit_length split: if_splits bind_splits)

lemma pieces_fit:
  "off + length (concat ps) < length buf \<Longrightarrow>
   \<exists>buf'. put_pieces ps off buf = Some (buf', off + length (concat ps)) \<and> length buf' = length buf \<and>
     take (off + length (concat ps)) buf' = take off buf @ concat ps"
proof (induction ps arbitrary: off buf)
  case (Cons p ps)
  then have "off + length p < length buf" by simp
  from snprintf_fits [OF this] obtain b1 where b1: "snprintf_at buf off p = Some (b1, length p)" "length b1 = length buf"
    "take (off + length p) b1 = take off buf @ p" by blast
  have "off + length p + length (concat ps) < length b1" using Cons.prems b1(2) by simp
  from Cons.IH [OF this] obtain b2 where "put_pieces ps (off + length p) b1 = Some (b2, off + length p + length (concat ps))"
    "length b2 = length b1" "take (off + length p + length (concat ps)) b2 = take (off + length p) b1 @ concat ps" by blast
  then show ?case using b1 by (simp add: add.assoc)
qed simp

lemma pieces_length:
  "put_pieces ps off buf = Some (buf', n) \<Longrightarrow> length buf' = length buf \<and> n = off + length (concat ps)"
proof (induction ps arbitrary: off buf)
  case (Cons p ps)
  then obtain b1 k where "snprintf_at buf off p = Some (b1, k)" "put_pieces ps (off + k) b1 = Some (buf', n)"
    by (auto split: bind_splits)
  with Cons.IH snprintf_length show ?case by (fastforce simp: add.assoc)
qed simp

lemma digit_not_nul: "d < 10 \<Longrightarrow> (char_of (48 + d :: nat) :: char) \<noteq> CHR 0x00"
proof
  assume d: "d < 10" "(char_of (48 + d :: nat) :: char) = CHR 0x00"
  then have "of_char (char_of (48 + d :: nat) :: char) = (of_char (CHR 0x00) :: nat)" by simp
  then show False using d(1) by simp
qed

lemma dec_digits_no_nul: "CHR 0x00 \<notin> set (dec_digits n)"
proof (induction n rule: dec_digits.induct)
  case (1 n)
  then show ?case using digit_not_nul [of n] digit_not_nul [of "n mod 10"]
    by (subst dec_digits.simps) auto
qed

lemma dec_digits_length: "n < 10 ^ Suc k \<Longrightarrow> length (dec_digits n) \<le> Suc k"
proof (induction n arbitrary: k rule: dec_digits.induct)
  case (1 n)
  show ?case
  proof (cases "n < 10")
    case True
    then show ?thesis by (subst dec_digits.simps) simp
  next
    case False
    then obtain j where j: "k = Suc j" using "1.prems" by (cases k) auto
    then have "n div 10 < 10 ^ Suc j" using "1.prems" by (simp add: less_mult_imp_div_less)
    then have "length (dec_digits (n div 10)) \<le> Suc j" using "1.IH" [OF False] by blast
    then show ?thesis using False j by (subst dec_digits.simps) simp
  qed
qed

lemma fmt_0d_length: "\<bar>i\<bar> < 10 ^ 10 \<Longrightarrow> w \<le> 11 \<Longrightarrow> length (fmt_0d w i) \<le> 11"
  using dec_digits_length [of "nat \<bar>i\<bar>" 9] by (auto simp: fmt_0d_def Let_def nat_less_iff)

lemma fmt_no_nul: "CHR 0x00 \<notin> set (fmt_0d w i)" "CHR 0x00 \<notin> set (fmt_d i)"
  using dec_digits_no_nul by (auto simp: fmt_0d_def fmt_d_def Let_def split: if_splits)

definition small_time :: "em_parsed_time \<Rightarrow> bool" where
  "small_time pt \<longleftrightarrow> (\<forall>i \<in> {pt_year pt, pt_mon pt + 1, pt_day pt, pt_hour pt, pt_min pt, pt_sec pt, pt_msec pt}. \<bar>i\<bar> < 10 ^ 10)"

lemma time_text_ok:
  assumes "small_time pt"
  shows "length (time_text pt) < 100" "CHR 0x00 \<notin> set (time_text pt)"
proof -
  have "length (fmt_0d w i) \<le> 11" if "i \<in> {pt_year pt, pt_mon pt + 1, pt_day pt, pt_hour pt, pt_min pt, pt_sec pt, pt_msec pt}" "w \<le> 11" for i w
    using assms that unfolding small_time_def by (intro fmt_0d_length) blast+
  from this [of "pt_year pt" 4] this [of "pt_mon pt + 1" 2] this [of "pt_day pt" 2] this [of "pt_hour pt" 2]
    this [of "pt_min pt" 2] this [of "pt_sec pt" 2] this [of "pt_msec pt" 3]
  show "length (time_text pt) < 100" by (simp add: time_text_def)
  show "CHR 0x00 \<notin> set (time_text pt)" using fmt_no_nul by (simp add: time_text_def)
qed

lemma buf_text_of:
  assumes "take n b = xs" "n = length xs" "n < length b" "CHR 0x00 \<notin> set xs"
  shows "buf_text (b[n := CHR 0x00]) = xs"
proof -
  have "b[n := CHR 0x00] = xs @ CHR 0x00 # drop (Suc n) b"
    using assms(1-3) by (simp add: upd_conv_take_nth_drop)
  then show ?thesis using assms(4) by (auto simp: buf_text_def takeWhile_append)
qed

lemma log_line:
  assumes "length (log_buf s) = 1024" "length (timestamp s) = 100" "0 \<le> level" "level \<le> 5" "of_int level \<le> log_level s"
    and "pt = snd (em_time_decode localtime \<lparr>tv_sec = sec, tv_msec = c_div usec 1000\<rparr>)" "small_time pt"
    and "text = concat (log_pieces level (header_text (ltexts ! nat level) (time_text pt) modl f ln) m)"
    and "CHR 0x00 \<notin> set (modl @ f @ m)"
  shows "if length text < 1024
    then \<exists>s'. em_log localtime (Inr (sec, usec)) (Some f) ln level modl (Some m) s = Some s' \<and> printed s' = printed s @ [text]
    else em_log localtime (Inr (sec, usec)) (Some f) ln level modl (Some m) s = None"
proof -
  note t = time_text_ok [OF assms(7)]
  from snprintf_fits [of 0 "time_text pt" "timestamp s"] t assms(2) obtain ts where
    ts: "snprintf_at (timestamp s) 0 (time_text pt) = Some (ts, length (time_text pt))" "length ts = 100"
    "take (length (time_text pt)) ts = time_text pt" by auto
  let ?ts = "ts[length (time_text pt) := CHR 0x00]"
  have ts': "mem_set ts (length (time_text pt)) (CHR 0x00) = Some ?ts" "buf_text ?ts = time_text pt"
    using t ts by (simp_all add: mem_set_def buf_text_of)
  let ?ps = "log_pieces level (header_text (ltexts ! nat level) (time_text pt) modl f ln) m"
  have level: "\<not> (level < 0 \<or> nat level \<ge> length ltexts)" using assms(3,4) by (simp add: ltexts_def)
  have run: "em_log localtime (Inr (sec, usec)) (Some f) ln level modl (Some m) s =
      do { (buf, n) \<leftarrow> put_pieces ?ps 0 (log_buf s); buf' \<leftarrow> mem_set buf n (CHR 0x00);
           Some (s\<lparr>timestamp := ?ts, log_buf := buf', printed := printed s @ [buf_text buf']\<rparr>) }"
    using assms(5,6) ts(1) ts' level by (simp add: em_log_def em_gettimeofday_def em_time_decode_def Let_def)
  show ?thesis
  proof (cases "length text < 1024")
    case True
    then obtain b where b: "put_pieces ?ps 0 (log_buf s) = Some (b, length text)" "length b = 1024" "take (length text) b = text"
      using pieces_fit [of 0 ?ps "log_buf s"] assms(1,8) by auto
    have "ltexts ! nat level \<in> set ltexts" using level by (intro nth_mem) auto
    then have "CHR 0x00 \<notin> set (ltexts ! nat level)" by (auto simp: ltexts_def)
    then have "CHR 0x00 \<notin> set text"
      using assms(8,9) t(2) fmt_no_nul by (auto simp: log_pieces_def header_text_def)
    then show ?thesis using True run b buf_text_of [OF b(3) refl] by (simp add: mem_set_def)
  next
    case False
    then show ?thesis using run pieces_length [of ?ps 0 "log_buf s"] assms(1,8)
      by (cases "put_pieces ?ps 0 (log_buf s)") (auto simp: mem_set_def)
  qed
qed

text \<open>
  C37. A log line is printed whole or runs over its buffer.  With the level enabled the call prints the colour,
  the header, the message and the end of the line, exactly, if together they have at most 1023 characters;
  otherwise it writes outside of the static buffer, because the lengths of the pieces are those \<open>snprintf\<close>
  would have liked to write.
\<close>
theorem log_line_fits:
  assumes "length (log_buf s) = 1024" "length (timestamp s) = 100" "0 \<le> level" "level \<le> 5" "of_int level \<le> log_level s"
    and "pt = snd (em_time_decode localtime \<lparr>tv_sec = sec, tv_msec = c_div usec 1000\<rparr>)" "small_time pt"
    and "text = concat (log_pieces level (header_text (ltexts ! nat level) (time_text pt) modl f ln) m)"
    and "CHR 0x00 \<notin> set (modl @ f @ m)"
  shows "if length text < 1024
    then \<exists>s'. em_log localtime (Inr (sec, usec)) (Some f) ln level modl (Some m) s = Some s' \<and> printed s' = printed s @ [text]
    else em_log localtime (Inr (sec, usec)) (Some f) ln level modl (Some m) s = None"
  by (rule log_line [OF assms])

text \<open>Setting a level enables it and every more severe one, and no other.\<close>

lemma level_enabled:
  "of_int (level_number l) \<le> log_level (em_log_set_log_level (of_int (level_number k)) s) \<longleftrightarrow> l \<le> k"
  by (cases l; cases k) (simp_all add: em_log_set_log_level_def level_number_def less_eq_EM_LOG_LEVEL_def word_le_def)

definition ex_localtime :: "int \<Rightarrow> tm" where
  "ex_localtime t = \<lparr>tm_year = 119, tm_mon = 0, tm_mday = 5, tm_hour = 12, tm_min = 30, tm_sec = 7, tm_wday = 6, tm_isdst = 0\<rparr>"

definition ex_log :: log_state where
  "ex_log = \<lparr>log_buf = replicate 1024 CHR 0x00, timestamp = replicate 100 CHR 0x00, log_level = 4, printed = []\<rparr>"

definition ex_line :: "string \<Rightarrow> string" where
  "ex_line m = concat (log_pieces 1 (header_text (ltexts ! nat 1)
     (time_text (snd (em_time_decode ex_localtime \<lparr>tv_sec = 0, tv_msec = c_div 42000 1000\<rparr>))) ''TIMER'' ''poll'' 77) m)"

lemma log_line_fits_witness:
  "(\<exists>s'. em_log ex_localtime (Inr (0, 42000)) (Some ''poll'') 77 1 ''TIMER'' (Some ''late'') ex_log = Some s' \<and>
      printed s' = [ex_line ''late'']) \<and>
    em_log ex_localtime (Inr (0, 42000)) (Some ''poll'') 77 1 ''TIMER'' (Some (replicate 1000 (CHR ''x''))) ex_log = None"
proof -
  have len: "length (log_buf ex_log) = 1024" "length (timestamp ex_log) = 100" "log_level ex_log = 4" "printed ex_log = []"
    by (simp_all add: ex_log_def)
  have small: "small_time (snd (em_time_decode ex_localtime \<lparr>tv_sec = 0, tv_msec = c_div 42000 1000\<rparr>))"
    by (simp add: small_time_def em_time_decode_def ex_localtime_def c_div_def)
  have short: "length (ex_line []) = 60" by code_simp
  have line: "length (ex_line m) = 60 + length m" for m using short by (simp add: ex_line_def log_pieces_def)
  have nul: "CHR 0x00 \<notin> set (''TIMER'' @ ''poll'' @ ''late'')" "CHR 0x00 \<notin> set (''TIMER'' @ ''poll'' @ replicate 1000 (CHR ''x''))"
    by simp_all
  note fits = log_line_fits [OF len(1,2) _ _ _ refl small _ nul(1), of 1 "ex_line ''late''" 77]
  note runs = log_line_fits [OF len(1,2) _ _ _ refl small _ nul(2), of 1 "ex_line (replicate 1000 (CHR ''x''))" 77]
  show ?thesis using fits runs line len(3,4) by (simp add: ex_line_def)
qed

end
