(* ===== verification/Emlib_Nest.thy ===== *)
theory Emlib_Nest
  imports Emlib_Os
begin

text \<open>
  The nested lock of \<open>src/nest_lock.c\<close> over the mutex of \<open>src/pthread_lock.c\<close>, put together by
  \<open>src/pthread_nest_lock.c\<close>.  Its field \<open>self\<close>, here \<open>self_fn\<close>, is the function that tells a thread's number,
  32 bits wide; 0 stands for no thread.  The constructors have their bodies compiled out.
\<close>

section \<open>The operations\<close>

text \<open>\<open>pthread_lock.c\<close>: any error of the mutex is \<open>EM_FAIL\<close>.\<close>

definition lock_result :: "(int \<times> pthread_mutex) sys \<Rightarrow> (emlib_ret_t \<times> pthread_mutex) sys" where
  "lock_result r = sys_bind r (\<lambda>(rc, m). Returns (if rc = 0 then EM_SUCC else EM_FAIL, m))"

definition on_mutex_t ::
  "(pthread_mutex \<Rightarrow> (int \<times> pthread_mutex) sys) \<Rightarrow> pthread_mutex option \<Rightarrow> (emlib_ret_t \<times> pthread_mutex option) sys" where
  "on_mutex_t f thiz =
     (case thiz of
        None \<Rightarrow> Returns (EM_EINVAL, None)
      | Some m \<Rightarrow> sys_bind (lock_result (f m)) (\<lambda>(ret, m'). Returns (ret, Some m')))"

definition mutex_lock :: "tid \<Rightarrow> pthread_mutex option \<Rightarrow> (emlib_ret_t \<times> pthread_mutex option) sys" where
  "mutex_lock t thiz = on_mutex_t (pthread_mutex_lock t) thiz"

definition mutex_trylock :: "tid \<Rightarrow> pthread_mutex option \<Rightarrow> (emlib_ret_t \<times> pthread_mutex option) sys" where
  "mutex_trylock t thiz = on_mutex_t (pthread_mutex_trylock t) thiz"

definition mutex_unlock :: "tid \<Rightarrow> pthread_mutex option \<Rightarrow> (emlib_ret_t \<times> pthread_mutex option) sys" where
  "mutex_unlock t thiz = on_mutex_t (pthread_mutex_unlock t) thiz"

text \<open>
  The lock object of \<open>lock.c\<close> around such a mutex: the pointer to it, and whether the function pointers are
  set; a function pointer that is set is the one of \<open>pthread_lock.c\<close>.  \<open>em_lock\<close> and \<open>em_unlock\<close> refuse a null
  object and a null function.
\<close>

record mutex_locker =
  lk_obj :: "pthread_mutex option"
  lk_lock :: bool
  lk_unlock :: bool

definition locker_lock :: "tid \<Rightarrow> mutex_locker option \<Rightarrow> (emlib_ret_t \<times> mutex_locker option) sys" where
  "locker_lock t thiz =
     (case thiz of
        None \<Rightarrow> Returns (EM_FAIL, None)
      | Some l \<Rightarrow>
          if \<not> lk_lock l then Returns (EM_FAIL, Some l)
          else sys_bind (mutex_lock t (lk_obj l)) (\<lambda>(ret, m). Returns (ret, Some (l\<lparr>lk_obj := m\<rparr>))))"

definition locker_unlock :: "tid \<Rightarrow> mutex_locker option \<Rightarrow> (emlib_ret_t \<times> mutex_locker option) sys" where
  "locker_unlock t thiz =
     (case thiz of
        None \<Rightarrow> Returns (EM_FAIL, None)
      | Some l \<Rightarrow>
          if \<not> lk_unlock l then Returns (EM_FAIL, Some l)
          else sys_bind (mutex_unlock t (lk_obj l)) (\<lambda>(ret, m). Returns (ret, Some (l\<lparr>lk_obj := m\<rparr>))))"

text \<open>\<open>nest_lock.c\<close>.  The counter is a signed 32-bit integer.\<close>

record nest_mutex_t =
  who :: uint32
  refcnt :: int
  self_fn :: "(tid \<Rightarrow> uint32) option"
  locker :: "mutex_locker option"

definition LOCK_NO_BINDING :: uint32 where "LOCK_NO_BINDING = 0"

definition nest_mutex_lock :: "tid \<Rightarrow> nest_mutex_t option \<Rightarrow> (emlib_ret_t \<times> nest_mutex_t option) sys" where
  "nest_mutex_lock t lock_obj =
     (case lock_obj of
        None \<Rightarrow> Returns (EM_EINVAL, None)
      | Some n \<Rightarrow>
          (case self_fn n of
             None \<Rightarrow> Returns (EM_EINVAL, Some n)
           | Some self \<Rightarrow>
               if who n = self t
               then if refcnt n + 1 < 2 ^ 31 then Returns (EM_SUCC, Some (n\<lparr>refcnt := refcnt n + 1\<rparr>)) else Undef
               else sys_bind (locker_lock t (locker n)) (\<lambda>(ret, l).
                 Returns (ret, Some (if ret = EM_SUCC then n\<lparr>locker := l, who := self t, refcnt := 1\<rparr> else n\<lparr>locker := l\<rparr>)))))"

definition nest_mutex_unlock :: "tid \<Rightarrow> nest_mutex_t option \<Rightarrow> (emlib_ret_t \<times> nest_mutex_t option) sys" where
  "nest_mutex_unlock t lock_obj =
     (case lock_obj of
        None \<Rightarrow> Returns (EM_EINVAL, None)
      | Some n \<Rightarrow>
          (case self_fn n of
             None \<Rightarrow> Returns (EM_EINVAL, Some n)
           | Some self \<Rightarrow>
               if \<not> who n = self t then Returns (EM_EINVAL, Some n)
               else
                 (let n1 = n\<lparr>refcnt := refcnt n - 1\<rparr> in
                  if refcnt n1 = 0
                  then sys_bind (locker_unlock t (locker n1)) (\<lambda>(ret, l).
                    Returns (ret, Some (n1\<lparr>who := LOCK_NO_BINDING, locker := l\<rparr>)))
                  else Returns (EM_SUCC, Some n1))))"

text \<open>The constructors: what is left of their bodies.\<close>

definition pthread_lock_create :: "pthread_mutex option" where "pthread_lock_create = None"

definition nest_lock_create :: "pthread_mutex option \<Rightarrow> nest_mutex_t option" where "nest_lock_create m = None"

definition pthread_nest_lock_create :: "bool \<Rightarrow> nest_mutex_t option" where
  "pthread_nest_lock_create pool =
     (if \<not> pool then None
      else case pthread_lock_create of
        None \<Rightarrow> None
      | Some m \<Rightarrow> (case nest_lock_create (Some m) of None \<Rightarrow> None | Some n \<Rightarrow> Some n))"

definition pthread_test_self :: "(tid \<Rightarrow> uint64) \<Rightarrow> tid \<Rightarrow> uint32" where
  "pthread_test_self pthread_self t = ucast (pthread_self t)"

section \<open>A recursive mutex from a plain one\<close>

text \<open>
  A nested lock that is well formed has a mutex and the functions for it, and knows the number of the
  thread that holds its mutex and how often that thread has locked it.  It stands for a recursive mutex of
  that level.
\<close>

definition mutex_of :: "nest_mutex_t \<Rightarrow> pthread_mutex" where
  "mutex_of n = the (lk_obj (the (locker n)))"

definition nest_ok :: "(tid \<Rightarrow> uint32) \<Rightarrow> nest_mutex_t \<Rightarrow> bool" where
  "nest_ok self n \<longleftrightarrow> self_fn n = Some self \<and>
     locker n = Some \<lparr>lk_obj = Some (mutex_of n), lk_lock = True, lk_unlock = True\<rparr> \<and> \<not> pm_recursive (mutex_of n) \<and>
     (case pm_owner (mutex_of n) of
        None \<Rightarrow> who n = LOCK_NO_BINDING \<and> refcnt n = 0 \<and> pm_level (mutex_of n) = 0
      | Some t \<Rightarrow> who n = self t \<and> refcnt n > 0 \<and> pm_level (mutex_of n) = 1)"

definition as_recursive :: "nest_mutex_t \<Rightarrow> pthread_mutex" where
  "as_recursive n = \<lparr>pm_recursive = True, pm_owner = pm_owner (mutex_of n), pm_level = nat (refcnt n)\<rparr>"

text \<open>A result of the nested lock implements a result of the recursive mutex.\<close>

definition implements ::
  "(tid \<Rightarrow> uint32) \<Rightarrow> (emlib_ret_t \<times> nest_mutex_t option) sys \<Rightarrow> (int \<times> pthread_mutex) sys \<Rightarrow> bool" where
  "implements self r q \<longleftrightarrow>
     (case (r, q) of
        (Returns (st, Some n), Returns (rc, m)) \<Rightarrow> (st = EM_SUCC \<longleftrightarrow> rc = 0) \<and> nest_ok self n \<and> as_recursive n = m
      | (Blocks, Blocks) \<Rightarrow> True
      | _ \<Rightarrow> False)"

lemmas nest = nest_ok_def as_recursive_def implements_def lock_result_def LOCK_NO_BINDING_def mutex_of_def

lemmas nest_ops = nest_mutex_lock_def nest_mutex_unlock_def locker_lock_def locker_unlock_def mutex_lock_def
  mutex_unlock_def on_mutex_t_def pthread_mutex_lock_def pthread_mutex_unlock_def

text \<open>
  C36. The nested lock is a recursive mutex for a thread whose number is not 0 and not that of another holder.
  A well-formed nested lock behaves on \<open>lock\<close> and \<open>unlock\<close> as the recursive mutex it stands for, with the same
  success, the same blocking and the same holder and count, and is well formed afterwards, as long as the
  counter has room.
\<close>
theorem nest_is_recursive:
  assumes "\<And>u. pm_owner (mutex_of n) = Some u \<Longrightarrow> self u = self t \<Longrightarrow> u = t" "self t \<noteq> 0" "nest_ok self n" "refcnt n < 2 ^ 31 - 1"
  shows "implements self (nest_mutex_lock t (Some n)) (pthread_mutex_lock t (as_recursive n)) \<and>
    implements self (nest_mutex_unlock t (Some n)) (pthread_mutex_unlock t (as_recursive n))"
proof -
  obtain m where m: "locker n = Some \<lparr>lk_obj = Some m, lk_lock = True, lk_unlock = True\<rparr>" "mutex_of n = m" "self_fn n = Some self"
    using assms(3) by (simp add: nest_ok_def)
  show ?thesis
  proof (cases "pm_owner m")
    case None
    then have "who n \<noteq> self t" using assms(2,3) m by (simp add: nest)
    then show ?thesis using None assms(3) m
      by (simp add: nest nest_ops posix_errno errno)
  next
    case (Some u)
    then have who: "who n = self t \<longleftrightarrow> u = t" using assms(1) [of u] assms(3) m by (auto simp: nest)
    show ?thesis
    proof (cases "u = t")
      case False
      then show ?thesis using Some assms(3) who m
        by (simp add: nest nest_ops posix_errno errno)
    next
      case True
      then show ?thesis using Some assms(3,4) who m
        by (auto simp: nest nest_ops posix_errno errno Let_def nat_add_distrib)
    qed
  qed
qed

definition ex_self :: "tid \<Rightarrow> uint32" where "ex_self t = of_nat t + 1"

definition ex_locker :: mutex_locker where
  "ex_locker = \<lparr>lk_obj = Some \<lparr>pm_recursive = False, pm_owner = Some 5, pm_level = 1\<rparr>, lk_lock = True, lk_unlock = True\<rparr>"

definition ex_nest :: nest_mutex_t where
  "ex_nest = \<lparr>who = 6, refcnt = 2, self_fn = Some ex_self, locker = Some ex_locker\<rparr>"

lemma nest_is_recursive_witness:
  "implements ex_self (nest_mutex_lock 4 (Some ex_nest)) (pthread_mutex_lock 4 (as_recursive ex_nest)) \<and>
    implements ex_self (nest_mutex_unlock 4 (Some ex_nest)) (pthread_mutex_unlock 4 (as_recursive ex_nest))"
  by (rule nest_is_recursive) (simp_all add: ex_nest_def ex_locker_def ex_self_def nest)

text \<open>
  The nested lock of \<open>pthread_nest_lock.c\<close> does not exclude.  The thread numbers are the low 32 bits of
  \<open>pthread_self\<close>: a second thread whose handle has the low half of the holder's enters at once, without
  touching the mutex; and a thread whose handle has
  the low half 0 enters a lock that nobody holds without locking anything.
\<close>
lemma nest_lets_two_in:
  assumes "nest_ok (pthread_test_self ps) n" "refcnt n < 2 ^ 31 - 1"
    and "pm_owner (mutex_of n) = Some u \<and> ucast (ps t) = (ucast (ps u) :: uint32) \<or>
      pm_owner (mutex_of n) = None \<and> ucast (ps t) = (0 :: uint32)"
  shows "nest_mutex_lock t (Some n) = Returns (EM_SUCC, Some (n\<lparr>refcnt := refcnt n + 1\<rparr>))"
  using assms by (auto simp: nest_ok_def LOCK_NO_BINDING_def nest_mutex_lock_def pthread_test_self_def)

lemma nest_lets_two_in_witness:
  "let n = \<lparr>who = 7, refcnt = 1, self_fn = Some (pthread_test_self (\<lambda>t. 2 ^ 32 * of_nat t + 7)), locker = Some ex_locker\<rparr>
   in nest_mutex_lock 8 (Some n) = Returns (EM_SUCC, Some (n\<lparr>refcnt := 2\<rparr>))"
  unfolding Let_def
  by (subst nest_lets_two_in [where u = 5 and ps = "\<lambda>t. 2 ^ 32 * of_nat t + 7"]) (simp_all add: nest pthread_test_self_def ex_locker_def)

text \<open>No nested lock can be made: the constructors return null, with the pool in hand.\<close>

lemma no_nested_lock: "pthread_nest_lock_create pool = None"
  by (simp add: pthread_nest_lock_create_def pthread_lock_create_def)

end
