(* ===== verification/Emlib_Atomic.thy ===== *)
theory Emlib_Atomic
  imports Emlib_Os
begin

text \<open>
  The atomic variables of \<open>src/os_core_unix.c\<close> in several threads.  An operation is the sequence of its steps:
  it locks the variable's mutex, loads the value, stores the new one and unlocks; the steps of different
  threads come in any order.  The result is that the operations happen one at a time, as the definitions of
  \<open>Emlib_Os\<close> have them.
\<close>

section \<open>The steps of an operation\<close>

datatype atomic_op = Get | Set "64 word" | Inc | Dec | Add "64 word"

text \<open>The operation at once: its result and the variable after it.\<close>

fun at_once :: "atomic_op \<Rightarrow> em_atomic_t \<Rightarrow> 64 word \<times> em_atomic_t" where
  "at_once Get a = (em_atomic_get a, a)"
| "at_once (Set v) a = (v, the (em_atomic_set (Some a) v))"
| "at_once Inc a = em_atomic_inc_and_get a"
| "at_once Dec a = em_atomic_dec_and_get a"
| "at_once (Add d) a = em_atomic_add_and_get a d"

text \<open>What is stored, from what was loaded.\<close>

fun stored_value :: "atomic_op \<Rightarrow> 64 word \<Rightarrow> 64 word" where
  "stored_value Get v = v"
| "stored_value (Set w) v = w"
| "stored_value Inc v = v + 1"
| "stored_value Dec v = v - 1"
| "stored_value (Add d) v = v + d"

text \<open>Where a thread is: outside, before the lock, after it, after the load and after the store.\<close>

datatype atomic_pc = Outside | Waiting atomic_op | Inside atomic_op | Loaded atomic_op "64 word" | Stored atomic_op "64 word"

text \<open>\<open>at_log\<close> has the operations in the order of their stores, with their threads and results.\<close>

record atomic_sys =
  at_var :: em_atomic_t
  at_pc :: "tid \<Rightarrow> atomic_pc"
  at_log :: "(tid \<times> atomic_op \<times> 64 word) list"

definition at_move :: "tid \<Rightarrow> atomic_pc \<Rightarrow> atomic_sys \<Rightarrow> atomic_sys" where
  "at_move t pc s = s\<lparr>at_pc := (at_pc s)(t := pc)\<rparr>"

definition at_mutex :: "em_mutex_t option \<Rightarrow> atomic_sys \<Rightarrow> atomic_sys" where
  "at_mutex m s = s\<lparr>at_var := (at_var s)\<lparr>a_mutex := m\<rparr>\<rparr>"

definition at_store :: "tid \<Rightarrow> atomic_op \<Rightarrow> 64 word \<Rightarrow> atomic_sys \<Rightarrow> atomic_sys" where
  "at_store t op v s = s\<lparr>at_var := (at_var s)\<lparr>a_value := v\<rparr>, at_log := at_log s @ [(t, op, v)]\<rparr>"

text \<open>Only \<open>em_atomic_set\<close> looks at the status of the lock.\<close>

definition stops_on_error :: "atomic_op \<Rightarrow> bool" where
  "stops_on_error op \<longleftrightarrow> (case op of Set _ \<Rightarrow> True | _ \<Rightarrow> False)"

inductive atomic_step :: "atomic_sys \<Rightarrow> atomic_sys \<Rightarrow> bool" where
  call: "at_pc s t = Outside \<Longrightarrow> atomic_step s (at_move t (Waiting op) s)"
| lock: "at_pc s t = Waiting op \<Longrightarrow> em_mutex_lock t (a_mutex (at_var s)) = Returns (rc, m) \<Longrightarrow>
    atomic_step s (at_move t (if rc \<noteq> EM_SUCC \<and> stops_on_error op then Outside else Inside op) (at_mutex m s))"
| load: "at_pc s t = Inside op \<Longrightarrow> atomic_step s (at_move t (Loaded op (a_value (at_var s))) s)"
| store: "at_pc s t = Loaded op v \<Longrightarrow>
    atomic_step s (at_move t (Stored op (stored_value op v)) (at_store t op (stored_value op v) s))"
| unlock: "at_pc s t = Stored op v \<Longrightarrow> em_mutex_unlock t (a_mutex (at_var s)) = Returns (rc, m) \<Longrightarrow>
    atomic_step s (at_move t Outside (at_mutex m s))"

inductive_cases atomic_stepE [elim!]: "atomic_step s s'"

inductive atomic_run :: "atomic_sys \<Rightarrow> atomic_sys \<Rightarrow> bool" for s where
  start: "atomic_run s s"
| more: "atomic_run s s1 \<Longrightarrow> atomic_step s1 s2 \<Longrightarrow> atomic_run s s2"

section \<open>One at a time\<close>

text \<open>The log as a sequential run: the variable after it, if every result is the one of the operation.\<close>

fun replay :: "(tid \<times> atomic_op \<times> 64 word) list \<Rightarrow> em_atomic_t \<Rightarrow> em_atomic_t option" where
  "replay [] a = Some a"
| "replay ((t, op, r) # l) a = (case at_once op a of (r', a') \<Rightarrow> if r' = r then replay l a' else None)"

fun in_region :: "atomic_pc \<Rightarrow> bool" where
  "in_region (Inside op) = True"
| "in_region (Loaded op v) = True"
| "in_region (Stored op v) = True"
| "in_region _ = False"

definition fresh_mutex :: em_mutex_t where
  "fresh_mutex = \<lparr>m_mutex = \<lparr>pm_recursive = False, pm_owner = None, pm_level = 0\<rparr>, m_obj_name = ''atm''\<rparr>"

definition atomic_start :: "64 word \<Rightarrow> atomic_sys" where
  "atomic_start v = \<lparr>at_var = \<lparr>a_mutex = Some fresh_mutex, a_value = v\<rparr>, at_pc = (\<lambda>_. Outside), at_log = []\<rparr>"

text \<open>
  The invariant: the mutex is plain and held by the thread that is in the critical region; what a thread has
  loaded is still the value; and the log replays to the value.
\<close>

definition atomic_ok :: "64 word \<Rightarrow> atomic_sys \<Rightarrow> bool" where
  "atomic_ok v0 s \<longleftrightarrow>
     (\<exists>m. a_mutex (at_var s) = Some m \<and> \<not> pm_recursive (m_mutex m) \<and>
        (\<forall>t. in_region (at_pc s t) \<longleftrightarrow> pm_owner (m_mutex m) = Some t) \<and>
        (pm_owner (m_mutex m) \<noteq> None \<longrightarrow> pm_level (m_mutex m) = 1)) \<and>
     (\<forall>t op v. v \<noteq> a_value (at_var s) \<longrightarrow> at_pc s t \<noteq> Loaded op v) \<and>
     (\<forall>t op v. at_pc s t = Stored op v \<longrightarrow> (t, op, v) \<in> set (at_log s)) \<and>
     map_option a_value (replay (at_log s) \<lparr>a_mutex = None, a_value = v0\<rparr>) = Some (a_value (at_var s))"

lemma replay_append:
  "replay (l @ l') a = (case replay l a of None \<Rightarrow> None | Some a' \<Rightarrow> replay l' a')"
  by (induction l a rule: replay.induct) (auto split: prod.splits)

lemma at_once_value: "fst (at_once op a) = stored_value op (a_value a)" "a_value (snd (at_once op a)) = stored_value op (a_value a)"
  by (cases op; simp add: em_atomic_get_def em_atomic_set_def em_atomic_inc_and_get_def em_atomic_dec_and_get_def
      em_atomic_add_and_get_def Let_def)+

lemma replay_store:
  assumes "map_option a_value (replay l a) = Some v"
  shows "map_option a_value (replay (l @ [(t, op, stored_value op v)]) a) = Some (stored_value op v)"
proof -
  obtain a' where "replay l a = Some a'" "a_value a' = v" using assms by auto
  then show ?thesis using at_once_value [of op a'] by (cases "at_once op a'") (simp add: replay_append)
qed

lemmas at_defs = at_move_def at_mutex_def at_store_def em_mutex_lock_def em_mutex_unlock_def on_mutex_def
  pthread_mutex_lock_def pthread_mutex_unlock_def os_status_def

lemma atomic_start_ok: "atomic_ok v (atomic_start v)"
  by (simp add: atomic_ok_def atomic_start_def fresh_mutex_def)

lemma atomic_okI:
  assumes "a_mutex (at_var s) = Some m" "\<not> pm_recursive (m_mutex m)"
    and "\<And>t. in_region (at_pc s t) \<longleftrightarrow> pm_owner (m_mutex m) = Some t"
    and "pm_owner (m_mutex m) \<noteq> None \<Longrightarrow> pm_level (m_mutex m) = 1"
    and "\<And>t op v. at_pc s t = Loaded op v \<Longrightarrow> v = a_value (at_var s)"
    and "\<And>t op v. at_pc s t = Stored op v \<Longrightarrow> (t, op, v) \<in> set (at_log s)"
    and "map_option a_value (replay (at_log s) \<lparr>a_mutex = None, a_value = v0\<rparr>) = Some (a_value (at_var s))"
  shows "atomic_ok v0 s"
  unfolding atomic_ok_def using assms by blast

text \<open>A step that leaves the mutex, the value and the log alone, and its thread in or out of the region.\<close>

lemma atomic_move_ok:
  assumes "atomic_ok v0 s" "in_region pc = in_region (at_pc s t)"
    and "\<And>op v. pc = Loaded op v \<Longrightarrow> v = a_value (at_var s)" "\<And>op v. pc \<noteq> Stored op v"
  shows "atomic_ok v0 (at_move t pc s)"
proof -
  obtain m where m: "a_mutex (at_var s) = Some m" "\<not> pm_recursive (m_mutex m)"
    "\<And>t. in_region (at_pc s t) \<longleftrightarrow> pm_owner (m_mutex m) = Some t"
    "pm_owner (m_mutex m) \<noteq> None \<Longrightarrow> pm_level (m_mutex m) = 1"
    using assms(1) unfolding atomic_ok_def by blast
  have rest: "\<And>t op v. at_pc s t = Loaded op v \<Longrightarrow> v = a_value (at_var s)"
    "\<And>t op v. at_pc s t = Stored op v \<Longrightarrow> (t, op, v) \<in> set (at_log s)"
    "map_option a_value (replay (at_log s) \<lparr>a_mutex = None, a_value = v0\<rparr>) = Some (a_value (at_var s))"
    using assms(1) unfolding atomic_ok_def by blast+
  show ?thesis
  proof (rule atomic_okI)
    show "a_mutex (at_var (at_move t pc s)) = Some m" using m(1) by (simp add: at_move_def)
    show "\<not> pm_recursive (m_mutex m)" by (rule m(2))
    show "in_region (at_pc (at_move t pc s) u) \<longleftrightarrow> pm_owner (m_mutex m) = Some u" for u
      using assms(2) m(3) by (simp add: at_move_def)
    show "pm_level (m_mutex m) = 1" if "pm_owner (m_mutex m) \<noteq> None" using m(4) that .
    show "v = a_value (at_var (at_move t pc s))" if "at_pc (at_move t pc s) u = Loaded op v" for u op v
      using assms(3) rest(1) that unfolding at_move_def by (cases "u = t") fastforce+
    show "(u, op, v) \<in> set (at_log (at_move t pc s))" if "at_pc (at_move t pc s) u = Stored op v" for u op v
      using assms(4) rest(2) that unfolding at_move_def by (cases "u = t") fastforce+
    show "map_option a_value (replay (at_log (at_move t pc s)) \<lparr>a_mutex = None, a_value = v0\<rparr>) =
        Some (a_value (at_var (at_move t pc s)))" using rest(3) by (simp add: at_move_def)
  qed
qed

text \<open>A new holder of the mutex, or none, with its thread's place.\<close>

lemma atomic_mutex_ok:
  assumes "atomic_ok v0 s" "a_mutex (at_var s) = Some m"
    and "\<And>u. u \<noteq> t \<Longrightarrow> \<not> in_region (at_pc s u)" "\<And>op v. pc \<noteq> Loaded op v" "\<And>op v. pc \<noteq> Stored op v"
  shows "atomic_ok v0 (at_move t pc (at_mutex (Some (m\<lparr>m_mutex := (m_mutex m)\<lparr>pm_owner := if in_region pc then Some t else None,
    pm_level := if in_region pc then 1 else 0\<rparr>\<rparr>)) s))" (is "atomic_ok v0 ?s")
proof -
  have m: "\<not> pm_recursive (m_mutex m)" using assms(1,2) unfolding atomic_ok_def by auto
  have rest: "\<And>t op v. at_pc s t = Loaded op v \<Longrightarrow> v = a_value (at_var s)"
    "\<And>t op v. at_pc s t = Stored op v \<Longrightarrow> (t, op, v) \<in> set (at_log s)"
    "map_option a_value (replay (at_log s) \<lparr>a_mutex = None, a_value = v0\<rparr>) = Some (a_value (at_var s))"
    using assms(1) unfolding atomic_ok_def by blast+
  let ?m = "m\<lparr>m_mutex := (m_mutex m)\<lparr>pm_owner := if in_region pc then Some t else None, pm_level := if in_region pc then 1 else 0\<rparr>\<rparr>"
  show ?thesis
  proof (rule atomic_okI [of _ ?m])
    show "a_mutex (at_var ?s) = Some ?m" by (simp add: at_move_def at_mutex_def)
    show "\<not> pm_recursive (m_mutex ?m)" using m by simp
    show "in_region (at_pc ?s u) \<longleftrightarrow> pm_owner (m_mutex ?m) = Some u" for u
      using assms(3) by (simp add: at_move_def at_mutex_def)
    show "pm_level (m_mutex ?m) = 1" if "pm_owner (m_mutex ?m) \<noteq> None" using that by (simp split: if_splits)
    show "v = a_value (at_var ?s)" if "at_pc ?s u = Loaded op v" for u op v
      using assms(4) rest(1) that unfolding at_move_def at_mutex_def by (cases "u = t") fastforce+
    show "(u, op, v) \<in> set (at_log ?s)" if "at_pc ?s u = Stored op v" for u op v
      using assms(5) rest(2) that unfolding at_move_def at_mutex_def by (cases "u = t") fastforce+
    show "map_option a_value (replay (at_log ?s) \<lparr>a_mutex = None, a_value = v0\<rparr>) = Some (a_value (at_var ?s))"
      using rest(3) by (simp add: at_move_def at_mutex_def)
  qed
qed

lemma atomic_step_ok:
  assumes "atomic_ok v0 s" "atomic_step s s'"
  shows "atomic_ok v0 s'"
proof -
  obtain m where m: "a_mutex (at_var s) = Some m" "\<not> pm_recursive (m_mutex m)"
    "\<And>t. in_region (at_pc s t) \<longleftrightarrow> pm_owner (m_mutex m) = Some t"
    "pm_owner (m_mutex m) \<noteq> None \<Longrightarrow> pm_level (m_mutex m) = 1"
    using assms(1) unfolding atomic_ok_def by blast
  have rest: "\<And>t op v. at_pc s t = Loaded op v \<Longrightarrow> v = a_value (at_var s)"
    "\<And>t op v. at_pc s t = Stored op v \<Longrightarrow> (t, op, v) \<in> set (at_log s)"
    "map_option a_value (replay (at_log s) \<lparr>a_mutex = None, a_value = v0\<rparr>) = Some (a_value (at_var s))"
    using assms(1) unfolding atomic_ok_def by blast+
  have alone: "u = t" if "in_region (at_pc s t)" "in_region (at_pc s u)" for t u using that m(3) by simp
  from assms(2) show ?thesis
  proof cases
    case (call t op)
    show ?thesis unfolding call(1) by (rule atomic_move_ok [OF assms(1)]) (simp_all add: call(2))
  next
    case (lock t op rc m')
    have free: "pm_owner (m_mutex m) = None" using lock(3) m(1,2)
      by (simp add: at_defs split: option.splits if_splits)
    then have m': "rc = EM_SUCC" "m' = Some (m\<lparr>m_mutex := (m_mutex m)\<lparr>pm_owner := Some t, pm_level := 1\<rparr>\<rparr>)"
      using lock(3) m(1) by (simp_all add: at_defs)
    have "\<not> in_region (at_pc s u)" for u using m(3) free by simp
    from atomic_mutex_ok [OF assms(1) m(1) this, where pc = "Inside op" and t = t] show ?thesis unfolding lock(1) m' by simp
  next
    case (load t op)
    show ?thesis unfolding load(1) by (rule atomic_move_ok [OF assms(1)]) (simp_all add: load(2))
  next
    case (store t op v)
    have v: "v = a_value (at_var s)" using rest(1) store(2) by blast
    have others: "u = t" if "in_region (at_pc s u)" for u using alone [of t u] that store(2) by simp
    show ?thesis
    proof (rule atomic_okI)
      show "a_mutex (at_var s') = Some m" using m(1) by (simp add: store(1) at_move_def at_store_def)
      show "in_region (at_pc s' u) \<longleftrightarrow> pm_owner (m_mutex m) = Some u" for u
        using m(3) [of u] m(3) [of t] store(2) by (auto simp: store(1) at_move_def at_store_def)
      show "w = a_value (at_var s')" if "at_pc s' u = Loaded op' w" for u op' w
        using others [of u] that by (cases "u = t") (simp_all add: store(1) at_move_def at_store_def)
      show "(u, op', w) \<in> set (at_log s')" if "at_pc s' u = Stored op' w" for u op' w
        using rest(2) [of u op' w] that by (cases "u = t") (auto simp: store(1) at_move_def at_store_def)
      show "map_option a_value (replay (at_log s') \<lparr>a_mutex = None, a_value = v0\<rparr>) = Some (a_value (at_var s'))"
        using replay_store [OF rest(3), of t op] by (simp add: store(1) v at_move_def at_store_def)
    qed (use m in blast)+
  next
    case (unlock t op v rc m')
    then have own: "pm_owner (m_mutex m) = Some t" using m(3) [of t] by simp
    then have m': "m' = Some (m\<lparr>m_mutex := (m_mutex m)\<lparr>pm_owner := None, pm_level := 0\<rparr>\<rparr>)"
      using unlock(3) m(1,4) by (simp add: at_defs)
    have "\<not> in_region (at_pc s u)" if "u \<noteq> t" for u using m(3) own that by simp
    from atomic_mutex_ok [OF assms(1) m(1) this, where pc = Outside] show ?thesis unfolding unlock(1) m' by simp
  qed
qed

lemma atomic_run_ok: "atomic_run (atomic_start v0) s \<Longrightarrow> atomic_ok v0 s"
proof (induction rule: atomic_run.induct)
  case start
  show ?case by (rule atomic_start_ok)
next
  case (more s1 s2)
  show ?case by (rule atomic_step_ok [OF more.IH more.hyps(2)])
qed

text \<open>
  C5. Atomic variables are atomic.  However the steps of any number of threads interleave, at most one thread is
  between the lock and the unlock of an operation; doing the operations at once, one after the other in
  the order of their stores, gives every one of them the result it had and leaves the variable's value; and an
  operation that is about to return has the result it has there.
\<close>
theorem atomic_linearizable:
  assumes "atomic_run (atomic_start v0) s"
  shows "(\<forall>t u. in_region (at_pc s t) \<and> in_region (at_pc s u) \<longrightarrow> t = u) \<and>
    (\<exists>a. replay (at_log s) \<lparr>a_mutex = None, a_value = v0\<rparr> = Some a \<and> a_value a = a_value (at_var s)) \<and>
    (\<forall>t op v. at_pc s t = Stored op v \<longrightarrow> (t, op, v) \<in> set (at_log s))"
proof -
  note ok = atomic_run_ok [OF assms]
  then obtain m :: em_mutex_t where m: "\<forall>t. in_region (at_pc s t) \<longleftrightarrow> pm_owner (m_mutex m) = Some t" unfolding atomic_ok_def by blast
  have "map_option a_value (replay (at_log s) \<lparr>a_mutex = None, a_value = v0\<rparr>) = Some (a_value (at_var s))"
    using ok unfolding atomic_ok_def by blast
  moreover have "\<forall>t op v. at_pc s t = Stored op v \<longrightarrow> (t, op, v) \<in> set (at_log s)" using ok unfolding atomic_ok_def by blast
  ultimately show ?thesis using m by auto
qed

lemma atomic_linearizable_witness:
  "\<exists>s. atomic_run (atomic_start 5) s \<and> at_pc s 2 = Waiting Dec \<and>
    (\<exists>a. replay (at_log s) \<lparr>a_mutex = None, a_value = 5\<rparr> = Some a \<and> a_value a = a_value (at_var s)) \<and> at_log s = [(1, Inc, 6)]"
proof -
  let ?m = "Some (fresh_mutex\<lparr>m_mutex := \<lparr>pm_recursive = False, pm_owner = Some 1, pm_level = 1\<rparr>\<rparr>)"
  define s1 where "s1 = at_move 1 (Waiting Inc) (atomic_start 5)"
  define s2 where "s2 = at_move 1 (Inside Inc) (at_mutex ?m s1)"
  define s3 where "s3 = at_move 2 (Waiting Dec) s2"
  define s4 where "s4 = at_move 1 (Loaded Inc 5) s3"
  define s5 where "s5 = at_move 1 (Stored Inc 6) (at_store 1 Inc 6 s4)"
  have "atomic_step (atomic_start 5) s1" unfolding s1_def by (rule atomic_step.call) (simp add: atomic_start_def)
  moreover have "em_mutex_lock 1 (a_mutex (at_var s1)) = Returns (EM_SUCC, ?m)"
    by (simp add: s1_def atomic_start_def at_defs fresh_mutex_def)
  then have "atomic_step s1 s2" unfolding s2_def
    using atomic_step.lock [of s1 1 Inc] by (simp add: s1_def at_move_def)
  moreover have "atomic_step s2 s3" unfolding s3_def
    by (rule atomic_step.call) (simp add: s2_def s1_def atomic_start_def at_move_def at_mutex_def)
  moreover have "atomic_step s3 s4" unfolding s4_def
    using atomic_step.load [of s3 1 Inc] by (simp add: s3_def s2_def s1_def atomic_start_def at_move_def at_mutex_def)
  moreover have "atomic_step s4 s5" unfolding s5_def
    using atomic_step.store [of s4 1 Inc 5] by (simp add: s4_def at_move_def)
  ultimately have "atomic_run (atomic_start 5) s5"
    by (meson atomic_run.intros)
  moreover have "at_log s5 = [(1, Inc, 6)]" "at_pc s5 2 = Waiting Dec"
    by (simp_all add: s5_def s4_def s3_def s2_def s1_def at_defs atomic_start_def)
  ultimately show ?thesis using atomic_linearizable [of 5 s5] by blast
qed

text \<open>Nobody waits for ever for want of a step: as long as a thread is in an operation, one of them can go on.\<close>

lemma atomic_progress:
  assumes "atomic_run (atomic_start v0) s" "at_pc s t \<noteq> Outside"
  shows "\<exists>u s'. at_pc s u \<noteq> Outside \<and> atomic_step s s' \<and> at_pc s' u \<noteq> at_pc s u"
proof (cases "\<exists>u. in_region (at_pc s u)")
  case False
  obtain m where m: "a_mutex (at_var s) = Some m" "\<forall>t. in_region (at_pc s t) \<longleftrightarrow> pm_owner (m_mutex m) = Some t"
    using atomic_run_ok [OF assms(1)] unfolding atomic_ok_def by blast
  obtain op where op: "at_pc s t = Waiting op" using False assms(2) by (cases "at_pc s t") (auto dest: spec [of _ t])
  have "pm_owner (m_mutex m) = None" using m(2) False by (cases "pm_owner (m_mutex m)") auto
  then obtain m' where "em_mutex_lock t (a_mutex (at_var s)) = Returns (EM_SUCC, m')" using m(1) by (auto simp: at_defs)
  from atomic_step.lock [OF op this] show ?thesis using op
    by (intro exI [of _ t] exI [of _ "at_move t (Inside op) (at_mutex m' s)"]) (simp add: at_move_def)
next
  case True
  then obtain u where u: "in_region (at_pc s u)" by blast
  obtain m where m: "a_mutex (at_var s) = Some m" "\<forall>t. in_region (at_pc s t) \<longleftrightarrow> pm_owner (m_mutex m) = Some t"
    using atomic_run_ok [OF assms(1)] unfolding atomic_ok_def by blast
  obtain rc m' where unlock: "em_mutex_unlock u (a_mutex (at_var s)) = Returns (rc, m')" using m u by (auto simp: at_defs)
  show ?thesis
  proof (cases "at_pc s u")
    case (Inside op)
    from atomic_step.load [OF Inside] show ?thesis using Inside
      by (intro exI [of _ u] exI [of _ "at_move u (Loaded op (a_value (at_var s))) s"]) (simp add: at_move_def)
  next
    case (Loaded op v)
    from atomic_step.store [OF Loaded] show ?thesis using Loaded
      by (intro exI [of _ u] exI [of _ "at_move u (Stored op (stored_value op v)) (at_store u op (stored_value op v) s)"]) (simp add: at_move_def)
  next
    case (Stored op v)
    from atomic_step.unlock [OF Stored unlock] show ?thesis using Stored
      by (intro exI [of _ u] exI [of _ "at_move u Outside (at_mutex m' s)"]) (simp add: at_move_def)
  qed (use u in simp_all)
qed

end
