(* ===== verification/Emlib_Alnum.thy ===== *)
theory Emlib_Alnum
  imports Emlib_String
begin

unbundle bit_operations_syntax

text \<open>
  The comparison of alphanumeric strings in \<open>include/em/string_i.h\<close>, compiled in with
  \<open>EM_HAS_STRICMP_ALNUM\<close>: four characters at a time, with the mask 0x5F on each of them.  The machine is
  little-endian.  The result agrees with the case-insensitive comparison for letters and digits.
\<close>

section \<open>The comparison\<close>

text \<open>\<open>*(uint32*)p\<close>\<close>

definition alnum_word :: "memory \<Rightarrow> ptr \<Rightarrow> uint32" where
  "alnum_word m p = ucast (m p) OR push_bit 8 (ucast (m (p + 1))) OR push_bit 16 (ucast (m (p + 2)))
     OR push_bit 24 (ucast (m (p + 3)))"

function alnum_loop :: "memory \<Rightarrow> ptr \<Rightarrow> ptr \<Rightarrow> int \<Rightarrow> ptr \<times> ptr \<times> int" where
  "alnum_loop m p1 p2 len =
     (if len > 3 \<and> alnum_word m p1 AND 0x5F5F5F5F = alnum_word m p2 AND 0x5F5F5F5F
      then alnum_loop m (p1 + 4) (p2 + 4) (len - 4) else (p1, p2, len))"
  by pat_completeness auto
termination by (relation "measure (\<lambda>(m, p1, p2, len). nat len)") auto

declare alnum_loop.simps [simp del]

definition alnum_rest :: "memory \<Rightarrow> ptr \<times> ptr \<times> int \<Rightarrow> int" where
  "alnum_rest m r =
     (case r of (p1, p2, len) \<Rightarrow>
        if len > 3 then - 1
        else if len = 3 then (if alnum_word m p1 AND 0x005F5F5F = alnum_word m p2 AND 0x005F5F5F then 0 else - 1)
        else if len = 2 then (if alnum_word m p1 AND 0x00005F5F = alnum_word m p2 AND 0x00005F5F then 0 else - 1)
        else if len = 1 then (if alnum_word m p1 AND 0x0000005F = alnum_word m p2 AND 0x0000005F then 0 else - 1)
        else 0)"

definition strnicmp_alnum :: "memory \<Rightarrow> ptr \<Rightarrow> ptr \<Rightarrow> int \<Rightarrow> int" where
  "strnicmp_alnum m str1 str2 len = (if len = 0 then 0 else alnum_rest m (alnum_loop m str1 str2 len))"

definition em_stricmp_alnum :: "memory \<Rightarrow> em_str_t \<Rightarrow> em_str_t \<Rightarrow> int" where
  "em_stricmp_alnum m str1 str2 =
     (let len = slen str1 in
      if len \<noteq> slen str2 then (if len < slen str2 then - 1 else 1)
      else if len = 0 then 0
      else alnum_rest m (alnum_loop m (s_ptr str1) (s_ptr str2) len))"

section \<open>What it compares\<close>

text \<open>The characters with the mask.\<close>

definition masked :: "memory \<Rightarrow> ptr \<Rightarrow> nat \<Rightarrow> int8 list" where
  "masked m p n = map (\<lambda>c. c AND 0x5F) (chars m p n)"

lemma masked_append: "masked m p (a + b) = masked m p a @ masked m (p + of_nat a) b"
  by (simp add: masked_def chars_append)

lemma masked_length [simp]: "length (masked m p n) = n" by (simp add: masked_def)

lemma byte_bit: "8 \<le> n \<Longrightarrow> \<not> bit (c :: int8) n"
  by (auto dest: bit_imp_le_length)

lemma bit_shifted_byte: "bit (push_bit k (ucast (c :: int8)) :: uint32) n \<longleftrightarrow> k \<le> n \<and> n < 32 \<and> bit c (n - k)"
  by (auto simp: bit_simps)

lemma bit_load32:
  "bit (alnum_word m p) n \<longleftrightarrow>
     n < 32 \<and> (bit (m p) n \<or> 8 \<le> n \<and> bit (m (p + 1)) (n - 8) \<or> 16 \<le> n \<and> bit (m (p + 2)) (n - 16) \<or>
       24 \<le> n \<and> bit (m (p + 3)) (n - 24))"
  using bit_shifted_byte [of 0 "m p" n]
  by (simp add: alnum_word_def bit_or_iff bit_shifted_byte) blast

lemma alnum_word_byte:
  assumes "i < 4" "j < 8"
  shows "bit (alnum_word m p) (8 * i + j) \<longleftrightarrow> bit (m (p + of_nat i)) j"
proof -
  consider "i = 0" | "i = 1" | "i = 2" | "i = 3" using assms(1) by linarith
  then show ?thesis using assms(2) by cases (auto simp: bit_load32 byte_bit)
qed

lemma alnum_word_eq: "alnum_word m p = alnum_word m' q \<longleftrightarrow> (\<forall>i<4. m (p + of_nat i) = m' (q + of_nat i))"
proof
  assume l: "alnum_word m p = alnum_word m' q"
  show "\<forall>i<4. m (p + of_nat i) = m' (q + of_nat i)"
    by (intro allI impI bit_word_eqI) (simp add: alnum_word_byte [symmetric] l)
next
  assume "\<forall>i<4. m (p + of_nat i) = m' (q + of_nat i)"
  from this [rule_format, of 0] this [rule_format, of 1] this [rule_format, of 2] this [rule_format, of 3]
  show "alnum_word m p = alnum_word m' q" by (simp add: alnum_word_def)
qed

text \<open>The mask on the first \<open>k\<close> of the four characters.\<close>

lemma alnum_word_mask:
  assumes "w = alnum_word (\<lambda>a. if unat a < k then 0x5F else 0) 0" "k \<le> 4"
  shows "alnum_word m p AND w = alnum_word m q AND w \<longleftrightarrow> masked m p k = masked m q k"
proof -
  have l: "alnum_word m p AND w = alnum_word (\<lambda>a. m a AND (if unat (a - p) < k then 0x5F else 0)) p" for p
  proof (rule bit_word_eqI)
    fix n assume "n < LENGTH(32)"
    then have n: "n = 8 * (n div 8) + n mod 8" "n div 8 < 4" "n mod 8 < 8" by auto
    have "unat (of_nat (n div 8) :: ptr) = n div 8" using n(2) by (simp add: unat_of_nat)
    then show "bit (alnum_word m p AND w) n \<longleftrightarrow> bit (alnum_word (\<lambda>a. m a AND (if unat (a - p) < k then 0x5F else 0)) p) n"
      unfolding assms(1) by (subst (1 2) n(1)) (simp only: bit_and_iff alnum_word_byte [OF n(2,3)] add_0 add_diff_cancel_left')
  qed
  have u: "unat (p + of_nat i - p) = i" if "i < 4" for i and p :: ptr
    using that by (simp add: unat_of_nat)
  let ?f = "\<lambda>p i. m (p + of_nat i) AND (if i < k then 0x5F else 0)"
  have f: "m (p + of_nat i) AND (if unat (p + of_nat i - p) < k then 0x5F else 0) = ?f p i" if "i < 4" for i p
    by (simp only: u [OF that])
  have "alnum_word m p AND w = alnum_word m q AND w \<longleftrightarrow> (\<forall>i<4. ?f p i = ?f q i)"
    unfolding l alnum_word_eq by (intro arg_cong [where f = All] ext imp_cong refl) (simp only: f)
  also have "\<dots> \<longleftrightarrow> (\<forall>i<k. m (p + of_nat i) AND 0x5F = m (q + of_nat i) AND 0x5F)"
  proof (intro iffI allI impI)
    fix i assume "\<forall>i<4. ?f p i = ?f q i" "i < k"
    then show "m (p + of_nat i) AND 0x5F = m (q + of_nat i) AND 0x5F"
      using assms(2) by (elim allE [where x = i]) simp
  qed simp
  also have "\<dots> \<longleftrightarrow> masked m p k = masked m q k" by (auto simp: masked_def chars_def)
  finally show ?thesis .
qed

lemma alnum_masks:
  "0x5F5F5F5F = alnum_word (\<lambda>a. if unat a < 4 then 0x5F else 0) 0"
  "0x5F5F5F = alnum_word (\<lambda>a. if unat a < 3 then 0x5F else 0) 0"
  "0x5F5F = alnum_word (\<lambda>a. if unat a < 2 then 0x5F else 0) 0"
  "0x5F = alnum_word (\<lambda>a. if unat a < 1 then 0x5F else 0) 0"
  by (simp_all add: alnum_word_def)

lemmas alnum_mask = alnum_word_mask [OF alnum_masks(1)] alnum_word_mask [OF alnum_masks(2)] alnum_word_mask [OF alnum_masks(3)]
  alnum_word_mask [OF alnum_masks(4)]

lemma alnum_rest_loop:
  "0 \<le> len \<Longrightarrow> alnum_rest m (alnum_loop m p q len) = (if masked m p (nat len) = masked m q (nat len) then 0 else - 1)"
proof (induction m p q len rule: alnum_loop.induct)
  case (1 m p q len)
  show ?case
  proof (cases "len > 3")
    case True
    then have "nat len = 4 + nat (len - 4)" by simp
    then have s: "masked m p (nat len) = masked m p 4 @ masked m (p + 4) (nat (len - 4))" for p
      using masked_append [of m p 4 "nat (len - 4)"] by simp
    show ?thesis
    proof (cases "masked m p 4 = masked m q 4")
      case True
      then have "alnum_word m p AND 0x5F5F5F5F = alnum_word m q AND 0x5F5F5F5F" by (simp add: alnum_mask)
      moreover from this have "alnum_rest m (alnum_loop m (p + 4) (q + 4) (len - 4)) =
          (if masked m (p + 4) (nat (len - 4)) = masked m (q + 4) (nat (len - 4)) then 0 else - 1)"
        using 1 \<open>len > 3\<close> by simp
      ultimately show ?thesis
        using \<open>len > 3\<close> True by (subst alnum_loop.simps) (simp add: s)
    next
      case False
      then have "alnum_word m p AND 0x5F5F5F5F \<noteq> alnum_word m q AND 0x5F5F5F5F" by (simp add: alnum_mask)
      with False \<open>len > 3\<close> show ?thesis by (subst alnum_loop.simps) (simp add: s alnum_rest_def)
    qed
  next
    case False
    with 1(2) consider "len = 0" | "len = 1" | "len = 2" | "len = 3" by linarith
    moreover have "alnum_loop m p q len = (p, q, len)" using False by (subst alnum_loop.simps) simp
    ultimately show ?thesis
      by cases (simp_all add: alnum_rest_def alnum_mask, simp add: masked_def)
  qed
qed

text \<open>On letters and digits the mask is the lower-case character, shifted.\<close>

lemma alnum_table:
  "list_all (\<lambda>n. (of_nat n :: int8) AND 0x5F = tolower (of_nat n) - 0x20 \<and> (of_nat n :: int8) \<noteq> 0) [0x30..<0x3A]"
  "list_all (\<lambda>n. (of_nat n :: int8) AND 0x5F = tolower (of_nat n) - 0x20 \<and> (of_nat n :: int8) \<noteq> 0) [0x41..<0x5B]"
  "list_all (\<lambda>n. (of_nat n :: int8) AND 0x5F = tolower (of_nat n) - 0x20 \<and> (of_nat n :: int8) \<noteq> 0) [0x61..<0x7B]"
  by (simp_all add: upt_rec_numeral tolower_def)

lemma alnum_char:
  assumes "isalnum c"
  shows "c AND 0x5F = tolower c - 0x20 \<and> c \<noteq> 0"
proof -
  have "0x30 \<le> unat c \<and> unat c < 0x3A \<or> 0x41 \<le> unat c \<and> unat c < 0x5B \<or> 0x61 \<le> unat c \<and> unat c < 0x7B"
    using assms unfolding ctype word_le_nat_alt by simp linarith
  then show ?thesis
    using alnum_table [unfolded list_all_iff set_upt, THEN bspec, of "unat c"] by (simp only: atLeastLessThan_iff) force
qed

lemma strncmp_bytes_zero:
  "length xs = length ys \<Longrightarrow> 0 \<notin> set xs \<Longrightarrow> strncmp_bytes f xs ys = 0 \<longleftrightarrow> map f xs = map f ys"
  by (induction xs ys rule: list_induct2) (auto simp: unsigned_word_eqI)

lemma alnum_zero:
  "0 \<le> slen s1 \<Longrightarrow> em_stricmp_alnum m s1 s2 = 0 \<longleftrightarrow>
     slen s1 = slen s2 \<and> map (\<lambda>c. c AND 0x5F) (str_bytes m s1) = map (\<lambda>c. c AND 0x5F) (str_bytes m s2)"
  by (auto simp: em_stricmp_alnum_def alnum_rest_loop str_bytes_def masked_def Let_def)

lemma stricmp_zero:
  assumes "0 \<le> slen s1" "slen s1 < 2 ^ 31" "0 \<le> slen s2" "slen s2 < 2 ^ 31" "0 \<notin> set (str_bytes m s1)"
  shows "em_stricmp m s1 s2 = 0 \<longleftrightarrow>
    slen s1 = slen s2 \<and> map tolower (str_bytes m s1) = map tolower (str_bytes m s2)"
proof (cases "slen s1 = slen s2")
  case True
  have "unat (word_of_int (slen s2) :: em_size_t) = nat (slen s2)"
    using assms(3,4) by (simp add: unat_eq_nat_uint uint_word_of_int take_bit_int_eq_self)
  with True assms(5) strncmp_bytes_zero [of "str_bytes m s1" "str_bytes m s2" tolower] show ?thesis
    by (auto simp: em_stricmp_def em_ansi_strnicmp_def str_bytes_def length_order_def Let_def)
next
  case False
  then show ?thesis by (auto simp: em_stricmp_def length_order_def Let_def)
qed

text \<open>
  C22. The comparison four characters at a time is equivalent to the case-insensitive one: for two strings
  of letters and digits, whatever lies behind them in memory,
  \<open>em_stricmp_alnum\<close> is 0 exactly if \<open>em_stricmp\<close> is 0.
\<close>
theorem stricmp_alnum_equivalent:
  assumes "list_all isalnum (str_bytes m s1)" "list_all isalnum (str_bytes m s2)"
    and "0 \<le> slen s1" "slen s1 < 2 ^ 31" "0 \<le> slen s2" "slen s2 < 2 ^ 31"
  shows "em_stricmp_alnum m s1 s2 = 0 \<longleftrightarrow> em_stricmp m s1 s2 = 0"
proof -
  have m: "map (\<lambda>c. c AND 0x5F) cs = map (\<lambda>c. c - 0x20) (map tolower cs)" if "list_all isalnum cs" for cs
    using that alnum_char by (simp add: list_all_iff)
  have "inj (\<lambda>c :: int8. c - 0x20)" by (rule injI) simp
  then have "map (\<lambda>c. c AND 0x5F) (str_bytes m s1) = map (\<lambda>c. c AND 0x5F) (str_bytes m s2) \<longleftrightarrow>
      map tolower (str_bytes m s1) = map tolower (str_bytes m s2)"
    unfolding m [OF assms(1)] m [OF assms(2)] by (rule inj_map_eq_map)
  moreover have "0 \<notin> set (str_bytes m s1)" using assms(1) alnum_char by (auto simp: list_all_iff)
  ultimately show ?thesis using alnum_zero stricmp_zero assms(3-6) by metis
qed

text \<open>\<open>''Ab9''\<close> and \<open>''aB9''\<close>, with different bytes behind them.\<close>

definition alnum_mem :: memory where
  "alnum_mem = (\<lambda>_. 0)(0x100 := 0x41, 0x101 := 0x62, 0x102 := 0x39, 0x103 := 0x7A,
     0x200 := 0x61, 0x201 := 0x42, 0x202 := 0x39)"

lemma stricmp_alnum_equivalent_witness:
  "em_stricmp_alnum alnum_mem \<lparr>s_ptr = 0x100, slen = 3, blen = 0\<rparr> \<lparr>s_ptr = 0x200, slen = 3, blen = 0\<rparr> = 0"
proof -
  let ?s1 = "\<lparr>s_ptr = 0x100, slen = 3, blen = 0\<rparr>" and ?s2 = "\<lparr>s_ptr = 0x200, slen = 3, blen = 0\<rparr>"
  have b: "str_bytes alnum_mem ?s1 = [0x41, 0x62, 0x39]" "str_bytes alnum_mem ?s2 = [0x61, 0x42, 0x39]"
    by (simp_all add: str_bytes_def chars_def alnum_mem_def upt_rec)
  then have "em_stricmp alnum_mem ?s1 ?s2 = 0" by (subst stricmp_zero) (simp_all add: tolower_def)
  with b show ?thesis by (subst stricmp_alnum_equivalent) (simp_all add: ctype)
qed

text \<open>
  For other characters the documentation admits mistakes: a zero digit is taken for a control character, and
  the brace for the bracket.  Not admitted is the sign: strings of different lengths give 1 as well.
\<close>

lemma alnum_mistakes:
  "(0x30 :: int8) AND 0x5F = 0x10 AND 0x5F" "(0x5B :: int8) AND 0x5F = 0x7B AND 0x5F"
  "slen s1 > slen s2 \<Longrightarrow> em_stricmp_alnum m s1 s2 = 1"
  by (simp_all add: em_stricmp_alnum_def Let_def)

end
