(* ===== verification/Emlib_Perror.thy ===== *)
theory Emlib_Perror
  imports Emlib_Log Emlib_Errno
begin

text \<open>
  \<open>em_perror\<close> of \<open>src/errno.c\<close>: the text of a status, after a title, as a log line.  The build decides with
  \<open>EM_LOG_MAX_LEVEL\<close>, the parameter \<open>max_level\<close> here, which of the functions have a body;
  \<open>include/em/config.h\<close> makes it 4 unless the build has set it.  The formatted title is a parameter.
\<close>

definition EM_LOG_MAX_LEVEL :: int where "EM_LOG_MAX_LEVEL = 4"

definition EM_ERR_MSG_SIZE :: em_size_t where "EM_ERR_MSG_SIZE = 80"

definition EM_PERROR_TITLE_BUF_SIZE :: nat where "EM_PERROR_TITLE_BUF_SIZE = 120"

text \<open>\<open>titlebuf\<close> after \<open>vsnprintf\<close>: a title that does not fit is replaced.\<close>

definition title_buf :: "string \<Rightarrow> string" where
  "title_buf title = (if length title \<ge> EM_PERROR_TITLE_BUF_SIZE then ''Error'' else title)"

definition invoke_log ::
  "(int \<Rightarrow> tm) \<Rightarrow> uint32 + int \<times> int \<Rightarrow> string \<Rightarrow> int \<Rightarrow> string \<Rightarrow> log_state \<Rightarrow> log_state option" where
  "invoke_log localtime tod sender level msg s =
     v_em_log localtime tod (Some ''invoke_log'') 233 level sender (Some msg) s"

definition em_perror_imp ::
  "(int \<Rightarrow> tm) \<Rightarrow> uint32 + int \<times> int \<Rightarrow> 'f err_msg_hnd list \<Rightarrow> (32 word \<Rightarrow> string) \<Rightarrow>
   ('f \<Rightarrow> emlib_ret_t \<Rightarrow> em_size_t \<Rightarrow> string \<times> int) \<Rightarrow>
   int \<Rightarrow> string \<Rightarrow> emlib_ret_t \<Rightarrow> string \<Rightarrow> log_state \<Rightarrow> log_state option" where
  "em_perror_imp localtime tod hs syserr call level sender status title s =
     do {
       (errmsg, len) \<leftarrow> em_strerror hs syserr call status EM_ERR_MSG_SIZE;
       invoke_log localtime tod sender level (buf_text (title_buf title) @ '': '' @ buf_text errmsg) s
     }"

definition em_perror ::
  "int \<Rightarrow> (int \<Rightarrow> tm) \<Rightarrow> uint32 + int \<times> int \<Rightarrow> 'f err_msg_hnd list \<Rightarrow> (32 word \<Rightarrow> string) \<Rightarrow>
   ('f \<Rightarrow> emlib_ret_t \<Rightarrow> em_size_t \<Rightarrow> string \<times> int) \<Rightarrow>
   int \<Rightarrow> string \<Rightarrow> emlib_ret_t \<Rightarrow> string \<Rightarrow> log_state \<Rightarrow> log_state option" where
  "em_perror max_level localtime tod hs syserr call level sender status title s =
     (if max_level \<ge> 1 then em_perror_imp localtime tod hs syserr call level sender status title s else Some s)"

text \<open>\<open>em_perror_1\<close> to \<open>em_perror_6\<close>, and the macro that calls them or expands to nothing.\<close>

definition em_perror_n ::
  "int \<Rightarrow> int \<Rightarrow> (int \<Rightarrow> tm) \<Rightarrow> uint32 + int \<times> int \<Rightarrow> 'f err_msg_hnd list \<Rightarrow> (32 word \<Rightarrow> string) \<Rightarrow>
   ('f \<Rightarrow> emlib_ret_t \<Rightarrow> em_size_t \<Rightarrow> string \<times> int) \<Rightarrow>
   string \<Rightarrow> emlib_ret_t \<Rightarrow> string \<Rightarrow> log_state \<Rightarrow> log_state option" where
  "em_perror_n n max_level localtime tod hs syserr call sender status title s =
     (if max_level \<ge> n then em_perror_imp localtime tod hs syserr call n sender status title s else Some s)"

section \<open>A line for every status\<close>

lemma buf_text_length: "length (buf_text b) \<le> length b"
  by (simp add: buf_text_def length_takeWhile_le)

lemma buf_text_no_nul: "CHR 0x00 \<notin> set (buf_text b)"
  unfolding buf_text_def by (metis (full_types) set_takeWhileD)

lemma title_buf_length: "length (title_buf title) < 120"
  by (simp add: title_buf_def EM_PERROR_TITLE_BUF_SIZE_def)

text \<open>
  C38. Where it is compiled in, \<open>em_perror\<close> is a safe client of the log: whatever the status of the library or
  the system and however long the title, with a sender of up to 600 characters the line fits the log
  buffer, and it is printed whole: the title, or \<open>Error\<close> for one that is too long, then the text of the
  status.
\<close>
theorem perror_line_fits:
  assumes "length (log_buf s) = 1024" "length (timestamp s) = 100" "0 \<le> level" "level \<le> 5" "of_int level \<le> log_level s"
    and "pt = snd (em_time_decode localtime \<lparr>tv_sec = sec, tv_msec = c_div usec 1000\<rparr>)" "small_time pt"
    and "CHR 0x00 \<notin> set sender" "length sender \<le> 600" "1 \<le> max_level"
    and "\<forall>e. syserr e \<noteq> ''''" "status < EM_ERRNO_START_USER"
  shows "\<exists>s'. em_perror max_level localtime (Inr (sec, usec)) hs syserr call level sender status title s = Some s' \<and>
    printed s' = printed s @ [concat (log_pieces level
      (header_text (ltexts ! nat level) (time_text pt) sender ''invoke_log'' 233)
      (buf_text (if length title < 120 then title else ''Error'') @ '': '' @
       buf_text (fst (the (em_strerror hs syserr call status 80)))))]"
proof -
  obtain r where r: "em_strerror hs syserr call status 80 = Some r" "message_ok 80 r"
    using strerror_builtin [of 80 syserr status hs call] assms(11,12) by (auto simp: buf_ok_def)
  let ?e = "fst r"
  let ?m = "buf_text (title_buf title) @ '': '' @ buf_text ?e"
  let ?text = "concat (log_pieces level (header_text (ltexts ! nat level) (time_text pt) sender ''invoke_log'' 233) ?m)"
  have "length ?e < 80" using r(2) by (simp add: message_ok_def)
  then have m: "length ?m < 120 + 2 + 80"
    using buf_text_length [of "title_buf title"] title_buf_length [of title] buf_text_length [of ?e] by simp
  have "length (fmt_d 233) = 3" by code_simp
  moreover have "ltexts ! nat level \<in> set ltexts" using assms(3,4) by (intro nth_mem) (auto simp: ltexts_def)
  then have "length (ltexts ! nat level) = 5" by (auto simp: ltexts_def)
  ultimately have "length ?text < 1024"
    using m time_text_ok(1) [OF assms(7)] assms(9) by (simp add: log_pieces_def header_text_def)
  moreover have "CHR 0x00 \<notin> set (sender @ ''invoke_log'' @ ?m)"
    using assms(8) buf_text_no_nul by simp
  note log_line [OF assms(1-7) refl this]
  ultimately have "\<exists>s'. em_log localtime (Inr (sec, usec)) (Some ''invoke_log'') 233 level sender (Some ?m) s = Some s' \<and>
      printed s' = printed s @ [?text]"
    by (simp only: if_True)
  moreover have "title_buf title = (if length title < 120 then title else ''Error'')"
    by (simp add: title_buf_def EM_PERROR_TITLE_BUF_SIZE_def)
  ultimately show ?thesis
    using assms(10) r(1) by (cases r) (simp add: em_perror_def em_perror_imp_def invoke_log_def v_em_log_def EM_ERR_MSG_SIZE_def)
qed

lemma perror_line_fits_witness:
  "\<exists>s'. em_perror 4 ex_localtime (Inr (0, 42000)) ([] :: unit err_msg_hnd list) (\<lambda>_. ''error'') (\<lambda>_ _ _. ([], 0)) 1 ''TIMER'' EM_ENOTSUP ''poll'' ex_log = Some s' \<and>
     length (printed s') = 1"
proof -
  have len: "length (log_buf ex_log) = 1024" "length (timestamp ex_log) = 100" "log_level ex_log = 4" "printed ex_log = []"
    by (simp_all add: ex_log_def)
  have small: "small_time (snd (em_time_decode ex_localtime \<lparr>tv_sec = 0, tv_msec = c_div 42000 1000\<rparr>))"
    by (simp add: small_time_def em_time_decode_def ex_localtime_def c_div_def)
  have "EM_ENOTSUP < EM_ERRNO_START_USER" by (simp add: errno)
  then obtain s' where "em_perror 4 ex_localtime (Inr (0, 42000)) ([] :: unit err_msg_hnd list) (\<lambda>_. ''error'') (\<lambda>_ _ _. ([], 0)) 1 ''TIMER'' EM_ENOTSUP ''poll'' ex_log = Some s'"
    "\<exists>text. printed s' = printed ex_log @ [text]"
    using perror_line_fits [OF len(1,2) _ _ _ refl small, of 1 "''TIMER''" 4 "\<lambda>_. ''error''" EM_ENOTSUP "[] :: unit err_msg_hnd list" "\<lambda>_ _ _. ([], 0)" "''poll''"] len(3)
    by fastforce
  with len(4) show ?thesis by auto
qed

text \<open>In the default build \<open>em_perror\<close> and the functions for the levels 1 to 4 are compiled in, the others are empty.\<close>

lemma perror_default_build:
  "em_perror EM_LOG_MAX_LEVEL localtime tod hs syserr call level sender status title s =
     em_perror_imp localtime tod hs syserr call level sender status title s"
  "em_perror_n n EM_LOG_MAX_LEVEL localtime tod hs syserr call sender status title s =
     (if n \<le> 4 then em_perror_imp localtime tod hs syserr call n sender status title s else Some s)"
  by (simp_all add: em_perror_def em_perror_n_def EM_LOG_MAX_LEVEL_def)

end
