(* ===== verification/Emlib_Misc.thy ===== *)
theory Emlib_Misc
  imports Emlib_Log
begin

text \<open>
  The version of \<open>src/config.c\<close> and the random numbers of \<open>src/rand.c\<close>.
\<close>

section \<open>The version\<close>

definition EM_VERSION_NUM_MAJOR :: nat where "EM_VERSION_NUM_MAJOR = 0"
definition EM_VERSION_NUM_MINOR :: nat where "EM_VERSION_NUM_MINOR = 6"
definition EM_VERSION_NUM_REV :: nat where "EM_VERSION_NUM_REV = 1"
definition EM_VERSION_NUM_EXTRA :: string where "EM_VERSION_NUM_EXTRA = ''''"

definition EM_VERSION_NUM :: int where
  "EM_VERSION_NUM =
     or (or (push_bit 24 (int EM_VERSION_NUM_MAJOR)) (push_bit 16 (int EM_VERSION_NUM_MINOR))) (push_bit 8 (int EM_VERSION_NUM_REV))"

text \<open>The macro puts the tokens of the three numbers between dots.\<close>

definition EM_MAKE_VERSION :: "nat \<Rightarrow> nat \<Rightarrow> nat \<Rightarrow> string \<Rightarrow> string" where
  "EM_MAKE_VERSION a b c d = dec_digits a @ ''.'' @ dec_digits b @ ''.'' @ dec_digits c @ d"

definition EM_VERSION :: string where
  "EM_VERSION = EM_MAKE_VERSION EM_VERSION_NUM_MAJOR EM_VERSION_NUM_MINOR EM_VERSION_NUM_REV EM_VERSION_NUM_EXTRA"

definition em_get_version :: string where "em_get_version = EM_VERSION"

lemmas version_defs = EM_VERSION_NUM_MAJOR_def EM_VERSION_NUM_MINOR_def EM_VERSION_NUM_REV_def EM_VERSION_NUM_EXTRA_def

text \<open>The text and the number agree: the number has one byte for each part, followed by a zero byte.\<close>

lemma version_consistent:
  "em_get_version = ''0.6.1''"
  "em_get_version = EM_MAKE_VERSION (nat (EM_VERSION_NUM div 2 ^ 24)) (nat (EM_VERSION_NUM div 2 ^ 16 mod 2 ^ 8))
     (nat (EM_VERSION_NUM div 2 ^ 8 mod 2 ^ 8)) ''''"
  "EM_VERSION_NUM mod 2 ^ 8 = 0"
  by (code_simp, simp add: em_get_version_def EM_VERSION_def EM_VERSION_NUM_def version_defs, code_simp)

section \<open>Random numbers\<close>

text \<open>
  \<open>srand\<close> and \<open>rand\<close> of the C library, on its state \<open>'r\<close>, are parameters; \<open>RAND_MAX\<close> has 31 bits, so that
  \<open>platform_rand\<close> is \<open>rand\<close> itself.
\<close>

definition em_srand :: "(uint32 \<Rightarrow> 'r \<Rightarrow> 'r) \<Rightarrow> uint32 \<Rightarrow> 'r \<Rightarrow> 'r" where
  "em_srand srand seed r = srand seed r"

definition em_rand :: "('r \<Rightarrow> int \<times> 'r) \<Rightarrow> 'r \<Rightarrow> int \<times> 'r" where
  "em_rand rand r = rand r"

end
