(* ===== verification/Emlib_Float.thy ===== *)
theory Emlib_Float
  imports Complex_Main Emlib_Number
begin

text \<open>
  \<open>em_strtof\<close> of \<open>src/string.c\<close>: decimal fractions in counted strings, over the operations of C on \<open>float\<close>.
\<close>

section \<open>Decimal fractions\<close>

text \<open>The operations of C on \<open>float\<close> that the conversion uses.\<close>

record 'f c_float =
  f_of_long :: "int \<Rightarrow> 'f"
  f_of_ulong :: "uint64 \<Rightarrow> 'f"
  f_add :: "'f \<Rightarrow> 'f \<Rightarrow> 'f"
  f_sub :: "'f \<Rightarrow> 'f \<Rightarrow> 'f"
  f_mul :: "'f \<Rightarrow> 'f \<Rightarrow> 'f"
  f_div :: "'f \<Rightarrow> 'f \<Rightarrow> 'f"
  f_ge :: "'f \<Rightarrow> 'f \<Rightarrow> bool"

text \<open>\<open>fdiv\<close> after the loop, for \<open>n\<close> characters read.\<close>

definition float_power10 :: "'f c_float \<Rightarrow> nat \<Rightarrow> 'f" where
  "float_power10 fl n = ((\<lambda>fdiv. f_mul fl fdiv (f_of_long fl 10)) ^^ n) (f_of_long fl 1)"

definition em_strtof :: "'f c_float \<Rightarrow> memory \<Rightarrow> em_str_t \<Rightarrow> 'f" where
  "em_strtof fl m str =
     (if slen str = 0 then f_of_long fl 0
      else
        (let pdot = em_memchr m (s_ptr str) 0x2E (of_int (slen str));
             part = str\<lparr>slen := if pdot \<noteq> 0 then sint (pdot - s_ptr str) else slen str\<rparr>;
             val = (if slen part \<noteq> 0 then f_of_long fl (em_strtol m part) else f_of_long fl 0)
         in if pdot \<noteq> 0 then
              (let part = part\<lparr>s_ptr := pdot + 1, slen := sint (s_ptr str + of_int (slen str) - pdot - 1)\<rparr> in
               if slen part \<noteq> 0 then
                 (let (v, endptr) = em_strtoul2 m part (Some part) 10;
                      fpart = f_of_ulong fl v;
                      fdiv = float_power10 fl (nat (slen part - slen (the endptr)))
                  in if f_ge fl val (f_of_long fl 0) then f_add fl val (f_div fl fpart fdiv)
                     else f_sub fl val (f_div fl fpart fdiv))
               else val)
            else val))"

text \<open>With exact numbers in place of floating point ones.\<close>

definition exact_float :: "real c_float" where
  "exact_float = \<lparr>f_of_long = of_int, f_of_ulong = (\<lambda>v. of_nat (unat v)), f_add = (+), f_sub = (-),
     f_mul = (*), f_div = (/), f_ge = (\<ge>)\<rparr>"

lemma float_power10_exact: "float_power10 exact_float n = 10 ^ n"
proof -
  have "((\<lambda>d. d * 10) ^^ n) (1 :: real) = 10 ^ n" by (induction n) simp_all
  then show ?thesis by (simp add: float_power10_def exact_float_def)
qed

lemma strtoul2_loop_value:
  "list_all em_isdigit cs \<Longrightarrow> strtoul2_loop 10 cs (of_nat k) i = (of_nat (dval_from k cs), i + length cs)"
proof (induction cs arbitrary: k i)
  case (Cons c cs)
  then have d: "em_isdigit c" by simp
  let ?d = "unat c - 0x30"
  have u: "unat (of_nat ?d :: uint32) = ?d" using digit_value(1) [OF d] by (simp add: unat_of_nat)
  have "(of_nat ?d :: uint32) < 10" using digit_value(1) [OF d] by (simp add: word_less_nat_alt unat_of_nat)
  moreover have "ucast (of_nat ?d :: uint32) = (of_nat ?d :: uint64)"
  proof -
    have "(of_nat (unat (of_nat ?d :: uint32)) :: uint64) = ucast (of_nat ?d :: uint32)" by (rule of_nat_unat)
    then show ?thesis unfolding u by (rule sym)
  qed
  moreover have "of_nat k * 10 + of_nat ?d = (of_nat (k * 10 + ?d) :: uint64)" by simp
  ultimately show ?case
    using Cons.IH [of "k * 10 + ?d" "i + 1"] Cons.prems digit_value(3) [OF d] by (simp add: Let_def)
qed simp

lemma memchr_bytes_found:
  "c \<notin> set xs \<Longrightarrow> memchr_bytes (xs @ c # ys) c p = p + of_nat (length xs)"
  by (induction xs arbitrary: p) (auto simp: algebra_simps)

lemma strtoul_digits:
  assumes "str_bytes m s = ip" "list_all em_isdigit ip" "slen s < 2 ^ 31" "0 \<le> slen s"
  shows "em_strtoul m s = of_nat (dval ip)"
proof -
  have w: "takeWhile em_isdigit ip = ip" using assms(2) by (simp add: takeWhile_eq_all_conv list_all_iff)
  show ?thesis
    using strtoul_loop_value [of ip 0] loop_bytes_all [of s m] assms(1,3,4)
    unfolding w by (simp add: em_strtoul_def dval_def)
qed

lemma sint_of_nat: "k < 2 ^ 63 \<Longrightarrow> sint (of_nat k :: uint64) = int k" "k < 2 ^ 63 \<Longrightarrow> sint (- of_nat k :: uint64) = - int k"
proof -
  assume k: "k < 2 ^ 63"
  have "sint (word_of_int (int k) :: uint64) = int k" "sint (word_of_int (- int k) :: uint64) = - int k"
    using k by (simp_all add: signed_of_int signed_take_bit_int_eq_self del: of_int_of_nat_eq of_int_minus)
  then show "sint (of_nat k :: uint64) = int k" "sint (- of_nat k :: uint64) = - int k" by simp_all
qed

lemma strtol_digits:
  assumes "str_bytes m s = (if neg then [0x2D] else []) @ ip" "list_all em_isdigit ip" "dval ip < 2 ^ 63"
    and "0 \<le> slen s" "slen s < 2 ^ 31"
  shows "em_strtol m s = (if neg then - int (dval ip) else int (dval ip))"
proof (cases neg)
  case True
  let ?s = "s\<lparr>s_ptr := s_ptr s + 1, slen := slen s - 1\<rparr>"
  have l: "nat (slen s) = Suc (length ip)" using True arg_cong [OF assms(1), of length] by (simp add: str_bytes_def)
  then have "m (s_ptr s) # chars m (s_ptr s + 1) (length ip) = 0x2D # ip"
    using assms(1) True by (simp add: str_bytes_def chars_Suc)
  then have c: "m (s_ptr s) = 0x2D" "str_bytes m ?s = ip" using l by (auto simp: str_bytes_def nat_diff_distrib')
  have "em_strtoul m ?s = of_nat (dval ip)"
    by (rule strtoul_digits [OF c(2) assms(2)]) (use l assms(5) in simp_all)
  moreover have "slen s > 0" using l by simp
  ultimately show ?thesis using True c(1) assms(3) by (simp add: em_strtol_def Let_def sint_of_nat)
next
  case False
  have "em_strtoul m s = of_nat (dval ip)" by (rule strtoul_digits) (use assms False in simp_all)
  moreover have "m (s_ptr s) \<noteq> 0x2B \<and> m (s_ptr s) \<noteq> 0x2D" if pos: "slen s > 0"
  proof -
    obtain cs where "ip = m (s_ptr s) # cs" using str_bytes_Cons [OF pos, of m] assms(1) False by auto
    then have "em_isdigit (m (s_ptr s))" using assms(2) by simp
    then show ?thesis by (auto simp: ctype)
  qed
  ultimately show ?thesis using False assms(3) by (auto simp: em_strtol_def Let_def sint_of_nat)
qed

text \<open>
  With exact arithmetic: the integer part and the digits of the fraction give the value of the text, and a
  minus sign its negative, except if the integer part is zero: the sign is lost, and -0.5 is read as 0.5.
\<close>

lemma unat_of_small_int: "0 \<le> k \<Longrightarrow> k < 2 ^ 31 \<Longrightarrow> unat (word_of_int k :: em_size_t) = nat k"
  by (simp add: unat_eq_nat_uint uint_word_of_int take_bit_int_eq_self)

lemma strtof_value:
  assumes "str_bytes m str = (if neg then [0x2D] else []) @ ip @ [0x2E] @ fp"
    and "list_all em_isdigit ip" "list_all em_isdigit fp" "dval ip < 2 ^ 63" "dval fp < 2 ^ 64"
    and "slen str < 2 ^ 31" "s_ptr str \<noteq> 0" "uint (s_ptr str) + slen str < 2 ^ 64"
  shows "em_strtof exact_float m str =
    (if neg \<and> dval ip \<noteq> 0 then - (real (dval ip) + real (dval fp) / 10 ^ length fp)
     else real (dval ip) + real (dval fp) / 10 ^ length fp)"
proof -
  define h where "h = (if neg then [0x2D] else []) @ ip"
  define n where "n = length h"
  have tx: "str_bytes m str = h @ 0x2E # fp" using assms(1) by (simp add: h_def)
  have len: "nat (slen str) = n + 1 + length fp" "slen str = int n + 1 + int (length fp)"
    using arg_cong [OF tx, of length] by (simp_all add: str_bytes_def n_def)
  have dot: "\<not> em_isdigit 0x2E" "\<not> em_isdigit 0x2D" "\<not> em_isdigit 0x2B" by (simp_all add: ctype)
  have "0x2E \<notin> set h" using assms(2) dot by (auto simp: list_all_iff h_def)
  moreover have "unat (word_of_int (slen str) :: em_size_t) = nat (slen str)"
    by (rule unat_of_small_int) (use len(2) assms(6) in linarith)+
  ultimately have pd: "em_memchr m (s_ptr str) 0x2E (of_int (slen str)) = s_ptr str + of_nat n"
    using tx memchr_bytes_found [where c = "0x2E" and xs = h and ys = fp and p = "s_ptr str"]
    by (simp add: em_memchr_def str_bytes_def n_def)
  have "str_bytes m str = chars m (s_ptr str) n @ m (s_ptr str + of_nat n) # chars m (s_ptr str + of_nat (n + 1)) (length fp)"
    using len chars_append [of m "s_ptr str" n "Suc (length fp)"]
    by (simp add: str_bytes_def chars_Suc add.commute add.left_commute)
  then have b: "chars m (s_ptr str) n = h" "chars m (s_ptr str + of_nat (n + 1)) (length fp) = fp"
    unfolding tx by (subst (asm) append_eq_append_conv; simp add: n_def)+
  let ?p1 = "str\<lparr>slen := int n\<rparr>"
  let ?p2 = "str\<lparr>s_ptr := s_ptr str + of_nat n + 1, slen := int (length fp)\<rparr>"
  have un: "uint (of_nat n :: ptr) = int n"
    using len(2) assms(6) by (simp add: uint_nat unat_of_nat)
  have "uint (s_ptr str + of_nat n) = uint (s_ptr str) + int n"
    using assms(8) len(2) by (simp add: uint_plus_if' un)
  moreover have "uint (s_ptr str) > 0" using assms(7) by (simp add: word_neq_0_conv word_less_def)
  ultimately have nz: "s_ptr str + of_nat n \<noteq> 0" by fastforce
  have sn: "sint (of_nat n :: uint64) = int n" by (rule sint_of_nat(1)) (use len(2) assms(6) in simp)
  have sf: "sint (of_nat (length fp) :: uint64) = int (length fp)"
    by (rule sint_of_nat(1)) (use len(2) assms(6) in simp)
  have p: "s_ptr str + of_int (slen str) - (s_ptr str + of_nat n) - 1 = of_nat (length fp)"
    and p': "word_of_int (slen str) - 1 = (of_nat n + of_nat (length fp) :: uint64)"
      "word_of_int (slen str) - of_nat n - 1 = (of_nat (length fp) :: uint64)"
    unfolding len(2) by simp_all
  have i: "(if int n \<noteq> 0 then em_strtol m ?p1 else 0) = (if neg then - int (dval ip) else int (dval ip))"
  proof (cases "n = 0")
    case False
    have "em_strtol m ?p1 = (if neg then - int (dval ip) else int (dval ip))"
      by (rule strtol_digits [OF _ assms(2,4)]) (use b(1) len(2) assms(6) in \<open>auto simp: str_bytes_def h_def\<close>)
    with False show ?thesis by simp
  next
    case True
    then have "\<not> neg" "ip = []" by (auto simp: n_def h_def split: if_splits)
    with True show ?thesis by (simp add: dval_def)
  qed
  have f: "em_strtoul2 m ?p2 (Some ?p2) 10 =
      (of_nat (dval fp), Some (?p2\<lparr>s_ptr := s_ptr ?p2 + of_nat (length fp), slen := 0\<rparr>))"
  proof -
    have "str_bytes m ?p2 = fp" using b(2) by (simp add: str_bytes_def add.commute add.left_commute)
    then have "loop_bytes m ?p2 = fp" using loop_bytes_all [of ?p2 m] len(2) assms(6) by simp
    then show ?thesis
      using strtoul2_loop_value [OF assms(3), of 0 0] by (simp add: em_strtoul2_def dval_def)
  qed
  have u: "unat (of_nat (dval fp) :: uint64) = dval fp" using assms(5) by (simp add: unat_of_nat)
  define v where "v = real_of_int (if neg then - int (dval ip) else int (dval ip))"
  have v: "n \<noteq> 0 \<Longrightarrow> f_of_long exact_float (em_strtol m ?p1) = v" "n = 0 \<Longrightarrow> f_of_long exact_float 0 = v"
    unfolding v_def i [symmetric] by (simp_all add: exact_float_def)
  have s0: "slen str \<noteq> 0" using len(2) by linarith
  have "em_strtof exact_float m str =
    (if int (length fp) \<noteq> 0
     then if v \<ge> 0 then v + real (dval fp) / 10 ^ length fp else v - real (dval fp) / 10 ^ length fp
     else v)"
  proof (cases "n = 0")
    case True
    with s0 nz v(2) [unfolded exact_float_def] f u show ?thesis
      by (simp add: em_strtof_def pd Let_def p p' sf float_power10_exact [unfolded exact_float_def] exact_float_def cong: if_cong
          del: of_int_add of_nat_unat)
  next
    case False
    with s0 nz v(1) [unfolded exact_float_def] f u show ?thesis
      by (simp add: em_strtof_def pd Let_def p p' sn sf float_power10_exact [unfolded exact_float_def] exact_float_def cong: if_cong
          del: of_int_add of_nat_unat)
  qed
  then show ?thesis by (cases "fp = []") (auto simp: dval_def v_def)
qed

definition half_str :: em_str_t where "half_str = \<lparr>s_ptr = 0x3000, slen = 4, blen = 0\<rparr>"

definition half_mem :: memory where
  "half_mem = (\<lambda>_. 0)(0x3000 := 0x2D, 0x3001 := 0x30, 0x3002 := 0x2E, 0x3003 := 0x35)"

lemma strtof_sign_lost: "em_strtof exact_float half_mem half_str = 1 / 2"
proof -
  have "str_bytes half_mem half_str = (if True then [0x2D] else []) @ [0x30] @ [0x2E] @ [0x35]"
    by (simp add: str_bytes_def chars_def half_mem_def half_str_def upt_rec)
  from strtof_value [OF this] show ?thesis by (simp add: ctype dval_def half_str_def)
qed

end
