(* ===== verification/Emlib_Lockdbg.thy ===== *)
theory Emlib_Lockdbg
  imports Emlib_Lock Emlib_Log
begin

text \<open>
  The debug variant of group locks in \<open>src/lock.c\<close> (\<open>EM_GRP_LOCK_DEBUG\<close>): a group keeps a list of the places
  that took a reference, and prints it when one is given back.  The list is changed inside of the
  library's critical section, which makes each operation one step here.
\<close>

section \<open>References with their places\<close>

text \<open>
  The reference list as files and lines, the number of nodes in the free list, and what has been
  dumped: the number of references and the text.
\<close>

type_synonym grp_lock_ref = "string \<times> int"

record grp_debug =
  gd_state :: grp_state
  gd_refs :: "grp_lock_ref list"
  gd_free :: nat
  gd_dumped :: "(int \<times> string) list"

text \<open>One line of the dump for the room that is left: \<open>"\t%s:%d\n"\<close>, or as much of the file name as fits.\<close>

definition ref_line :: "nat \<Rightarrow> grp_lock_ref \<Rightarrow> string" where
  "ref_line max_len r =
     (let text = CHR 0x09 # fst r @ '':'' @ fmt_d (snd r) @ [CHR 0x0A]
      in if length text < 1 \<or> length text \<ge> max_len then take (max_len - 1) (fst r) @ [CHR 0x0A] else text)"

text \<open>The loop over the list: the text, and whether a reference is left over.\<close>

fun dump_refs :: "grp_lock_ref list \<Rightarrow> string \<Rightarrow> string \<times> bool" where
  "dump_refs [] info = (info, False)"
| "dump_refs (r # rs) info =
     (if length info < 1000 then dump_refs rs (info @ ref_line (1000 - length info) r) else (info, True))"

text \<open>The last character is overwritten by the NUL; without any it would be the byte before the buffer.\<close>

definition dump_text :: "grp_lock_ref list \<Rightarrow> string option" where
  "dump_text refs =
     (let (info, left_over) = dump_refs refs [];
          info' = (if left_over then take 996 info @ ''....'' else info)
      in if info' = [] then None else Some (butlast info'))"

definition em_grp_lock_dump :: "tid \<Rightarrow> grp_debug \<Rightarrow> grp_debug sys" where
  "em_grp_lock_dump t d =
     (let s1 = (gd_state d)\<lparr>gs_grp := snd (grp_lock_add_ref (gs_grp (gd_state d)))\<rparr>
      in case (dump_text (gd_refs d), em_grp_lock_get_ref (gs_grp s1)) of
           (Some text, Some cnt) \<Rightarrow>
             sys_bind (grp_lock_dec_ref t s1) (\<lambda>(_, s2).
               Returns (d\<lparr>gd_state := s2, gd_dumped := gd_dumped d @ [(sint cnt - 1, text)]\<rparr>))
         | _ \<Rightarrow> Undef)"

definition grp_lock_dec_ref_dump :: "tid \<Rightarrow> grp_debug \<Rightarrow> (emlib_ret_t \<times> grp_debug) sys" where
  "grp_lock_dec_ref_dump t d =
     sys_bind (grp_lock_dec_ref t (gd_state d)) (\<lambda>(status, s1).
       if status = EM_SUCC
       then sys_bind (em_grp_lock_dump t (d\<lparr>gd_state := s1\<rparr>)) (\<lambda>d1. Returns (status, d1))
       else Returns (status, d\<lparr>gd_state := s1\<rparr>))"

text \<open>Without a free node one is allocated; \<open>alloc_ok\<close> is the answer of the pool, which is not looked at.\<close>

definition em_grp_lock_add_ref_dbg :: "bool \<Rightarrow> string \<Rightarrow> int \<Rightarrow> grp_debug \<Rightarrow> (emlib_ret_t \<times> grp_debug) sys" where
  "em_grp_lock_add_ref_dbg alloc_ok file line d =
     (if gd_free d = 0 \<and> \<not> alloc_ok then Undef
      else
        (let d1 = d\<lparr>gd_refs := gd_refs d @ [(file, line)], gd_free := gd_free d - 1\<rparr>;
             (status, g) = grp_lock_add_ref (gs_grp (gd_state d1));
             d2 = d1\<lparr>gd_state := (gd_state d1)\<lparr>gs_grp := g\<rparr>\<rparr>
         in Returns (status, if status \<noteq> EM_SUCC then d2\<lparr>gd_refs := gd_refs d, gd_free := gd_free d1 + 1\<rparr> else d2)))"

text \<open>The first reference of the same file is unlinked; without one there is only a warning.\<close>

fun drop_ref :: "string \<Rightarrow> grp_lock_ref list \<Rightarrow> grp_lock_ref list" where
  "drop_ref file [] = []"
| "drop_ref file (r # rs) = (if fst r = file then rs else r # drop_ref file rs)"

definition em_grp_lock_dec_ref_dbg :: "tid \<Rightarrow> string \<Rightarrow> grp_debug \<Rightarrow> (emlib_ret_t \<times> grp_debug) sys" where
  "em_grp_lock_dec_ref_dbg t file d =
     grp_lock_dec_ref_dump t
       (if file \<in> fst ` set (gd_refs d)
        then d\<lparr>gd_refs := drop_ref file (gd_refs d), gd_free := gd_free d + 1\<rparr> else d)"

section \<open>The dump\<close>

lemma ref_line_length: "0 < n \<Longrightarrow> 0 < length (ref_line n r) \<and> length (ref_line n r) \<le> n"
  by (auto simp: ref_line_def Let_def)

lemma dump_refs_length:
  "length info \<le> 1000 \<Longrightarrow> dump_refs rs info = (text, l) \<Longrightarrow>
     length info \<le> length text \<and> length text \<le> 1000 \<and> (rs \<noteq> [] \<longrightarrow> text \<noteq> [])"
proof (induction rs info rule: dump_refs.induct)
  case (2 r rs info)
  show ?case
  proof (cases "length info < 1000")
    case True
    then have r: "0 < length (ref_line (1000 - length info) r)" "length (ref_line (1000 - length info) r) \<le> 1000 - length info"
      using ref_line_length [of "1000 - length info" r] by simp_all
    then have "length (info @ ref_line (1000 - length info) r) \<le> 1000" using True unfolding length_append by linarith
    from "2.IH" [OF True this] "2.prems"(2) True r show ?thesis by fastforce
  next
    case False
    then show ?thesis using "2.prems" by auto
  qed
qed simp

text \<open>The text of a dump fits its buffer of 1000 bytes; only a group with no reference recorded has none.\<close>

lemma dump_text_fits: "refs \<noteq> [] \<Longrightarrow> \<exists>text. dump_text refs = Some text \<and> length text < 1000"
  using dump_refs_length [of "[]" refs "fst (dump_refs refs [])" "snd (dump_refs refs [])"]
  by (cases "dump_refs refs []") (auto simp: dump_text_def Let_def)

lemma dump_empty: "dump_text [] = None"
  by (simp add: dump_text_def)

text \<open>Dumping leaves a group that has references alone.\<close>

lemma dump_returns:
  assumes "gd_refs d \<noteq> []" "g_ref_cnt (gs_grp (gd_state d)) = Some a" "ucast (a_value a) \<noteq> (0 :: 32 word)"
  shows "\<exists>entry. em_grp_lock_dump t d = Returns (d\<lparr>gd_dumped := gd_dumped d @ [entry]\<rparr>)"
proof -
  obtain info where "dump_text (gd_refs d) = Some info" using dump_text_fits [OF assms(1)] by blast
  moreover have g: "(gd_state d)\<lparr>gs_grp := (gs_grp (gd_state d))\<lparr>g_ref_cnt := Some a\<rparr>\<rparr> = gd_state d"
    using assms(2) by (cases "gd_state d"; cases "gs_grp (gd_state d)") simp
  ultimately have "\<exists>entry. em_grp_lock_dump t d = Returns (d\<lparr>gd_state := gd_state d, gd_dumped := gd_dumped d @ [entry]\<rparr>)"
    using assms(2,3)
    by (intro exI) (simp add: em_grp_lock_dump_def grp_lock_add_ref_def em_grp_lock_get_ref_def em_atomic_inc_def
        em_atomic_inc_and_get_def grp_lock_dec_ref_def em_atomic_dec_and_get_def g Let_def)
  then show ?thesis by (cases d) simp
qed

lemma drop_ref_length: "file \<in> fst ` set refs \<Longrightarrow> length (drop_ref file refs) + 1 = length refs"
  by (induction refs) auto

section \<open>Taking and giving back\<close>

text \<open>
  A reference is given back on a group that keeps another one.  If a further place is recorded, the count
  goes down by one, the place is forgotten and the others are dumped.  If none is, because what is left was taken
  by an acquire, the dump of the empty list writes before its buffer.
\<close>

lemma dec_ref_dbg_spec:
  assumes "g_ref_cnt (gs_grp (gd_state d)) = Some a" "ucast (a_value a - 1) \<noteq> (0 :: 32 word)" "file \<in> fst ` set (gd_refs d)"
  shows "if length (gd_refs d) = 1 then em_grp_lock_dec_ref_dbg t file d = Undef
    else \<exists>entry. em_grp_lock_dec_ref_dbg t file d = Returns (EM_SUCC, d\<lparr>gd_refs := drop_ref file (gd_refs d), gd_free := gd_free d + 1,
      gd_state := (gd_state d)\<lparr>gs_grp := (gs_grp (gd_state d))\<lparr>g_ref_cnt := Some (a\<lparr>a_value := a_value a - 1\<rparr>)\<rparr>\<rparr>,
      gd_dumped := gd_dumped d @ [entry]\<rparr>)"
proof -
  let ?s = "(gd_state d)\<lparr>gs_grp := (gs_grp (gd_state d))\<lparr>g_ref_cnt := Some (a\<lparr>a_value := a_value a - 1\<rparr>)\<rparr>\<rparr>"
  let ?d = "d\<lparr>gd_refs := drop_ref file (gd_refs d), gd_free := gd_free d + 1, gd_state := ?s\<rparr>"
  have "grp_lock_dec_ref t (gd_state d) = Returns (EM_SUCC, ?s)"
    using assms(1,2) by (simp add: grp_lock_dec_ref_def em_atomic_dec_and_get_def Let_def)
  then have run: "em_grp_lock_dec_ref_dbg t file d = sys_bind (em_grp_lock_dump t ?d) (\<lambda>d1. Returns (EM_SUCC, d1))"
    using assms(3) by (simp add: em_grp_lock_dec_ref_dbg_def grp_lock_dec_ref_dump_def)
  show ?thesis
  proof (cases "length (gd_refs d) = 1")
    case True
    then have "gd_refs ?d = []" using drop_ref_length [OF assms(3)] by simp
    then have "em_grp_lock_dump t ?d = Undef" by (simp add: em_grp_lock_dump_def dump_empty Let_def)
    with True run show ?thesis by simp
  next
    case False
    then have "gd_refs ?d \<noteq> []" using drop_ref_length [OF assms(3)] by auto
    moreover have "ucast (a_value (a\<lparr>a_value := a_value a - 1\<rparr>)) \<noteq> (0 :: 32 word)" using assms(2) by simp
    ultimately obtain entry where "em_grp_lock_dump t ?d = Returns (?d\<lparr>gd_dumped := gd_dumped ?d @ [entry]\<rparr>)"
      using dump_returns [of ?d "a\<lparr>a_value := a_value a - 1\<rparr>" t] by auto
    with False run show ?thesis by (simp del: split_paired_Ex) (intro exI [of _ entry] refl)
  qed
qed

text \<open>
  The shortest such run: a new group, a reference taken at one place and an acquire; giving the reference back
  is undefined.
\<close>

lemma dump_empty_overruns:
  "\<exists>d s. em_grp_lock_add_ref_dbg True ''a.c'' 7 \<lparr>gd_state = ex_grp\<lparr>gs_grp := (gs_grp ex_grp)\<lparr>g_ref_cnt :=
        map_option (a_value_update (\<lambda>_. 0)) (g_ref_cnt (gs_grp ex_grp))\<rparr>\<rparr>, gd_refs = [], gd_free = 0, gd_dumped = []\<rparr> = Returns (EM_SUCC, d) \<and>
     grp_lock_acquire 1 (gd_state d) = Returns (EM_SUCC, s) \<and>
     em_grp_lock_dec_ref_dbg 1 ''a.c'' (d\<lparr>gd_state := s\<rparr>) = Undef"
proof -
  let ?d0 = "\<lparr>gd_state = ex_grp\<lparr>gs_grp := (gs_grp ex_grp)\<lparr>g_ref_cnt :=
        map_option (a_value_update (\<lambda>_. 0)) (g_ref_cnt (gs_grp ex_grp))\<rparr>\<rparr>, gd_refs = [], gd_free = 0, gd_dumped = []\<rparr>"
  obtain d where d: "em_grp_lock_add_ref_dbg True ''a.c'' 7 ?d0 = Returns (EM_SUCC, d)" "gd_refs d = [(''a.c'', 7)]"
    "gd_state d = ex_grp"
    by (simp add: em_grp_lock_add_ref_dbg_def grp_lock_add_ref_def em_atomic_inc_def em_atomic_inc_and_get_def ex_grp_def Let_def)
  obtain s where s: "grp_lock_acquire 1 ex_grp = Returns (EM_SUCC, s)" "\<exists>a. g_ref_cnt (gs_grp s) = Some a \<and> a_value a = 2"
    by (simp add: grp_lock_acquire_def ex_grp_def em_lock_def on_lock_def em_mutex_lock_def on_mutex_def pthread_mutex_lock_def
        os_status_def grp_lock_add_ref_def grp_lock_set_owner_thread_def em_atomic_inc_def em_atomic_inc_and_get_def Let_def)
  then obtain a where "g_ref_cnt (gs_grp s) = Some a" "a_value a = 2" by blast
  then have "em_grp_lock_dec_ref_dbg 1 ''a.c'' (d\<lparr>gd_state := s\<rparr>) = Undef"
    using dec_ref_dbg_spec [of "d\<lparr>gd_state := s\<rparr>" a "''a.c''" 1] d(2) by simp
  with d s show ?thesis by metis
qed

end
