(* ===== verification/Emlib_Poolsig.thy ===== *)
theory Emlib_Poolsig
  imports Emlib_Number
begin

text \<open>
  The signatures of \<open>include/em/pool_signature.h\<close>, which \<open>EM_SAFE_POOL\<close> puts around the blocks of the default
  policy (\<open>src/pool_policy_malloc.c\<close>): four bytes in front of a block and four behind it, written when it is
  allocated and checked when it is freed.
\<close>

section \<open>The signatures\<close>

definition SIG_SIZE :: em_size_t where "SIG_SIZE = 4"
definition SIG_BEGIN :: uint32 where "SIG_BEGIN = 0x600DC0DE"
definition SIG_END :: uint32 where "SIG_END = 0x0BADC0DE"

definition sig_bytes :: "uint32 \<Rightarrow> int8 list" where
  "sig_bytes w = [ucast w, ucast (drop_bit 8 w), ucast (drop_bit 16 w), ucast (drop_bit 24 w)]"

definition apply_signature :: "memory \<Rightarrow> ptr \<Rightarrow> em_size_t \<Rightarrow> memory" where
  "apply_signature m p sz =
     stored (stored m p (sig_bytes SIG_BEGIN)) (p + SIG_SIZE + sz) (sig_bytes SIG_END)"

text \<open>The two assertions, which only log when they fail.\<close>

definition check_pool_signature :: "memory \<Rightarrow> ptr \<Rightarrow> em_size_t \<Rightarrow> bool \<times> bool" where
  "check_pool_signature m p sz =
     (memcmp_bytes (chars m (p - SIG_SIZE) 4) (sig_bytes SIG_BEGIN) = 0,
      memcmp_bytes (chars m (p + sz) 4) (sig_bytes SIG_END) = 0)"

text \<open>The default policy with signatures; \<open>malloc\<close> and \<open>free\<close> are the system's, on a state of their own.\<close>

definition safe_block_alloc ::
  "('s \<Rightarrow> em_size_t \<Rightarrow> ptr \<times> 's) \<Rightarrow> ('s \<Rightarrow> em_size_t \<Rightarrow> bool \<times> 's) option \<Rightarrow> ('s \<Rightarrow> em_size_t \<Rightarrow> 's) option \<Rightarrow>
   memory \<Rightarrow> 's \<Rightarrow> em_size_t \<Rightarrow> ptr \<times> memory \<times> 's" where
  "safe_block_alloc c_malloc on_alloc on_free m s sz =
     (let (rc, s1) = (case on_alloc of None \<Rightarrow> (True, s) | Some h \<Rightarrow> h s sz)
      in if \<not> rc then (0, m, s1)
         else let (p, s2) = c_malloc s1 (sz + push_bit 1 SIG_SIZE)
              in if p = 0 then (0, m, case on_free of None \<Rightarrow> s2 | Some h \<Rightarrow> h s2 sz)
                 else (p + SIG_SIZE, apply_signature m p sz, s2))"

definition safe_block_free ::
  "('s \<Rightarrow> ptr \<Rightarrow> 's) \<Rightarrow> ('s \<Rightarrow> em_size_t \<Rightarrow> 's) option \<Rightarrow> memory \<Rightarrow> 's \<Rightarrow> ptr \<Rightarrow> em_size_t \<Rightarrow> (bool \<times> bool) \<times> 's" where
  "safe_block_free c_free on_free m s p sz =
     (let s1 = (case on_free of None \<Rightarrow> s | Some h \<Rightarrow> h s sz)
      in (check_pool_signature m p sz, c_free s1 (p - SIG_SIZE)))"

section \<open>What they detect\<close>

lemma sig_bytes_length [simp]: "length (sig_bytes w) = 4" by (simp add: sig_bytes_def)

lemma memcmp_bytes_zero: "length xs = length ys \<Longrightarrow> memcmp_bytes xs ys = 0 \<longleftrightarrow> xs = ys"
  by (induction xs ys rule: list_induct2) (auto simp: unsigned_word_eqI)

lemma chars_eq_iff: "chars m p n = chars m' q n \<longleftrightarrow> (\<forall>i<n. m (p + of_nat i) = m' (q + of_nat i))"
  by (auto simp: chars_def)

lemma chars_stored_apart:
  assumes "\<And>i. i < n \<Longrightarrow> length xs \<le> unat (q + of_nat i - p)"
  shows "chars (stored m p xs) q n = chars m q n"
  unfolding chars_eq_iff using assms by (auto simp: stored_def dest: leD)

lemma applied_signatures:
  assumes "unat p + unat sz + 8 < 2 ^ 64"
  shows "chars (apply_signature m p sz) p 4 = sig_bytes SIG_BEGIN"
    and "chars (apply_signature m p sz) (p + SIG_SIZE + sz) 4 = sig_bytes SIG_END"
proof -
  show "chars (apply_signature m p sz) (p + SIG_SIZE + sz) 4 = sig_bytes SIG_END"
    unfolding apply_signature_def using chars_stored [of "sig_bytes SIG_END"] by simp
  have "4 \<le> unat (p + of_nat i - (p + SIG_SIZE + sz))" if "i < 4" for i
  proof -
    have e: "p + of_nat i - (p + SIG_SIZE + sz) = of_nat i - (4 + sz)" by (simp add: SIG_SIZE_def)
    have u: "unat (4 + sz) = 4 + unat sz" using assms by (simp add: unat_word_ariths)
    have i: "unat (of_nat i :: ptr) = i" using that by (simp add: unat_of_nat)
    have "\<not> unat (4 + sz) \<le> unat (of_nat i :: ptr)" using that unfolding u i by simp
    then have "unat (of_nat i - (4 + sz)) = i + 2 ^ 64 - (4 + unat sz)"
      using unat_sub_if' [of "of_nat i :: ptr" "4 + sz"] u i by simp
    then show ?thesis unfolding e using assms by simp
  qed
  then show "chars (apply_signature m p sz) p 4 = sig_bytes SIG_BEGIN"
    unfolding apply_signature_def
    using chars_stored [of "sig_bytes SIG_BEGIN" m p] by (subst chars_stored_apart) simp_all
qed

text \<open>
  Both checks of the freed block pass exactly if none of the eight bytes around it has changed since the
  allocation: what is written inside of the block does not matter, and every overrun by up to four bytes that
  changes something is seen.
\<close>

lemma signature_detects:
  assumes "unat p + unat sz + 8 < 2 ^ 64"
  shows "check_pool_signature m' (p + SIG_SIZE) sz = (True, True) \<longleftrightarrow>
    (\<forall>i<4. m' (p + of_nat i) = apply_signature m p sz (p + of_nat i) \<and>
       m' (p + SIG_SIZE + sz + of_nat i) = apply_signature m p sz (p + SIG_SIZE + sz + of_nat i))"
proof -
  have "check_pool_signature m' (p + SIG_SIZE) sz = (True, True) \<longleftrightarrow>
      chars m' p 4 = chars (apply_signature m p sz) p 4 \<and>
      chars m' (p + SIG_SIZE + sz) 4 = chars (apply_signature m p sz) (p + SIG_SIZE + sz) 4"
    unfolding applied_signatures [OF assms] by (simp add: check_pool_signature_def memcmp_bytes_zero)
  then show ?thesis unfolding chars_eq_iff by blast
qed

text \<open>\<open>malloc\<close> aligns to sixteen bytes, and a block with a signature starts four bytes later.\<close>

lemma safe_block_misaligned:
  "unat p mod 16 = 0 \<Longrightarrow> unat (p + SIG_SIZE) mod 8 = 4"
proof -
  assume p: "unat p mod 16 = 0"
  have "unat p < 2 ^ 64" using unsigned_less [of p] by simp
  moreover obtain k where "unat p = 16 * k" using p by (auto simp: mod_eq_0_iff_dvd elim!: dvdE)
  ultimately have "unat p + 4 < 2 ^ 64" by simp
  then have "unat (p + SIG_SIZE) = unat p + 4" by (simp add: SIG_SIZE_def unat_word_ariths)
  with p show ?thesis by presburger
qed

end
