(* ===== verification/Spec2Isabelle.thy ===== *)
theory Spec2Isabelle
  imports Emlib_List Emlib_Errno Emlib_Cbuf Emlib_Pool Emlib_Caching Emlib_Except Emlib_Lock Emlib_Time Emlib_Timer
    Emlib_String Emlib_Number Emlib_Utils Emlib_Thread Emlib_Ttask Emlib_Sockaddr Emlib_Sock Emlib_Log Emlib_Nest
    Emlib_Atomic Emlib_Alnum Emlib_Perror Emlib_Misc Emlib_Float Emlib_Lockdbg Emlib_Poolsig
begin

text \<open>
  A model of emlib, a portability library for embedded programs in C: memory pools, strings, time, timers,
  threads and locks, exceptions, logging and sockets.  The sources are \<open>src/src/*.c\<close> and the inline
  functions of \<open>src/include/em/*.h\<close>.  A definition has the name of the C function or type it models, as far
  as the name is free here; an auxiliary definition stands for a loop or a part of one function.

  \<^bold>\<open>How C is modelled.\<close>  Integers are words of their C width, or \<open>int\<close> where the code cannot leave the range;
  conversions and wrap-around are written out.  Structures are records, enumerations datatypes, status
  codes 32-bit words (\<open>Emlib_Errno\<close>).  A pointer that may be null is an option.  Byte memory is a map from
  64-bit addresses where aliasing matters (\<open>Emlib_String\<close>, \<open>Emlib_Number\<close>), otherwise one list per object.
  An access outside of an object, or another undefined behaviour that the code can reach, is \<open>None\<close> or, for
  calls that can also block, \<open>Undef\<close> of the type \<open>sys\<close> (\<open>Returns\<close>, \<open>Blocks\<close>, \<open>Undef\<close>).  What comes from outside of
  the tree is an argument: \<open>malloc\<close>, \<open>gettimeofday\<close>, \<open>localtime\<close>, \<open>rand\<close>, the resolver, the socket calls on a
  state of the system, the answers of \<open>pthread_create\<close> and \<open>pthread_key_create\<close>, the operations on \<open>float\<close>,
  formatted texts, and the callbacks of the application.  POSIX mutexes, read-write locks, semaphores
  and timers are small state machines that follow the standard.

  \<^bold>\<open>Configuration.\<close>  The default build for Linux on x86-64 with gcc: LP64, little-endian, threads, 64-bit
  integers, no floating point in time stamps, no IPv6, \<open>gethostbyname\<close> instead of \<open>getaddrinfo\<close>, neither
  \<open>inet_pton\<close> nor \<open>inet_ntop\<close>, exception names, event objects and semaphores; a debug
  or optional variant only where its theory says so.  An assertion only logs, so that the code after a failed \<open>EMLIB_ASSERT\<close> runs on; \<open>EMLIB_ASSERT_RETURN\<close> returns.
  \<open>EM_CHECK_STACK\<close> is a definition (\<open>em_thread_check_stack\<close>) that outside of \<open>Emlib_Thread\<close> is left out: in
  a thread that the library knows it only keeps a high-water mark of the stack.

  \<^bold>\<open>The theories.\<close>
  \<^item> \<open>Emlib_Prelude\<close>: types, bounds-checked access to byte lists, C division, shared lemmas.
  \<^item> \<open>Emlib_List\<close> (\<open>list.h\<close>, \<open>list_i.h\<close>): circular doubly linked lists as \<open>next\<close> and \<open>prev\<close> maps.  The locale
    \<open>node_list\<close> states what a list of nodes promises, its interpretation \<open>dl\<close> proves it of the pointer
    operations; insertion and erasing are exact, traversals of a ring end.
  \<^item> \<open>Emlib_Errno\<close> (\<open>errno.h\<close>, \<open>errno.c\<close>, \<open>os_error_unix.c\<close>): the code space, the folding of the system's errors, the
    registry of handlers, \<open>em_strerror\<close>.  Messages fit their buffer; a registered handler answers for its range.
  \<^item> \<open>Emlib_Cbuf\<close> (\<open>cbuf.c\<close>): byte buffers, a queue by the locale \<open>byte_queue\<close> (interpretation \<open>cq\<close>).
  \<^item> \<open>Emlib_Pool\<close> (\<open>pool.c\<close>, \<open>pool_i.h\<close>, \<open>pool_buf.c\<close>, \<open>pool_policy_malloc.c\<close>): pools of blocks over an allocation
    policy.  The locale \<open>block_provider\<close> is what a pool needs of its policy, \<open>block_recycler\<close> extends it with the
    blocks given back; \<open>stack\<close> interprets the first for a pool on a buffer, \<open>caching\<close> the second for the factory.
    Allocations are aligned, inside of a block and disjoint; destruction gives all blocks back.
    \<open>Emlib_Poolsig\<close> has the signatures around blocks that \<open>EM_SAFE_POOL\<close> adds, and what they detect.
  \<^item> \<open>Emlib_Caching\<close> (\<open>pool_caching.c\<close>): the factory with sixteen free lists.  An invariant over every sequence of
    operations; its destruction returns every block of every pool.
  \<^item> \<open>Emlib_Except\<close> (\<open>except.c\<close>, \<open>except.h\<close>): exception ids and the handler stack; \<open>exec\<close> runs blocks
    over \<open>setjmp\<close> and \<open>longjmp\<close> and agrees with structured exceptions.
  \<^item> \<open>Emlib_Os\<close> (\<open>os_core_unix.c\<close>): mutexes, atomic variables, read-write locks, semaphores and events, the last
    as a step relation of waiting and releasing threads.  The locale \<open>reentrant\<close> describes a lock with a
    depth, \<open>rm\<close> interprets it for recursive mutexes.
  \<^item> \<open>Emlib_Atomic\<close>: the atomic operations split into their lock, load, store and unlock, for any number of
    threads: every interleaving is a sequence of whole operations.
  \<^item> \<open>Emlib_Nest\<close> (\<open>nest_lock.c\<close>, \<open>pthread_lock.c\<close>, \<open>pthread_nest_lock.c\<close>): the nested lock over a plain mutex refines
    the recursive one, as long as threads have different 32-bit numbers.
  \<^item> \<open>Emlib_Lock\<close> (\<open>lock.c\<close>): lock objects and group locks with their references, owner, handlers and chained locks.
    \<open>Emlib_Lockdbg\<close> adds the debug variant, which records and dumps who holds a reference.
  \<^item> \<open>Emlib_Time\<close> (\<open>types.h\<close>, \<open>os_time_common.c\<close>, \<open>os_timestamp_*.c\<close>, \<open>os_time_unix.c\<close>): time values, stamps, sleeping.
  \<^item> \<open>Emlib_Heap\<close> and \<open>Emlib_Timer\<close> (\<open>timer.c\<close>): the array heap on lists; the timer heap with its slots, ids and
    free list.  \<open>min_queue\<close> (interpretation \<open>tq\<close>) is the priority queue it refines; \<open>timer_ok\<close> the invariant.
    A poll fires the timers that are due, in the order of their times, up to the limit of one poll.
  \<^item> \<open>Emlib_Ttask\<close> (\<open>timer_task.c\<close>, \<open>os_core_unix.c\<close>): tasks on POSIX timers, their states and expiries.
  \<^item> \<open>Emlib_Thread\<close> (\<open>os_core_unix.c\<close>): start and stop of the library, exit functions, thread-local storage, threads.
  \<^item> \<open>Emlib_String\<close>, \<open>Emlib_Alnum\<close>, \<open>Emlib_Number\<close>, \<open>Emlib_Float\<close> (\<open>string.c\<close>, \<open>string.h\<close>, \<open>string_i.h\<close>, \<open>ctype.h\<close>):
    counted strings, the comparison of alphanumeric ones, numbers in both directions, fractions.
  \<^item> \<open>Emlib_Utils\<close> (\<open>utils.c\<close>): packed digits and a CRC, which is the division by its polynomial.
  \<^item> \<open>Emlib_Sockaddr\<close> (\<open>sock_common.c\<close>, \<open>sock_bsd.c\<close>, \<open>addr_resolv_sock.c\<close>): addresses as bytes, their order and
    texts.  \<open>Emlib_Sock\<close> adds the socket calls, the sizing of buffers, binding to a random port, the interfaces
    (\<open>ip_helper_generic.c\<close>) and \<open>em_gethostip\<close>, which chooses the address of the host by weights.
  \<^item> \<open>Emlib_Log\<close> (\<open>log.c\<close>), \<open>Emlib_Perror\<close> (\<open>errno.c\<close>), \<open>Emlib_Misc\<close> (\<open>config.c\<close>, \<open>rand.c\<close>): log lines in their static
    buffer, the text of a status as a log line, the version and the random numbers.
  \<^item> This theory: what happens when a pool runs out of memory, which involves the pools and the exceptions.

  \<^bold>\<open>How the parts interact.\<close>  Pools call their policy, which is the factory or a buffer; the objects of
  the other parts (locks, events, tasks, strings) are allocated from a pool.  Group locks are built on lock
  objects and those on mutexes and atomic variables; the timer heap takes references on group locks.
  Sockets use the addresses, strings and numbers.  Status codes and their texts run through all of them and
  end in the log.

  \<^bold>\<open>Loops.\<close>  Every loop is structural recursion, or has a measure, or is a partial function into option
  for a loop that need not end (traversals of a broken list, a string without NUL, counters narrower than
  their limit); then it is proved when it ends.  Loops bounded by the code keep its bound: 19 sizes of a
  socket buffer, the tries of a random port, 10 message handlers, 16 exception ids, 8 candidate
  addresses, the mutex destruction that is tried again.  Nothing else has fuel.

  \<^bold>\<open>What does not hold.\<close>  Where the code does not keep what it documents, the model follows the code, and
  a lemma shows the behaviour: group locks that are never released (\<open>group_release_relocks\<close>), the exception
  for missing memory that cannot be caught before a first stop (\<open>no_memory_not_caught\<close>), a log line longer than the buffer
  (\<open>log_line_fits\<close>), a timer heap that grows in an exhausted pool (\<open>timer_schedule_spec\<close>), the stopped task
  that never fires again (\<open>ttask_stopped_late_lost\<close>), casts to \<open>int\<close> that lose bits (\<open>ref_count_truncated\<close>,
  \<open>strerror_big_buffer\<close>), two threads in a nested lock (\<open>nest_lets_two_in\<close>), the sign of -0.5 (\<open>strtof_sign_lost\<close>) and others.

  \<^bold>\<open>Not modelled.\<close>  The variants for Windows, for IPv6, \<open>getaddrinfo\<close>, \<open>getifaddrs\<close> and \<open>SIOCGIFCONF\<close>; the debug
  variant of the timers, whose dump does not compile; the headers that choose among system headers;
  \<open>unicode.h\<close> and \<open>app_perror\<close>, which are only declared; the test programs.
  Weak memory is not represented: the operations of the objects in \<open>Emlib_Os\<close> are single steps, which
  \<open>Emlib_Atomic\<close> justifies for the atomic variables.  The rounding of \<open>float\<close> is not represented either.
\<close>

section \<open>Running out of memory\<close>

text \<open>
  \<open>EM_NO_MEMORY_EXCEPTION\<close> is a global integer of \<open>src/pool.c\<close> without an initialiser, the field
  \<open>no_memory_exception\<close> of the library's state.  The only code that would allocate an id for it, in
  \<open>em_init\<close>, is compiled out, so that \<open>lib_history\<close> leaves it two values: 0, and -1 after a complete stop.
\<close>

lemma exhausted_pool_raises:
  assumes "pool_ok pool" "unat sz + 4 < 2 ^ 64" "find_space (block_list pool) sz = None" "increment_size pool = 0"
    and "p_callback pool = Some (default_pool_callback e)"
  shows "em_pool_alloc pol pool sz s = (Raised e, pool, s)"
  using assms alloc_eq_allocate_find [where pool = pool and sz = sz and pol = pol and s = s]
  by (simp add: pool_ok_def em_pool_allocate_find_def call_callback_def default_pool_callback_def)

text \<open>A block that catches \<open>i\<close> around a throw of \<open>e\<close>: its handler runs when \<open>longjmp\<close> delivers \<open>i\<close>.\<close>

lemma throw_in_try:
  assumes "handlers_ok d st"
  shows "\<exists>st'. exec al d c (Try (Throw e) i (Act a)) ([], st) = (Finished, if longjmp_value e = i then [a] else [], st')"
  by (rule exec_finishes [OF assms]) simp

lemma first_exception_id: "fst (snd (em_exception_id_alloc (Some nm) except_start)) = Some 1"
  by (simp add: em_exception_id_alloc_def except_start_def find_free_id.simps EM_MAX_EXCEPTION_ID_def)

text \<open>
  C40. Running out of memory cannot be caught by its name before the library has been stopped once.  A pool
  that may not grow and has the default callback throws \<open>EM_NO_MEMORY_EXCEPTION\<close> when a request does not
  fit.  From the start of the process until the first complete stop that is 0, however often the library
  is started; \<open>longjmp\<close> delivers it as 1, so an \<open>EM_CATCH(EM_NO_MEMORY_EXCEPTION)\<close> around the call swallows it
  without running its handler, and a handler for the first id that \<open>em_exception_id_alloc\<close> gives out
  runs instead.  After a complete stop it is -1, also when the library is started again, and then a
  handler for \<open>EM_NO_MEMORY_EXCEPTION\<close> runs and one for the id 1 does not.
\<close>
theorem no_memory_not_caught:
  assumes "lib_history stopped lib" "p_callback pool = Some (default_pool_callback (no_memory_exception lib))"
    and "pool_ok pool" "unat sz + 4 < 2 ^ 64" "find_space (block_list pool) sz = None" "increment_size pool = 0"
    and "handlers_ok d st"
  shows "em_pool_alloc pol pool sz s = (Raised (no_memory_exception lib), pool, s) \<and>
    (\<exists>st'. exec al d c (Try (Throw (no_memory_exception lib)) (no_memory_exception lib) (Act 7)) ([], st) =
       (Finished, if stopped then [7] else [], st')) \<and>
    fst (snd (em_exception_id_alloc (Some nm) except_start)) = Some 1 \<and>
    (\<exists>st'. exec al d c (Try (Throw (no_memory_exception lib)) 1 (Act 8)) ([], st) =
       (Finished, if stopped then [] else [8], st'))"
proof -
  note e = exception_of_history [OF assms(1)]
  have "\<exists>st'. exec al d c (Try (Throw (no_memory_exception lib)) (no_memory_exception lib) (Act 7)) ([], st) =
      (Finished, if stopped then [7] else [], st')"
    using throw_in_try [OF assms(7), of al c "no_memory_exception lib" "no_memory_exception lib" 7]
    by (cases stopped) (simp_all add: e longjmp_value_def del: exec.simps)
  moreover have "\<exists>st'. exec al d c (Try (Throw (no_memory_exception lib)) 1 (Act 8)) ([], st) =
      (Finished, if stopped then [] else [8], st')"
    using throw_in_try [OF assms(7), of al c "no_memory_exception lib" 1 8]
    by (cases stopped) (simp_all add: e longjmp_value_def del: exec.simps)
  ultimately show ?thesis
    using exhausted_pool_raises [OF assms(3-6,2)] first_exception_id by (intro conjI)
qed

text \<open>The library as it starts, and one that was started and stopped.\<close>

lemma stopped_history: "\<exists>st :: (nat, nat, nat) lib. lib_history True st"
proof -
  define up :: "(nat, nat, nat) lib" where
    "up = snd (em_init (\<lambda>f t. f) (\<lambda>f p. f) (Inr 4) (0, 0, 0, 0) 0x6000 1 0x7000 (lib_start 0))"
  have "initialized (lib_start 0 :: (nat, nat, nat) lib) = 0" "(0x6000 :: ptr) \<noteq> 0" by (simp_all add: lib_start_def)
  then obtain tv th crit where up: "up = (lib_start 0)\<lparr>tls_keys := insert 4 (tls_keys (lib_start 0 :: (nat, nat, nat) lib)),
      thread_tls_id := 4, tls_value := tv, threads := th, critical_section := Some crit, initialized := 1\<rparr>"
    "tv 4 1 = 0x6000" "pm_owner (m_mutex crit) = None"
    unfolding up_def using em_init_first [of "lib_start 0" "0x6000" "\<lambda>f t. f" "\<lambda>f p. f" 4 1 "0x7000"] by (metis snd_conv)
  then have "\<exists>st. em_shutdown (\<lambda>f s. s) 0x6000 1 up = Returns st" and "initialized up = 1"
    by (simp_all add: em_shutdown_def Let_def free_mutex_destroyed checked_def em_thread_this_def em_thread_local_get_def
        em_thread_local_free_def lib_start_def)
  moreover have "lib_history False up" unfolding up_def by (intro hist_init hist_start)
  ultimately show ?thesis using hist_stop [of False up "\<lambda>f s. s" "0x6000" 1] by auto
qed

lemma no_memory_not_caught_witness:
  "\<exists>lib :: (nat, nat, nat) lib. lib_history True lib \<and>
    fst (em_pool_alloc stack_based_policy (ex_pool\<lparr>increment_size := 0,
         p_callback := Some (default_pool_callback (no_memory_exception lib))\<rparr>) 1000
       \<lparr>is_initialized = True, pb_tls = 0, pb_value = None, pb_atexit = 1\<rparr>) = Raised (no_memory_exception lib)"
proof -
  obtain lib :: "(nat, nat, nat) lib" where lib: "lib_history True lib" using stopped_history by blast
  let ?pool = "ex_pool\<lparr>increment_size := 0, p_callback := Some (default_pool_callback (no_memory_exception lib))\<rparr>"
  have "pool_ok ?pool" using ex_pool_ok(1) by (simp add: pool_ok_def pool_regions_def)
  moreover have "find_space (block_list ?pool) 1000 = None"
    by (simp add: ex_pool_def em_pool_alloc_from_block_def round_up_def pool_const Let_def)
  moreover have "handlers_ok 0 (except_start\<lparr>thread_local_id := 0\<rparr>)"
    by (simp add: handlers_ok_def except_start_def)
  ultimately have "fst (em_pool_alloc stack_based_policy ?pool 1000
      \<lparr>is_initialized = True, pb_tls = 0, pb_value = None, pb_atexit = 1\<rparr>) = Raised (no_memory_exception lib)"
    using no_memory_not_caught [OF lib, of ?pool 1000 0 "except_start\<lparr>thread_local_id := 0\<rparr>" stack_based_policy
        "\<lparr>is_initialized = True, pb_tls = 0, pb_value = None, pb_atexit = 1\<rparr>" "Inr 0" 0 "''OOM''"]
    by (simp del: exec.simps)
  with lib show ?thesis by blast
qed

end
